(* ===== verification/Prelude.thy ===== *)
theory Prelude
  imports Main "HOL-Library.Word"
begin

text \<open>
  The shared vocabulary of the development: the C++ integer types, decimal rendering
  (\<^verbatim>\<open>std::to_string\<close>), the byte-string helpers several components use, and the list and
  option lemmas their proofs share.

  A signed 64-bit value is an \<open>int\<close> together with the range predicate \<open>in_i64\<close>; the
  unsigned 64-bit values that the code computes with on purpose are \<open>64 word\<close>, and the two
  casts of the source are \<open>word_of_int\<close> and \<open>sint\<close>.  Strings are byte lists.
\<close>

unbundle bit_operations_syntax

named_theorems render_simps \<open>rendering of numbers and its inverse\<close>
named_theorems range_simps \<open>int64 range arithmetic\<close>

section \<open>Machine integers\<close>

type_synonym int64 = int
type_synonym uint64 = "64 word"

definition INT64_MAX :: int where
  "INT64_MAX = 9223372036854775807"

definition INT64_MIN :: int where
  "INT64_MIN = - 9223372036854775808"

definition in_i64 :: "int \<Rightarrow> bool" where
  "in_i64 x \<longleftrightarrow> INT64_MIN \<le> x \<and> x \<le> INT64_MAX"

lemmas i64_defs [range_simps] = INT64_MAX_def INT64_MIN_def in_i64_def

text \<open>The magnitude of a signed value, computed in unsigned space as the source does:
  \<^verbatim>\<open>negative ? (~static_cast<std::uint64_t>(v) + 1U) : static_cast<std::uint64_t>(v)\<close>.\<close>

definition u64_magnitude :: "int64 \<Rightarrow> uint64" where
  "u64_magnitude v = (if v < 0 then NOT (word_of_int v) + 1 else word_of_int v)"

lemma not_plus_one_word: "NOT (w :: 64 word) + 1 = - w"
  by (simp add: minus_eq_not_plus_1)

lemma uint_u64_magnitude:
  assumes "in_i64 v"
  shows "uint (u64_magnitude v) = \<bar>v\<bar>"
proof (cases "v < 0")
  case True
  have "u64_magnitude v = word_of_int (- v)"
    using True by (simp add: u64_magnitude_def not_plus_one_word)
  moreover have "0 \<le> - v" and "- v < 2 ^ 64"
    using True assms by (auto simp: i64_defs)
  then have "uint (word_of_int (- v) :: 64 word) = - v"
    unfolding uint_word_of_int_eq by (simp add: take_bit_int_eq_self)
  ultimately show ?thesis using True by simp
next
  case False
  then have "0 \<le> v" and "v < 2 ^ 64"
    using assms by (auto simp: i64_defs)
  then show ?thesis
    using False by (simp add: u64_magnitude_def uint_word_of_int_eq take_bit_int_eq_self)
qed

lemma sint_word_of_int_i64: "in_i64 x \<Longrightarrow> sint (word_of_int x :: 64 word) = x"
  by (simp add: sint_sbintrunc' i64_defs signed_take_bit_int_eq_self)

lemma sint_of_uint:
  assumes "uint (w :: 64 word) \<le> INT64_MAX" shows "sint w = uint w"
proof -
  have "in_i64 (uint w)" using assms uint_ge_0 [of w] unfolding i64_defs by linarith
  then have "sint (word_of_int (uint w) :: 64 word) = uint w" by (rule sint_word_of_int_i64)
  then show ?thesis by simp
qed

lemma sint_negated_of_uint:
  assumes "uint (w :: 64 word) \<le> INT64_MAX + 1" shows "sint (NOT w + 1) = - uint w"
proof -
  have "in_i64 (- uint w)" using assms uint_ge_0 [of w] unfolding i64_defs by linarith
  then have "sint (word_of_int (- uint w) :: 64 word) = - uint w" by (rule sint_word_of_int_i64)
  then show ?thesis by (simp add: not_plus_one_word)
qed

text \<open>Two's-complement reduction to 32 and 64 bits.\<close>

definition wrap32 :: "int \<Rightarrow> int" where
  "wrap32 x = sint (word_of_int x :: 32 word)"

definition wrap64 :: "int \<Rightarrow> int" where
  "wrap64 x = sint (word_of_int x :: 64 word)"

definition in_i32 :: "int \<Rightarrow> bool" where
  "in_i32 x \<longleftrightarrow> - 2147483648 \<le> x \<and> x \<le> 2147483647"

lemma wrap64_id: "in_i64 x \<Longrightarrow> wrap64 x = x"
  by (simp add: wrap64_def sint_word_of_int_i64)

lemma wrap32_id: "in_i32 x \<Longrightarrow> wrap32 x = x"
  by (simp add: wrap32_def sint_sbintrunc' in_i32_def signed_take_bit_int_eq_self)

lemma uint_word_of_int_nonneg:
  "0 \<le> x \<Longrightarrow> x < 2 ^ 64 \<Longrightarrow> uint (word_of_int x :: 64 word) = x"
  by (simp add: uint_word_of_int_eq take_bit_int_eq_self)

lemma uint_mult_div_le:
  fixes a b :: "64 word"
  shows "uint ((a div b) * b) = (uint a div uint b) * uint b"
proof -
  have "uint (a div b) * uint b \<le> uint a"
    using minus_mod_eq_div_mult [of "uint a" "uint b"] uint_ge_0 [of "a mod b"]
    by (simp add: uint_div uint_mod)
  also have "uint a < 2 ^ 64" using uint_lt2p [of a] by simp
  finally have "uint (a div b * b) = uint (a div b) * uint b"
    using uint_mult_lem [of "a div b" b] by simp
  then show ?thesis by (simp add: uint_div)
qed

section \<open>Decimal rendering\<close>

text \<open>\<^verbatim>\<open>std::to_string\<close> on unsigned and signed integers.\<close>

definition digit_char :: "nat \<Rightarrow> char" where
  "digit_char d = char_of (48 + d)"

definition digit_val :: "char \<Rightarrow> nat" where
  "digit_val c = of_char c - (48 :: nat)"

definition is_ascii_digit :: "char \<Rightarrow> bool" where
  "is_ascii_digit c \<longleftrightarrow> (48 :: nat) \<le> of_char c \<and> (of_char c :: nat) \<le> 57"

fun show_nat :: "nat \<Rightarrow> string" where
  "show_nat n = (if n < 10 then [digit_char n] else show_nat (n div 10) @ [digit_char (n mod 10)])"

declare show_nat.simps [simp del]

definition show_int :: "int \<Rightarrow> string" where
  "show_int i = (if i < 0 then CHR ''-'' # show_nat (nat (- i)) else show_nat (nat i))"

text \<open>The value of a digit string, most significant digit first.\<close>

definition digits_val :: "string \<Rightarrow> nat" where
  "digits_val = foldl (\<lambda>v c. v * 10 + digit_val c) 0"

lemma of_char_digit_char [render_simps]: "d < 10 \<Longrightarrow> of_char (digit_char d) = (48 + d :: nat)"
  by (simp add: digit_char_def)

lemma digit_val_char [render_simps]: "d < 10 \<Longrightarrow> digit_val (digit_char d) = d"
  by (simp add: digit_val_def of_char_digit_char)

lemma is_ascii_digit_char [render_simps]: "d < 10 \<Longrightarrow> is_ascii_digit (digit_char d)"
  by (simp add: is_ascii_digit_def of_char_digit_char)

lemma digit_val_bound: "is_ascii_digit c \<Longrightarrow> digit_val c < 10"
  unfolding is_ascii_digit_def digit_val_def by linarith

lemma digit_char_val: "is_ascii_digit c \<Longrightarrow> digit_char (digit_val c) = c"
  by (simp add: is_ascii_digit_def digit_val_def digit_char_def)

lemma digits_val_Nil [simp]: "digits_val [] = 0"
  by (simp add: digits_val_def)

lemma digits_val_snoc [simp]: "digits_val (s @ [c]) = digits_val s * 10 + digit_val c"
  by (simp add: digits_val_def)

lemma digits_val_append: "digits_val (s @ t) = digits_val s * 10 ^ length t + digits_val t"
  by (induction t rule: rev_induct) (auto simp: algebra_simps simp flip: append_assoc)

lemma show_nat_digits: "\<forall>c \<in> set (show_nat n). is_ascii_digit c"
proof (induction n rule: show_nat.induct)
  case (1 n)
  then show ?case by (auto simp: show_nat.simps [of n] is_ascii_digit_char)
qed

lemma show_nat_length: "n < 10 ^ Suc k \<Longrightarrow> length (show_nat n) \<le> Suc k"
proof (induction k arbitrary: n)
  case (Suc k)
  then have "n div 10 < 10 ^ Suc k" by (simp add: less_mult_imp_div_less)
  then have "length (show_nat (n div 10)) \<le> Suc k" by (rule Suc.IH)
  then show ?case by (subst show_nat.simps) simp
qed (simp add: show_nat.simps)

lemma show_nat_nonempty [simp]: "show_nat n \<noteq> []"
  by (simp add: show_nat.simps)

lemma digits_val_show_nat [simp, render_simps]: "digits_val (show_nat n) = n"
proof (induction n rule: show_nat.induct)
  case (1 n)
  show ?case
  proof (cases "n < 10")
    case True
    then have "show_nat n = [] @ [digit_char n]" by (simp add: show_nat.simps)
    with True show ?thesis by (simp only: digits_val_snoc digits_val_Nil) (simp add: digit_val_char)
  next
    case False
    with 1 show ?thesis by (simp add: show_nat.simps [of n] digit_val_char)
  qed
qed

lemma show_nat_inject [simp]: "show_nat m = show_nat n \<longleftrightarrow> m = n"
  by (metis digits_val_show_nat)

lemma minus_not_in_show_nat: "CHR ''-'' \<notin> set (show_nat n)"
  using show_nat_digits [of n] by (auto simp: is_ascii_digit_def)

lemma show_int_inject [simp]: "show_int i = show_int j \<longleftrightarrow> i = j"
proof -
  have "show_nat a \<noteq> CHR ''-'' # xs" for a xs
    using minus_not_in_show_nat [of a] by (metis list.set_intros(1))
  then show ?thesis
    by (auto simp: show_int_def split: if_splits) (metis)+
qed

section \<open>Lists\<close>

lemma takeWhile_full: "length (takeWhile P xs) = length xs \<longleftrightarrow> (\<forall>x \<in> set xs. P x)"
  by (induction xs) auto

lemma append_sep_inject:
  "c \<notin> set xs \<Longrightarrow> c \<notin> set ys \<Longrightarrow> xs @ c # us = ys @ c # vs \<longleftrightarrow> xs = ys \<and> us = vs"
proof (induction xs arbitrary: ys)
  case (Cons x xs)
  then show ?case by (cases ys) auto
qed (auto simp: Cons_eq_append_conv)

section \<open>Text\<close>

definition em_dash :: string where
  "em_dash = [CHR 0xE2, CHR 0x80, CHR 0x94]"

text \<open>\<^verbatim>\<open>std::string::find\<close> of a needle, as a test.\<close>

fun contains_text :: "string \<Rightarrow> string \<Rightarrow> bool" where
  "contains_text needle [] = (needle = [])"
| "contains_text needle (c # cs) = (take (length needle) (c # cs) = needle \<or> contains_text needle cs)"

lemma contains_text_iff: "contains_text needle s \<longleftrightarrow> (\<exists>ps ss. s = ps @ needle @ ss)"
proof (induction s)
  case (Cons c cs)
  have "(\<exists>ps ss. c # cs = ps @ needle @ ss) \<longleftrightarrow> (\<exists>ss. c # cs = needle @ ss) \<or> (\<exists>ps ss. cs = ps @ needle @ ss)"
    by (metis append_Cons append_Nil list.exhaust list.inject)
  moreover have "take (length needle) (c # cs) = needle \<longleftrightarrow> (\<exists>ss. c # cs = needle @ ss)"
    by (metis append_take_drop_id append_eq_conv_conj)
  ultimately show ?case using Cons.IH by simp
qed simp

end
