(* ===== verification/Money.thy ===== *)
theory Money
  imports Prelude
begin

text \<open>
  \<^verbatim>\<open>domain/money.hpp\<close> and \<^verbatim>\<open>domain/money.cpp\<close>: exact money, prices and quantities as
  integer paise and counts.  The three strong types of the source are three datatypes, their
  defaulted comparisons are \<open>linorder\<close> instances and their arithmetic is the \<open>plus\<close> and
  \<open>minus\<close> of the instances.  Tick rounding is modelled at its width, in the unsigned
  magnitude space the source uses, and proved equal to rounding half-up over the integers.
\<close>

datatype money = Money (money_paise: int64)

datatype price = Price (price_paise: int64)

datatype quantity = Quantity (qty_value: int64)

instantiation money :: "{linorder, plus, minus, uminus}"
begin

definition less_eq_money :: "money \<Rightarrow> money \<Rightarrow> bool" where
  "less_eq_money a b \<longleftrightarrow> money_paise a \<le> money_paise b"

definition less_money :: "money \<Rightarrow> money \<Rightarrow> bool" where
  "less_money a b \<longleftrightarrow> money_paise a < money_paise b"

definition plus_money :: "money \<Rightarrow> money \<Rightarrow> money" where
  "plus_money a b = Money (money_paise a + money_paise b)"

definition minus_money :: "money \<Rightarrow> money \<Rightarrow> money" where
  "minus_money a b = Money (money_paise a - money_paise b)"

definition uminus_money :: "money \<Rightarrow> money" where
  "uminus_money a = Money (- money_paise a)"

instance
  by standard (auto simp: less_eq_money_def less_money_def intro: money.expand)

end

instantiation price :: "{linorder, plus, minus}"
begin

definition less_eq_price :: "price \<Rightarrow> price \<Rightarrow> bool" where
  "less_eq_price a b \<longleftrightarrow> price_paise a \<le> price_paise b"

definition less_price :: "price \<Rightarrow> price \<Rightarrow> bool" where
  "less_price a b \<longleftrightarrow> price_paise a < price_paise b"

definition plus_price :: "price \<Rightarrow> price \<Rightarrow> price" where
  "plus_price a b = Price (price_paise a + price_paise b)"

definition minus_price :: "price \<Rightarrow> price \<Rightarrow> price" where
  "minus_price a b = Price (price_paise a - price_paise b)"

instance
  by standard (auto simp: less_eq_price_def less_price_def intro: price.expand)

end

instantiation quantity :: "{linorder, plus, minus}"
begin

definition less_eq_quantity :: "quantity \<Rightarrow> quantity \<Rightarrow> bool" where
  "less_eq_quantity a b \<longleftrightarrow> qty_value a \<le> qty_value b"

definition less_quantity :: "quantity \<Rightarrow> quantity \<Rightarrow> bool" where
  "less_quantity a b \<longleftrightarrow> qty_value a < qty_value b"

definition plus_quantity :: "quantity \<Rightarrow> quantity \<Rightarrow> quantity" where
  "plus_quantity a b = Quantity (qty_value a + qty_value b)"

definition minus_quantity :: "quantity \<Rightarrow> quantity \<Rightarrow> quantity" where
  "minus_quantity a b = Quantity (qty_value a - qty_value b)"

instance
  by standard (auto simp: less_eq_quantity_def less_quantity_def intro: quantity.expand)

end

lemmas amount_ord_defs =
  less_eq_money_def less_money_def less_eq_price_def less_price_def
  less_eq_quantity_def less_quantity_def

lemmas amount_arith_defs =
  plus_money_def minus_money_def uminus_money_def plus_price_def minus_price_def
  plus_quantity_def minus_quantity_def

section \<open>Construction and rendering\<close>

definition money_from_rupees :: "int64 \<Rightarrow> int64 \<Rightarrow> money" where
  "money_from_rupees rupees paise =
     (let signed_paise = (if rupees < 0 then - paise else paise)
      in Money (rupees * 100 + signed_paise))"

definition price_from_rupees :: "int64 \<Rightarrow> int64 \<Rightarrow> price" where
  "price_from_rupees rupees paise =
     (let signed_paise = (if rupees < 0 then - paise else paise)
      in Price (rupees * 100 + signed_paise))"

definition format_paise :: "int64 \<Rightarrow> string" where
  "format_paise paise =
     (let negative = paise < 0;
          magnitude = u64_magnitude paise;
          rupees = magnitude div 100;
          frac = magnitude mod 100
      in (if negative then ''-'' else '''') @ show_nat (unat rupees) @ ''.''
         @ (if frac < 10 then ''0'' else '''') @ show_nat (unat frac))"

definition money_to_string :: "money \<Rightarrow> string" where
  "money_to_string m = format_paise (money_paise m)"

definition price_to_string :: "price \<Rightarrow> string" where
  "price_to_string p = format_paise (price_paise p)"

definition quantity_to_string :: "quantity \<Rightarrow> string" where
  "quantity_to_string q = show_int (qty_value q)"

section \<open>Tick rounding\<close>

definition round_to_tick :: "price \<Rightarrow> price \<Rightarrow> price" where
  "round_to_tick p tick =
     (let t = price_paise tick in
      if t \<le> 0 then p
      else
        let value = price_paise p;
            negative = value < 0;
            ut = (word_of_int t :: uint64);
            mag = u64_magnitude value;
            half = (if negative then (ut - 1) div 2 else ut div 2);
            rounded = ((mag + half) div ut) * ut;
            kMaxMagnitude = (word_of_int INT64_MAX :: uint64);
            limit = (if negative then kMaxMagnitude + 1 else kMaxMagnitude)
        in if rounded > limit then p
           else Price (if negative then sint (NOT rounded + 1) else sint rounded))"

text \<open>The reference: the multiple of the tick nearest to the value, halves towards plus
  infinity, over the integers.\<close>

definition tick_half_up :: "int \<Rightarrow> int \<Rightarrow> int" where
  "tick_half_up v t = ((v + t div 2) div t) * t"

lemma tick_half_up_nearest:
  assumes "0 < t"
  shows "t dvd tick_half_up v t"
    and "2 * (tick_half_up v t - v) \<le> t"
    and "2 * (v - tick_half_up v t) < t"
proof -
  define h where "h = t div 2"
  define r where "r = (v + h) mod t"
  have eq: "tick_half_up v t = v + h - r"
    by (simp add: tick_half_up_def r_def h_def minus_mod_eq_div_mult)
  have r: "0 \<le> r" "r < t"
    using assms by (simp_all add: r_def)
  have h: "2 * h \<le> t" "t \<le> 2 * h + 1"
    by (simp_all add: h_def)
  show "2 * (tick_half_up v t - v) \<le> t"
    using eq r h by arith
  show "2 * (v - tick_half_up v t) < t"
    using eq r h by arith
  show "t dvd tick_half_up v t" by (simp add: tick_half_up_def)
qed

lemma div_as_negated_ceiling:
  fixes x t :: int
  assumes "0 < t"
  shows "x div t = - ((- x + (t - 1)) div t)"
proof -
  have "- x + (t - 1) = t * (- (x div t)) + (t - 1 - x mod t)"
    using mult_div_mod_eq [of t x] by (simp add: algebra_simps)
  moreover have "0 \<le> t - 1 - x mod t" "t - 1 - x mod t < t"
    using pos_mod_bound [OF assms, of x] pos_mod_sign [OF assms, of x] by linarith+
  ultimately have "(- x + (t - 1)) div t = - (x div t)"
    by (rule int_div_pos_eq)
  then show ?thesis by simp
qed

text \<open>Below zero the source rounds the magnitude down at a half, which is the same point.\<close>

lemma tick_half_up_negative:
  assumes "0 < t"
  shows "tick_half_up v t = - ((((- v) + (t - 1) div 2) div t) * t)"
proof -
  have eq: "- (v + t div 2) + (t - 1) = - v + (t - 1) div 2" by presburger
  show ?thesis
    unfolding tick_half_up_def div_as_negated_ceiling [OF assms, of "v + t div 2"] eq by simp
qed

lemma round_to_tick_refines:
  assumes "in_i64 (price_paise p)" "in_i64 (price_paise tick)" "0 < price_paise tick"
  shows "round_to_tick p tick =
    (let r = tick_half_up (price_paise p) (price_paise tick) in if in_i64 r then Price r else p)"
proof -
  define v t where "v = price_paise p" and "t = price_paise tick"
  note vt = v_def [symmetric] t_def [symmetric]
  define ut mag where "ut = (word_of_int t :: 64 word)" and "mag = u64_magnitude v"
  have t: "0 < t" "t \<le> INT64_MAX" and v: "in_i64 v"
    using assms by (simp_all add: in_i64_def v_def t_def)
  have ut: "uint ut = t" unfolding ut_def
    using t by (intro uint_word_of_int_nonneg) (auto simp: i64_defs)
  have mag: "uint mag = \<bar>v\<bar>" unfolding mag_def by (rule uint_u64_magnitude [OF v])
  define half where "half = (if v < 0 then (ut - 1) div 2 else ut div 2)"
  have half: "uint half = (if v < 0 then (t - 1) div 2 else t div 2)"
  proof -
    have "uint (ut - 1) = t - 1"
      using t ut uint_sub_lem [of 1 ut] by simp
    then show ?thesis using ut by (simp add: half_def uint_div)
  qed
  have "uint (mag + half) = \<bar>v\<bar> + uint half"
    using uint_add_lem [of mag half] mag half t v by (auto simp: i64_defs)
  then have rounded: "uint (((mag + half) div ut) * ut) = ((\<bar>v\<bar> + uint half) div t) * t"
    by (simp add: uint_mult_div_le ut)
  define r where "r = ((mag + half) div ut) * ut"
  define thu where "thu = tick_half_up v t"
  have kmax: "uint (word_of_int INT64_MAX :: 64 word) = INT64_MAX"
    "uint (word_of_int INT64_MAX + 1 :: 64 word) = INT64_MAX + 1"
    by (simp_all add: INT64_MAX_def)
  have unfold: "round_to_tick p tick =
     (if r > (if v < 0 then word_of_int INT64_MAX + 1 else word_of_int INT64_MAX) then p
      else Price (if v < 0 then sint (NOT r + 1) else sint r))"
    using t unfolding round_to_tick_def Let_def vt half_def r_def ut_def mag_def by simp
  show ?thesis
  proof (cases "v < 0")
    case True
    have ru: "uint r = - thu"
      using rounded True tick_half_up_negative [OF t(1), of v] by (simp add: r_def half thu_def)
    then have "0 \<le> - thu" by (metis uint_ge_0)
    have "r > word_of_int INT64_MAX + 1 \<longleftrightarrow> \<not> in_i64 thu"
      using ru kmax \<open>0 \<le> - thu\<close> by (simp add: word_less_def i64_defs) linarith
    moreover have "in_i64 thu \<Longrightarrow> sint (NOT r + 1) = thu"
      using ru sint_negated_of_uint [of r] by (simp add: i64_defs)
    ultimately show ?thesis using True unfold by (simp add: thu_def vt Let_def)
  next
    case False
    have ru: "uint r = thu"
      using rounded False by (simp add: r_def half thu_def tick_half_up_def)
    then have "0 \<le> thu" by (metis uint_ge_0)
    have "r > word_of_int INT64_MAX \<longleftrightarrow> \<not> in_i64 thu"
      using ru kmax \<open>0 \<le> thu\<close> by (simp add: word_less_def i64_defs) linarith
    moreover have "in_i64 thu \<Longrightarrow> sint r = thu"
      using ru sint_of_uint [of r] by (simp add: i64_defs)
    ultimately show ?thesis using False unfold by (simp add: thu_def vt Let_def)
  qed
qed
text \<open>tick rounding.  For every int64 price and every positive int64 tick, the unsigned
  magnitude arithmetic of \<open>round_to_tick\<close> yields the multiple of the tick nearest to the price,
  an exact half going towards plus infinity, whenever that multiple is an int64; otherwise the
  price comes back unchanged, never wrapped or clamped.\<close>

theorem round_to_tick_nearest:
  assumes "in_i64 (price_paise p)" "in_i64 (price_paise tick)" "0 < price_paise tick"
  shows "\<exists>r. price_paise tick dvd r
           \<and> 2 * (r - price_paise p) \<le> price_paise tick
           \<and> 2 * (price_paise p - r) < price_paise tick
           \<and> round_to_tick p tick = (if in_i64 r then Price r else p)"
  using round_to_tick_refines [OF assms] tick_half_up_nearest [OF assms(3), of "price_paise p"]
  by (intro exI [of _ "tick_half_up (price_paise p) (price_paise tick)"]) (simp add: Let_def)

theorem round_to_tick_nearest_witness:
  "in_i64 (-25) \<and> in_i64 10 \<and> (0::int) < 10
   \<and> (\<exists>r. 10 dvd r \<and> 2 * (r - (-25)) \<le> 10 \<and> 2 * ((-25) - r) < 10
        \<and> round_to_tick (Price (-25)) (Price 10) = (if in_i64 r then Price r else Price (-25)))"
proof -
  have h: "in_i64 (price_paise (Price (-25)))" "in_i64 (price_paise (Price 10))"
    "0 < price_paise (Price 10)"
    by (simp_all add: i64_defs)
  show ?thesis using h round_to_tick_nearest [OF h] by simp
qed

end
