(* ===== verification/Decimal_Paise.thy ===== *)
theory Decimal_Paise
  imports Money
begin

text \<open>
  \<^verbatim>\<open>domain/decimal_paise.hpp\<close>: the only decimal text to integer paise conversion of the
  program, fail-closed.  Each C++ loop is a recursive function over the remaining text with the
  loop variables as arguments; a parse failure is \<open>None\<close>.  The lemmas give closed forms of the
  loops, the properties characterise exactly which texts parse and to what value, and show the
  printer is a right inverse.
\<close>

definition is_ascii_space :: "char \<Rightarrow> bool" where
  "is_ascii_space c \<longleftrightarrow> c = CHR '' '' \<or> c = CHR 0x09 \<or> c = CHR 0x0D \<or> c = CHR 0x0A"

definition trim_ascii :: "string \<Rightarrow> string" where
  "trim_ascii s = rev (dropWhile is_ascii_space (rev (dropWhile is_ascii_space s)))"

definition push_digit :: "int64 \<Rightarrow> char \<Rightarrow> int64 option" where
  "push_digit value digit =
     (let d = int (digit_val digit)
      in if value > (INT64_MAX - d) div 10 then None else Some (value * 10 + d))"

fun parse_int64_loop :: "string \<Rightarrow> int64 \<Rightarrow> bool \<Rightarrow> (int64 \<times> bool) option" where
  "parse_int64_loop [] value any_digit = Some (value, any_digit)"
| "parse_int64_loop (c # s) value any_digit =
     (if \<not> is_ascii_digit c then None
      else case push_digit value c of
             None \<Rightarrow> None
           | Some value' \<Rightarrow> parse_int64_loop s value' True)"

text \<open>The optional leading sign shared by both parsers: whether it is a minus, and the text
  after it.\<close>

definition split_sign :: "string \<Rightarrow> bool \<times> string" where
  "split_sign s = (case s of
       [] \<Rightarrow> (False, [])
     | c # cs \<Rightarrow> if c = CHR ''+'' \<or> c = CHR ''-'' then (c = CHR ''-'', cs) else (False, s))"

definition parse_int64 :: "string \<Rightarrow> int64 option" where
  "parse_int64 inp =
     (let s = trim_ascii inp in
      if s = [] then None
      else
        let (negative, body) = split_sign s
        in case parse_int64_loop body 0 False of
             None \<Rightarrow> None
           | Some (value, any_digit) \<Rightarrow>
               if \<not> any_digit then None
               else Some (if negative then - value else value))"

fun rupee_loop :: "string \<Rightarrow> int64 \<Rightarrow> bool \<Rightarrow> (int64 \<times> bool \<times> string) option" where
  "rupee_loop [] rupees any_digit = Some (rupees, any_digit, [])"
| "rupee_loop (c # s) rupees any_digit =
     (if c = CHR ''.'' then Some (rupees, any_digit, c # s)
      else if \<not> is_ascii_digit c then None
      else case push_digit rupees c of
             None \<Rightarrow> None
           | Some rupees' \<Rightarrow> rupee_loop s rupees' True)"

fun frac_loop :: "string \<Rightarrow> int64 \<Rightarrow> nat \<Rightarrow> bool \<Rightarrow> (int64 \<times> nat \<times> bool) option" where
  "frac_loop [] frac frac_digits any_digit = Some (frac, frac_digits, any_digit)"
| "frac_loop (c # s) frac frac_digits any_digit =
     (if \<not> is_ascii_digit c then None
      else if frac_digits < 2
           then frac_loop s (frac * 10 + int (digit_val c)) (Suc frac_digits) True
           else frac_loop s frac frac_digits True)"

function pad_frac :: "int64 \<Rightarrow> nat \<Rightarrow> int64" where
  "pad_frac frac frac_digits =
     (if frac_digits < 2 then pad_frac (frac * 10) (Suc frac_digits) else frac)"
  by pat_completeness auto
termination
  by (relation "measure (\<lambda>(frac, n). 2 - n)") auto

declare pad_frac.simps [simp del]

definition parse_decimal_paise :: "string \<Rightarrow> int64 option" where
  "parse_decimal_paise inp =
     (let s = trim_ascii inp in
      if s = [] then None
      else
        let (negative, body) = split_sign s
        in case rupee_loop body 0 False of
             None \<Rightarrow> None
           | Some (rupees, any_digit, rest) \<Rightarrow>
               (case (case rest of
                        [] \<Rightarrow> Some (0, 0, any_digit)
                      | _ # digits \<Rightarrow> frac_loop digits 0 0 any_digit) of
                  None \<Rightarrow> None
                | Some (frac, frac_digits, any_digit') \<Rightarrow>
                    if \<not> any_digit' then None
                    else
                      let frac' = pad_frac frac frac_digits
                      in if rupees > (INT64_MAX - frac') div 100 then None
                         else
                           let paise = rupees * 100 + frac'
                           in Some (if negative then - paise else paise)))"

definition paise_to_decimal :: "int64 \<Rightarrow> string" where
  "paise_to_decimal paise =
     (let negative = paise < 0;
          magnitude = u64_magnitude paise;
          frac = magnitude mod 100;
          out = show_nat (unat (magnitude div 100)) @ ''.''
                @ (if frac < 10 then ''0'' else '''') @ show_nat (unat frac)
      in if negative then CHR ''-'' # out else out)"

section \<open>Closed forms of the loops\<close>

lemma digits_val_Cons: "digits_val (c # s) = digit_val c * 10 ^ length s + digits_val s"
  using digits_val_append [of "[c]" s] digits_val_snoc [of "[]" c] by simp

lemma push_digit_eq:
  "push_digit v c = (if v * 10 + int (digit_val c) \<le> INT64_MAX
                     then Some (v * 10 + int (digit_val c)) else None)"
proof -
  have "v > (INT64_MAX - int (digit_val c)) div 10 \<longleftrightarrow> \<not> v * 10 + int (digit_val c) \<le> INT64_MAX"
    by linarith
  then show ?thesis by (simp add: push_digit_def Let_def)
qed

text \<open>The accumulator after reading a digit string.  Scaling by further digits never shrinks a
  non-negative accumulator, so the first digit that overflows decides.\<close>

definition accum :: "int \<Rightarrow> string \<Rightarrow> int" where
  "accum v s = v * 10 ^ length s + int (digits_val s)"

lemma accum_simps [simp]:
  "accum v [] = v"
  "accum v (c # s) = accum (v * 10 + int (digit_val c)) s"
  by (simp_all add: accum_def digits_val_Cons algebra_simps)

lemma accum_0: "accum 0 s = int (digits_val s)"
  by (simp add: accum_def)

lemma accum_mono:
  assumes "0 \<le> v"
  shows "v \<le> accum v s"
proof -
  have "v * 1 \<le> v * 10 ^ length s" using assms by (intro mult_left_mono) simp_all
  then show ?thesis by (simp add: accum_def)
qed

lemma parse_int64_loop_eq:
  assumes "0 \<le> v" "v \<le> INT64_MAX"
  shows "parse_int64_loop s v any =
    (if (\<forall>c \<in> set s. is_ascii_digit c) \<and> accum v s \<le> INT64_MAX
     then Some (accum v s, any \<or> s \<noteq> []) else None)"
  using assms
proof (induction s arbitrary: v any)
  case Nil
  then show ?case by simp
next
  case (Cons c s)
  have "0 \<le> v * 10 + int (digit_val c)" using Cons.prems by simp
  from accum_mono [OF this, of s] Cons.IH [OF this]
  show ?case by (auto simp: push_digit_eq)
qed

lemma rupee_loop_eq:
  assumes "0 \<le> v" "v \<le> INT64_MAX"
  defines "ip s \<equiv> takeWhile (\<lambda>c. c \<noteq> CHR ''.'') s"
  shows "rupee_loop s v any =
    (if (\<forall>c \<in> set (ip s). is_ascii_digit c) \<and> accum v (ip s) \<le> INT64_MAX
     then Some (accum v (ip s), any \<or> ip s \<noteq> [], dropWhile (\<lambda>c. c \<noteq> CHR ''.'') s)
     else None)"
  using assms(1,2)
proof (induction s arbitrary: v any)
  case Nil
  then show ?case by (simp add: ip_def)
next
  case (Cons c s)
  have "0 \<le> v * 10 + int (digit_val c)" using Cons.prems by simp
  from accum_mono [OF this, of "ip s"] Cons.IH [OF this] Cons.prems
  show ?case by (auto simp: push_digit_eq ip_def)
qed

lemma frac_loop_eq:
  "frac_loop s f n any =
    (if \<forall>c \<in> set s. is_ascii_digit c
     then Some (accum f (take (2 - n) s), n + length (take (2 - n) s), any \<or> s \<noteq> [])
     else None)"
proof (induction s arbitrary: f n any)
  case Nil
  then show ?case by simp
next
  case (Cons c s)
  have "2 - n = Suc (2 - Suc n)" if "n < 2" using that by simp
  with Cons.IH show ?case
    by (auto simp del: length_take)
qed

lemma pad_frac_eq: "pad_frac f n = f * 10 ^ (2 - n)"
proof (induction f n rule: pad_frac.induct)
  case (1 f n)
  show ?case
  proof (cases "n < 2")
    case True
    then have "2 - n = Suc (2 - Suc n)" by simp
    with True 1 show ?thesis by (simp add: pad_frac.simps [of f n])
  next
    case False
    then show ?thesis by (simp add: pad_frac.simps [of f n])
  qed
qed

section \<open>Which texts parse\<close>

text \<open>The paise of a fractional part: its first two digits, zero-padded; further digits are
  truncated.\<close>

definition frac_paise :: "string \<Rightarrow> nat" where
  "frac_paise fp = digits_val (take 2 fp) * 10 ^ (2 - length (take 2 fp))"

abbreviation all_digits :: "string \<Rightarrow> bool" where
  "all_digits s \<equiv> \<forall>c \<in> set s. is_ascii_digit c"

lemma paise_overflow_iff:
  fixes r f :: int
  shows "r > (INT64_MAX - f) div 100 \<longleftrightarrow> \<not> r * 100 + f \<le> INT64_MAX"
  by linarith

lemma rupees_le_paise: "int a \<le> INT64_MAX \<or> \<not> int a * 100 + int b \<le> INT64_MAX"
  by linarith

lemma frac_of_rest:
  "(case rest of [] \<Rightarrow> Some (0, 0, any) | _ # digits \<Rightarrow> frac_loop digits 0 0 any)
   = (if all_digits (tl rest)
      then Some (accum 0 (take 2 (tl rest)), min (length (tl rest)) 2, any \<or> tl rest \<noteq> [])
      else None)"
  by (cases rest) (simp_all add: frac_loop_eq)

lemma parse_decimal_paise_blank: "trim_ascii inp = [] \<Longrightarrow> parse_decimal_paise inp = None"
  by (simp add: parse_decimal_paise_def)

lemma parse_decimal_paise_eq:
  assumes "trim_ascii inp = t" "t \<noteq> []" "split_sign t = (negative, body)"
  defines "ip \<equiv> takeWhile (\<lambda>c. c \<noteq> CHR ''.'') body"
    and "fp \<equiv> tl (dropWhile (\<lambda>c. c \<noteq> CHR ''.'') body)"
  shows "parse_decimal_paise inp =
    (let paise = int (digits_val ip) * 100 + int (frac_paise fp)
     in if all_digits ip \<and> all_digits fp \<and> ip @ fp \<noteq> [] \<and> paise \<le> INT64_MAX
        then Some (if negative then - paise else paise) else None)"
proof -
  have loop: "rupee_loop body 0 False =
    (if all_digits ip \<and> accum 0 ip \<le> INT64_MAX
     then Some (accum 0 ip, ip \<noteq> [], dropWhile (\<lambda>c. c \<noteq> CHR ''.'') body) else None)"
    unfolding ip_def by (subst rupee_loop_eq) (simp_all add: INT64_MAX_def)
  have pad: "int (digits_val (take 2 fp)) * 10 ^ (2 - min (length fp) 2) = int (frac_paise fp)"
    by (simp add: frac_paise_def accum_0 min.commute)
  note frac = frac_of_rest [where rest = "dropWhile (\<lambda>c. c \<noteq> CHR ''.'') body", folded fp_def]
  show ?thesis
    using rupees_le_paise [of "digits_val ip" "frac_paise fp"]
    assms(2)
    by (auto simp: parse_decimal_paise_def Let_def assms(1,3) loop frac pad pad_frac_eq
        paise_overflow_iff accum_0)
qed

lemma digit_not_special:
  "is_ascii_digit c \<Longrightarrow> c \<noteq> CHR ''.'' \<and> c \<noteq> CHR ''+'' \<and> c \<noteq> CHR ''-'' \<and> \<not> is_ascii_space c"
  by (auto simp: is_ascii_digit_def is_ascii_space_def)

lemma split_sign_cases:
  "split_sign t = (negative, body) \<Longrightarrow> t \<noteq> [] \<Longrightarrow>
   \<exists>sg \<in> {'''', ''+'', ''-''}. t = sg @ body \<and> negative = (sg = ''-'')"
  by (auto simp: split_sign_def split: list.splits if_splits)

lemma split_sign_append:
  assumes "sg \<in> {'''', ''+'', ''-''}"
    and "sg = '''' \<longrightarrow> body = [] \<or> hd body \<noteq> CHR ''+'' \<and> hd body \<noteq> CHR ''-''"
  shows "split_sign (sg @ body) = (sg = ''-'', body)"
  using assms by (cases body) (auto simp: split_sign_def)

lemma parse_decimal_paise_iff:
  "parse_decimal_paise inp = Some v \<longleftrightarrow>
   (\<exists>sg ip frac. trim_ascii inp = sg @ ip @ frac
      \<and> sg \<in> {'''', ''+'', ''-''} \<and> (frac = [] \<or> hd frac = CHR ''.'')
      \<and> all_digits ip \<and> all_digits (tl frac) \<and> ip @ tl frac \<noteq> []
      \<and> int (digits_val ip * 100 + frac_paise (tl frac)) \<le> INT64_MAX
      \<and> v = (if sg = ''-'' then - 1 else 1) * int (digits_val ip * 100 + frac_paise (tl frac)))"
  (is "?parse \<longleftrightarrow> ?form")
proof
  assume ?parse
  define t where "t = trim_ascii inp"
  obtain negative body where sp: "split_sign t = (negative, body)" by (rule prod.exhaust)
  have "t \<noteq> []" using \<open>?parse\<close> parse_decimal_paise_blank t_def by (metis option.distinct(1))
  note t = t_def [symmetric] this sp
  obtain sg where sg: "sg \<in> {'''', ''+'', ''-''}" "t = sg @ body" "negative = (sg = ''-'')"
    using split_sign_cases [OF t(3,2)] by blast
  define ip fr where "ip = takeWhile (\<lambda>c. c \<noteq> CHR ''.'') body"
    and "fr = dropWhile (\<lambda>c. c \<noteq> CHR ''.'') body"
  let ?paise = "int (digits_val ip) * 100 + int (frac_paise (tl fr))"
  have whole: "trim_ascii inp = sg @ ip @ fr" using t(1) sg(2) by (simp add: ip_def fr_def)
  have dot: "fr = [] \<or> hd fr = CHR ''.''"
    unfolding fr_def using hd_dropWhile [of "\<lambda>c. c \<noteq> CHR ''.''" body] by blast
  have "parse_decimal_paise inp =
      (if all_digits ip \<and> all_digits (tl fr) \<and> ip @ tl fr \<noteq> [] \<and> ?paise \<le> INT64_MAX
       then Some (if negative then - ?paise else ?paise) else None)"
    using parse_decimal_paise_eq [OF t] unfolding Let_def ip_def fr_def .
  with \<open>?parse\<close> have "(if all_digits ip \<and> all_digits (tl fr) \<and> ip @ tl fr \<noteq> [] \<and> ?paise \<le> INT64_MAX
       then Some (if negative then - ?paise else ?paise) else None) = Some v"
    by metis
  then have "all_digits ip \<and> all_digits (tl fr) \<and> ip @ tl fr \<noteq> [] \<and> ?paise \<le> INT64_MAX"
    and "v = (if negative then - 1 else 1) * ?paise"
    by (simp_all split: if_splits)
  with whole dot sg show ?form
    by (intro exI [of _ sg] exI [of _ ip] exI [of _ fr]) simp
next
  assume ?form
  then obtain sg ip frac where form: "trim_ascii inp = sg @ ip @ frac"
    "sg \<in> {'''', ''+'', ''-''}" "frac = [] \<or> hd frac = CHR ''.''"
    "all_digits ip" "all_digits (tl frac)" "ip @ tl frac \<noteq> []"
    "int (digits_val ip * 100 + frac_paise (tl frac)) \<le> INT64_MAX"
    "v = (if sg = ''-'' then - 1 else 1) * int (digits_val ip * 100 + frac_paise (tl frac))"
    by blast
  have ne: "sg @ ip @ frac \<noteq> []" using form(6) by auto
  have "sg = '''' \<longrightarrow> ip @ frac = [] \<or> hd (ip @ frac) \<noteq> CHR ''+'' \<and> hd (ip @ frac) \<noteq> CHR ''-''"
    using form(3,4) digit_not_special by (cases ip) auto
  then have split: "split_sign (sg @ ip @ frac) = (sg = ''-'', ip @ frac)"
    by (rule split_sign_append [OF form(2)])
  have tw: "takeWhile (\<lambda>c. c \<noteq> CHR ''.'') (ip @ frac) = ip"
    "dropWhile (\<lambda>c. c \<noteq> CHR ''.'') (ip @ frac) = frac"
    using form(3,4) digit_not_special by (cases frac; force simp: takeWhile_append dropWhile_append)+
  show ?parse
    using form by (auto simp: parse_decimal_paise_eq [OF form(1) ne split] tw Let_def)
qed
section \<open>The printer\<close>

lemma trim_ascii_id: "\<forall>c \<in> set s. \<not> is_ascii_space c \<Longrightarrow> trim_ascii s = s"
proof -
  have id: "\<forall>c \<in> set xs. \<not> is_ascii_space c \<Longrightarrow> dropWhile is_ascii_space xs = xs" for xs
    by (cases xs) simp_all
  assume "\<forall>c \<in> set s. \<not> is_ascii_space c"
  then show ?thesis by (simp add: trim_ascii_def id)
qed

definition two_digits :: "nat \<Rightarrow> string" where
  "two_digits f = (if f < 10 then ''0'' else '''') @ show_nat f"

lemma show_nat_small: "f < 10 \<Longrightarrow> show_nat f = [digit_char f]"
  by (simp add: show_nat.simps)

lemma show_nat_two: "10 \<le> f \<Longrightarrow> f < 100 \<Longrightarrow> show_nat f = [digit_char (f div 10), digit_char (f mod 10)]"
  by (simp add: show_nat.simps [of f] show_nat_small)

lemma two_digits_props:
  assumes "f < 100"
  shows "length (two_digits f) = 2" "all_digits (two_digits f)" "digits_val (two_digits f) = f"
proof -
  show "length (two_digits f) = 2"
    using assms by (auto simp: two_digits_def show_nat_small show_nat_two)
  show "all_digits (two_digits f)"
    using show_nat_digits [of f] by (auto simp: two_digits_def is_ascii_digit_def)
  have "digits_val (''0'' @ s) = digits_val s" for s
    by (simp add: digits_val_Cons digit_val_def)
  then show "digits_val (two_digits f) = f" by (simp add: two_digits_def)
qed

lemma frac_paise_two_digits: "f < 100 \<Longrightarrow> frac_paise (two_digits f) = f"
  using two_digits_props [of f] by (simp add: frac_paise_def)

lemma paise_to_decimal_eq:
  assumes "in_i64 p"
  shows "paise_to_decimal p =
    (if p < 0 then ''-'' else '''') @ show_nat (nat \<bar>p\<bar> div 100) @ ''.'' @ two_digits (nat \<bar>p\<bar> mod 100)"
proof -
  have m: "unat (u64_magnitude p) = nat \<bar>p\<bar>"
    using uint_u64_magnitude [OF assms] by (simp add: unat_eq_nat_uint)
  have "u64_magnitude p mod 100 < 10 \<longleftrightarrow> nat \<bar>p\<bar> mod 100 < 10"
    using m by (simp add: word_less_nat_alt unat_mod)
  then show ?thesis
    using m by (simp add: paise_to_decimal_def two_digits_def unat_div unat_mod)
qed

lemma format_paise_eq_paise_to_decimal: "format_paise p = paise_to_decimal p"
  by (simp add: format_paise_def paise_to_decimal_def Let_def)

lemma paise_decimal_roundtrip_aux:
  assumes "in_i64 p" "p \<noteq> INT64_MIN"
  shows "parse_decimal_paise (paise_to_decimal p) = Some p"
proof -
  define n where "n = nat \<bar>p\<bar>"
  define sg where "sg = (if p < 0 then ''-'' else '''' :: string)"
  let ?ip = "show_nat (n div 100)" and ?fp = "two_digits (n mod 100)"
  have out: "paise_to_decimal p = sg @ ?ip @ ''.'' @ ?fp"
    using paise_to_decimal_eq [OF assms(1)] by (simp add: sg_def n_def)
  have dig: "all_digits ?ip" "all_digits ?fp"
    using show_nat_digits two_digits_props(2) [of "n mod 100"] by simp_all
  have "\<forall>c \<in> set (sg @ ?ip @ ''.'' @ ?fp). \<not> is_ascii_space c"
    using dig digit_not_special by (auto simp: sg_def is_ascii_space_def)
  then have trim: "trim_ascii (paise_to_decimal p) = sg @ ?ip @ (CHR ''.'' # ?fp)"
    using out by (simp add: trim_ascii_id)
  have val: "digits_val ?ip * 100 + frac_paise ?fp = n"
    by (simp add: frac_paise_two_digits)
  have n: "int n \<le> INT64_MAX" "(if sg = ''-'' then - 1 else 1) * int n = p"
    using assms by (auto simp: n_def sg_def i64_defs)
  show ?thesis
    unfolding parse_decimal_paise_iff
    using trim dig val n
    by (intro exI [of _ sg] exI [of _ ?ip] exI [of _ "CHR ''.'' # ?fp"]) (auto simp: sg_def)
qed

lemma parse_int64_eq:
  assumes "trim_ascii inp = t" "t \<noteq> []" "split_sign t = (negative, body)"
  shows "parse_int64 inp =
    (if all_digits body \<and> body \<noteq> [] \<and> int (digits_val body) \<le> INT64_MAX
     then Some (if negative then - int (digits_val body) else int (digits_val body)) else None)"
  using assms(2)
  by (auto simp: parse_int64_def Let_def assms(1,3) parse_int64_loop_eq accum_0 INT64_MAX_def)

lemma parse_int64_show:
  assumes "in_i64 v" "v \<noteq> INT64_MIN"
  shows "parse_int64 (quantity_to_string (Quantity v)) = Some v"
proof -
  define sg where "sg = (if v < 0 then ''-'' else '''' :: string)"
  let ?d = "show_nat (nat \<bar>v\<bar>)"
  have s: "quantity_to_string (Quantity v) = sg @ ?d"
    by (simp add: quantity_to_string_def show_int_def sg_def)
  have dig: "all_digits ?d" by (rule show_nat_digits)
  then have "trim_ascii (sg @ ?d) = sg @ ?d"
    using digit_not_special by (intro trim_ascii_id) (auto simp: sg_def is_ascii_space_def)
  moreover have "split_sign (sg @ ?d) = (sg = ''-'', ?d)"
  proof (rule split_sign_append)
    have "hd ?d \<in> set ?d" by simp
    then show "sg = [] \<longrightarrow> ?d = [] \<or> hd ?d \<noteq> CHR ''+'' \<and> hd ?d \<noteq> CHR ''-''"
      using dig digit_not_special by blast
  qed (simp add: sg_def)
  ultimately show ?thesis
    using parse_int64_eq [of "sg @ ?d" "sg @ ?d" "sg = ''-''" ?d] dig assms
    by (auto simp: s sg_def i64_defs split: if_splits)
qed

section \<open>Properties\<close>

text \<open>the decimal parser is exact and fail-closed.  A text parses if and only if, after
  trimming, it is an optional single sign, digits, and optionally one dot with further digits,
  with at least one digit in all, and the value in paise is at most the int64 maximum; the result
  is exactly that value, the first two fractional digits zero-padded and the rest truncated.
  Everything else, overflow included, is refused.\<close>

theorem parse_decimal_paise_grammar:
  "parse_decimal_paise inp = Some v \<longleftrightarrow>
   (\<exists>sg ip frac. trim_ascii inp = sg @ ip @ frac
      \<and> sg \<in> {'''', ''+'', ''-''} \<and> (frac = [] \<or> hd frac = CHR ''.'')
      \<and> all_digits ip \<and> all_digits (tl frac) \<and> ip @ tl frac \<noteq> []
      \<and> int (digits_val ip * 100 + frac_paise (tl frac)) \<le> INT64_MAX
      \<and> v = (if sg = ''-'' then - 1 else 1) * int (digits_val ip * 100 + frac_paise (tl frac)))"
  by (rule parse_decimal_paise_iff)

theorem parse_decimal_paise_grammar_witness:
  "parse_decimal_paise '' -12.5'' = Some (-1250)
   \<and> (\<exists>sg ip frac. trim_ascii '' -12.5'' = sg @ ip @ frac
      \<and> sg \<in> {'''', ''+'', ''-''} \<and> (frac = [] \<or> hd frac = CHR ''.'')
      \<and> all_digits ip \<and> all_digits (tl frac) \<and> ip @ tl frac \<noteq> []
      \<and> int (digits_val ip * 100 + frac_paise (tl frac)) \<le> INT64_MAX
      \<and> -1250 = (if sg = ''-'' then - 1 else 1) * int (digits_val ip * 100 + frac_paise (tl frac)))"
proof -
  have "parse_decimal_paise '' -12.5'' = Some (-1250)" by code_simp
  with parse_decimal_paise_grammar [of "'' -12.5''" "-1250"] show ?thesis by blast
qed

text \<open>C8. printing and parsing money.  For every int64 paise amount other than the least one
  (whose magnitude is not an int64), the printed decimal text parses back to the same amount.\<close>

theorem paise_decimal_roundtrip:
  assumes "in_i64 p" "p \<noteq> INT64_MIN"
  shows "parse_decimal_paise (paise_to_decimal p) = Some p"
  using assms by (rule paise_decimal_roundtrip_aux)

theorem paise_decimal_roundtrip_witness:
  "in_i64 (-550) \<and> -550 \<noteq> INT64_MIN
   \<and> parse_decimal_paise (paise_to_decimal (-550)) = Some (-550)"
proof -
  have h: "in_i64 (-550)" "-550 \<noteq> INT64_MIN" by (simp_all add: i64_defs)
  show ?thesis using h paise_decimal_roundtrip [OF h] by simp
qed

end
