(* ===== verification/Errors.thy ===== *)
theory Errors
  imports Prelude "HOL-Library.Sublist"
begin

text \<open>
  \<^verbatim>\<open>errors/error.hpp\<close> and \<^verbatim>\<open>errors/error.cpp\<close>: the typed error taxonomy and the single
  place where broker and transport text is classified.  A fallible call of the source returns
  \<^verbatim>\<open>Result<T>\<close>; here it is \<open>error + 'a\<close> with \<open>Inl\<close> for the error.
\<close>

datatype error_category =
    Transient | RateLimited | Network | Timeout | Auth | SessionExpired | Validation
  | InsufficientFunds | RiskRejected | NotSupported | DuplicateOrder | OrderNotFound
  | BrokerRejected | MarketClosed | DataStale | Internal | UnknownCategory

datatype suggested_action =
    RetrySafe | DoNotRetry | ReconcileFirst | BlockStrategy | ReEstablishSession
  | Cancel | SquareOff | RaiseAlert

record error =
  err_category :: error_category
  err_action :: suggested_action
  err_message :: string
  err_broker_code :: string

type_synonym 'a result = "error + 'a"

fun error_category_to_string :: "error_category \<Rightarrow> string" where
  "error_category_to_string Transient = ''Transient''"
| "error_category_to_string RateLimited = ''RateLimited''"
| "error_category_to_string Network = ''Network''"
| "error_category_to_string Timeout = ''Timeout''"
| "error_category_to_string Auth = ''Auth''"
| "error_category_to_string SessionExpired = ''SessionExpired''"
| "error_category_to_string Validation = ''Validation''"
| "error_category_to_string InsufficientFunds = ''InsufficientFunds''"
| "error_category_to_string RiskRejected = ''RiskRejected''"
| "error_category_to_string NotSupported = ''NotSupported''"
| "error_category_to_string DuplicateOrder = ''DuplicateOrder''"
| "error_category_to_string OrderNotFound = ''OrderNotFound''"
| "error_category_to_string BrokerRejected = ''BrokerRejected''"
| "error_category_to_string MarketClosed = ''MarketClosed''"
| "error_category_to_string DataStale = ''DataStale''"
| "error_category_to_string Internal = ''Internal''"
| "error_category_to_string UnknownCategory = ''Unknown''"

fun suggested_action_to_string :: "suggested_action \<Rightarrow> string" where
  "suggested_action_to_string RetrySafe = ''RetrySafe''"
| "suggested_action_to_string DoNotRetry = ''DoNotRetry''"
| "suggested_action_to_string ReconcileFirst = ''ReconcileFirst''"
| "suggested_action_to_string BlockStrategy = ''BlockStrategy''"
| "suggested_action_to_string ReEstablishSession = ''ReEstablishSession''"
| "suggested_action_to_string Cancel = ''Cancel''"
| "suggested_action_to_string SquareOff = ''SquareOff''"
| "suggested_action_to_string RaiseAlert = ''RaiseAlert''"

fun default_action_for :: "error_category \<Rightarrow> suggested_action" where
  "default_action_for Transient = RetrySafe"
| "default_action_for RateLimited = RetrySafe"
| "default_action_for Network = ReconcileFirst"
| "default_action_for Timeout = ReconcileFirst"
| "default_action_for Auth = ReEstablishSession"
| "default_action_for SessionExpired = ReEstablishSession"
| "default_action_for Validation = DoNotRetry"
| "default_action_for InsufficientFunds = BlockStrategy"
| "default_action_for RiskRejected = ReconcileFirst"
| "default_action_for NotSupported = DoNotRetry"
| "default_action_for DuplicateOrder = ReconcileFirst"
| "default_action_for OrderNotFound = ReconcileFirst"
| "default_action_for BrokerRejected = ReconcileFirst"
| "default_action_for MarketClosed = BlockStrategy"
| "default_action_for DataStale = BlockStrategy"
| "default_action_for Internal = RaiseAlert"
| "default_action_for UnknownCategory = ReconcileFirst"

definition make_error :: "error_category \<Rightarrow> string \<Rightarrow> string \<Rightarrow> error" where
  "make_error category message broker_code =
     \<lparr>err_category = category, err_action = default_action_for category,
      err_message = message, err_broker_code = broker_code\<rparr>"

definition make_error_with_action ::
    "error_category \<Rightarrow> suggested_action \<Rightarrow> string \<Rightarrow> string \<Rightarrow> error" where
  "make_error_with_action category action message broker_code =
     \<lparr>err_category = category, err_action = action,
      err_message = message, err_broker_code = broker_code\<rparr>"

section \<open>Case-insensitive search\<close>

definition ascii_fold :: "char \<Rightarrow> char" where
  "ascii_fold c = (if (65 :: nat) \<le> of_char c \<and> (of_char c :: nat) \<le> 90
                   then char_of (of_char c - 65 + 97 :: nat) else c)"

definition match_at :: "string \<Rightarrow> string \<Rightarrow> nat \<Rightarrow> bool" where
  "match_at haystack needle i =
     list_all (\<lambda>j. ascii_fold (haystack ! (i + j)) = needle ! j) [0..<length needle]"

definition contains_ci :: "string \<Rightarrow> string \<Rightarrow> bool" where
  "contains_ci haystack needle =
     (if needle = [] then True
      else if length needle > length haystack then False
      else list_ex (match_at haystack needle) [0..<Suc (length haystack - length needle)])"

section \<open>Classification\<close>

definition classify_http :: "int \<Rightarrow> string \<Rightarrow> error" where
  "classify_http status body =
     (let code = ''HTTP '' @ show_int status in
      if 200 \<le> status \<and> status < 300 then
        make_error Internal ''unexpected success status routed to classify_http'' code
      else if status = 401 \<or> status = 403 then
        (if contains_ci body ''expired'' \<or> contains_ci body ''session''
         then make_error SessionExpired ''session expired or invalid'' code
         else make_error Auth ''authentication failed'' code)
      else if status = 429 then make_error RateLimited ''rate limited by broker'' code
      else if status = 404 then make_error OrderNotFound ''resource or order not found'' code
      else if status = 408 \<or> status = 504 then make_error Timeout ''request timed out'' code
      else if status = 400 \<or> status = 422 then
        make_error Validation ''request rejected as invalid'' code
      else if status \<ge> 500 then make_error Network ''broker server error'' code
      else if status \<ge> 400 then make_error BrokerRejected ''broker refused the request'' code
      else make_error UnknownCategory ''unclassified transport status'' code)"

definition classify :: "string \<Rightarrow> string \<Rightarrow> error" where
  "classify broker_code message =
     (let hit = (\<lambda>kw. contains_ci broker_code kw \<or> contains_ci message kw) in
      if hit ''insufficient'' \<or> hit ''margin shortfall'' \<or> hit ''not enough'' then
        make_error InsufficientFunds ''insufficient funds / margin shortfall'' broker_code
      else if hit ''rms'' \<or> hit ''risk'' then
        make_error RiskRejected ''broker risk system rejected the order'' broker_code
      else if hit ''session'' \<or> hit ''token'' \<or> hit ''expired'' then
        make_error SessionExpired ''session expired; re-establish required'' broker_code
      else if hit ''unauthor'' \<or> hit ''auth'' \<or> hit ''forbidden'' \<or> hit ''api_key'' \<or> hit ''apikey'' then
        make_error Auth ''authentication failed'' broker_code
      else if hit ''rate limit'' \<or> hit ''too many'' \<or> hit ''throttle'' then
        make_error RateLimited ''rate limited by broker'' broker_code
      else if hit ''duplicate'' \<or> hit ''already exists'' \<or> hit ''already placed'' then
        make_error DuplicateOrder ''broker reports a duplicate order'' broker_code
      else if hit ''not found'' \<or> hit ''does not exist'' \<or> hit ''already filled''
              \<or> hit ''already cancelled'' \<or> hit ''already canceled'' then
        make_error OrderNotFound ''order not found or already terminal'' broker_code
      else if hit ''market closed'' \<or> hit ''market is closed'' \<or> hit ''outside''
              \<or> hit ''session hours'' \<or> hit ''not open'' then
        make_error MarketClosed ''market closed / outside session'' broker_code
      else if hit ''not supported'' \<or> hit ''unsupported'' \<or> hit ''not allowed'' \<or> hit ''not enabled'' then
        make_error NotSupported ''capability not supported by broker'' broker_code
      else if hit ''timeout'' \<or> hit ''timed out'' then
        make_error Timeout ''broker call timed out'' broker_code
      else if hit ''invalid'' \<or> hit ''lot'' \<or> hit ''tick'' \<or> hit ''price'' \<or> hit ''quantity''
              \<or> hit ''symbol'' \<or> hit ''instrument'' \<or> hit ''product'' then
        make_error Validation ''request rejected as invalid'' broker_code
      else if hit ''network'' \<or> hit ''connection'' \<or> hit ''unreachable'' \<or> hit ''reset'' then
        make_error Network ''network/connection failure'' broker_code
      else if broker_code \<noteq> [] \<or> message \<noteq> [] then
        make_error BrokerRejected ''broker rejected the request'' broker_code
      else make_error UnknownCategory ''ambiguous broker error'' broker_code)"

section \<open>Lemmas\<close>

lemma match_at_iff:
  assumes "i + length needle \<le> length haystack"
  shows "match_at haystack needle i \<longleftrightarrow>
    take (length needle) (drop i (map ascii_fold haystack)) = needle"
  unfolding match_at_def list_all_iff list_eq_iff_nth_eq [of "take _ _"]
  using assms by auto

lemma contains_ci_iff_sublist:
  "contains_ci haystack needle \<longleftrightarrow> sublist needle (map ascii_fold haystack)"
proof -
  let ?h = "map ascii_fold haystack" and ?n = "length needle"
  have "sublist needle ?h \<longleftrightarrow> (\<exists>i \<le> length haystack - ?n. i + ?n \<le> length haystack
      \<and> take ?n (drop i ?h) = needle)" (is "_ \<longleftrightarrow> ?R")
  proof
    assume "sublist needle ?h"
    then obtain ps ss where "?h = ps @ needle @ ss" by (auto simp: sublist_def)
    moreover from this have "length haystack = length ps + ?n + length ss"
      by (metis length_append length_map add.assoc)
    ultimately show ?R by (intro exI [of _ "length ps"]) simp
  next
    assume ?R
    then show "sublist needle ?h" by (metis append_take_drop_id sublist_appendI)
  qed
  moreover have "contains_ci haystack needle \<longleftrightarrow> ?R"
    by (cases "?n \<le> length haystack")
       (auto simp: contains_ci_def list_ex_iff match_at_iff less_Suc_eq_le simp del: upt_Suc)
  ultimately show ?thesis by simp
qed

lemma contains_ci_subkeyword:
  "contains_ci haystack needle \<Longrightarrow> sublist kw needle \<Longrightarrow> contains_ci haystack kw"
  unfolding contains_ci_iff_sublist by (rule sublist_order.order_trans)

lemma make_error_sel [simp]:
  "err_category (make_error c m b) = c"
  "err_action (make_error c m b) = default_action_for c"
  "err_message (make_error c m b) = m"
  "err_broker_code (make_error c m b) = b"
  by (simp_all add: make_error_def)

lemma make_error_with_action_sel [simp]:
  "err_category (make_error_with_action c a m b) = c"
  "err_action (make_error_with_action c a m b) = a"
  "err_message (make_error_with_action c a m b) = m"
  "err_broker_code (make_error_with_action c a m b) = b"
  by (simp_all add: make_error_with_action_def)

text \<open>Every classification is one of finitely many \<open>make_error\<close> values, whatever the texts.\<close>

definition http_verdicts :: "(error_category \<times> string) list" where
  "http_verdicts =
     [(Internal, ''unexpected success status routed to classify_http''),
      (SessionExpired, ''session expired or invalid''), (Auth, ''authentication failed''),
      (RateLimited, ''rate limited by broker''), (OrderNotFound, ''resource or order not found''),
      (Timeout, ''request timed out''), (Validation, ''request rejected as invalid''),
      (Network, ''broker server error''), (BrokerRejected, ''broker refused the request''),
      (UnknownCategory, ''unclassified transport status'')]"

definition broker_verdicts :: "(error_category \<times> string) list" where
  "broker_verdicts =
     [(InsufficientFunds, ''insufficient funds / margin shortfall''),
      (RiskRejected, ''broker risk system rejected the order''),
      (SessionExpired, ''session expired; re-establish required''),
      (Auth, ''authentication failed''), (RateLimited, ''rate limited by broker''),
      (DuplicateOrder, ''broker reports a duplicate order''),
      (OrderNotFound, ''order not found or already terminal''),
      (MarketClosed, ''market closed / outside session''),
      (NotSupported, ''capability not supported by broker''),
      (Timeout, ''broker call timed out''), (Validation, ''request rejected as invalid''),
      (Network, ''network/connection failure''), (BrokerRejected, ''broker rejected the request''),
      (UnknownCategory, ''ambiguous broker error'')]"

definition is_verdict :: "(error_category \<times> string) list \<Rightarrow> string \<Rightarrow> error \<Rightarrow> bool" where
  "is_verdict vs code e \<longleftrightarrow> (\<exists>(c, m) \<in> set vs. e = make_error c m code)"

lemma is_verdict_if:
  "is_verdict vs code a \<Longrightarrow> is_verdict vs code b \<Longrightarrow> is_verdict vs code (if P then a else b)"
  by simp

lemma is_verdict_make: "(c, m) \<in> set vs \<Longrightarrow> is_verdict vs code (make_error c m code)"
  by (auto simp: is_verdict_def)

lemma classify_http_verdict:
  "is_verdict http_verdicts (''HTTP '' @ show_int status) (classify_http status body)"
  unfolding classify_http_def Let_def
  by (intro is_verdict_if is_verdict_make) (simp_all add: http_verdicts_def)

lemma classify_verdict: "is_verdict broker_verdicts code (classify code msg)"
  unfolding classify_def Let_def
  by (intro is_verdict_if is_verdict_make) (simp_all add: broker_verdicts_def)

section \<open>Properties\<close>

text \<open>no classification ever suggests a blind repeat or leaks broker text.  Whatever status,
  body, code and message arrive, the error's action is the default of its category, the only
  classified category whose action is \<open>RetrySafe\<close> is \<open>RateLimited\<close>, and the message is one of a
  fixed list of texts: neither the response body nor the broker's message reaches the error, and
  the code is the status or the short broker code alone.\<close>

theorem classification_safe:
  "(let e = classify_http status body in
      err_action e = default_action_for (err_category e)
      \<and> (err_action e = RetrySafe \<longrightarrow> err_category e = RateLimited)
      \<and> (err_category e, err_message e) \<in> set http_verdicts
      \<and> err_broker_code e = ''HTTP '' @ show_int status)
   \<and> (let e = classify code msg in
      err_action e = default_action_for (err_category e)
      \<and> (err_action e = RetrySafe \<longrightarrow> err_category e = RateLimited)
      \<and> (err_category e, err_message e) \<in> set broker_verdicts
      \<and> err_broker_code e = code)"
proof -
  have retry: "c = RateLimited" if "(c, m) \<in> set http_verdicts \<union> set broker_verdicts"
    "default_action_for c = RetrySafe" for c m
    using that by (auto simp: http_verdicts_def broker_verdicts_def)
  obtain c m where 1: "(c, m) \<in> set http_verdicts"
    "classify_http status body = make_error c m (''HTTP '' @ show_int status)"
    using classify_http_verdict [of status body] by (auto simp: is_verdict_def)
  obtain c' m' where 2: "(c', m') \<in> set broker_verdicts" "classify code msg = make_error c' m' code"
    using classify_verdict [of code msg] by (auto simp: is_verdict_def)
  show ?thesis using 1 2 retry by (auto simp: Let_def)
qed

theorem classification_safe_witness:
  "err_action (classify_http 429 ''x'') = RetrySafe
   \<and> err_category (classify_http 429 ''x'') = RateLimited
   \<and> err_broker_code (classify_http 429 ''x'') = ''HTTP '' @ show_int 429"
proof -
  have h: "err_action (classify_http 429 ''x'') = RetrySafe" by (simp add: classify_http_def)
  show ?thesis using h classification_safe [of 429 "''x''" "''''" "''''"] by (simp add: Let_def)
qed

text \<open>the keyword \<open>session hours\<close> of the market-closed branch is unreachable.  A broker message
  that says so contains the keyword \<open>session\<close>, which an earlier branch takes, so the verdict is
  \<open>SessionExpired\<close> (or a funds or risk verdict), never \<open>MarketClosed\<close>.\<close>

theorem session_hours_never_market_closed:
  assumes "contains_ci msg ''session hours''"
  shows "err_category (classify code msg) \<in> {InsufficientFunds, RiskRejected, SessionExpired}"
proof -
  have "sublist ''session'' ''session hours''"
    using sublist_appendI [of "''session''" "''''" "'' hours''"] by simp
  with assms have "contains_ci msg ''session''" by (rule contains_ci_subkeyword)
  then show ?thesis unfolding classify_def Let_def by simp
qed

theorem session_hours_never_market_closed_witness:
  "contains_ci ''outside session hours'' ''session hours''
   \<and> err_category (classify '''' ''outside session hours'')
       \<in> {InsufficientFunds, RiskRejected, SessionExpired}
   \<and> err_category (classify '''' ''outside session hours'') = SessionExpired"
proof -
  have h: "contains_ci ''outside session hours'' ''session hours''" by code_simp
  have "err_category (classify '''' ''outside session hours'') = SessionExpired" by code_simp
  with h session_hours_never_market_closed [OF h, of "''''"] show ?thesis by simp
qed

end
