(* ===== verification/Utf8.thy ===== *)
theory Utf8
  imports Prelude
begin

text \<open>
  \<^verbatim>\<open>domain/utf8.hpp\<close> and \<^verbatim>\<open>domain/utf8.cpp\<close>: the one UTF-8 canonicalisation, run over
  caller-supplied text before it is hashed and stored.  Well-formedness is specified separately,
  as the byte ranges of RFC 3629, and the five facts the header promises (P1 to P5) are proved of
  the byte-by-byte decoder.
\<close>

abbreviation byte :: "char \<Rightarrow> nat" where
  "byte c \<equiv> of_char c"

definition kUtf8Replacement :: string where
  "kUtf8Replacement = [CHR 0xEF, CHR 0xBF, CHR 0xBD]"

definition utf8_sequence_length :: "nat \<Rightarrow> nat" where
  "utf8_sequence_length lead =
     (if lead < 0x80 then 1
      else if lead < 0xC2 then 0
      else if lead < 0xE0 then 2
      else if lead < 0xF0 then 3
      else if lead < 0xF5 then 4
      else 0)"

definition utf8_second_byte_range :: "nat \<Rightarrow> nat \<times> nat" where
  "utf8_second_byte_range lead =
     (let lo = 0x80; hi = 0xBF in
      if lead = 0xE0 then (0xA0, hi)
      else if lead = 0xED then (lo, 0x9F)
      else if lead = 0xF0 then (0x90, hi)
      else if lead = 0xF4 then (lo, 0x8F)
      else (lo, hi))"

text \<open>The inner loop: how many bytes of a sequence of length \<open>len\<close> are present, given the text
  after the lead and the number \<open>got\<close> consumed so far.\<close>

fun consume_seq :: "nat \<Rightarrow> nat \<Rightarrow> nat \<Rightarrow> nat \<Rightarrow> string \<Rightarrow> nat" where
  "consume_seq len lo hi got [] = got"
| "consume_seq len lo hi got (c # cs) =
     (if got < len then
        let cont = byte c;
            in_range = (if got = 1 then lo \<le> cont \<and> cont \<le> hi else 0x80 \<le> cont \<and> cont \<le> 0xBF)
        in if \<not> in_range then got else consume_seq len lo hi (Suc got) cs
      else got)"

lemma consume_seq_ge: "got \<le> consume_seq len lo hi got cs"
  by (induction cs arbitrary: got) (auto simp: Let_def intro: Suc_leD)

function canonical_text :: "string \<Rightarrow> string" where
  "canonical_text [] = []"
| "canonical_text (c # cs) =
     (let lead = byte c;
          len = utf8_sequence_length lead
      in if len = 0 then kUtf8Replacement @ canonical_text cs
         else if len = 1 then c # canonical_text cs
         else
           let (lo, hi) = utf8_second_byte_range lead;
               got = consume_seq len lo hi 1 cs
           in if got = len then take len (c # cs) @ canonical_text (drop len (c # cs))
              else kUtf8Replacement @ canonical_text (drop got (c # cs)))"
  by pat_completeness auto
termination
proof (relation "measure length", goal_cases)
  case (4 c cs lead len p lo hi got)
  then show ?case by (cases len) simp_all
next
  case (5 c cs lead len p lo hi got)
  then have "1 \<le> got" by (simp add: consume_seq_ge)
  then show ?case by (cases got) simp_all
qed simp_all

section \<open>Well-formed UTF-8\<close>

definition cont_byte :: "char \<Rightarrow> bool" where
  "cont_byte c \<longleftrightarrow> 0x80 \<le> byte c \<and> byte c \<le> 0xBF"

text \<open>The well-formed byte sequences of one code point, as the table of RFC 3629 lists them.\<close>

fun wf_seq :: "string \<Rightarrow> bool" where
  "wf_seq [a] \<longleftrightarrow> byte a \<le> 0x7F"
| "wf_seq [a, b] \<longleftrightarrow> 0xC2 \<le> byte a \<and> byte a \<le> 0xDF \<and> cont_byte b"
| "wf_seq [a, b, c] \<longleftrightarrow>
     (byte a = 0xE0 \<and> 0xA0 \<le> byte b \<and> byte b \<le> 0xBF
      \<or> 0xE1 \<le> byte a \<and> byte a \<le> 0xEC \<and> cont_byte b
      \<or> byte a = 0xED \<and> 0x80 \<le> byte b \<and> byte b \<le> 0x9F
      \<or> 0xEE \<le> byte a \<and> byte a \<le> 0xEF \<and> cont_byte b)
     \<and> cont_byte c"
| "wf_seq [a, b, c, d] \<longleftrightarrow>
     (byte a = 0xF0 \<and> 0x90 \<le> byte b \<and> byte b \<le> 0xBF
      \<or> 0xF1 \<le> byte a \<and> byte a \<le> 0xF3 \<and> cont_byte b
      \<or> byte a = 0xF4 \<and> 0x80 \<le> byte b \<and> byte b \<le> 0x8F)
     \<and> cont_byte c \<and> cont_byte d"
| "wf_seq _ \<longleftrightarrow> False"

inductive valid_utf8 :: "string \<Rightarrow> bool" where
  valid_nil: "valid_utf8 []"
| valid_seq: "wf_seq q \<Longrightarrow> valid_utf8 s \<Longrightarrow> valid_utf8 (q @ s)"

lemma valid_utf8_append: "valid_utf8 s \<Longrightarrow> valid_utf8 t \<Longrightarrow> valid_utf8 (s @ t)"
  by (induction rule: valid_utf8.induct) (auto intro: valid_seq)

lemma wf_seq_nonempty: "wf_seq q \<Longrightarrow> q \<noteq> []"
  by auto

section \<open>The decoder recognises exactly the well-formed sequences\<close>

lemma consume_seq_char:
  "got \<le> len \<Longrightarrow> 2 \<le> got \<Longrightarrow>
   consume_seq len lo hi got cs = got + length (takeWhile cont_byte (take (len - got) cs))"
proof (induction len lo hi got cs rule: consume_seq.induct)
  case (2 len lo hi got c cs)
  have "len - got = Suc (len - Suc got)" if "got < len" using that by simp
  with 2 show ?case by (auto simp: cont_byte_def Let_def)
qed simp

lemma consume_seq_first:
  "2 \<le> len \<Longrightarrow> consume_seq len lo hi (Suc 0) (c # cs) =
   (if lo \<le> byte c \<and> byte c \<le> hi then 2 + length (takeWhile cont_byte (take (len - 2) cs)) else 1)"
  by (simp add: Let_def consume_seq_char numeral_2_eq_2)

lemma consume_seq_bound: "got \<le> len \<Longrightarrow> consume_seq len lo hi got cs \<le> len"
  by (induction len lo hi got cs rule: consume_seq.induct) (auto simp: Let_def)

lemma utf8_len_values:
  "utf8_sequence_length l \<in> {0, 1, 2, 3, 4}" "utf8_sequence_length l = 1 \<longleftrightarrow> l < 0x80"
  by (auto simp: utf8_sequence_length_def)

text \<open>A complete sequence is one the loop consumes to its announced length.\<close>

lemma consumed_wf:
  assumes "utf8_sequence_length (byte c) = len" "2 \<le> len"
    and "utf8_second_byte_range (byte c) = (lo, hi)" "consume_seq len lo hi 1 cs = len"
  shows "wf_seq (take len (c # cs))" "len \<le> length (c # cs)"
proof -
  obtain b bs where cs: "cs = b # bs" using assms(2,4) by (cases cs) auto
  have b: "lo \<le> byte b \<and> byte b \<le> hi"
    and tw: "length (takeWhile cont_byte (take (len - 2) bs)) = len - 2"
    using assms(2,4) by (auto simp: cs consume_seq_first simp del: consume_seq.simps split: if_splits)
  have le: "len - 2 \<le> length bs"
    using tw length_takeWhile_le [of cont_byte "take (len - 2) bs"] by simp
  then show "len \<le> length (c # cs)" using assms(2) by (simp add: cs)
  have cont: "\<forall>x \<in> set (take (len - 2) bs). cont_byte x"
    using tw le by (simp flip: takeWhile_full)
  have len: "len = 2 \<or> len = 3 \<or> len = 4"
    using utf8_len_values(1) [of "byte c"] assms(1,2) by auto
  show "wf_seq (take len (c # cs))"
    using len
  proof (elim disjE)
    assume "len = 2"
    then show ?thesis using assms(1,3) b
      by (auto simp: cs cont_byte_def utf8_sequence_length_def utf8_second_byte_range_def Let_def
          split: if_splits)
  next
    assume len3: "len = 3"
    then obtain d ds where "bs = d # ds" using le by (cases bs) auto
    then show ?thesis using assms(1,3) b cont len3
      by (auto simp: cs cont_byte_def utf8_sequence_length_def utf8_second_byte_range_def Let_def
          split: if_splits)
  next
    assume len4: "len = 4"
    then obtain d e ds where "bs = d # e # ds" using le
      by (cases bs; cases "tl bs") auto
    then show ?thesis using assms(1,3) b cont len4
      by (auto simp: cs cont_byte_def utf8_sequence_length_def utf8_second_byte_range_def Let_def
          numeral_2_eq_2 numeral_3_eq_3 split: if_splits)
  qed
qed

lemma consume_seq_done [simp]: "consume_seq len lo hi len cs = len"
  by (cases cs) simp_all

lemma wf_consumed:
  assumes "wf_seq q" "2 \<le> length q"
  shows "utf8_sequence_length (byte (hd q)) = length q"
    and "utf8_second_byte_range (byte (hd q)) = (lo, hi) \<Longrightarrow>
         consume_seq (length q) lo hi 1 (tl q @ s) = length q"
  using assms
  by (induction q rule: wf_seq.induct)
     (auto simp: utf8_sequence_length_def utf8_second_byte_range_def Let_def cont_byte_def
        split: if_splits)

lemma canonical_wf_seq: "wf_seq q \<Longrightarrow> canonical_text (q @ s) = q @ canonical_text s"
proof -
  assume wf: "wf_seq q"
  then obtain c cs where q: "q = c # cs" using wf_seq_nonempty by (cases q) auto
  show ?thesis
  proof (cases "cs = []")
    case True
    with wf q show ?thesis by (simp add: utf8_sequence_length_def)
  next
    case False
    then have len: "2 \<le> length q" by (cases cs) (simp_all add: q)
    obtain lo hi where r: "utf8_second_byte_range (byte c) = (lo, hi)" by (rule prod.exhaust)
    note cons = wf_consumed [OF wf len]
    have l: "utf8_sequence_length (byte c) = Suc (length cs)" using cons(1) by (simp add: q)
    have "consume_seq (Suc (length cs)) lo hi 1 (cs @ s) = Suc (length cs)"
      using cons(2) [of lo hi s] r by (simp add: q)
    with l r False show ?thesis by (simp add: q Let_def)
  qed
qed

lemma replacement_wf: "wf_seq kUtf8Replacement"
  by (simp add: kUtf8Replacement_def cont_byte_def)

lemma take_takeWhile_take:
  "take (length (takeWhile P (take m xs))) xs = takeWhile P (take m xs)"
proof -
  have "length (takeWhile P (take m xs)) \<le> m"
    using length_takeWhile_le [of P "take m xs"] by simp
  then have "take (length (takeWhile P (take m xs))) xs
      = take (length (takeWhile P (take m xs))) (take m xs)"
    by (simp add: min_absorb1)
  also have "\<dots> = takeWhile P (take m xs)" by (rule takeWhile_eq_take [symmetric])
  finally show ?thesis .
qed

text \<open>The decoder's four branches, as one case rule: what is emitted and what is consumed.\<close>

lemma canonical_step:
  obtains (verbatim) q s where "wf_seq q" "c # cs = q @ s"
    "canonical_text (c # cs) = q @ canonical_text s" "length s < length (c # cs)"
  | (replace) q s where "c # cs = q @ s" "q \<noteq> []" "length q \<le> 3" "\<forall>x \<in> set q. 0x80 \<le> byte x"
    "canonical_text (c # cs) = kUtf8Replacement @ canonical_text s" "length s < length (c # cs)"
proof -
  define len where "len = utf8_sequence_length (byte c)"
  obtain lo hi where r: "utf8_second_byte_range (byte c) = (lo, hi)" by (rule prod.exhaust)
  define got where "got = consume_seq len lo hi (Suc 0) cs"
  have bounds: "0x80 \<le> lo" using r by (auto simp: utf8_second_byte_range_def Let_def split: if_splits)
  consider "len = 0" | "len = 1" | "2 \<le> len" "got = len" | "2 \<le> len" "got \<noteq> len" by linarith
  then show thesis
  proof cases
    case 1
    then have "0x80 \<le> byte c" by (auto simp: len_def utf8_sequence_length_def split: if_splits)
    with 1 show thesis by (intro replace [of "[c]" cs]) (simp_all add: len_def)
  next
    case 2
    then have "byte c < 0x80" using utf8_len_values(2) [of "byte c"] by (simp only: len_def)
    with 2 show thesis by (intro verbatim [of "[c]" cs]) (simp_all add: len_def)
  next
    case 3
    have wf: "wf_seq (take len (c # cs))"
      using consumed_wf(1) [of c len lo hi cs] 3 r by (simp add: len_def got_def)
    have eq: "canonical_text (c # cs) = take len (c # cs) @ canonical_text (drop len (c # cs))"
      using 3 r by (simp add: len_def [symmetric] got_def [symmetric] Let_def)
    show thesis using 3 wf eq by (intro verbatim [of "take len (c # cs)" "drop len (c # cs)"]) simp_all
  next
    case 4
    have "1 \<le> got" "got \<le> len"
      using consume_seq_ge [of "Suc 0"] consume_seq_bound [of "Suc 0"] 4 by (simp_all add: got_def)
    moreover have "len \<le> 4" using utf8_len_values(1) [of "byte c"] by (auto simp: len_def)
    ultimately have got: "1 \<le> got" "got \<le> 3" using 4 by auto
    have eq: "canonical_text (c # cs) = kUtf8Replacement @ canonical_text (drop got (c # cs))"
      using 4 r by (simp add: len_def [symmetric] got_def [symmetric] Let_def)
    have lead: "0x80 \<le> byte c" using 4 by (auto simp: len_def utf8_sequence_length_def split: if_splits)
    have high: "\<forall>x \<in> set (take got (c # cs)). 0x80 \<le> byte x"
    proof (cases cs)
      case Nil
      with lead show ?thesis using got by (cases got) simp_all
    next
      case (Cons b bs)
      have g: "got = (if lo \<le> byte b \<and> byte b \<le> hi
          then 2 + length (takeWhile cont_byte (take (len - 2) bs)) else 1)"
        using 4 by (simp add: got_def Cons consume_seq_first del: consume_seq.simps)
      have "\<forall>x \<in> set (take k bs). 0x80 \<le> byte x"
        if "k = length (takeWhile cont_byte (take (len - 2) bs))" for k
        using that by (auto simp: take_takeWhile_take cont_byte_def dest: set_takeWhileD)
      with g lead bounds show ?thesis by (auto simp: Cons split: if_splits)
    qed
    show thesis
      using got eq high by (intro replace [of "take got (c # cs)" "drop got (c # cs)"]) auto
  qed
qed

section \<open>Properties\<close>

lemma canonical_text_valid_fixed: "valid_utf8 s \<Longrightarrow> canonical_text s = s"
  by (induction rule: valid_utf8.induct) (simp_all add: canonical_wf_seq)

lemma valid_canonical_text: "valid_utf8 (canonical_text s)"
proof (induction s rule: length_induct)
  case (1 s)
  show ?case
  proof (cases s)
    case Nil
    then show ?thesis by (simp add: valid_nil)
  next
    case (Cons c cs)
    show ?thesis
      by (rule canonical_step [of c cs])
         (use 1 Cons replacement_wf in \<open>auto intro: valid_seq simp del: canonical_text.simps(2)\<close>)
  qed
qed

abbreviation is_ascii :: "char \<Rightarrow> bool" where
  "is_ascii c \<equiv> byte c < 0x80"

lemma filter_high: "\<forall>x \<in> set q. 0x80 \<le> byte x \<Longrightarrow> filter is_ascii q = []"
  by (induction q) auto

lemma replacement_high: "filter is_ascii kUtf8Replacement = []" "length kUtf8Replacement = 3"
  by (simp_all add: kUtf8Replacement_def)

lemma canonical_text_ascii: "filter is_ascii (canonical_text s) = filter is_ascii s"
proof (induction s rule: length_induct)
  case (1 s)
  show ?case
  proof (cases s)
    case (Cons c cs)
    show ?thesis
      by (rule canonical_step [of c cs])
         (use 1 Cons replacement_high filter_high in
           \<open>auto simp del: canonical_text.simps(2) filter.simps\<close>)
  qed simp
qed

lemma canonical_text_length: "length s \<le> length (canonical_text s)"
proof (induction s rule: length_induct)
  case (1 s)
  show ?case
  proof (cases s)
    case (Cons c cs)
    show ?thesis
    proof (rule canonical_step [of c cs])
      fix q t
      assume "c # cs = q @ t" "canonical_text (c # cs) = q @ canonical_text t"
        "length t < length (c # cs)"
      moreover have "length t \<le> length (canonical_text t)"
        using 1 Cons calculation(3) by blast
      ultimately show ?thesis using Cons by simp
    next
      fix q t
      assume "c # cs = q @ t" "length q \<le> 3" "length t < length (c # cs)"
        "canonical_text (c # cs) = kUtf8Replacement @ canonical_text t"
      moreover have "length t \<le> length (canonical_text t)"
        using 1 Cons calculation(3) by blast
      ultimately show ?thesis using Cons replacement_high(2) by simp
    qed
  qed simp
qed

text \<open>the canonicalisation contract of the header, P1 to P5.  For every byte string: the output
  is well-formed UTF-8 by the ranges of RFC 3629; well-formed input comes back byte for byte; a
  second application changes nothing; the ASCII bytes are preserved exactly, in order, and none
  are introduced; and the text never gets shorter.\<close>

theorem canonical_text_contract:
  "valid_utf8 (canonical_text s)
   \<and> (valid_utf8 s \<longrightarrow> canonical_text s = s)
   \<and> canonical_text (canonical_text s) = canonical_text s
   \<and> filter is_ascii (canonical_text s) = filter is_ascii s
   \<and> length s \<le> length (canonical_text s)"
  using valid_canonical_text canonical_text_valid_fixed canonical_text_ascii canonical_text_length
  by blast

theorem canonical_text_contract_witness:
  "valid_utf8 ''a'' \<and> canonical_text ''a'' = ''a''
   \<and> canonical_text (CHR ''a'' # CHR 0xE2 # CHR 0x82 # ''b'')
       = CHR ''a'' # kUtf8Replacement @ ''b''
   \<and> valid_utf8 (CHR ''a'' # kUtf8Replacement @ ''b'')"
proof -
  have h: "valid_utf8 ''a''" using valid_seq [OF _ valid_nil, of "''a''"] by simp
  have e: "canonical_text (CHR ''a'' # CHR 0xE2 # CHR 0x82 # ''b'')
      = CHR ''a'' # kUtf8Replacement @ ''b''" by code_simp
  show ?thesis
    using h e canonical_text_contract [of "''a''"]
      canonical_text_contract [of "CHR ''a'' # CHR 0xE2 # CHR 0x82 # ''b''"] by simp
qed

declare canonical_text.simps [simp del]

lemma canonical_text_eq_Nil [simp]: "canonical_text s = [] \<longleftrightarrow> s = []"
  using canonical_text_length [of s] by (auto simp: canonical_text.simps)

end
