(* ===== verification/Domain_Types.thy ===== *)
theory Domain_Types
  imports Money
begin

text \<open>
  \<^verbatim>\<open>domain/enums.hpp\<close>, \<^verbatim>\<open>domain/enums.cpp\<close>, \<^verbatim>\<open>domain/types.hpp\<close> and
  \<^verbatim>\<open>domain/types.cpp\<close>: the broker-neutral data model.  Each enum is a datatype with the
  source's enumerators, each struct a record (its field names carry a short prefix, since record
  fields share one name space), each \<^verbatim>\<open>to_string\<close> a function to byte strings.
\<close>

datatype side = Buy | Sell

datatype order_type = Market | Limit | StopLoss | StopLossMarket

datatype product_kind = Intraday | Delivery | Margin | Normal

datatype order_state =
    Created | Validated | PendingSend | Sent | Acknowledged | PartiallyFilled | Filled
  | Rejected | Cancelled | Unknown | Reconciled | PartiallyPlaced | ManualInterventionRequired

fun order_state_to_string :: "order_state \<Rightarrow> string" where
  "order_state_to_string Created = ''CREATED''"
| "order_state_to_string Validated = ''VALIDATED''"
| "order_state_to_string PendingSend = ''PENDING_SEND''"
| "order_state_to_string Sent = ''SENT''"
| "order_state_to_string Acknowledged = ''ACKNOWLEDGED''"
| "order_state_to_string PartiallyFilled = ''PARTIALLY_FILLED''"
| "order_state_to_string Filled = ''FILLED''"
| "order_state_to_string Rejected = ''REJECTED''"
| "order_state_to_string Cancelled = ''CANCELLED''"
| "order_state_to_string Unknown = ''UNKNOWN''"
| "order_state_to_string Reconciled = ''RECONCILED''"
| "order_state_to_string PartiallyPlaced = ''PARTIALLY_PLACED''"
| "order_state_to_string ManualInterventionRequired = ''MANUAL_INTERVENTION_REQUIRED''"

fun side_to_string :: "side \<Rightarrow> string" where
  "side_to_string Buy = ''BUY''"
| "side_to_string Sell = ''SELL''"

fun order_type_to_string :: "order_type \<Rightarrow> string" where
  "order_type_to_string Market = ''MARKET''"
| "order_type_to_string Limit = ''LIMIT''"
| "order_type_to_string StopLoss = ''SL''"
| "order_type_to_string StopLossMarket = ''SL-M''"

fun product_to_string :: "product_kind \<Rightarrow> string" where
  "product_to_string Intraday = ''INTRADAY''"
| "product_to_string Delivery = ''DELIVERY''"
| "product_to_string Margin = ''MARGIN''"
| "product_to_string Normal = ''NORMAL''"

record instrument =
  ins_symbol :: string
  ins_token :: int64
  ins_exchange :: string
  ins_lot_size :: quantity
  ins_tick_size :: price
  ins_freeze_qty :: quantity
  ins_expiry :: string

record order_intent =
  oi_client_ref :: string
  oi_symbol :: string
  oi_side :: side
  oi_quantity :: quantity
  oi_price :: price
  oi_trigger_price :: "price option"
  oi_order_type :: order_type
  oi_product :: product_kind
  oi_strategy :: string

record order =
  ord_intent :: order_intent
  ord_state :: order_state
  ord_broker_order_id :: string
  ord_filled_qty :: quantity
  ord_avg_price :: price

record trade =
  tr_trade_id :: string
  tr_client_ref :: string
  tr_broker_order_id :: string
  tr_quantity :: quantity
  tr_price :: price

record position =
  pos_symbol :: string
  pos_net_qty :: quantity
  pos_avg_price :: price

definition instrument_to_string :: "instrument \<Rightarrow> string" where
  "instrument_to_string i =
     ''Instrument{symbol='' @ ins_symbol i @ '',token='' @ show_int (ins_token i)
     @ '',exchange='' @ ins_exchange i @ '',lot_size='' @ quantity_to_string (ins_lot_size i)
     @ '',tick_size='' @ price_to_string (ins_tick_size i)
     @ '',freeze_qty='' @ quantity_to_string (ins_freeze_qty i)
     @ '',expiry='' @ ins_expiry i @ ''}''"

definition order_intent_to_string :: "order_intent \<Rightarrow> string" where
  "order_intent_to_string i =
     ''OrderIntent{client_ref='' @ oi_client_ref i @ '',symbol='' @ oi_symbol i
     @ '',side='' @ side_to_string (oi_side i)
     @ '',quantity='' @ quantity_to_string (oi_quantity i)
     @ '',price='' @ price_to_string (oi_price i)
     @ '',trigger_price=''
     @ (case oi_trigger_price i of Some t \<Rightarrow> price_to_string t | None \<Rightarrow> ''none'')
     @ '',order_type='' @ order_type_to_string (oi_order_type i)
     @ '',product='' @ product_to_string (oi_product i)
     @ '',strategy='' @ oi_strategy i @ ''}''"

definition order_to_string :: "order \<Rightarrow> string" where
  "order_to_string r =
     ''Order{intent='' @ order_intent_to_string (ord_intent r)
     @ '',state='' @ order_state_to_string (ord_state r)
     @ '',broker_order_id='' @ ord_broker_order_id r
     @ '',filled_qty='' @ quantity_to_string (ord_filled_qty r)
     @ '',avg_price='' @ price_to_string (ord_avg_price r) @ ''}''"

definition trade_to_string :: "trade \<Rightarrow> string" where
  "trade_to_string t =
     ''Trade{trade_id='' @ tr_trade_id t @ '',client_ref='' @ tr_client_ref t
     @ '',broker_order_id='' @ tr_broker_order_id t
     @ '',quantity='' @ quantity_to_string (tr_quantity t)
     @ '',price='' @ price_to_string (tr_price t) @ ''}''"

definition position_to_string :: "position \<Rightarrow> string" where
  "position_to_string p =
     ''Position{symbol='' @ pos_symbol p @ '',net_qty='' @ quantity_to_string (pos_net_qty p)
     @ '',avg_price='' @ price_to_string (pos_avg_price p) @ ''}''"

section \<open>The names are unambiguous\<close>

lemma order_state_to_string_inject [simp]:
  "order_state_to_string a = order_state_to_string b \<longleftrightarrow> a = b"
  by (cases a; cases b) simp_all

lemma side_to_string_inject [simp]: "side_to_string a = side_to_string b \<longleftrightarrow> a = b"
  by (cases a; cases b) simp_all

lemma order_type_to_string_inject [simp]:
  "order_type_to_string a = order_type_to_string b \<longleftrightarrow> a = b"
  by (cases a; cases b) simp_all

lemma product_to_string_inject [simp]: "product_to_string a = product_to_string b \<longleftrightarrow> a = b"
  by (cases a; cases b) simp_all

end
