(* ===== verification/Sha256.thy ===== *)
theory Sha256
  imports Prelude
begin

text \<open>
  \<^verbatim>\<open>intentlog/sha256.hpp\<close> and \<^verbatim>\<open>intentlog/sha256.cpp\<close>: the vendored SHA-256, at its word
  width.  The hasher state is a record; the block buffer is the list of the bytes buffered so far
  (its length is \<^verbatim>\<open>buffer_len_\<close>).  The padding loop of \<^verbatim>\<open>hex()\<close> carries 64 units of fuel,
  which \<open>pad_loop_reaches_56\<close> shows is enough from every state the hasher can be in.
\<close>

type_synonym u32 = "32 word"
type_synonym u8 = "8 word"

definition kRoundConstants :: "u32 list" where
  "kRoundConstants =
    concat
     [[0x428a2f98, 0x71374491, 0xb5c0fbcf, 0xe9b5dba5, 0x3956c25b, 0x59f111f1, 0x923f82a4],
      [0xab1c5ed5, 0xd807aa98, 0x12835b01, 0x243185be, 0x550c7dc3, 0x72be5d74, 0x80deb1fe],
      [0x9bdc06a7, 0xc19bf174, 0xe49b69c1, 0xefbe4786, 0x0fc19dc6, 0x240ca1cc, 0x2de92c6f],
      [0x4a7484aa, 0x5cb0a9dc, 0x76f988da, 0x983e5152, 0xa831c66d, 0xb00327c8, 0xbf597fc7],
      [0xc6e00bf3, 0xd5a79147, 0x06ca6351, 0x14292967, 0x27b70a85, 0x2e1b2138, 0x4d2c6dfc],
      [0x53380d13, 0x650a7354, 0x766a0abb, 0x81c2c92e, 0x92722c85, 0xa2bfe8a1, 0xa81a664b],
      [0xc24b8b70, 0xc76c51a3, 0xd192e819, 0xd6990624, 0xf40e3585, 0x106aa070, 0x19a4c116],
      [0x1e376c08, 0x2748774c, 0x34b0bcb5, 0x391c0cb3, 0x4ed8aa4a, 0x5b9cca4f, 0x682e6ff3],
      [0x748f82ee, 0x78a5636f, 0x84c87814, 0x8cc70208, 0x90befffa, 0xa4506ceb, 0xbef9a3f7],
      [0xc67178f2]]"

definition rotr :: "u32 \<Rightarrow> nat \<Rightarrow> u32" where
  "rotr x n = drop_bit n x OR push_bit (32 - n) x"

record sha256 =
  sha_state :: "u32 list"
  sha_buffer :: "u8 list"
  sha_bit_len :: uint64

definition sha256_init :: sha256 where
  "sha256_init =
     \<lparr>sha_state = [0x6a09e667, 0xbb67ae85, 0x3c6ef372, 0xa54ff53a,
                   0x510e527f, 0x9b05688c, 0x1f83d9ab, 0x5be0cd19],
      sha_buffer = [], sha_bit_len = 0\<rparr>"

definition block_word :: "u8 list \<Rightarrow> nat \<Rightarrow> u32" where
  "block_word block i =
     push_bit 24 (ucast (block ! (i * 4))) OR push_bit 16 (ucast (block ! (i * 4 + 1)))
     OR push_bit 8 (ucast (block ! (i * 4 + 2))) OR ucast (block ! (i * 4 + 3))"

definition schedule_step :: "u32 list \<Rightarrow> nat \<Rightarrow> u32 list" where
  "schedule_step w i =
     (let s0 = rotr (w ! (i - 15)) 7 XOR rotr (w ! (i - 15)) 18 XOR drop_bit 3 (w ! (i - 15));
          s1 = rotr (w ! (i - 2)) 17 XOR rotr (w ! (i - 2)) 19 XOR drop_bit 10 (w ! (i - 2))
      in w @ [w ! (i - 16) + s0 + w ! (i - 7) + s1])"

definition schedule :: "u8 list \<Rightarrow> u32 list" where
  "schedule block = foldl schedule_step (map (block_word block) [0..<16]) [16..<64]"

fun round_step :: "u32 list \<Rightarrow> u32 list \<Rightarrow> nat \<Rightarrow> u32 list" where
  "round_step w [a, b, c, d, e, f, g, h] i =
     (let s1 = rotr e 6 XOR rotr e 11 XOR rotr e 25;
          ch = (e AND f) XOR (NOT e AND g);
          temp1 = h + s1 + ch + kRoundConstants ! i + w ! i;
          s0 = rotr a 2 XOR rotr a 13 XOR rotr a 22;
          maj = (a AND b) XOR (a AND c) XOR (b AND c);
          temp2 = s0 + maj
      in [temp1 + temp2, a, b, c, d + temp1, e, f, g])"
| "round_step w regs i = regs"

definition transform :: "u32 list \<Rightarrow> u8 list \<Rightarrow> u32 list" where
  "transform st block =
     (let w = schedule block
      in map2 (+) st (foldl (round_step w) st [0..<64]))"

definition update_byte :: "sha256 \<Rightarrow> u8 \<Rightarrow> sha256" where
  "update_byte h byte =
     (let buf = sha_buffer h @ [byte];
          h' = h\<lparr>sha_buffer := buf, sha_bit_len := sha_bit_len h + 8\<rparr>
      in if length buf = 64
         then h'\<lparr>sha_state := transform (sha_state h) buf, sha_buffer := []\<rparr>
         else h')"

definition update :: "sha256 \<Rightarrow> u8 list \<Rightarrow> sha256" where
  "update h bytes = foldl update_byte h bytes"

fun pad_loop :: "nat \<Rightarrow> sha256 \<Rightarrow> sha256" where
  "pad_loop 0 h = h"
| "pad_loop (Suc fuel) h =
     (if length (sha_buffer h) \<noteq> 56 then pad_loop fuel (update_byte h 0) else h)"

definition length_bytes :: "uint64 \<Rightarrow> u8 list" where
  "length_bytes total_bits = map (\<lambda>i. ucast (drop_bit (56 - i * 8) total_bits AND 0xff)) [0..<8]"

definition kHexDigits :: string where
  "kHexDigits = ''0123456789abcdef''"

definition hex_byte :: "u8 \<Rightarrow> string" where
  "hex_byte byte = [kHexDigits ! unat (drop_bit 4 byte AND 0x0f), kHexDigits ! unat (byte AND 0x0f)]"

definition hex_word :: "u32 \<Rightarrow> string" where
  "hex_word word = concat (map (\<lambda>shift. hex_byte (ucast (drop_bit (24 - shift * 8) word AND 0xff))) [0..<4])"

definition sha_hex :: "sha256 \<Rightarrow> string" where
  "sha_hex h =
     (let total_bits = sha_bit_len h;
          padded = pad_loop 64 (update_byte h 0x80);
          final = transform (sha_state padded) (sha_buffer padded @ length_bytes total_bits)
      in concat (map hex_word final))"

definition sha256_hex :: "string \<Rightarrow> string" where
  "sha256_hex data = sha_hex (update sha256_init (map (\<lambda>c. of_char c) data))"

section \<open>Well-formedness\<close>

definition sha_ok :: "sha256 \<Rightarrow> bool" where
  "sha_ok h \<longleftrightarrow> length (sha_state h) = 8 \<and> length (sha_buffer h) < 64"

lemma round_step_length [simp]: "length (round_step w regs i) = length regs"
  by (induction w regs i rule: round_step.induct) (simp_all add: Let_def)

lemma rounds_length: "length (foldl (round_step w) regs is) = length regs"
  by (induction "is" arbitrary: regs) simp_all

lemma transform_length [simp]: "length (transform st block) = length st"
  by (simp add: transform_def Let_def rounds_length)

lemma sha_ok_init: "sha_ok sha256_init"
  by (simp add: sha_ok_def sha256_init_def)

lemma sha_ok_update_byte: "sha_ok h \<Longrightarrow> sha_ok (update_byte h b)"
  by (auto simp: sha_ok_def update_byte_def Let_def)

lemma sha_ok_update: "sha_ok h \<Longrightarrow> sha_ok (update h bs)"
  by (induction bs arbitrary: h) (simp_all add: update_def sha_ok_update_byte)

text \<open>Hashing is incremental: feeding a concatenation is feeding its parts in turn.\<close>

lemma update_append: "update h (bs @ cs) = update (update h bs) cs"
  by (simp add: update_def)

text \<open>Distance, in bytes, of the buffer from the 56-byte mark, going round the block.\<close>

definition pad_gap :: "sha256 \<Rightarrow> nat" where
  "pad_gap h = (if length (sha_buffer h) \<le> 56 then 56 - length (sha_buffer h)
                else 120 - length (sha_buffer h))"

lemma pad_gap_step:
  "sha_ok h \<Longrightarrow> length (sha_buffer h) \<noteq> 56 \<Longrightarrow> Suc (pad_gap (update_byte h b)) = pad_gap h"
  by (auto simp: sha_ok_def pad_gap_def update_byte_def Let_def)

lemma pad_loop_reaches_56:
  assumes "sha_ok h" "pad_gap h \<le> fuel"
  shows "sha_ok (pad_loop fuel h) \<and> length (sha_buffer (pad_loop fuel h)) = 56"
  using assms
proof (induction fuel arbitrary: h)
  case 0
  then show ?case by (auto simp: pad_gap_def sha_ok_def split: if_splits)
next
  case (Suc fuel)
  show ?case
  proof (cases "length (sha_buffer h) = 56")
    case True
    with Suc.prems show ?thesis by simp
  next
    case False
    with Suc.prems pad_gap_step [of h 0] have "pad_gap (update_byte h 0) \<le> fuel" by simp
    with Suc.IH [OF sha_ok_update_byte] Suc.prems False show ?thesis by simp
  qed
qed

lemma pad_gap_bound: "sha_ok h \<Longrightarrow> pad_gap h \<le> 64"
  by (auto simp: sha_ok_def pad_gap_def)

section \<open>The digest\<close>

lemma hex_byte_props: "length (hex_byte b) = 2" "set (hex_byte b) \<subseteq> set kHexDigits"
proof -
  show "length (hex_byte b) = 2" by (simp add: hex_byte_def)
  have "unat (x AND 0x0f) < length kHexDigits" for x :: u8
  proof -
    have "unat (x AND 0x0f) \<le> unat (0x0f :: u8)"
      by (rule word_and_le1 [THEN word_le_nat_alt [THEN iffD1]])
    then show ?thesis by (simp add: kHexDigits_def)
  qed
  then show "set (hex_byte b) \<subseteq> set kHexDigits" by (simp add: hex_byte_def nth_mem)
qed

lemma hex_word_props: "length (hex_word w) = 8" "set (hex_word w) \<subseteq> set kHexDigits"
  using hex_byte_props by (auto simp: hex_word_def upt_conv_Cons)

lemma sha_hex_props:
  assumes "sha_ok h"
  shows "length (sha_hex h) = 64" "set (sha_hex h) \<subseteq> set kHexDigits"
proof -
  have "sha_ok (pad_loop 64 (update_byte h 0x80))"
    using pad_loop_reaches_56 [OF sha_ok_update_byte [OF assms] pad_gap_bound]
      sha_ok_update_byte [OF assms] by simp
  then have "length (transform (sha_state (pad_loop 64 (update_byte h 0x80))) bl) = 8" for bl
    by (simp add: sha_ok_def)
  then show "length (sha_hex h) = 64" "set (sha_hex h) \<subseteq> set kHexDigits"
    using hex_word_props by (auto simp: sha_hex_def Let_def length_concat comp_def sum_list_triv)
qed

lemma sha256_hex_props: "length (sha256_hex s) = 64" "set (sha256_hex s) \<subseteq> set kHexDigits"
  unfolding sha256_hex_def
  by (rule sha_hex_props, rule sha_ok_update, rule sha_ok_init)+

end
