(* ===== verification/Signal.thy ===== *)
theory Signal
  imports Domain_Types Sha256
begin

text \<open>
  The identity half of \<^verbatim>\<open>idempotency/idempotency.cpp\<close> and \<^verbatim>\<open>idempotency/uuid.cpp\<close>: the
  signal signature (the dedupe key of an order intent), client references
  \<open><strategy>-<sig8>-<uuid>\<close>, the slice references \<open><parent>#<k>\<close> and the version-4 UUID text.
  The index built on top of it is in theory \<open>Idempotency\<close>.
\<close>

section \<open>Signatures\<close>

definition kSep :: char where
  "kSep = CHR 0x1F"

definition defining_price_paise :: "order_intent \<Rightarrow> int64" where
  "defining_price_paise intent =
     (if oi_order_type intent = StopLossMarket then 0 else price_paise (oi_price intent))"

definition canonical_signature_input :: "order_intent \<Rightarrow> string" where
  "canonical_signature_input intent =
     (let s = ''strategy='' @ oi_strategy intent @ [kSep]
            @ ''symbol='' @ oi_symbol intent @ [kSep]
            @ ''side='' @ side_to_string (oi_side intent) @ [kSep]
            @ ''qty='' @ show_int (qty_value (oi_quantity intent)) @ [kSep]
            @ ''price='' @ show_int (defining_price_paise intent) @ [kSep]
            @ ''order_type='' @ order_type_to_string (oi_order_type intent) @ [kSep]
            @ ''product='' @ product_to_string (oi_product intent)
      in case oi_trigger_price intent of
           Some t \<Rightarrow> s @ [kSep] @ ''trigger='' @ show_int (price_paise t)
         | None \<Rightarrow> s)"

definition signal_signature :: "order_intent \<Rightarrow> string" where
  "signal_signature intent = sha256_hex (canonical_signature_input intent)"

definition sig8_of :: "string \<Rightarrow> string" where
  "sig8_of signature_hex =
     take (if length signature_hex < 8 then length signature_hex else 8) signature_hex"

section \<open>Client references\<close>

definition make_client_ref :: "string \<Rightarrow> string \<Rightarrow> string \<Rightarrow> string" where
  "make_client_ref strategy signature_hex uuid =
     strategy @ ''-'' @ sig8_of signature_hex @ ''-'' @ uuid"

definition child_ref :: "string \<Rightarrow> int \<Rightarrow> string" where
  "child_ref parent_client_ref k =
     (let kk = (if k < 1 then 1 else k) in parent_client_ref @ ''#'' @ show_int kk)"

text \<open>\<^verbatim>\<open>std::string_view::rfind\<close> of a character.\<close>

definition rfind_char :: "char \<Rightarrow> string \<Rightarrow> nat option" where
  "rfind_char c s =
     (let t = takeWhile (\<lambda>x. x \<noteq> c) (rev s)
      in if length t = length s then None else Some (length s - 1 - length t))"

definition is_child_ref :: "string \<Rightarrow> bool" where
  "is_child_ref client_ref =
     (case rfind_char (CHR ''#'') client_ref of
        None \<Rightarrow> False
      | Some pos \<Rightarrow> pos > 0 \<and> pos + 1 < length client_ref)"

definition parent_of :: "string \<Rightarrow> string" where
  "parent_of child_client_ref =
     (if \<not> is_child_ref child_client_ref then []
      else case rfind_char (CHR ''#'') child_client_ref of
             None \<Rightarrow> [] | Some pos \<Rightarrow> take pos child_client_ref)"

section \<open>UUID text\<close>

definition kHex :: string where
  "kHex = ''0123456789abcdef''"

definition append_hex :: "string \<Rightarrow> uint64 \<Rightarrow> nat \<Rightarrow> string" where
  "append_hex out value nibbles =
     out @ map (\<lambda>i. kHex ! unat (drop_bit (4 * i) value AND 0xF)) (rev [0..<nibbles])"

definition format_uuid_v4 :: "uint64 \<Rightarrow> uint64 \<Rightarrow> string" where
  "format_uuid_v4 hi0 lo0 =
     (let hi = (hi0 AND 0xFFFFFFFFFFFF0FFF) OR 0x0000000000004000;
          lo = (lo0 AND 0x3FFFFFFFFFFFFFFF) OR 0x8000000000000000;
          out = append_hex [] (drop_bit 32 hi AND 0xFFFFFFFF) 8 @ ''-'';
          out = append_hex out (drop_bit 16 hi AND 0xFFFF) 4 @ ''-'';
          out = append_hex out (hi AND 0xFFFF) 4 @ ''-'';
          out = append_hex out (drop_bit 48 lo AND 0xFFFF) 4 @ ''-''
      in append_hex out (lo AND 0xFFFFFFFFFFFF) 12)"

section \<open>The signature separates signals\<close>

text \<open>Two intents are the same signal when every order-defining field agrees; the price of an
  SL-M order is not order-defining.\<close>

definition same_signal :: "order_intent \<Rightarrow> order_intent \<Rightarrow> bool" where
  "same_signal a b \<longleftrightarrow>
     oi_strategy a = oi_strategy b \<and> oi_symbol a = oi_symbol b \<and> oi_side a = oi_side b \<and>
     oi_quantity a = oi_quantity b \<and> oi_order_type a = oi_order_type b \<and>
     oi_product a = oi_product b \<and> oi_trigger_price a = oi_trigger_price b \<and>
     (oi_order_type a = StopLossMarket \<or> oi_price a = oi_price b)"

definition sep_free :: "order_intent \<Rightarrow> bool" where
  "sep_free i \<longleftrightarrow> kSep \<notin> set (oi_strategy i) \<and> kSep \<notin> set (oi_symbol i)"

fun join_with :: "char \<Rightarrow> string list \<Rightarrow> string" where
  "join_with c [] = []"
| "join_with c [f] = f"
| "join_with c (f # g # fs) = f @ [c] @ join_with c (g # fs)"

lemma sep_in_join: "c \<in> set (join_with c (f # g # fs))"
  by simp

lemma join_with_inject:
  assumes "\<forall>f \<in> set fs. c \<notin> set f" "\<forall>g \<in> set gs. c \<notin> set g" "fs \<noteq> []" "gs \<noteq> []"
  shows "join_with c fs = join_with c gs \<longleftrightarrow> fs = gs"
  using assms
proof (induction c fs arbitrary: gs rule: join_with.induct)
  case (2 c f)
  then show ?case by (cases "(c, gs)" rule: join_with.cases) auto
next
  case (3 c f g fs)
  show ?case
  proof (cases "(c, gs)" rule: join_with.cases)
    case (3 c' f' g' gs')
    with "3.IH" [of "g' # gs'"] "3.prems" show ?thesis
      by (auto simp: append_sep_inject)
  qed (use "3.prems" in auto)
qed simp

definition signature_fields :: "order_intent \<Rightarrow> string list" where
  "signature_fields i =
     [''strategy='' @ oi_strategy i, ''symbol='' @ oi_symbol i, ''side='' @ side_to_string (oi_side i),
      ''qty='' @ show_int (qty_value (oi_quantity i)), ''price='' @ show_int (defining_price_paise i),
      ''order_type='' @ order_type_to_string (oi_order_type i),
      ''product='' @ product_to_string (oi_product i)]
     @ (case oi_trigger_price i of Some t \<Rightarrow> [''trigger='' @ show_int (price_paise t)] | None \<Rightarrow> [])"

lemma canonical_signature_input_join:
  "canonical_signature_input i = join_with kSep (signature_fields i)"
  by (simp add: canonical_signature_input_def signature_fields_def Let_def split: option.split)

lemma sep_not_digit: "kSep \<notin> set (show_int i)"
  using show_nat_digits [of "nat i"] show_nat_digits [of "nat (- i)"]
  by (auto simp: show_int_def kSep_def is_ascii_digit_def)

lemma sep_not_in_names:
  "kSep \<notin> set (side_to_string s)" "kSep \<notin> set (order_type_to_string t)"
  "kSep \<notin> set (product_to_string p)"
  by (cases s, simp_all add: kSep_def) (cases t, simp_all, (cases p, simp_all)+)

lemma signature_fields_sep_free:
  "sep_free i \<Longrightarrow> \<forall>f \<in> set (signature_fields i). kSep \<notin> set f"
  using sep_not_digit sep_not_in_names unfolding kSep_def
  by (auto simp: signature_fields_def sep_free_def kSep_def split: option.splits)

lemma signature_fields_inject: "signature_fields a = signature_fields b \<longleftrightarrow> same_signal a b"
  by (auto simp: signature_fields_def same_signal_def defining_price_paise_def
      quantity.expand price.expand split: option.splits)

text \<open>C9. Within separator-free strategy and symbol names (the byte \<open>0x1F\<close> never occurs in an
  identifier) the bytes that are hashed into the dedupe key coincide exactly when the two intents
  agree on every order-defining field: two different signals never share a pre-image, and the
  client reference, or the residual price of an SL-M order, never makes one signal look like two.\<close>

theorem signature_input_separates_signals:
  assumes "sep_free a" and "sep_free b"
  shows "canonical_signature_input a = canonical_signature_input b \<longleftrightarrow> same_signal a b"
proof -
  have "signature_fields i \<noteq> []" for i by (simp add: signature_fields_def)
  then show ?thesis
    unfolding canonical_signature_input_join signature_fields_inject [symmetric]
    by (intro join_with_inject signature_fields_sep_free assms)
qed

definition sample_intent :: order_intent where
  "sample_intent = \<lparr>oi_client_ref = ''r1'', oi_symbol = ''NIFTY'', oi_side = Buy,
     oi_quantity = Quantity 75, oi_price = Price 10050, oi_trigger_price = Some (Price 9900),
     oi_order_type = StopLossMarket, oi_product = Intraday, oi_strategy = ''alpha''\<rparr>"

text \<open>An SL-M re-derived with another residual price is the same signal; one armed at another
  trigger level is a different signal.\<close>

theorem signature_input_separates_signals_witness:
  "canonical_signature_input (sample_intent \<lparr>oi_price := Price 777, oi_client_ref := ''r2''\<rparr>)
     = canonical_signature_input sample_intent \<and>
   canonical_signature_input (sample_intent \<lparr>oi_trigger_price := Some (Price 9905)\<rparr>)
     \<noteq> canonical_signature_input sample_intent"
  using signature_input_separates_signals
      [of "sample_intent \<lparr>oi_price := Price 777, oi_client_ref := ''r2''\<rparr>" sample_intent]
    signature_input_separates_signals
      [of "sample_intent \<lparr>oi_trigger_price := Some (Price 9905)\<rparr>" sample_intent]
  by (simp add: sep_free_def same_signal_def sample_intent_def kSep_def)

section \<open>Slice references\<close>

lemma rfind_char_last: "c \<notin> set t \<Longrightarrow> rfind_char c (s @ c # t) = Some (length s)"
  by (simp add: rfind_char_def takeWhile_append)

lemma rfind_char_None_iff: "rfind_char c s = None \<longleftrightarrow> c \<notin> set s"
  using takeWhile_full [of "\<lambda>x. x \<noteq> c" "rev s"] by (auto simp: rfind_char_def Let_def)

lemma rfind_char_SomeD:
  assumes "rfind_char c s = Some p"
  shows "\<exists>t. s = take p s @ c # t \<and> c \<notin> set t \<and> p < length s"
proof -
  from assms have "c \<in> set s" using rfind_char_None_iff [of c s] by auto
  then obtain u t where s: "s = u @ c # t" "c \<notin> set t" using split_list_last by metis
  with assms have "p = length u" by (simp add: rfind_char_last)
  with s show ?thesis by auto
qed

lemma hash_not_in_show_nat: "CHR ''#'' \<notin> set (show_nat n)"
  using show_nat_digits [of n] by (auto simp: is_ascii_digit_def)

lemma child_ref_eq: "child_ref p k = p @ CHR ''#'' # show_nat (nat (max 1 k))"
  by (auto simp: child_ref_def show_int_def max_def)

lemma last_hash_inject:
  assumes "p @ CHR ''#'' # s = q @ CHR ''#'' # t" "CHR ''#'' \<notin> set s" "CHR ''#'' \<notin> set t"
  shows "p = q \<and> s = t"
proof -
  have "length p = length q"
    using arg_cong [OF assms(1), of "rfind_char CHR ''#''"] assms(2,3) by (simp add: rfind_char_last)
  with assms(1) show ?thesis by simp
qed

lemma child_ref_inject: "child_ref p k = child_ref q j \<longleftrightarrow> p = q \<and> max 1 k = max 1 j"
  using last_hash_inject [of p "show_nat (nat (max 1 k))" q "show_nat (nat (max 1 j))"]
  by (auto simp: child_ref_eq hash_not_in_show_nat)

lemma parent_of_split:
  assumes "q \<noteq> []" "t \<noteq> []" "CHR ''#'' \<notin> set t"
  shows "is_child_ref (q @ CHR ''#'' # t)" "parent_of (q @ CHR ''#'' # t) = q"
  using assms by (simp_all add: is_child_ref_def parent_of_def rfind_char_last)

lemma is_child_refE:
  assumes "is_child_ref r"
  obtains t where "r = parent_of r @ CHR ''#'' # t" "parent_of r \<noteq> []" "t \<noteq> []" "CHR ''#'' \<notin> set t"
proof -
  from assms obtain p where p: "rfind_char (CHR ''#'') r = Some p" "p > 0" "p + 1 < length r"
    by (auto simp: is_child_ref_def split: option.splits)
  then obtain t where t: "r = take p r @ CHR ''#'' # t" "CHR ''#'' \<notin> set t" "p < length r"
    using rfind_char_SomeD by blast
  have "parent_of r = take p r" using assms p by (simp add: parent_of_def)
  moreover have "take p r \<noteq> []" using p by auto
  moreover have "t \<noteq> []"
    using arg_cong [OF t(1), of length] p by auto
  ultimately show thesis using t that by simp
qed

lemma is_child_ref_iff:
  "is_child_ref r \<longleftrightarrow> (\<exists>q t. r = q @ CHR ''#'' # t \<and> q \<noteq> [] \<and> t \<noteq> [] \<and> CHR ''#'' \<notin> set t)"
  by (metis is_child_refE parent_of_split(1))

text \<open>The slice references are a bijective naming of (parent, slice): every \<open>child_ref\<close> of a
  non-empty parent is recognised as a slice reference and \<open>parent_of\<close> gives the parent back; a
  reference without a parent is not recognised; two slice references coincide exactly when parent
  and slice number (clamped to 1) do; and every recognised reference is its own parent, a \<open>'#'\<close>
  and a non-empty suffix.\<close>

theorem child_ref_roundtrip:
  "(p \<noteq> [] \<longrightarrow> is_child_ref (child_ref p k) \<and> parent_of (child_ref p k) = p)
   \<and> \<not> is_child_ref (child_ref [] k) \<and> parent_of (child_ref [] k) = []
   \<and> (child_ref p k = child_ref q j \<longleftrightarrow> p = q \<and> max 1 k = max 1 j)
   \<and> (is_child_ref r \<longrightarrow>
        (\<exists>t. r = parent_of r @ ''#'' @ t \<and> parent_of r \<noteq> [] \<and> t \<noteq> [] \<and> CHR ''#'' \<notin> set t))"
proof -
  have "\<not> is_child_ref (child_ref [] k)"
    using rfind_char_last [of "CHR ''#''" "show_nat (nat (max 1 k))" "[]"]
    by (simp add: child_ref_eq is_child_ref_def hash_not_in_show_nat)
  moreover have "p \<noteq> [] \<longrightarrow> is_child_ref (child_ref p k) \<and> parent_of (child_ref p k) = p"
    by (simp add: child_ref_eq parent_of_split hash_not_in_show_nat)
  moreover have "is_child_ref r \<longrightarrow>
      (\<exists>t. r = parent_of r @ ''#'' @ t \<and> parent_of r \<noteq> [] \<and> t \<noteq> [] \<and> CHR ''#'' \<notin> set t)"
    by (metis is_child_refE append_Cons append_Nil)
  moreover have "parent_of (child_ref [] k) = []" if "\<not> is_child_ref (child_ref [] k)"
    using that by (simp add: parent_of_def)
  ultimately show ?thesis unfolding child_ref_inject by blast
qed

theorem child_ref_roundtrip_witness:
  "is_child_ref (child_ref ''alpha-1'' 3) \<and> parent_of (child_ref ''alpha-1'' 3) = ''alpha-1''
   \<and> child_ref ''alpha-1'' 0 = child_ref ''alpha-1'' 1
   \<and> parent_of ''a#b#7'' = ''a#b''"
proof -
  have "parent_of ''a#b#7'' = ''a#b''" by code_simp
  then show ?thesis
    using child_ref_roundtrip [of "''alpha-1''" 3 "''alpha-1''" 3 "''a#b#7''"]
      child_ref_roundtrip [of "''alpha-1''" 0 "''alpha-1''" 1 "''a#b#7''"] by simp
qed

section \<open>UUIDs\<close>

lemma append_hex_append: "append_hex out v n = out @ append_hex [] v n"
  by (simp add: append_hex_def)

lemma append_hex_length [simp]: "length (append_hex out v n) = length out + n"
  by (simp add: append_hex_def)

lemma nibble_take_bit: "(v :: uint64) AND 0xF = take_bit 4 v"
  by (simp add: take_bit_eq_mask mask_eq_exp_minus_1)

lemma nibble_bound: "unat ((v :: uint64) AND 0xF) < 16"
  using take_bit_nat_less_exp [of 4 "unat v"]
  by (simp add: nibble_take_bit unsigned_take_bit_eq)

lemma append_hex_chars: "set (append_hex [] v n) \<subseteq> set kHex"
proof -
  have "length kHex = 16" by (simp add: kHex_def)
  then show ?thesis using nibble_bound by (auto simp: append_hex_def)
qed

lemma less_4_cases: "n < (4 :: nat) \<Longrightarrow> n = 0 \<or> n = 1 \<or> n = 2 \<or> n = 3"
  by linarith

lemma uuid_version_nibble:
  "drop_bit 12 (((h :: uint64) AND 0xFFFFFFFFFFFF0FFF OR 0x4000) AND 0xFFFF) AND 0xF = 4"
proof -
  have "take_bit 4 (drop_bit 12 ((h AND 0xFFFFFFFFFFFF0FFF OR 0x4000) AND 0xFFFF))
      = take_bit 4 (4 :: uint64)"
    by (rule bit_word_eqI) (auto simp: bit_take_bit_iff bit_simps dest!: less_4_cases)
  then show ?thesis by (simp add: nibble_take_bit)
qed

lemma uuid_masks:
  "(0x3FFFFFFFFFFFFFFF :: uint64) = mask 62" "(0x8000000000000000 :: uint64) = push_bit 63 1"
  "(0xFFFF :: uint64) = mask 16" "(0xF :: uint64) = mask 4" "(8 :: uint64) = push_bit 3 1"
  "(3 :: uint64) = mask 2"
  by (simp_all add: mask_eq_exp_minus_1 push_bit_eq_mult)

lemma uuid_variant_nibble:
  "drop_bit 12 (drop_bit 48 ((l :: uint64) AND 0x3FFFFFFFFFFFFFFF OR 0x8000000000000000) AND 0xFFFF)
     AND 0xF = 8 OR (drop_bit 60 l AND 3)"
proof (rule bit_word_eqI)
  fix n assume n: "n < LENGTH(64)"
  have "bit (8 :: uint64) n \<longleftrightarrow> n = 3"
    unfolding uuid_masks(5) bit_push_bit_iff bit_1_iff by auto
  moreover have "bit (0x8000000000000000 :: uint64) m \<longleftrightarrow> m = 63" for m
    unfolding uuid_masks(2) bit_push_bit_iff bit_1_iff by auto
  ultimately show "bit (drop_bit 12 (drop_bit 48 (l AND 0x3FFFFFFFFFFFFFFF OR 0x8000000000000000)
      AND 0xFFFF) AND 0xF) n \<longleftrightarrow> bit (8 OR (drop_bit 60 l AND 3)) n"
    unfolding uuid_masks(1) uuid_masks(3) uuid_masks(4) uuid_masks(6)
    by (simp only: bit_and_iff bit_or_iff bit_drop_bit_eq bit_mask_iff comp_def, cases "n < 4")
      ((drule less_4_cases, elim disjE; simp), simp)
qed

text \<open>The text of a UUID, one lemma: five hexadecimal groups of the RFC 4122 lengths.\<close>

lemma format_uuid_v4_groups:
  "format_uuid_v4 hi lo =
     append_hex [] (drop_bit 32 (hi AND 0xFFFFFFFFFFFF0FFF OR 0x4000) AND 0xFFFFFFFF) 8 @ ''-'' @
     append_hex [] (drop_bit 16 (hi AND 0xFFFFFFFFFFFF0FFF OR 0x4000) AND 0xFFFF) 4 @ ''-'' @
     append_hex [] ((hi AND 0xFFFFFFFFFFFF0FFF OR 0x4000) AND 0xFFFF) 4 @ ''-'' @
     append_hex [] (drop_bit 48 (lo AND 0x3FFFFFFFFFFFFFFF OR 0x8000000000000000) AND 0xFFFF) 4 @ ''-'' @
     append_hex [] ((lo AND 0x3FFFFFFFFFFFFFFF OR 0x8000000000000000) AND 0xFFFFFFFFFFFF) 12"
  unfolding format_uuid_v4_def Let_def
  by (simp only: append_hex_append [of "a @ b" for a b] append_assoc)

lemma append_hex_4_nth0: "append_hex [] v 4 ! 0 = kHex ! unat (drop_bit 12 v AND 0xF)"
  by (simp add: append_hex_def upt_rec)

text \<open>Every UUID text is well formed whatever 128 bits the engine draws: 36 characters, hyphens
  exactly at the offsets 8, 13, 18 and 23, lower-case hexadecimal digits elsewhere (so never the
  slice marker \<open>'#'\<close>), version digit \<open>4\<close>, and a variant digit that is one of \<open>8\<close>, \<open>9\<close>, \<open>a\<close>, \<open>b\<close>.\<close>

theorem uuid_v4_wellformed:
  "length (format_uuid_v4 hi lo) = 36
   \<and> map (\<lambda>i. format_uuid_v4 hi lo ! i) [8, 13, 18, 23] = ''----''
   \<and> format_uuid_v4 hi lo ! 14 = CHR ''4''
   \<and> format_uuid_v4 hi lo ! 19 \<in> set ''89ab''
   \<and> set (format_uuid_v4 hi lo) \<subseteq> set ''0123456789abcdef-''"
proof -
  define c where "c = append_hex [] ((hi AND 0xFFFFFFFFFFFF0FFF OR 0x4000) AND 0xFFFF) 4"
  define d where "d = append_hex []
    (drop_bit 48 (lo AND 0x3FFFFFFFFFFFFFFF OR 0x8000000000000000) AND 0xFFFF) 4"
  obtain a b e where f: "format_uuid_v4 hi lo = a @ ''-'' @ b @ ''-'' @ c @ ''-'' @ d @ ''-'' @ e"
    and len: "length a = 8" "length b = 4" "length e = 12"
    and hex: "set a \<subseteq> set kHex" "set b \<subseteq> set kHex" "set e \<subseteq> set kHex"
    by (rule that [OF format_uuid_v4_groups [of hi lo, folded c_def d_def]]) (simp_all add: append_hex_chars)
  have cd: "length c = 4" "length d = 4" "set c \<subseteq> set kHex" "set d \<subseteq> set kHex"
    by (simp_all add: c_def d_def append_hex_chars)
  have c0: "c ! 0 = kHex ! 4"
    unfolding c_def append_hex_4_nth0 uuid_version_nibble by simp
  have d0: "d ! 0 = kHex ! unat (8 OR (drop_bit 60 lo AND 3 :: uint64))"
    unfolding d_def append_hex_4_nth0 uuid_variant_nibble by simp
  have "drop_bit 60 lo AND 3 = take_bit 2 (drop_bit 60 lo)"
    by (simp add: take_bit_eq_mask mask_eq_exp_minus_1)
  then have "unat (drop_bit 60 lo AND 3 :: uint64) < 4"
    using take_bit_nat_less_exp [of 2 "unat (drop_bit 60 lo)"] by (simp add: unsigned_take_bit_eq)
  then have "(drop_bit 60 lo AND 3 :: uint64) \<in> {0, 1, 2, 3}"
    by (auto dest!: less_4_cases simp: word_eq_iff_unsigned [where 'a = nat])
  then have "d ! 0 \<in> set ''89ab''" using d0 by (auto simp: kHex_def)
  moreover have "format_uuid_v4 hi lo ! 14 = c ! 0" "format_uuid_v4 hi lo ! 19 = d ! 0"
    "map (\<lambda>i. format_uuid_v4 hi lo ! i) [8, 13, 18, 23] = ''----''"
    unfolding f using len cd(1,2) by (simp_all add: nth_append)
  moreover have "length (format_uuid_v4 hi lo) = 36" unfolding f using len cd(1,2) by simp
  moreover have "set (format_uuid_v4 hi lo) \<subseteq> set kHex \<union> set ''-''"
    unfolding f using hex cd(3,4) by auto
  moreover have "c ! 0 = CHR ''4''" using c0 by (simp add: kHex_def)
  moreover have "set kHex \<union> set ''-'' \<subseteq> set ''0123456789abcdef-''" by (simp add: kHex_def)
  ultimately show ?thesis by (intro conjI) (auto simp only: subset_trans)
qed

end
