(* ===== verification/Lifecycle.thy ===== *)
theory Lifecycle
  imports Signal
begin

text \<open>
  \<^verbatim>\<open>lifecycle/lifecycle.cpp\<close>: the order state machine.  \<open>fsm_apply\<close> folds one broker view into
  an order (terminal-absorbing, forward-progressing, legal transitions only), \<open>apply_child\<close> files
  a slice under its parent, \<open>fold_parent_state\<close> derives the parent's state from its slices.

  The two \<^verbatim>\<open>unordered_map\<close> members of \<^verbatim>\<open>LifecycleEngine\<close> are maps; the inner map of children is
  an association list, whose order the fold is proved not to depend on.  The second half defines
  the step relation of an order under arbitrary views and proves its invariants by rule induction.
\<close>

section \<open>The machine\<close>

record broker_view =
  bv_client_ref :: string
  bv_broker_order_id :: string
  bv_observed_state :: order_state
  bv_filled_qty :: quantity
  bv_avg_price :: price
  bv_ordering_key :: int64

datatype apply_outcome = Applied | DroppedStale | DroppedTerminal | NoChange

record lifecycle_engine =
  le_last_key :: "string \<rightharpoonup> int64"
  le_children_by_parent :: "string \<rightharpoonup> (string \<times> order_state) list"

definition lifecycle_init :: lifecycle_engine where
  "lifecycle_init = \<lparr>le_last_key = Map.empty, le_children_by_parent = Map.empty\<rparr>"

fun table_allows :: "order_state \<Rightarrow> order_state \<Rightarrow> bool" where
  "table_allows Created to_st = (to_st = Validated \<or> to_st = Rejected \<or> to_st = Unknown)"
| "table_allows Validated to_st = (to_st = PendingSend \<or> to_st = Rejected \<or> to_st = Unknown)"
| "table_allows PendingSend to_st = (to_st = Sent \<or> to_st = Rejected \<or> to_st = Unknown)"
| "table_allows Sent to_st =
     (to_st = Acknowledged \<or> to_st = PartiallyFilled \<or> to_st = Filled \<or> to_st = Rejected \<or>
      to_st = Cancelled \<or> to_st = Unknown)"
| "table_allows Acknowledged to_st =
     (to_st = PartiallyFilled \<or> to_st = Filled \<or> to_st = Rejected \<or> to_st = Cancelled \<or>
      to_st = Unknown)"
| "table_allows PartiallyFilled to_st =
     (to_st = PartiallyFilled \<or> to_st = Filled \<or> to_st = Cancelled \<or> to_st = Rejected \<or>
      to_st = Unknown)"
| "table_allows Filled to_st = False"
| "table_allows Rejected to_st = False"
| "table_allows Cancelled to_st = False"
| "table_allows Unknown to_st =
     (to_st = Acknowledged \<or> to_st = PartiallyFilled \<or> to_st = Filled \<or> to_st = Rejected \<or>
      to_st = Cancelled \<or> to_st = Reconciled \<or> to_st = PartiallyPlaced \<or>
      to_st = ManualInterventionRequired)"
| "table_allows Reconciled to_st =
     (to_st = Acknowledged \<or> to_st = PartiallyFilled \<or> to_st = Filled \<or> to_st = Rejected \<or>
      to_st = Cancelled \<or> to_st = Unknown \<or> to_st = ManualInterventionRequired)"
| "table_allows PartiallyPlaced to_st =
     (to_st = PartiallyPlaced \<or> to_st = PartiallyFilled \<or> to_st = Filled \<or> to_st = Cancelled \<or>
      to_st = Rejected \<or> to_st = Unknown \<or> to_st = ManualInterventionRequired)"
| "table_allows ManualInterventionRequired to_st = (to_st = Reconciled \<or> to_st = Cancelled)"

fun sent_means_still_working :: "order_state \<Rightarrow> bool" where
  "sent_means_still_working Sent = True"
| "sent_means_still_working Acknowledged = True"
| "sent_means_still_working PartiallyFilled = True"
| "sent_means_still_working Unknown = True"
| "sent_means_still_working Reconciled = True"
| "sent_means_still_working Created = False"
| "sent_means_still_working Validated = False"
| "sent_means_still_working PendingSend = False"
| "sent_means_still_working Filled = False"
| "sent_means_still_working Rejected = False"
| "sent_means_still_working Cancelled = False"
| "sent_means_still_working PartiallyPlaced = False"
| "sent_means_still_working ManualInterventionRequired = False"

definition canonical_observed :: "order_state \<Rightarrow> broker_view \<Rightarrow> order_state" where
  "canonical_observed from_st view =
     (if bv_observed_state view \<noteq> Sent \<or> \<not> sent_means_still_working from_st
      then bv_observed_state view
      else if qty_value (bv_filled_qty view) > 0 then PartiallyFilled else Acknowledged)"

fun apply_outcome_to_string :: "apply_outcome \<Rightarrow> string" where
  "apply_outcome_to_string Applied = ''APPLIED''"
| "apply_outcome_to_string DroppedStale = ''DROPPED_STALE''"
| "apply_outcome_to_string DroppedTerminal = ''DROPPED_TERMINAL''"
| "apply_outcome_to_string NoChange = ''NO_CHANGE''"

fun is_terminal :: "order_state \<Rightarrow> bool" where
  "is_terminal Filled = True"
| "is_terminal Rejected = True"
| "is_terminal Cancelled = True"
| "is_terminal Created = False"
| "is_terminal Validated = False"
| "is_terminal PendingSend = False"
| "is_terminal Sent = False"
| "is_terminal Acknowledged = False"
| "is_terminal PartiallyFilled = False"
| "is_terminal Unknown = False"
| "is_terminal Reconciled = False"
| "is_terminal PartiallyPlaced = False"
| "is_terminal ManualInterventionRequired = False"

definition is_valid_transition :: "order_state \<Rightarrow> order_state \<Rightarrow> bool" where
  "is_valid_transition from_st to_st = (if from_st = to_st then True else table_allows from_st to_st)"

text \<open>The five flags of the loop in \<open>fold_parent_state\<close>, updated child by child.\<close>

record fold_flags =
  any_unknown :: bool
  any_rejected :: bool
  all_filled :: bool
  all_cancelled :: bool
  all_terminal :: bool

definition fold_child :: "fold_flags \<Rightarrow> order_state \<Rightarrow> fold_flags" where
  "fold_child f child =
     (let f = (if child = Unknown then f \<lparr>any_unknown := True\<rparr> else f);
          f = (if child = Rejected then f \<lparr>any_rejected := True\<rparr> else f);
          f = (if child \<noteq> Filled then f \<lparr>all_filled := False\<rparr> else f);
          f = (if child \<noteq> Cancelled then f \<lparr>all_cancelled := False\<rparr> else f)
      in (if \<not> is_terminal child then f \<lparr>all_terminal := False\<rparr> else f))"

definition fold_parent_state :: "order_state list \<Rightarrow> order_state" where
  "fold_parent_state children =
     (if children = [] then Created
      else let f = foldl fold_child \<lparr>any_unknown = False, any_rejected = False, all_filled = True,
                     all_cancelled = True, all_terminal = True\<rparr> children in
        if any_unknown f then PartiallyPlaced
        else if any_rejected f then ManualInterventionRequired
        else if all_filled f then Filled
        else if all_cancelled f then Cancelled
        else if all_terminal f then PartiallyFilled
        else PartiallyPlaced)"

definition fold_children_map :: "(string \<times> order_state) list \<Rightarrow> order_state" where
  "fold_children_map children = fold_parent_state (map snd children)"

definition fsm_apply ::
    "lifecycle_engine \<Rightarrow> order \<Rightarrow> broker_view \<Rightarrow> apply_outcome \<times> lifecycle_engine \<times> order" where
  "fsm_apply eng order view =
     (if is_terminal (ord_state order) then (DroppedTerminal, eng, order)
      else if (case le_last_key eng (bv_client_ref view) of
                 Some k \<Rightarrow> bv_ordering_key view < k | None \<Rightarrow> False)
      then (DroppedStale, eng, order)
      else
        let observed = canonical_observed (ord_state order) view in
        if \<not> is_valid_transition (ord_state order) observed then (NoChange, eng, order)
        else
          let state_changes = (ord_state order \<noteq> observed);
              fill_advances = (bv_filled_qty view \<noteq> ord_filled_qty order
                \<or> bv_avg_price view \<noteq> ord_avg_price order
                \<or> (bv_broker_order_id view \<noteq> [] \<and>
                   bv_broker_order_id view \<noteq> ord_broker_order_id order));
              eng = eng \<lparr>le_last_key := (le_last_key eng)(bv_client_ref view \<mapsto> bv_ordering_key view)\<rparr>
          in if \<not> state_changes \<and> \<not> fill_advances then (NoChange, eng, order)
             else
               let order = order \<lparr>ord_state := observed, ord_filled_qty := bv_filled_qty view,
                                  ord_avg_price := bv_avg_price view\<rparr>;
                   order = (if bv_broker_order_id view \<noteq> []
                            then order \<lparr>ord_broker_order_id := bv_broker_order_id view\<rparr> else order)
               in (Applied, eng, order))"

fun assoc_update :: "'k \<Rightarrow> 'v \<Rightarrow> ('k \<times> 'v) list \<Rightarrow> ('k \<times> 'v) list" where
  "assoc_update k v [] = [(k, v)]"
| "assoc_update k v ((k', v') # xs) =
     (if k' = k then (k, v) # xs else (k', v') # assoc_update k v xs)"

definition apply_child ::
    "lifecycle_engine \<Rightarrow> string \<Rightarrow> string \<Rightarrow> order_state \<Rightarrow> order_state \<times> lifecycle_engine" where
  "apply_child eng parent_client_ref child_client_ref child_state =
     (let parent_key = (if is_child_ref child_client_ref then parent_of child_client_ref else []);
          parent_key = (if parent_key = [] then parent_client_ref else parent_key);
          children = (case le_children_by_parent eng parent_key of Some c \<Rightarrow> c | None \<Rightarrow> []);
          children = assoc_update child_client_ref child_state children
      in (fold_children_map children,
          eng \<lparr>le_children_by_parent := (le_children_by_parent eng)(parent_key \<mapsto> children)\<rparr>))"

definition last_key :: "lifecycle_engine \<Rightarrow> string \<Rightarrow> int64 option" where
  "last_key eng client_ref = le_last_key eng client_ref"

definition parent_state :: "lifecycle_engine \<Rightarrow> string \<Rightarrow> order_state option" where
  "parent_state eng parent_client_ref =
     (case le_children_by_parent eng parent_client_ref of
        None \<Rightarrow> None | Some children \<Rightarrow> Some (fold_children_map children))"

section \<open>One view\<close>

text \<open>What it takes for a view to be believed: the order is live, the view is not older than the
  last believed one, and its canonical state is a legal successor.\<close>

definition stale :: "lifecycle_engine \<Rightarrow> broker_view \<Rightarrow> bool" where
  "stale eng v = (case le_last_key eng (bv_client_ref v) of
                    Some k \<Rightarrow> bv_ordering_key v < k | None \<Rightarrow> False)"

definition believed :: "lifecycle_engine \<Rightarrow> order \<Rightarrow> broker_view \<Rightarrow> bool" where
  "believed eng ord v \<longleftrightarrow> \<not> is_terminal (ord_state ord) \<and> \<not> stale eng v \<and>
     is_valid_transition (ord_state ord) (canonical_observed (ord_state ord) v)"

text \<open>The order a believed view describes.\<close>

definition overlay :: "order \<Rightarrow> broker_view \<Rightarrow> order" where
  "overlay ord v = ord \<lparr>ord_state := canonical_observed (ord_state ord) v,
     ord_filled_qty := bv_filled_qty v, ord_avg_price := bv_avg_price v,
     ord_broker_order_id := (if bv_broker_order_id v = [] then ord_broker_order_id ord
                             else bv_broker_order_id v)\<rparr>"

definition advance_key :: "lifecycle_engine \<Rightarrow> broker_view \<Rightarrow> lifecycle_engine" where
  "advance_key eng v =
     eng \<lparr>le_last_key := (le_last_key eng)(bv_client_ref v \<mapsto> bv_ordering_key v)\<rparr>"

lemma order_eqI:
  fixes a b :: order
  assumes "ord_intent a = ord_intent b" "ord_state a = ord_state b"
    "ord_broker_order_id a = ord_broker_order_id b" "ord_filled_qty a = ord_filled_qty b"
    "ord_avg_price a = ord_avg_price b"
  shows "a = b"
  using assms by (cases a, cases b) simp

lemma overlay_unchanged_iff:
  "overlay ord v = ord \<longleftrightarrow>
     ord_state ord = canonical_observed (ord_state ord) v \<and> bv_filled_qty v = ord_filled_qty ord \<and>
     bv_avg_price v = ord_avg_price ord \<and>
     (bv_broker_order_id v = [] \<or> bv_broker_order_id v = ord_broker_order_id ord)"
  by (cases ord) (auto simp: overlay_def)

lemma fsm_apply_believed:
  assumes "believed eng ord v"
  shows "fsm_apply eng ord v =
    (if overlay ord v = ord then NoChange else Applied, advance_key eng v, overlay ord v)"
proof (cases "overlay ord v = ord")
  case True
  with assms have "fsm_apply eng ord v = (NoChange, advance_key eng v, ord)"
    by (simp add: fsm_apply_def believed_def overlay_unchanged_iff advance_key_def Let_def
        flip: stale_def)
  with True show ?thesis by simp
next
  case False
  with assms have "fsm_apply eng ord v = (Applied, advance_key eng v, overlay ord v)"
    unfolding overlay_unchanged_iff
    by (auto simp: fsm_apply_def believed_def advance_key_def overlay_def Let_def simp flip: stale_def)
  with False show ?thesis by simp
qed

lemma fsm_apply_refused:
  assumes "\<not> believed eng ord v"
  shows "fsm_apply eng ord v =
    (if is_terminal (ord_state ord) then DroppedTerminal
     else if stale eng v then DroppedStale else NoChange, eng, ord)"
  using assms by (auto simp: fsm_apply_def believed_def Let_def simp flip: stale_def)

lemmas fsm_apply_cases = fsm_apply_believed fsm_apply_refused

text \<open>The apply contract.  A view is either believed or refused.  A refused view changes
  nothing at all: neither the order nor the engine (so a refused jump never raises the key and
  never makes a later legal view look stale), and the outcome names the first rule that refused
  it.  A believed view overwrites the order with exactly what it carries, keeping the intent and
  never erasing a known broker id with an empty one, and makes its key the high-water mark; the
  outcome is \<open>Applied\<close> exactly when that changed the order.\<close>

theorem fsm_apply_contract:
  "fsm_apply eng ord v =
     (if believed eng ord v
      then (if overlay ord v = ord then NoChange else Applied, advance_key eng v, overlay ord v)
      else (if is_terminal (ord_state ord) then DroppedTerminal
            else if stale eng v then DroppedStale else NoChange, eng, ord))"
  by (simp add: fsm_apply_cases)

lemma advance_key_not_stale [simp]: "\<not> stale (advance_key eng v) v"
  by (simp add: stale_def advance_key_def)

lemma advance_key_idem [simp]: "advance_key (advance_key eng v) v = advance_key eng v"
  by (simp add: advance_key_def)

lemma overlay_sel [simp]:
  "ord_intent (overlay ord v) = ord_intent ord"
  "ord_state (overlay ord v) = canonical_observed (ord_state ord) v"
  "ord_filled_qty (overlay ord v) = bv_filled_qty v"
  "ord_avg_price (overlay ord v) = bv_avg_price v"
  by (simp_all add: overlay_def)

lemma canonical_observed_idem:
  assumes "is_valid_transition s (canonical_observed s v)" "\<not> is_terminal s"
    and "\<not> (s = PendingSend \<and> bv_observed_state v = Sent)"
  shows "canonical_observed (canonical_observed s v) v = canonical_observed s v"
  using assms by (cases s) (auto simp: canonical_observed_def is_valid_transition_def split: if_splits)

text \<open>Redelivery.  Applying the same view a second time changes neither the order nor the
  engine, with one exception: when the first application takes a \<open>PendingSend\<close> order to \<open>Sent\<close>,
  the second reads the very same view as "still working" and moves the order on to
  \<open>Acknowledged\<close> or \<open>PartiallyFilled\<close>.\<close>

theorem fsm_apply_redelivery:
  assumes "fsm_apply eng ord v = (out, eng', ord')"
  shows "if believed eng ord v \<and> ord_state ord = PendingSend \<and> bv_observed_state v = Sent
         then fsm_apply eng' ord' v =
           (Applied, eng', ord' \<lparr>ord_state := (if qty_value (bv_filled_qty v) > 0
                                                then PartiallyFilled else Acknowledged)\<rparr>)
         else snd (fsm_apply eng' ord' v) = (eng', ord')"
proof (cases "believed eng ord v")
  case False
  with assms have "eng' = eng" "ord' = ord" by (auto simp: fsm_apply_refused)
  with False show ?thesis by (simp add: fsm_apply_refused)
next
  case True
  with assms have e: "eng' = advance_key eng v" and r: "ord' = overlay ord v"
    by (auto simp: fsm_apply_believed)
  show ?thesis
  proof (cases "ord_state ord = PendingSend \<and> bv_observed_state v = Sent")
    case special: True
    let ?s = "if qty_value (bv_filled_qty v) > 0 then PartiallyFilled else Acknowledged"
    have sent: "ord_state ord' = Sent" using special r by (simp add: canonical_observed_def)
    then have obs: "canonical_observed (ord_state ord') v = ?s"
      using special by (simp add: canonical_observed_def)
    have "believed eng' ord' v"
      unfolding believed_def obs using sent e by (simp add: is_valid_transition_def)
    moreover have o: "overlay ord' v = ord' \<lparr>ord_state := ?s\<rparr>"
      using obs by (intro order_eqI) (simp_all add: overlay_def r)
    moreover have "overlay ord' v \<noteq> ord'"
      using sent obs by (auto simp: overlay_unchanged_iff)
    ultimately show ?thesis using True special by (simp add: fsm_apply_believed e)
  next
    case False
    then have c: "canonical_observed (ord_state ord') v = ord_state ord'"
      using True canonical_observed_idem [of "ord_state ord" v] by (simp add: believed_def r)
    have "overlay ord' v = ord'"
      using c by (intro order_eqI) (simp_all add: overlay_def r)
    then show ?thesis
      using False by (cases "believed eng' ord' v") (simp_all add: fsm_apply_cases e)
  qed
qed

definition sample_order :: order where
  "sample_order = \<lparr>ord_intent = sample_intent, ord_state = PendingSend, ord_broker_order_id = [],
     ord_filled_qty = Quantity 0, ord_avg_price = Price 0\<rparr>"

definition sent_view :: broker_view where
  "sent_view = \<lparr>bv_client_ref = ''r1'', bv_broker_order_id = ''B7'', bv_observed_state = Sent,
     bv_filled_qty = Quantity 0, bv_avg_price = Price 0, bv_ordering_key = 5\<rparr>"

theorem fsm_apply_redelivery_witness:
  "(case fsm_apply lifecycle_init sample_order sent_view of
      (out, eng', ord') \<Rightarrow> out = Applied \<and> ord_state ord' = Sent \<and>
        ord_state (snd (snd (fsm_apply eng' ord' sent_view))) = Acknowledged)
   \<and> (case fsm_apply lifecycle_init (sample_order \<lparr>ord_state := Unknown\<rparr>) sent_view of
        (out, eng', ord') \<Rightarrow> out = Applied \<and> snd (fsm_apply eng' ord' sent_view) = (eng', ord'))"
proof -
  let ?r1 = "fsm_apply lifecycle_init sample_order sent_view"
  let ?r2 = "fsm_apply lifecycle_init (sample_order \<lparr>ord_state := Unknown\<rparr>) sent_view"
  have "believed lifecycle_init sample_order sent_view"
    by (simp add: believed_def lifecycle_init_def sample_order_def sent_view_def stale_def
        is_valid_transition_def canonical_observed_def)
  moreover have "fst ?r1 = Applied" "fst ?r2 = Applied" "ord_state (snd (snd ?r1)) = Sent"
    by (simp_all add: fsm_apply_def lifecycle_init_def sample_order_def sent_view_def
        is_valid_transition_def canonical_observed_def Let_def)
  ultimately show ?thesis
    using fsm_apply_redelivery [of lifecycle_init sample_order sent_view "fst ?r1" "fst (snd ?r1)"
        "snd (snd ?r1)"]
      fsm_apply_redelivery [of lifecycle_init "sample_order \<lparr>ord_state := Unknown\<rparr>" sent_view
        "fst ?r2" "fst (snd ?r2)" "snd (snd ?r2)"]
    by (auto simp: sample_order_def sent_view_def split: prod.splits)
qed

section \<open>The transition table\<close>

text \<open>The table as the graph the dispatcher and the reconciler rely on.  The terminal states are
  exactly the states with no successor; every live state except \<open>ManualInterventionRequired\<close> can
  become \<open>Unknown\<close>; \<open>ManualInterventionRequired\<close> is left only to \<open>Reconciled\<close> or \<open>Cancelled\<close>, and
  \<open>Reconciled\<close> is entered only from \<open>Unknown\<close> or \<open>ManualInterventionRequired\<close>; the happy path is
  legal step by step; and the states before the send are never re-entered: \<open>Created\<close> by nothing,
  and \<open>Validated\<close>, \<open>PendingSend\<close>, \<open>Sent\<close> only from the state just before them.\<close>

theorem transition_table_shape:
  "(is_terminal s \<longleftrightarrow> (\<forall>t. \<not> table_allows s t))
   \<and> (table_allows s Unknown \<longleftrightarrow>
        \<not> is_terminal s \<and> s \<noteq> ManualInterventionRequired \<and> s \<noteq> Unknown)
   \<and> (table_allows ManualInterventionRequired s \<longleftrightarrow> s = Reconciled \<or> s = Cancelled)
   \<and> (table_allows s Reconciled \<longleftrightarrow> s = Unknown \<or> s = ManualInterventionRequired)
   \<and> list_all2 table_allows
       [Created, Validated, PendingSend, Sent, Acknowledged, PartiallyFilled]
       [Validated, PendingSend, Sent, Acknowledged, PartiallyFilled, Filled]
   \<and> \<not> table_allows s Created
   \<and> (table_allows s Validated \<longleftrightarrow> s = Created)
   \<and> (table_allows s PendingSend \<longleftrightarrow> s = Validated)
   \<and> (table_allows s Sent \<longleftrightarrow> s = PendingSend)"
proof -
  have "is_terminal s \<longleftrightarrow> (\<forall>t. \<not> table_allows s t)"
    by (cases s) (auto intro: exI [of _ Cancelled] exI [of _ Rejected])
  then show ?thesis by (cases s) simp_all
qed

section \<open>Sequences of views\<close>

text \<open>An order and the engine under an arbitrary interleaving of views and slice updates.\<close>

inductive fsm_step :: "lifecycle_engine \<times> order \<Rightarrow> lifecycle_engine \<times> order \<Rightarrow> bool" where
  view_step: "fsm_apply eng ord v = (out, eng', ord') \<Longrightarrow> fsm_step (eng, ord) (eng', ord')"
| child_step: "apply_child eng p c s = (st, eng') \<Longrightarrow> fsm_step (eng, ord) (eng', ord)"

inductive_cases fsm_stepE: "fsm_step (eng, ord) (eng', ord')"

abbreviation fsm_run :: "lifecycle_engine \<times> order \<Rightarrow> lifecycle_engine \<times> order \<Rightarrow> bool" where
  "fsm_run \<equiv> fsm_step\<^sup>*\<^sup>*"

definition reached_broker :: "order_state \<Rightarrow> bool" where
  "reached_broker s \<longleftrightarrow> s \<notin> {Created, Validated, PendingSend}"

text \<open>What one step keeps; each conjunct is transitive, so it lifts to runs.\<close>

definition fsm_progress :: "lifecycle_engine \<times> order \<Rightarrow> lifecycle_engine \<times> order \<Rightarrow> bool" where
  "fsm_progress = (\<lambda>(eng, ord) (eng', ord').
     ord_intent ord' = ord_intent ord
     \<and> (is_terminal (ord_state ord) \<longrightarrow> ord' = ord)
     \<and> (\<forall>r k. last_key eng r = Some k \<longrightarrow> (\<exists>k'. last_key eng' r = Some k' \<and> k \<le> k'))
     \<and> table_allows\<^sup>*\<^sup>* (ord_state ord) (ord_state ord')
     \<and> (ord_broker_order_id ord \<noteq> [] \<longrightarrow> ord_broker_order_id ord' \<noteq> [])
     \<and> (reached_broker (ord_state ord) \<longrightarrow>
          reached_broker (ord_state ord') \<and> (ord_state ord' = Sent \<longrightarrow> ord_state ord = Sent)))"

lemma fsm_progress_refl: "fsm_progress x x"
  by (auto simp: fsm_progress_def)

lemma fsm_progress_trans:
  assumes "fsm_progress x y" and "fsm_progress y z" shows "fsm_progress x z"
proof -
  obtain e1 o1 e2 o2 e3 o3 where eq: "x = (e1, o1)" "y = (e2, o2)" "z = (e3, o3)"
    by (metis surj_pair)
  have "\<exists>k''. last_key e3 r = Some k'' \<and> k \<le> k''" if "last_key e1 r = Some k" for r k
    using assms that unfolding fsm_progress_def eq by simp (meson order_trans)
  moreover have "table_allows\<^sup>*\<^sup>* (ord_state o1) (ord_state o3)"
    using assms unfolding fsm_progress_def eq by (auto intro: rtranclp_trans)
  ultimately show ?thesis
    using assms unfolding fsm_progress_def eq by auto
qed

lemma valid_transition_reached:
  assumes "is_valid_transition s (canonical_observed s v)" "reached_broker s" "\<not> is_terminal s"
  shows "reached_broker (canonical_observed s v)"
    "canonical_observed s v = Sent \<Longrightarrow> s = Sent"
  using assms
  by (cases s; auto simp: canonical_observed_def is_valid_transition_def reached_broker_def
      split: if_splits)+

lemma fsm_step_progress: "fsm_step x y \<Longrightarrow> fsm_progress x y"
proof (induction rule: fsm_step.induct)
  case (view_step eng ord v out eng' ord')
  show ?case
  proof (cases "believed eng ord v")
    case True
    with view_step have eq: "eng' = advance_key eng v" "ord' = overlay ord v"
      by (auto simp: fsm_apply_believed)
    have "\<exists>k'. last_key eng' r = Some k' \<and> k \<le> k'" if "last_key eng r = Some k" for r k
      using True that by (auto simp: eq last_key_def advance_key_def believed_def stale_def)
    moreover have "table_allows\<^sup>*\<^sup>* (ord_state ord) (ord_state ord')"
      using True by (auto simp: eq believed_def is_valid_transition_def split: if_splits)
    moreover have "reached_broker (ord_state ord) \<longrightarrow> reached_broker (ord_state ord')
        \<and> (ord_state ord' = Sent \<longrightarrow> ord_state ord = Sent)"
      using True valid_transition_reached [of "ord_state ord" v]
      unfolding believed_def eq overlay_sel by blast
    ultimately show ?thesis
      using True by (simp add: fsm_progress_def eq believed_def) (simp add: overlay_def)
  next
    case False
    with view_step have "eng' = eng" "ord' = ord" by (auto simp: fsm_apply_refused)
    then show ?thesis by (simp add: fsm_progress_refl)
  qed
next
  case (child_step eng p c s st eng' ord)
  then have "le_last_key eng' = le_last_key eng" by (auto simp: apply_child_def Let_def)
  then show ?case by (simp add: fsm_progress_def last_key_def)
qed

text \<open>C10. Whatever sequence of views (duplicated, reordered, contradictory) and slice updates
  arrives: a terminal order never changes again, not in any field; its intent never changes; its
  state moves only along edges of the table; the believed ordering key of every order never goes
  back and is never forgotten; a broker order id once known is never lost; and an order that has
  reached the broker never returns to a pre-send state nor re-enters \<open>Sent\<close>.\<close>

theorem fsm_run_safe:
  assumes "fsm_run (eng, ord) (eng', ord')"
  shows "ord_intent ord' = ord_intent ord
     \<and> (is_terminal (ord_state ord) \<longrightarrow> ord' = ord)
     \<and> (\<forall>r k. last_key eng r = Some k \<longrightarrow> (\<exists>k'. last_key eng' r = Some k' \<and> k \<le> k'))
     \<and> table_allows\<^sup>*\<^sup>* (ord_state ord) (ord_state ord')
     \<and> (ord_broker_order_id ord \<noteq> [] \<longrightarrow> ord_broker_order_id ord' \<noteq> [])
     \<and> (reached_broker (ord_state ord) \<longrightarrow>
          reached_broker (ord_state ord') \<and> (ord_state ord' = Sent \<longrightarrow> ord_state ord = Sent))"
proof -
  from assms have "fsm_progress (eng, ord) (eng', ord')"
    by (induction rule: rtranclp_induct)
      (auto intro: fsm_progress_refl fsm_progress_trans fsm_step_progress)
  then show ?thesis by (simp add: fsm_progress_def)
qed

text \<open>A filled order hit by a late cancel view and by a slice update.\<close>

theorem fsm_run_safe_witness:
  "let filled = sample_order \<lparr>ord_state := Filled\<rparr>;
       late = sent_view \<lparr>bv_observed_state := Cancelled, bv_ordering_key := 99\<rparr>;
       (_, eng', ord') = fsm_apply lifecycle_init filled late;
       (_, eng'') = apply_child eng' ''r1'' ''r1#1'' Rejected
   in is_terminal (ord_state filled) \<and> fsm_run (lifecycle_init, filled) (eng'', ord') \<and> ord' = filled"
proof -
  let ?f = "sample_order \<lparr>ord_state := Filled\<rparr>"
  let ?v = "sent_view \<lparr>bv_observed_state := Cancelled, bv_ordering_key := 99\<rparr>"
  obtain out eng' ord' where a: "fsm_apply lifecycle_init ?f ?v = (out, eng', ord')"
    by (metis surj_pair)
  obtain st eng'' where c: "apply_child eng' ''r1'' ''r1#1'' Rejected = (st, eng'')"
    by (metis surj_pair)
  have run: "fsm_run (lifecycle_init, ?f) (eng'', ord')"
    using view_step [OF a] child_step [OF c] by (meson converse_rtranclp_into_rtranclp r_into_rtranclp)
  have "is_terminal (ord_state ?f)" by simp
  with run fsm_run_safe [OF run] show ?thesis by (simp add: a c)
qed

section \<open>Parents and slices\<close>

lemma fold_child_eq:
  "fold_child f x =
     \<lparr>any_unknown = (any_unknown f \<or> x = Unknown), any_rejected = (any_rejected f \<or> x = Rejected),
      all_filled = (all_filled f \<and> x = Filled), all_cancelled = (all_cancelled f \<and> x = Cancelled),
      all_terminal = (all_terminal f \<and> is_terminal x)\<rparr>"
  by (cases f) (simp add: fold_child_def Let_def)

lemma fold_flags_foldl:
  "foldl fold_child f xs =
     \<lparr>any_unknown = (any_unknown f \<or> Unknown \<in> set xs),
      any_rejected = (any_rejected f \<or> Rejected \<in> set xs),
      all_filled = (all_filled f \<and> set xs \<subseteq> {Filled}),
      all_cancelled = (all_cancelled f \<and> set xs \<subseteq> {Cancelled}),
      all_terminal = (all_terminal f \<and> (\<forall>x \<in> set xs. is_terminal x))\<rparr>"
proof (induction xs arbitrary: f)
  case (Cons x xs)
  show ?case unfolding foldl_Cons Cons.IH by (auto simp: fold_child_eq)
qed simp

lemma fold_parent_state_set:
  "fold_parent_state xs =
     (if xs = [] then Created
      else if Unknown \<in> set xs then PartiallyPlaced
      else if Rejected \<in> set xs then ManualInterventionRequired
      else if set xs \<subseteq> {Filled} then Filled
      else if set xs \<subseteq> {Cancelled} then Cancelled
      else if \<forall>x \<in> set xs. is_terminal x then PartiallyFilled
      else PartiallyPlaced)"
  unfolding fold_parent_state_def Let_def fold_flags_foldl by simp

lemma fold_unknown: "Unknown \<in> set xs \<Longrightarrow> fold_parent_state xs = PartiallyPlaced"
  by (auto simp: fold_parent_state_set)

lemma terminal_mixed:
  assumes "\<forall>x \<in> S. is_terminal x" "Rejected \<notin> S" "\<not> S \<subseteq> {Filled}" "\<not> S \<subseteq> {Cancelled}"
  shows "S = {Filled, Cancelled}"
proof -
  have "x = Filled \<or> x = Cancelled" if "x \<in> S" for x
    using assms(1,2) that by (cases x) auto
  then show ?thesis using assms(3,4) by blast
qed

text \<open>The fold does not depend on the iteration order of the child map, nor on repetitions, and
  its terminal verdicts are exact: a parent is \<open>Filled\<close> only when every slice is, \<open>Cancelled\<close> only
  when every slice is; an unresolved slice always keeps the parent \<open>PartiallyPlaced\<close>; a refused
  slice always surfaces, as \<open>ManualInterventionRequired\<close> unless an unresolved one masks it; and
  \<open>PartiallyFilled\<close> means that every slice is terminal, some filled and some cancelled.\<close>

theorem fold_parent_state_spec:
  "(set xs = set ys \<longrightarrow> fold_parent_state xs = fold_parent_state ys)
   \<and> (fold_parent_state xs = Filled \<longleftrightarrow> xs \<noteq> [] \<and> (\<forall>x \<in> set xs. x = Filled))
   \<and> (fold_parent_state xs = Cancelled \<longleftrightarrow> xs \<noteq> [] \<and> (\<forall>x \<in> set xs. x = Cancelled))
   \<and> (Unknown \<in> set xs \<longrightarrow> fold_parent_state xs = PartiallyPlaced)
   \<and> (fold_parent_state xs = ManualInterventionRequired \<longleftrightarrow> Rejected \<in> set xs \<and> Unknown \<notin> set xs)
   \<and> (fold_parent_state xs = PartiallyFilled \<longleftrightarrow> set xs = {Filled, Cancelled})
   \<and> (fold_parent_state xs = Created \<longleftrightarrow> xs = [])"
proof (intro conjI)
  show "set xs = set ys \<longrightarrow> fold_parent_state xs = fold_parent_state ys"
  proof
    assume eq: "set xs = set ys"
    then have "xs = [] \<longleftrightarrow> ys = []" by auto
    with eq show "fold_parent_state xs = fold_parent_state ys"
      unfolding fold_parent_state_set by simp
  qed
  show "fold_parent_state xs = PartiallyFilled \<longleftrightarrow> set xs = {Filled, Cancelled}"
  proof
    assume "fold_parent_state xs = PartiallyFilled"
    then show "set xs = {Filled, Cancelled}"
      unfolding fold_parent_state_set by (intro terminal_mixed) (simp_all split: if_splits)
  next
    assume eq: "set xs = {Filled, Cancelled}"
    then have "xs \<noteq> []" by (metis empty_not_insert list.set(1))
    with eq show "fold_parent_state xs = PartiallyFilled" unfolding fold_parent_state_set by simp
  qed
  show "fold_parent_state xs = Filled \<longleftrightarrow> xs \<noteq> [] \<and> (\<forall>x \<in> set xs. x = Filled)"
    by (auto simp: fold_parent_state_set subset_iff split: if_splits)
  show "fold_parent_state xs = Cancelled \<longleftrightarrow> xs \<noteq> [] \<and> (\<forall>x \<in> set xs. x = Cancelled)"
    by (cases xs) (auto simp: fold_parent_state_set subset_iff split: if_splits)
qed (auto simp: fold_parent_state_set split: if_splits)

theorem fold_parent_state_spec_witness:
  "fold_parent_state [Filled, Cancelled, Filled] = fold_parent_state [Cancelled, Filled]
   \<and> fold_parent_state [Rejected, Unknown, Filled] = PartiallyPlaced"
  using fold_parent_state_spec [of "[Filled, Cancelled, Filled]" "[Cancelled, Filled]"]
    fold_parent_state_spec [of "[Rejected, Unknown, Filled]" "[]"] by auto

lemma map_of_assoc_update: "map_of (assoc_update k v xs) = (map_of xs)(k \<mapsto> v)"
  by (induction k v xs rule: assoc_update.induct) (auto simp: fun_eq_iff)

lemma distinct_assoc_update:
  "distinct (map fst xs) \<Longrightarrow> distinct (map fst (assoc_update k v xs))"
proof -
  have "set (map fst (assoc_update k v xs)) = insert k (set (map fst xs))" for xs
    by (induction k v xs rule: assoc_update.induct) auto
  then show "distinct (map fst xs) \<Longrightarrow> ?thesis"
    by (induction k v xs rule: assoc_update.induct) auto
qed

text \<open>\<open>apply_child\<close> files a slice under the parent its own reference names, whatever parent
  the caller passed; the value it returns is what \<open>parent_state\<close> reports afterwards, which is the
  fold over the slices known so far with this one's state replaced, and no other parent moves.\<close>

theorem apply_child_parent_state:
  assumes "apply_child eng p c s = (st, eng')"
  shows "(let q = (if is_child_ref c then parent_of c else p) in
           parent_state eng' q = Some st
           \<and> (\<exists>cs. le_children_by_parent eng' q = Some cs
                \<and> map_of cs = (case le_children_by_parent eng q of
                                  Some old \<Rightarrow> (map_of old)(c \<mapsto> s) | None \<Rightarrow> [c \<mapsto> s]))
           \<and> (\<forall>r. r \<noteq> q \<longrightarrow> parent_state eng' r = parent_state eng r)
           \<and> (s = Unknown \<longrightarrow> st = PartiallyPlaced))"
proof -
  define q where "q = (if is_child_ref c then parent_of c else p)"
  define old where "old = (case le_children_by_parent eng q of Some x \<Rightarrow> x | None \<Rightarrow> [])"
  have "parent_of c \<noteq> []" if "is_child_ref c" using is_child_refE [OF that] by metis
  then have a: "st = fold_children_map (assoc_update c s old)"
    "le_children_by_parent eng' = (le_children_by_parent eng)(q \<mapsto> assoc_update c s old)"
    using assms by (auto simp: apply_child_def Let_def q_def old_def)
  have "(c, s) \<in> set (assoc_update c s old)"
    by (rule map_of_SomeD) (simp add: map_of_assoc_update)
  then have "s \<in> set (map snd (assoc_update c s old))" by force
  then have "s = Unknown \<longrightarrow> st = PartiallyPlaced"
    unfolding a fold_children_map_def using fold_unknown by blast
  moreover have "map_of (assoc_update c s old) = (case le_children_by_parent eng q of
      Some old \<Rightarrow> (map_of old)(c \<mapsto> s) | None \<Rightarrow> [c \<mapsto> s])"
    by (simp add: map_of_assoc_update old_def split: option.split)
  ultimately show ?thesis
    unfolding q_def [symmetric] Let_def by (simp add: parent_state_def a)
qed

theorem apply_child_parent_state_witness:
  "let (st, eng') = apply_child lifecycle_init ''other'' ''par#2'' Unknown
   in st = PartiallyPlaced \<and> parent_state eng' ''par'' = Some st \<and> parent_state eng' ''other'' = None"
proof -
  obtain st eng' where a: "apply_child lifecycle_init ''other'' ''par#2'' Unknown = (st, eng')"
    by (metis surj_pair)
  have "is_child_ref ''par#2''" "parent_of ''par#2'' = ''par''" by code_simp+
  moreover have "parent_state lifecycle_init r = None" for r
    by (simp add: parent_state_def lifecycle_init_def)
  ultimately show ?thesis using apply_child_parent_state [OF a] by (simp add: a Let_def)
qed

end
