(* ===== verification/Hash_Chain.thy ===== *)
theory Hash_Chain
  imports Sha256 Utf8
begin

text \<open>
  What the two append-only logs of the program, the intent log and the ledger, have in common: every
  record carries the hash of its predecessor and the hash of its own contents.  The interface is
  stated once; the logs interpret it on their own records.
\<close>

lemma ascii_hex_hash: "list_all is_ascii (sha256_hex s)"
proof -
  have "list_all is_ascii kHexDigits" by (simp add: kHexDigits_def)
  then show ?thesis using sha256_hex_props(2) [of s] by (auto simp: list_all_iff)
qed

text \<open>\<open>linked p n r\<close>: record \<open>r\<close> is a valid record number \<open>n\<close> after a record of hash \<open>p\<close>.\<close>

fun chain_of :: "(string \<Rightarrow> int \<Rightarrow> 'r \<Rightarrow> bool) \<Rightarrow> ('r \<Rightarrow> string) \<Rightarrow> string \<Rightarrow> int \<Rightarrow> 'r list \<Rightarrow> bool" where
  "chain_of linked hash_of p n [] = True"
| "chain_of linked hash_of p n (r # rs) =
     (linked p n r \<and> chain_of linked hash_of (hash_of r) (n + 1) rs)"

text \<open>The hash a chain ends with.\<close>

definition head_of :: "('r \<Rightarrow> string) \<Rightarrow> string \<Rightarrow> 'r list \<Rightarrow> string" where
  "head_of hash_of p rs = (if rs = [] then p else hash_of (last rs))"

lemma head_of_simps [simp]:
  "head_of hash_of p [] = p" "head_of hash_of p (rs @ [r]) = hash_of r"
  "head_of hash_of p (r # rs) = head_of hash_of (hash_of r) rs"
  by (simp_all add: head_of_def)

lemma chain_of_append:
  "chain_of linked hash_of p n (rs @ qs) \<longleftrightarrow>
     chain_of linked hash_of p n rs \<and> chain_of linked hash_of (head_of hash_of p rs) (n + int (length rs)) qs"
  by (induction rs arbitrary: p n) (simp_all add: add.assoc)

definition collision :: "('r \<Rightarrow> string) \<Rightarrow> 'r \<Rightarrow> 'r \<Rightarrow> bool" where
  "collision preimage a b \<longleftrightarrow> preimage a \<noteq> preimage b \<and> sha256_hex (preimage a) = sha256_hex (preimage b)"

locale hash_chain =
  fixes linked :: "string \<Rightarrow> int \<Rightarrow> 'r \<Rightarrow> bool" and preimage :: "'r \<Rightarrow> string" and hash_of :: "'r \<Rightarrow> string"
  assumes hash_linked: "linked p n r \<Longrightarrow> hash_of r = sha256_hex (preimage r)"
    and preimage_inject: "linked p n r \<Longrightarrow> linked p' n r' \<Longrightarrow> length p = length p'
      \<Longrightarrow> preimage r = preimage r' \<Longrightarrow> p = p' \<and> r = r'"
begin

lemma linked_agree:
  assumes "linked p n r" "linked p' n r'" "length p = length p'" "hash_of r = hash_of r'"
  shows "p = p' \<and> r = r' \<or> collision preimage r r'"
  using assms hash_linked [OF assms(1)] hash_linked [OF assms(2)] preimage_inject [OF assms(1-3)]
  by (auto simp: collision_def)

text \<open>Two chains of one length that end in one hash are the same chain, or exhibit a collision.\<close>

lemma chain_agree:
  assumes "chain_of linked hash_of p n rs" "chain_of linked hash_of p' n rs'"
    and "length p = length p'" "length rs = length rs'" "rs \<noteq> []"
    and "head_of hash_of p rs = head_of hash_of p' rs'"
  shows "p = p' \<and> rs = rs' \<or> (\<exists>a \<in> set rs. \<exists>b \<in> set rs'. collision preimage a b)"
  using assms
proof (induction rs arbitrary: p p' n rs')
  case (Cons r rs)
  obtain r' ss where rs': "rs' = r' # ss" using Cons.prems(4) by (cases rs') auto
  have link: "linked p n r" "linked p' n r'" using Cons.prems(1,2) rs' by simp_all
  have len: "length (hash_of r) = length (hash_of r')"
    using hash_linked [OF link(1)] hash_linked [OF link(2)] sha256_hex_props(1) by simp
  show ?case
  proof (cases "rs = []")
    case True
    then have "hash_of r = hash_of r'" "ss = []" using Cons.prems(4,6) rs' by simp_all
    then show ?thesis using linked_agree [OF link Cons.prems(3)] True rs' by auto
  next
    case False
    then have "hash_of r = hash_of r' \<and> rs = ss \<or> (\<exists>a \<in> set rs. \<exists>b \<in> set ss. collision preimage a b)"
      using Cons.IH [of "hash_of r" "n + 1" "hash_of r'" ss] Cons.prems rs' len by simp
    then show ?thesis using linked_agree [OF link Cons.prems(3)] rs' by auto
  qed
qed simp

end

end
