(* ===== verification/Json.thy ===== *)
theory Json
  imports Prelude Utf8 "HOL-Library.Sublist"
begin

text \<open>
  The JSON library the program links (a third-party package) as a parameter: values, a compact
  serialiser and a non-throwing parser.  \<open>json_ok\<close> names what the program relies on, for the flat
  objects it writes; the second half gives a concrete codec that satisfies it, so that every
  theorem with that hypothesis applies to something.

  A number with a fraction or an exponent is carried as the integer its C++ cast yields, which is
  all the program reads of one.
\<close>

datatype json =
    JNull | JBool bool | JInt int | JFloat int | JStr string
  | JArr "json list" | JObj "(string \<times> json) list"

record json_lib =
  jl_dump :: "json \<Rightarrow> string"
  jl_parse :: "string \<Rightarrow> json option"

text \<open>Typed reads.  \<open>json_value_*\<close> is \<^verbatim>\<open>basic_json::value(key, default)\<close> on an object: the default
  when the key is absent, the converted value otherwise; a value of the wrong type makes it throw,
  which is \<open>None\<close> here.\<close>

definition cast_int64 :: "int \<Rightarrow> int64" where
  "cast_int64 i = sint (word_of_int i :: 64 word)"

definition cast_int32 :: "int \<Rightarrow> int" where
  "cast_int32 i = sint (word_of_int i :: 32 word)"

definition json_value_int64 :: "(string \<times> json) list \<Rightarrow> string \<Rightarrow> int64 \<Rightarrow> int64 option" where
  "json_value_int64 fs key dflt =
     (case map_of fs key of
        None \<Rightarrow> Some dflt
      | Some (JInt i) \<Rightarrow> Some (cast_int64 i)
      | Some (JFloat i) \<Rightarrow> Some (cast_int64 i)
      | Some _ \<Rightarrow> None)"

definition json_value_int :: "(string \<times> json) list \<Rightarrow> string \<Rightarrow> int \<Rightarrow> int option" where
  "json_value_int fs key dflt =
     (case map_of fs key of
        None \<Rightarrow> Some dflt
      | Some (JInt i) \<Rightarrow> Some (cast_int32 i)
      | Some (JFloat i) \<Rightarrow> Some (cast_int32 i)
      | Some (JBool b) \<Rightarrow> Some (if b then 1 else 0)
      | Some _ \<Rightarrow> None)"

definition json_value_string :: "(string \<times> json) list \<Rightarrow> string \<Rightarrow> string \<Rightarrow> string option" where
  "json_value_string fs key dflt =
     (case map_of fs key of
        None \<Rightarrow> Some dflt
      | Some (JStr s) \<Rightarrow> Some s
      | Some _ \<Rightarrow> None)"

section \<open>What the program relies on\<close>

abbreviation newline :: char where
  "newline \<equiv> CHR 0x0A"

lemma takeWhile_line: "newline \<notin> set l \<Longrightarrow> takeWhile (\<lambda>c. c \<noteq> newline) (l @ newline # rest) = l"
  by (subst takeWhile_append2) auto

lemma takeWhile_all_line: "newline \<notin> set l \<Longrightarrow> takeWhile (\<lambda>c. c \<noteq> newline) l = l"
  by (simp add: takeWhile_eq_all_conv) auto

definition json_scalar :: "json \<Rightarrow> bool" where
  "json_scalar v = (case v of JInt i \<Rightarrow> in_i64 i | JStr s \<Rightarrow> True | _ \<Rightarrow> False)"

text \<open>A flat object: distinct ASCII keys, integers of 64 bits or byte strings as values.\<close>

definition flat_object :: "(string \<times> json) list \<Rightarrow> bool" where
  "flat_object fs \<longleftrightarrow> distinct (map fst fs) \<and> (\<forall>(k, v) \<in> set fs. list_all is_ascii k \<and> json_scalar v)"

text \<open>A value that survives the round trip: the replacing serialiser changes only ill-formed text.\<close>

definition json_clean :: "json \<Rightarrow> bool" where
  "json_clean v = (case v of JStr s \<Rightarrow> valid_utf8 s | _ \<Rightarrow> True)"

definition json_ok :: "json_lib \<Rightarrow> bool" where
  "json_ok lib \<longleftrightarrow> (\<forall>fs. flat_object fs \<longrightarrow>
     (let out = jl_dump lib (JObj fs) in
        out \<noteq> [] \<and> newline \<notin> set out \<and> valid_utf8 out
        \<and> (\<exists>gs. jl_parse lib out = Some (JObj gs)
              \<and> (\<forall>k. map_of fs k = None \<longrightarrow> map_of gs k = None)
              \<and> (\<forall>k v. map_of fs k = Some v \<and> json_clean v \<longrightarrow> map_of gs k = Some v))
        \<and> (\<forall>p gs. strict_prefix p out \<longrightarrow> jl_parse lib p \<noteq> Some (JObj gs))))"

lemma json_okD:
  assumes "json_ok lib" "flat_object fs"
  shows "jl_dump lib (JObj fs) \<noteq> []" "newline \<notin> set (jl_dump lib (JObj fs))"
    "valid_utf8 (jl_dump lib (JObj fs))"
    "strict_prefix p (jl_dump lib (JObj fs)) \<Longrightarrow> jl_parse lib p \<noteq> Some (JObj hs)"
    and "\<exists>gs. jl_parse lib (jl_dump lib (JObj fs)) = Some (JObj gs)
          \<and> (\<forall>k. map_of fs k = None \<longrightarrow> map_of gs k = None)
          \<and> (\<forall>k v. map_of fs k = Some v \<and> json_clean v \<longrightarrow> map_of gs k = Some v)"
  using assms unfolding json_ok_def Let_def by blast+

section \<open>A codec that satisfies the contract\<close>

text \<open>Flat objects only: braces around comma-terminated fields, every byte of a key or a text as two
  letters, integers in decimal.\<close>

definition nib :: "nat \<Rightarrow> char" where
  "nib n = char_of (97 + n)"

definition enc_byte :: "char \<Rightarrow> string" where
  "enc_byte c = [nib (of_char c div 16), nib (of_char c mod 16)]"

definition enc_bytes :: "string \<Rightarrow> string" where
  "enc_bytes s = concat (map enc_byte s)"

fun dec_bytes :: "string \<Rightarrow> string" where
  "dec_bytes (a # b # s) = char_of ((of_char a - 97) * 16 + (of_char b - (97 :: nat))) # dec_bytes s"
| "dec_bytes _ = []"

fun enc_field :: "string \<times> json \<Rightarrow> string" where
  "enc_field (k, JInt i) = enc_bytes k @ '':#'' @ show_int i @ '',''"
| "enc_field (k, JStr s) = enc_bytes k @ '':$'' @ enc_bytes s @ '',''"
| "enc_field (k, _) = []"

definition sample_dump :: "json \<Rightarrow> string" where
  "sample_dump v = (case v of JObj fs \<Rightarrow> ''{'' @ concat (map enc_field fs) @ ''}'' | _ \<Rightarrow> ''null'')"

definition read_int :: "string \<Rightarrow> int" where
  "read_int s = (case s of c # cs \<Rightarrow> if c = CHR ''-'' then - int (digits_val cs)
                                      else int (digits_val (c # cs)) | [] \<Rightarrow> 0)"

definition dec_field :: "string \<Rightarrow> string \<times> json" where
  "dec_field f =
     (let k = takeWhile (\<lambda>c. c \<noteq> CHR '':'') f; r = drop (length k + 1) f in
      (dec_bytes k, if take 1 r = ''#'' then JInt (read_int (drop 1 r)) else JStr (dec_bytes (drop 1 r))))"

function dec_fields :: "string \<Rightarrow> (string \<times> json) list" where
  "dec_fields s = (if s = [] then []
     else let f = takeWhile (\<lambda>c. c \<noteq> CHR '','') s
          in dec_field f # dec_fields (drop (length f + 1) s))"
  by pat_completeness auto
termination by (relation "measure length") auto

declare dec_fields.simps [simp del]

definition sample_parse :: "string \<Rightarrow> json option" where
  "sample_parse s =
     (if s \<noteq> [] \<and> hd s = CHR ''{'' \<and> last s = CHR ''}'' then Some (JObj (dec_fields (butlast (tl s))))
      else None)"

definition sample_json :: json_lib where
  "sample_json = \<lparr>jl_dump = sample_dump, jl_parse = sample_parse\<rparr>"

lemma dec_enc_bytes [simp]: "dec_bytes (enc_bytes s) = s"
proof (induction s)
  case (Cons c s)
  have "of_char c < (256 :: nat)" by simp
  then have "of_char c div 16 < (16 :: nat)" by linarith
  then have "char_of ((of_char c div 16) * 16 + of_char c mod 16 :: nat) = c" by simp
  then show ?case using Cons \<open>of_char c div 16 < (16 :: nat)\<close>
    by (simp add: enc_bytes_def enc_byte_def nib_def of_char_of)
qed (simp add: enc_bytes_def)

lemma of_char_nib: "n < 16 \<Longrightarrow> of_char (nib n) = (97 + n :: nat)"
  by (simp add: nib_def of_char_of)

lemma enc_bytes_chars: "c \<in> set (enc_bytes s) \<Longrightarrow> 97 \<le> (of_char c :: nat) \<and> (of_char c :: nat) < 113"
proof -
  have "(of_char x :: nat) div 16 < 16" for x :: char
  proof -
    have "(of_char x :: nat) < 256" by simp
    then show ?thesis by linarith
  qed
  then show "c \<in> set (enc_bytes s) \<Longrightarrow> ?thesis"
    by (auto simp: enc_bytes_def enc_byte_def of_char_nib)
qed

lemma show_int_chars: "c \<in> set (show_int i) \<Longrightarrow> c = CHR ''-'' \<or> is_ascii_digit c"
  using show_nat_digits by (auto simp: show_int_def split: if_splits)

lemma read_show_int [simp]: "read_int (show_int i) = i"
proof (cases "i < 0")
  case False
  then have "\<exists>c cs. show_int i = c # cs \<and> c \<noteq> CHR ''-''"
    using show_nat_nonempty [of "nat i"] minus_not_in_show_nat [of "nat i"]
    by (cases "show_nat (nat i)") (auto simp: show_int_def)
  moreover have "digits_val (show_int i) = nat i" using False by (simp add: show_int_def)
  ultimately show ?thesis using False by (auto simp: read_int_def)
qed (simp add: read_int_def show_int_def)

lemma enc_bytes_no: "(of_char c :: nat) < 97 \<or> 113 \<le> (of_char c :: nat) \<Longrightarrow> c \<notin> set (enc_bytes s)"
  using enc_bytes_chars [of c s] by auto

lemma show_int_no:
  "c \<noteq> CHR ''-'' \<Longrightarrow> \<not> is_ascii_digit c \<Longrightarrow> c \<notin> set (show_int i)"
  using show_int_chars by blast

definition enc_core :: "string \<times> json \<Rightarrow> string" where
  "enc_core f = butlast (enc_field f)"

lemma enc_field_core:
  assumes "json_scalar v"
  shows "enc_field (k, v) = enc_core (k, v) @ '',''" "CHR '','' \<notin> set (enc_core (k, v))"
    "CHR ''}'' \<notin> set (enc_field (k, v))" "list_all is_ascii (enc_field (k, v))"
    "newline \<notin> set (enc_field (k, v))" "dec_field (enc_core (k, v)) = (k, v)"
proof -
  obtain t b where e: "enc_field (k, v) = enc_bytes k @ '':'' @ t # b @ '',''"
    and t: "t = CHR ''#'' \<and> (\<exists>i. v = JInt i \<and> b = show_int i) \<or> t = CHR ''$'' \<and> (\<exists>s. v = JStr s \<and> b = enc_bytes s)"
    using assms by (cases v) (auto simp: json_scalar_def)
  have core: "enc_core (k, v) = enc_bytes k @ CHR '':'' # t # b"
    by (simp add: enc_core_def e butlast_append)
  show "enc_field (k, v) = enc_core (k, v) @ '',''" using e core by simp
  have b: "c \<notin> set b" if "c = CHR '','' \<or> c = CHR ''}'' \<or> c = newline" for c
    using t that by (auto dest: enc_bytes_chars show_int_chars simp: is_ascii_digit_def)
  have k: "c \<notin> set (enc_bytes k)" if "c = CHR '','' \<or> c = CHR ''}'' \<or> c = newline \<or> c = CHR '':''" for c
    using that by (auto dest: enc_bytes_chars)
  show "CHR '','' \<notin> set (enc_core (k, v))" using b k t by (auto simp: core)
  show "CHR ''}'' \<notin> set (enc_field (k, v))" "newline \<notin> set (enc_field (k, v))"
    using b k t by (auto simp: e)
  have "list_all is_ascii (enc_bytes s)" for s
    by (auto simp: list_all_iff  dest!: enc_bytes_chars)
  moreover have "list_all is_ascii (show_int i)" for i
    by (auto simp: list_all_iff  is_ascii_digit_def dest!: show_int_chars)
  ultimately show "list_all is_ascii (enc_field (k, v))"
    using t by (auto simp: e )
  have "takeWhile (\<lambda>c. c \<noteq> CHR '':'') (enc_core (k, v)) = enc_bytes k"
    unfolding core using k by (subst takeWhile_append2) auto
  then show "dec_field (enc_core (k, v)) = (k, v)"
    using t by (auto simp: dec_field_def Let_def core)
qed

lemma dec_fields_enc:
  assumes "\<forall>(k, v) \<in> set fs. json_scalar v"
  shows "dec_fields (concat (map enc_field fs)) = fs"
  using assms
proof (induction fs)
  case (Cons f fs)
  obtain k v where f: "f = (k, v)" "json_scalar v" using Cons.prems by (cases f) auto
  let ?rest = "concat (map enc_field fs)"
  have tw: "takeWhile (\<lambda>c. c \<noteq> CHR '','') (enc_core f @ CHR '','' # ?rest) = enc_core f"
    using enc_field_core(2) [OF f(2)] f(1) by (subst takeWhile_append2) auto
  have "concat (map enc_field (f # fs)) = enc_core f @ CHR '','' # ?rest"
    using enc_field_core(1) [OF f(2)] f(1) by simp
  then have "dec_fields (concat (map enc_field (f # fs))) = dec_field (enc_core f) # dec_fields ?rest"
    by (simp add: dec_fields.simps [of "enc_core f @ _"] tw Let_def)
  then show ?case using Cons f enc_field_core(6) [OF f(2)] by simp
qed (simp add: dec_fields.simps)

lemma valid_utf8_ascii: "list_all is_ascii s \<Longrightarrow> valid_utf8 s"
proof (induction s)
  case (Cons c s)
  then have "wf_seq [c]" by (simp add: )
  then show ?case using valid_seq [of "[c]" s] Cons by simp
qed (rule valid_nil)

lemma sample_json_ok: "json_ok sample_json"
  unfolding json_ok_def
proof (intro allI impI)
  fix fs assume flat: "flat_object fs"
  define body where "body = concat (map enc_field fs)"
  define out where "out = jl_dump sample_json (JObj fs)"
  have sc: "\<forall>(k, v) \<in> set fs. json_scalar v" using flat by (auto simp: flat_object_def)
  have t: "out = CHR ''{'' # body @ ''}''"
    by (simp add: out_def sample_json_def sample_dump_def body_def)
  have nb: "CHR ''}'' \<notin> set body" "newline \<notin> set body" "list_all is_ascii body"
    using enc_field_core(3-5) sc unfolding body_def by (fastforce simp: list_all_iff)+
  have "jl_parse sample_json out = Some (JObj fs)"
    using dec_fields_enc [OF sc] by (simp add: t sample_json_def sample_parse_def flip: body_def)
  moreover have "jl_parse sample_json p \<noteq> Some (JObj gs)" if "strict_prefix p out" for p gs
  proof -
    from that have "prefix p (CHR ''{'' # body)" unfolding t
      by (metis append_Cons prefix_snoc strict_prefix_def)
    then have "set p \<subseteq> set (CHR ''{'' # body)" by (rule set_mono_prefix)
    then have "CHR ''}'' \<notin> set p" using nb(1) by auto
    then have "p = [] \<or> last p \<noteq> CHR ''}''" by (metis last_in_set)
    then show ?thesis by (auto simp: sample_json_def sample_parse_def)
  qed
  ultimately show "let out = jl_dump sample_json (JObj fs) in
      out \<noteq> [] \<and> newline \<notin> set out \<and> valid_utf8 out
      \<and> (\<exists>gs. jl_parse sample_json out = Some (JObj gs)
            \<and> (\<forall>k. map_of fs k = None \<longrightarrow> map_of gs k = None)
            \<and> (\<forall>k v. map_of fs k = Some v \<and> json_clean v \<longrightarrow> map_of gs k = Some v))
      \<and> (\<forall>p gs. strict_prefix p out \<longrightarrow> jl_parse sample_json p \<noteq> Some (JObj gs))"
    unfolding out_def [symmetric] Let_def
    using nb valid_utf8_ascii [of out] by (auto simp: t)
qed

end
