(* ===== verification/Intent_Log.thy ===== *)
theory Intent_Log
  imports Errors Hash_Chain Json
begin

text \<open>
  \<^verbatim>\<open>intentlog/intent_log.cpp\<close>: the write-ahead, hash-chained, append-only log.

  The state of an \<^verbatim>\<open>IntentLog\<close> is a record whose field \<open>il_file\<close> holds the bytes of the file on
  disk.  What the operating system does with a write is an argument (\<open>io_fate\<close>: everything reached
  stable storage, or only the first \<open>n\<close> bytes are in the file and the call failed), and so is
  what it does during a replay (\<open>replay_io\<close>), so the theorems quantify over every failure.  The
  JSON package is the argument \<open>lib\<close>.  \<open>replay\<close> returns an option: \<open>None\<close> is an exception that
  escapes the call.
\<close>

section \<open>Records and their canonical bytes\<close>

datatype intent_op = PlaceOrder | ModifyOrder | CancelOrder | SquareOff | Result | ChildSlice

fun intent_op_to_string :: "intent_op \<Rightarrow> string" where
  "intent_op_to_string PlaceOrder = ''place_order''"
| "intent_op_to_string ModifyOrder = ''modify_order''"
| "intent_op_to_string CancelOrder = ''cancel_order''"
| "intent_op_to_string SquareOff = ''square_off''"
| "intent_op_to_string Result = ''result''"
| "intent_op_to_string ChildSlice = ''child_slice''"

definition intent_op_from_string :: "string \<Rightarrow> intent_op option" where
  "intent_op_from_string name =
     (if name = ''place_order'' then Some PlaceOrder
      else if name = ''modify_order'' then Some ModifyOrder
      else if name = ''cancel_order'' then Some CancelOrder
      else if name = ''square_off'' then Some SquareOff
      else if name = ''result'' then Some Result
      else if name = ''child_slice'' then Some ChildSlice
      else None)"

definition kSchemaVersion :: int where
  "kSchemaVersion = 1"

record intent_record =
  ir_schema_version :: int
  ir_seq :: int64
  ir_client_ref :: string
  ir_op :: intent_op
  ir_payload_json :: string
  ir_wall_ts_ns :: int64
  ir_prev_hash :: string
  ir_hash :: string

record torn_tail =
  tt_repaired :: bool
  tt_discarded_bytes :: nat
  tt_truncated_to :: nat
  tt_records_kept :: nat

definition no_torn_tail :: torn_tail where
  "no_torn_tail = \<lparr>tt_repaired = False, tt_discarded_bytes = 0, tt_truncated_to = 0, tt_records_kept = 0\<rparr>"

definition kGenesis :: string where
  "kGenesis = ''GENESIS''"

definition chain_error :: "string \<Rightarrow> error" where
  "chain_error message = make_error Internal message []"

definition append_framed :: "string \<Rightarrow> string \<Rightarrow> string" where
  "append_framed out value = out @ show_nat (length value) @ '':'' @ value"

definition canonical_bytes :: "intent_record \<Rightarrow> string" where
  "canonical_bytes r =
     (let out = ''v'' @ show_int (ir_schema_version r) @ [newline];
          out = out @ ''s'' @ show_int (ir_seq r) @ [newline];
          out = out @ ''o'' @ intent_op_to_string (ir_op r) @ [newline];
          out = out @ ''t'' @ show_int (ir_wall_ts_ns r) @ [newline];
          out = append_framed (out @ ''c'') (ir_client_ref r) @ [newline];
          out = append_framed (out @ ''p'') (ir_payload_json r) @ [newline]
      in append_framed (out @ ''h'') (ir_prev_hash r) @ [newline])"

definition compute_hash :: "intent_record \<Rightarrow> string" where
  "compute_hash r = sha256_hex (canonical_bytes r)"

definition record_fields :: "intent_record \<Rightarrow> (string \<times> json) list" where
  "record_fields r =
     [(''schema_version'', JInt (ir_schema_version r)), (''seq'', JInt (ir_seq r)),
      (''client_ref'', JStr (ir_client_ref r)), (''op'', JStr (intent_op_to_string (ir_op r))),
      (''payload'', JStr (ir_payload_json r)), (''wall_ts_ns'', JInt (ir_wall_ts_ns r)),
      (''prev_hash'', JStr (ir_prev_hash r)), (''hash'', JStr (ir_hash r))]"

definition to_json_line :: "json_lib \<Rightarrow> intent_record \<Rightarrow> string" where
  "to_json_line lib r = jl_dump lib (JObj (record_fields r)) @ [newline]"

section \<open>The log\<close>

record intent_log =
  il_open :: bool
  il_path :: string
  il_file :: string
  il_next_seq :: int64
  il_last_hash :: string
  il_torn_tail :: torn_tail
  il_index :: "string \<rightharpoonup> intent_record"

text \<open>The fate of one write: complete and durable, or failed with the first \<open>n\<close> bytes in the file.\<close>

datatype io_fate = IoOk | IoShort nat | IoSyncFail nat

text \<open>\<open>fopen_ok\<close> and \<open>dir_sync_ok\<close> are the outcomes of the two system calls, \<open>contents\<close> the bytes a
  pre-existing file holds.\<close>

definition intent_log_open :: "bool \<Rightarrow> bool \<Rightarrow> string \<Rightarrow> string \<Rightarrow> string \<Rightarrow> intent_log result" where
  "intent_log_open fopen_ok dir_sync_ok path dir contents =
     (if \<not> fopen_ok
      then Inl (chain_error (''intentlog: failed to open log file for append: '' @ path))
      else if \<not> dir_sync_ok
      then Inl (chain_error
             (''intentlog: durable_sync_directory failed for the log's directory: '' @ dir))
      else Inr \<lparr>il_open = True, il_path = path, il_file = contents, il_next_seq = 1,
                il_last_hash = [], il_torn_tail = no_torn_tail, il_index = Map.empty\<rparr>)"

definition next_record :: "intent_log \<Rightarrow> int64 \<Rightarrow> intent_op \<Rightarrow> string \<Rightarrow> string \<Rightarrow> intent_record" where
  "next_record log wall op client_ref payload_json =
     (let r = \<lparr>ir_schema_version = kSchemaVersion, ir_seq = il_next_seq log,
               ir_client_ref = canonical_text client_ref, ir_op = op,
               ir_payload_json = canonical_text payload_json, ir_wall_ts_ns = wall,
               ir_prev_hash = (if il_last_hash log = [] then kGenesis else il_last_hash log),
               ir_hash = []\<rparr>
      in r \<lparr>ir_hash := compute_hash r\<rparr>)"

definition log_append ::
    "json_lib \<Rightarrow> io_fate \<Rightarrow> int64 \<Rightarrow> intent_log \<Rightarrow> intent_op \<Rightarrow> string \<Rightarrow> string
     \<Rightarrow> intent_record result \<times> intent_log" where
  "log_append lib fate wall log op client_ref payload_json =
     (if \<not> il_open log
      then (Inl (chain_error ''intentlog: append on a moved-from / closed log''), log)
      else
        let r = next_record log wall op client_ref payload_json;
            line = to_json_line lib r
        in case fate of
             IoShort n \<Rightarrow>
               (Inl (chain_error (''intentlog: short write appending record seq '' @ show_int (ir_seq r))),
                log \<lparr>il_file := il_file log @ take n line\<rparr>)
           | IoSyncFail n \<Rightarrow>
               (Inl (chain_error (''intentlog: durable_sync failed for record seq '' @ show_int (ir_seq r))),
                log \<lparr>il_file := il_file log @ take n line\<rparr>)
           | IoOk \<Rightarrow>
               (Inr r, log \<lparr>il_file := il_file log @ line, il_last_hash := ir_hash r,
                            il_next_seq := ir_seq r + 1,
                            il_index := (il_index log)(ir_client_ref r \<mapsto> r)\<rparr>))"

definition last_for :: "intent_log \<Rightarrow> string \<Rightarrow> intent_record option" where
  "last_for log client_ref = il_index log (canonical_text client_ref)"

section \<open>Replay\<close>

datatype open_fate = OpenOk | FileAbsent | FileUnreadable

text \<open>What the operating system does during a replay: how the open goes, how many bytes the read
  loop delivers before \<^verbatim>\<open>fread\<close> returns zero, whether the truncation (with its message), the sync
  and the write of a separator succeed.\<close>

record replay_io =
  rio_open :: open_fate
  rio_read_len :: nat
  rio_truncate_error :: "string option"
  rio_sync_ok :: bool
  rio_fputc_ok :: bool

record replay_state =
  rs_records :: "intent_record list"
  rs_index :: "string \<rightharpoonup> intent_record"
  rs_prev_hash :: string
  rs_expected_seq :: int64
  rs_tail_missing_newline :: bool

datatype loop_result =
    LoopDone replay_state
  | LoopTorn replay_state nat nat
  | LoopFail error replay_state
  | LoopThrow replay_state

text \<open>The eight typed reads of one parsed line: the operation name and the record.\<close>

definition read_record :: "(string \<times> json) list \<Rightarrow> (string \<times> intent_record) option" where
  "read_record fs =
     (case json_value_int fs ''schema_version'' 0 of None \<Rightarrow> None | Some sv \<Rightarrow>
      case json_value_int64 fs ''seq'' 0 of None \<Rightarrow> None | Some sq \<Rightarrow>
      case json_value_string fs ''client_ref'' [] of None \<Rightarrow> None | Some cr \<Rightarrow>
      case json_value_string fs ''payload'' [] of None \<Rightarrow> None | Some pl \<Rightarrow>
      case json_value_int64 fs ''wall_ts_ns'' 0 of None \<Rightarrow> None | Some ts \<Rightarrow>
      case json_value_string fs ''prev_hash'' [] of None \<Rightarrow> None | Some ph \<Rightarrow>
      case json_value_string fs ''hash'' [] of None \<Rightarrow> None | Some h \<Rightarrow>
      case json_value_string fs ''op'' [] of None \<Rightarrow> None | Some op_name \<Rightarrow>
        Some (op_name,
          \<lparr>ir_schema_version = sv, ir_seq = sq, ir_client_ref = cr, ir_op = PlaceOrder,
           ir_payload_json = pl, ir_wall_ts_ns = ts, ir_prev_hash = ph, ir_hash = h\<rparr>))"

definition verify_record :: "replay_state \<Rightarrow> string \<Rightarrow> intent_record \<Rightarrow> intent_record result" where
  "verify_record st op_name r =
     (case intent_op_from_string op_name of
        None \<Rightarrow> Inl (chain_error (''intentlog: unknown op '' @ [CHR 0x27] @ op_name @ [CHR 0x27]
                       @ '' at seq '' @ show_int (ir_seq r)))
      | Some op \<Rightarrow>
          let r = r \<lparr>ir_op := op\<rparr> in
          if ir_seq r \<noteq> rs_expected_seq st
          then Inl (chain_error (''intentlog: broken chain at seq '' @ show_int (ir_seq r)
                 @ '' (expected seq '' @ show_int (rs_expected_seq st) @ '')''))
          else if ir_prev_hash r \<noteq> rs_prev_hash st
          then Inl (chain_error (''intentlog: broken chain at seq '' @ show_int (ir_seq r)
                 @ '' (prev_hash mismatch)''))
          else if compute_hash r \<noteq> ir_hash r
          then Inl (chain_error (''intentlog: broken chain at seq '' @ show_int (ir_seq r)
                 @ '' (hash mismatch '' @ [CHR 0xE2, CHR 0x80, CHR 0x94] @ '' record tampered)''))
          else Inr r)"

definition push_record :: "replay_state \<Rightarrow> bool \<Rightarrow> intent_record \<Rightarrow> replay_state" where
  "push_record st unterminated r =
     st \<lparr>rs_tail_missing_newline := (if unterminated then True else rs_tail_missing_newline st),
         rs_prev_hash := ir_hash r, rs_expected_seq := rs_expected_seq st + 1,
         rs_index := (rs_index st)(ir_client_ref r \<mapsto> r), rs_records := rs_records st @ [r]\<rparr>"

function replay_loop :: "json_lib \<Rightarrow> replay_state \<Rightarrow> nat \<Rightarrow> string \<Rightarrow> loop_result" where
  "replay_loop lib st pos rest =
     (if rest = [] then LoopDone st
      else
        let line = takeWhile (\<lambda>c. c \<noteq> newline) rest;
            unterminated = (length line = length rest);
            pos' = pos + length line + 1;
            rest' = drop (length line + 1) rest
        in if line = [] then replay_loop lib st pos' rest'
           else case jl_parse lib line of
                  Some (JObj fs) \<Rightarrow>
                    (case read_record fs of
                       None \<Rightarrow> LoopThrow st
                     | Some (op_name, r0) \<Rightarrow>
                         (case verify_record st op_name r0 of
                            Inl e \<Rightarrow> LoopFail e st
                          | Inr r \<Rightarrow> replay_loop lib (push_record st unterminated r) pos' rest'))
                | _ \<Rightarrow>
                    if unterminated then LoopTorn st pos (length line)
                    else LoopFail (chain_error (''intentlog: malformed JSON at record index ''
                             @ show_nat (length (rs_records st)))) st)"
  by pat_completeness auto
termination by (relation "measure (\<lambda>(lib, st, pos, rest). length rest)") auto

declare replay_loop.simps [simp del]

definition replay_start :: "intent_log \<Rightarrow> replay_state" where
  "replay_start log = \<lparr>rs_records = [], rs_index = il_index log, rs_prev_hash = kGenesis,
     rs_expected_seq = 1, rs_tail_missing_newline = False\<rparr>"

text \<open>The statements after the loop: the separator repair, then the cursor.\<close>

definition replay_finish ::
    "replay_io \<Rightarrow> nat \<Rightarrow> intent_log \<Rightarrow> replay_state \<Rightarrow> intent_record list result \<times> intent_log" where
  "replay_finish io contents_size log st =
     (let records = rs_records st;
          cursor = (\<lambda>log. log \<lparr>il_torn_tail := (il_torn_tail log) \<lparr>tt_records_kept := length records\<rparr>,
             il_last_hash := (if records = [] then [] else ir_hash (last records)),
             il_next_seq := (if records = [] then 1 else ir_seq (last records) + 1)\<rparr>)
      in if rs_tail_missing_newline st then
           if \<not> il_open log \<or> \<not> rio_fputc_ok io
           then (Inl (chain_error (''intentlog: could not restore the missing record separator on the ''
                        @ ''final line of '' @ il_path log)), log)
           else
             let log = log \<lparr>il_file := il_file log @ [newline]\<rparr> in
             if \<not> rio_sync_ok io
             then (Inl (chain_error (''intentlog: could not restore the missing record separator on the ''
                          @ ''final line of '' @ il_path log)), log)
             else (Inr records,
                   cursor (log \<lparr>il_torn_tail := (il_torn_tail log)
                     \<lparr>tt_repaired := True, tt_truncated_to := contents_size + 1\<rparr>\<rparr>))
         else (Inr records, cursor log))"

definition replay ::
    "json_lib \<Rightarrow> replay_io \<Rightarrow> intent_log \<Rightarrow> intent_record list result option \<times> intent_log" where
  "replay lib io log =
     (let log = log \<lparr>il_torn_tail := no_torn_tail\<rparr> in
      case rio_open io of
        FileAbsent \<Rightarrow> (Some (Inr []), log)
      | FileUnreadable \<Rightarrow>
          (Some (Inl (chain_error
             (''intentlog: log file exists but could not be opened for replay: '' @ il_path log))), log)
      | OpenOk \<Rightarrow>
          let contents = take (rio_read_len io) (il_file log) in
          case replay_loop lib (replay_start log) 0 contents of
            LoopThrow st \<Rightarrow> (None, log \<lparr>il_index := rs_index st\<rparr>)
          | LoopFail e st \<Rightarrow> (Some (Inl e), log \<lparr>il_index := rs_index st\<rparr>)
          | LoopTorn st line_start n \<Rightarrow>
              let log = log \<lparr>il_index := rs_index st\<rparr> in
              (case rio_truncate_error io of
                 Some msg \<Rightarrow>
                   (Some (Inl (chain_error (''intentlog: could not truncate a torn trailing record at byte ''
                      @ show_nat line_start @ '': '' @ msg))), log)
               | None \<Rightarrow>
                   let log = log \<lparr>il_file := take line_start (il_file log)\<rparr> in
                   if \<not> il_open log \<or> \<not> rio_sync_ok io
                   then (Some (Inl (chain_error (''intentlog: durable_sync failed after truncating a torn ''
                      @ ''trailing record at byte '' @ show_nat line_start))), log)
                   else
                     let log = log \<lparr>il_torn_tail := \<lparr>tt_repaired = True, tt_discarded_bytes = n,
                                 tt_truncated_to = line_start, tt_records_kept = 0\<rparr>\<rparr>;
                         (res, log) = replay_finish io (length contents) log st
                     in (Some res, log))
          | LoopDone st \<Rightarrow>
              let (res, log) = replay_finish io (length contents) (log \<lparr>il_index := rs_index st\<rparr>) st
              in (Some res, log))"

section \<open>Lines and their replay\<close>

lemma op_roundtrip [simp]: "intent_op_from_string (intent_op_to_string op) = Some op"
  by (cases op) (simp_all add: intent_op_from_string_def)

text \<open>What \<open>log_append\<close> guarantees of the fields of a record it writes.\<close>

definition wf_record :: "intent_record \<Rightarrow> bool" where
  "wf_record r \<longleftrightarrow> ir_schema_version r = kSchemaVersion \<and> in_i64 (ir_seq r) \<and> in_i64 (ir_wall_ts_ns r)
     \<and> valid_utf8 (ir_client_ref r) \<and> valid_utf8 (ir_payload_json r)
     \<and> list_all is_ascii (ir_prev_hash r) \<and> list_all is_ascii (ir_hash r)"

lemma cast_int64_id: "in_i64 i \<Longrightarrow> cast_int64 i = i"
  by (simp add: cast_int64_def sint_word_of_int_i64)

lemma cast_int32_schema: "cast_int32 kSchemaVersion = kSchemaVersion"
  by (simp add: cast_int32_def kSchemaVersion_def)

lemma op_string_ascii: "list_all is_ascii (intent_op_to_string op)"
  by (cases op) simp_all

lemma flat_record_fields: "wf_record r \<Longrightarrow> flat_object (record_fields r)"
  by (simp add: flat_object_def record_fields_def json_scalar_def wf_record_def kSchemaVersion_def
      i64_defs)

lemma clean_record_fields: "wf_record r \<Longrightarrow> map_of (record_fields r) k = Some v \<Longrightarrow> json_clean v"
  by (drule map_of_SomeD)
    (auto simp: record_fields_def json_clean_def wf_record_def valid_utf8_ascii op_string_ascii)

lemma json_value_keep:
  assumes "\<And>k v. map_of fs k = Some v \<Longrightarrow> json_clean v"
    and "\<forall>k v. map_of fs k = Some v \<and> json_clean v \<longrightarrow> map_of gs k = Some v"
    and "\<forall>k. map_of fs k = None \<longrightarrow> map_of gs k = None"
  shows "map_of gs = map_of fs"
  by (rule ext) (metis assms option.exhaust)

lemma read_record_cong:
  assumes "map_of gs = map_of fs" shows "read_record gs = read_record fs"
  unfolding read_record_def json_value_int_def json_value_int64_def json_value_string_def assms ..

lemma read_record_fields:
  assumes "wf_record r"
  shows "read_record (record_fields r) = Some (intent_op_to_string (ir_op r), r \<lparr>ir_op := PlaceOrder\<rparr>)"
  using assms
  by (simp add: read_record_def record_fields_def json_value_int_def json_value_int64_def
      json_value_string_def wf_record_def cast_int64_id cast_int32_schema)

lemma parse_own_line:
  assumes "json_ok lib" "wf_record r"
  obtains gs where "jl_parse lib (jl_dump lib (JObj (record_fields r))) = Some (JObj gs)"
    "read_record gs = Some (intent_op_to_string (ir_op r), r \<lparr>ir_op := PlaceOrder\<rparr>)"
proof -
  note flat = flat_record_fields [OF assms(2)]
  from json_okD(5) [OF assms(1) flat] obtain gs
    where gs: "jl_parse lib (jl_dump lib (JObj (record_fields r))) = Some (JObj gs)"
      "\<forall>k. map_of (record_fields r) k = None \<longrightarrow> map_of gs k = None"
      "\<forall>k v. map_of (record_fields r) k = Some v \<and> json_clean v \<longrightarrow> map_of gs k = Some v"
    by blast
  have "map_of gs = map_of (record_fields r)"
    using json_value_keep [OF clean_record_fields [OF assms(2)] gs(3,2)] .
  then show thesis using that gs(1) read_record_fields [OF assms(2)] read_record_cong by metis
qed

text \<open>A record is the next link of a chain.\<close>

definition next_link :: "string \<Rightarrow> int64 \<Rightarrow> intent_record \<Rightarrow> bool" where
  "next_link prev n r \<longleftrightarrow> ir_seq r = n \<and> ir_prev_hash r = prev \<and> ir_hash r = compute_hash r"

fun chain_ok :: "string \<Rightarrow> int64 \<Rightarrow> intent_record list \<Rightarrow> bool" where
  "chain_ok prev n [] = True"
| "chain_ok prev n (r # rs) = (next_link prev n r \<and> chain_ok (ir_hash r) (n + 1) rs)"

lemma verify_next_link:
  "verify_record st op_name r0 = Inr r \<longleftrightarrow>
     (\<exists>op. intent_op_from_string op_name = Some op \<and> r = r0 \<lparr>ir_op := op\<rparr>
        \<and> next_link (rs_prev_hash st) (rs_expected_seq st) r)"
  by (auto simp: verify_record_def Let_def next_link_def split: option.splits if_splits)

lemma replay_loop_terminated:
  assumes "newline \<notin> set l" "l \<noteq> []"
  shows "replay_loop lib st pos (l @ newline # rest) =
    (case jl_parse lib l of
       Some (JObj fs) \<Rightarrow>
         (case read_record fs of
            None \<Rightarrow> LoopThrow st
          | Some (op_name, r0) \<Rightarrow>
              (case verify_record st op_name r0 of
                 Inl e \<Rightarrow> LoopFail e st
               | Inr r \<Rightarrow> replay_loop lib (push_record st False r) (pos + length l + 1) rest))
     | _ \<Rightarrow> LoopFail (chain_error (''intentlog: malformed JSON at record index ''
                             @ show_nat (length (rs_records st)))) st)"
  using assms
  by (subst replay_loop.simps)
    (simp add: takeWhile_line Let_def split: option.split json.split prod.split sum.split)

lemma replay_loop_unterminated:
  assumes "newline \<notin> set l" "l \<noteq> []"
  shows "replay_loop lib st pos l =
    (case jl_parse lib l of
       Some (JObj fs) \<Rightarrow>
         (case read_record fs of
            None \<Rightarrow> LoopThrow st
          | Some (op_name, r0) \<Rightarrow>
              (case verify_record st op_name r0 of
                 Inl e \<Rightarrow> LoopFail e st
               | Inr r \<Rightarrow> LoopDone (push_record st True r)))
     | _ \<Rightarrow> LoopTorn st pos (length l))"
  using assms
  by (subst replay_loop.simps)
    (simp add: takeWhile_all_line Let_def replay_loop.simps [of lib _ _ "[]"]
      split: option.split json.split prod.split sum.split)

lemma replay_own_line:
  assumes "json_ok lib" "wf_record r" "next_link (rs_prev_hash st) (rs_expected_seq st) r"
  shows "replay_loop lib st pos (to_json_line lib r @ rest) =
      replay_loop lib (push_record st False r) (pos + length (to_json_line lib r)) rest"
    and "replay_loop lib st pos (jl_dump lib (JObj (record_fields r))) = LoopDone (push_record st True r)"
proof -
  let ?l = "jl_dump lib (JObj (record_fields r))"
  obtain gs where gs: "jl_parse lib ?l = Some (JObj gs)"
    "read_record gs = Some (intent_op_to_string (ir_op r), r \<lparr>ir_op := PlaceOrder\<rparr>)"
    using parse_own_line [OF assms(1,2)] .
  have v: "verify_record st (intent_op_to_string (ir_op r)) (r \<lparr>ir_op := PlaceOrder\<rparr>) = Inr r"
    using assms(3) by (simp add: verify_next_link)
  note nl = json_okD(1,2) [OF assms(1) flat_record_fields [OF assms(2)]]
  show "replay_loop lib st pos (to_json_line lib r @ rest) =
      replay_loop lib (push_record st False r) (pos + length (to_json_line lib r)) rest"
    using replay_loop_terminated [OF nl(2,1), of lib st pos rest]
    by (simp add: to_json_line_def gs v)
  show "replay_loop lib st pos ?l = LoopDone (push_record st True r)"
    using replay_loop_unterminated [OF nl(2,1), of lib st pos] by (simp add: gs v)
qed

text \<open>A torn line: a proper prefix of a record's text.\<close>

lemma replay_torn_line:
  assumes "json_ok lib" "wf_record r" "strict_prefix p (jl_dump lib (JObj (record_fields r)))" "p \<noteq> []"
  shows "replay_loop lib st pos p = LoopTorn st pos (length p)"
proof -
  note flat = flat_record_fields [OF assms(2)]
  have "set p \<subseteq> set (jl_dump lib (JObj (record_fields r)))"
    using assms(3) by (auto dest: set_mono_prefix simp: strict_prefix_def)
  then have "newline \<notin> set p" using json_okD(2) [OF assms(1) flat] by blast
  moreover have "jl_parse lib p \<noteq> Some (JObj gs)" for gs
    using json_okD(4) [OF assms(1) flat assms(3)] .
  ultimately show ?thesis
    using replay_loop_unterminated [OF _ assms(4)] by (auto split: option.split json.split)
qed

definition push_records :: "replay_state \<Rightarrow> intent_record list \<Rightarrow> replay_state" where
  "push_records = foldl (\<lambda>st. push_record st False)"

definition file_of :: "json_lib \<Rightarrow> intent_record list \<Rightarrow> string" where
  "file_of lib recs = concat (map (to_json_line lib) recs)"

lemma push_record_sel [simp]:
  "rs_prev_hash (push_record st u r) = ir_hash r"
  "rs_expected_seq (push_record st u r) = rs_expected_seq st + 1"
  "rs_records (push_record st u r) = rs_records st @ [r]"
  "rs_index (push_record st u r) = (rs_index st)(ir_client_ref r \<mapsto> r)"
  "rs_tail_missing_newline (push_record st u r) = (u \<or> rs_tail_missing_newline st)"
  by (simp_all add: push_record_def)

lemma replay_own_file:
  assumes "json_ok lib" "\<forall>r \<in> set recs. wf_record r"
    "chain_ok (rs_prev_hash st) (rs_expected_seq st) recs"
  shows "replay_loop lib st pos (file_of lib recs @ rest) =
    replay_loop lib (push_records st recs) (pos + length (file_of lib recs)) rest"
  using assms(2,3)
proof (induction recs arbitrary: st pos)
  case (Cons r rs)
  have "replay_loop lib st pos (to_json_line lib r @ file_of lib rs @ rest) =
      replay_loop lib (push_record st False r) (pos + length (to_json_line lib r)) (file_of lib rs @ rest)"
    using replay_own_line(1) [OF assms(1)] Cons.prems by simp
  also have "\<dots> = replay_loop lib (push_records (push_record st False r) rs)
      (pos + length (to_json_line lib r) + length (file_of lib rs)) rest"
    using Cons by simp
  finally show ?case by (simp add: file_of_def push_records_def add.assoc)
qed (simp add: file_of_def push_records_def)

section \<open>The log holds a chain\<close>

lemma push_records_sel:
  "rs_records (push_records st recs) = rs_records st @ recs"
  "rs_tail_missing_newline (push_records st recs) = rs_tail_missing_newline st"
  "rs_index (push_records st recs) = foldl (\<lambda>m r. m(ir_client_ref r \<mapsto> r)) (rs_index st) recs"
  "rs_prev_hash (push_records st recs) = (if recs = [] then rs_prev_hash st else ir_hash (last recs))"
  "rs_expected_seq (push_records st recs) = rs_expected_seq st + int (length recs)"
  by (induction recs arbitrary: st) (auto simp: push_records_def)

text \<open>The invariant of a working log: the file is exactly the lines of a verified chain of
  well-formed records, and the in-memory cursor and index describe it.\<close>

definition index_of :: "intent_record list \<Rightarrow> string \<rightharpoonup> intent_record" where
  "index_of recs = foldl (\<lambda>m r. m(ir_client_ref r \<mapsto> r)) Map.empty recs"

definition chain_log :: "json_lib \<Rightarrow> intent_record list \<Rightarrow> intent_log \<Rightarrow> bool" where
  "chain_log lib recs log \<longleftrightarrow> il_open log \<and> il_file log = file_of lib recs
     \<and> (\<forall>r \<in> set recs. wf_record r) \<and> chain_ok kGenesis 1 recs
     \<and> il_next_seq log = 1 + int (length recs)
     \<and> il_last_hash log = (if recs = [] then [] else ir_hash (last recs))
     \<and> il_index log = index_of recs"

lemma chain_ok_snoc:
  "chain_ok prev n (rs @ [r]) \<longleftrightarrow> chain_ok prev n rs
     \<and> next_link (if rs = [] then prev else ir_hash (last rs)) (n + int (length rs)) r"
  by (induction rs arbitrary: prev n) (auto simp: algebra_simps)

lemma chain_seq_last: "chain_ok prev n recs \<Longrightarrow> recs \<noteq> [] \<Longrightarrow> ir_seq (last recs) = n + int (length recs) - 1"
  by (induction recs rule: rev_induct) (simp_all add: chain_ok_snoc next_link_def)

lemma index_of_snoc: "index_of (recs @ [r]) = (index_of recs)(ir_client_ref r \<mapsto> r)"
  by (simp add: index_of_def)

lemma file_of_snoc: "file_of lib (recs @ [r]) = file_of lib recs @ to_json_line lib r"
  by (simp add: file_of_def)

lemma hash_nonempty: "compute_hash r \<noteq> []"
  using sha256_hex_props(1) [of "canonical_bytes r"] unfolding compute_hash_def by auto

lemma compute_hash_cong: "compute_hash (r \<lparr>ir_hash := h\<rparr>) = compute_hash r"
  by (simp add: compute_hash_def canonical_bytes_def)

lemma next_record_link:
  assumes "chain_log lib recs log" "in_i64 (il_next_seq log)" "in_i64 wall"
  shows "wf_record (next_record log wall op ref payload)"
    and "chain_ok kGenesis 1 (recs @ [next_record log wall op ref payload])"
proof -
  let ?r = "next_record log wall op ref payload"
  have prev: "ir_prev_hash ?r = (if recs = [] then kGenesis else ir_hash (last recs))"
  proof (cases recs rule: rev_cases)
    case (snoc rs r)
    then have "ir_hash r = compute_hash r"
      using assms(1) by (simp add: chain_log_def chain_ok_snoc next_link_def)
    then show ?thesis using assms(1) snoc hash_nonempty [of r]
      by (auto simp: next_record_def chain_log_def Let_def)
  qed (use assms(1) in \<open>simp add: next_record_def chain_log_def Let_def\<close>)
  have "list_all is_ascii (ir_prev_hash ?r)"
  proof (cases recs rule: rev_cases)
    case (snoc rs r)
    then have "wf_record r" using assms(1) by (simp add: chain_log_def)
    with snoc prev show ?thesis by (simp add: wf_record_def)
  qed (use prev in \<open>simp add: kGenesis_def\<close>)
  moreover have "list_all is_ascii (ir_hash ?r)"
    using ascii_hex_hash by (simp add: next_record_def Let_def compute_hash_def)
  ultimately show "wf_record ?r" using assms(2,3)
    by (simp add: wf_record_def next_record_def Let_def valid_canonical_text)
  have "ir_hash (r \<lparr>ir_hash := compute_hash r\<rparr>) = compute_hash (r \<lparr>ir_hash := compute_hash r\<rparr>)"
    for r :: intent_record by (simp add: compute_hash_cong)
  then have "ir_hash ?r = compute_hash ?r" unfolding next_record_def Let_def .
  then show "chain_ok kGenesis 1 (recs @ [?r])"
    using assms(1) prev by (simp add: chain_ok_snoc next_link_def chain_log_def)
      (simp add: next_record_def Let_def)
qed

lemma chain_log_append:
  assumes "chain_log lib recs log" "in_i64 (il_next_seq log)" "in_i64 wall"
    and "log_append lib IoOk wall log op ref payload = (res, log')"
  shows "res = Inr (next_record log wall op ref payload)"
    and "chain_log lib (recs @ [next_record log wall op ref payload]) log'"
proof -
  let ?r = "next_record log wall op ref payload"
  have a: "res = Inr ?r" "log' = log \<lparr>il_file := il_file log @ to_json_line lib ?r,
      il_last_hash := ir_hash ?r, il_next_seq := ir_seq ?r + 1,
      il_index := (il_index log)(ir_client_ref ?r \<mapsto> ?r)\<rparr>"
    using assms(1,4) by (auto simp: log_append_def Let_def chain_log_def)
  show "res = Inr ?r" using a(1) .
  have "ir_seq ?r = il_next_seq log" by (simp add: next_record_def Let_def)
  then show "chain_log lib (recs @ [?r]) log'"
    using assms(1) next_record_link [OF assms(1-3), of op ref payload]
    by (simp add: a(2) chain_log_def file_of_snoc index_of_snoc)
qed

text \<open>A replay that the operating system does not disturb.\<close>

definition good_io :: "intent_log \<Rightarrow> replay_io \<Rightarrow> bool" where
  "good_io log io \<longleftrightarrow> rio_open io = OpenOk \<and> length (il_file log) \<le> rio_read_len io
     \<and> rio_truncate_error io = None \<and> rio_sync_ok io \<and> rio_fputc_ok io"

definition reopened :: "string \<Rightarrow> string \<Rightarrow> intent_log" where
  "reopened path file = \<lparr>il_open = True, il_path = path, il_file = file, il_next_seq = 1,
     il_last_hash = [], il_torn_tail = no_torn_tail, il_index = Map.empty\<rparr>"

lemma intent_log_open_ok: "intent_log_open True True path dir file = Inr (reopened path file)"
  by (simp add: intent_log_open_def reopened_def)

lemma reopened_sel [simp]:
  "il_open (reopened path f)" "il_file (reopened path f) = f" "il_path (reopened path f) = path"
  "il_index (reopened path f) = Map.empty"
  by (simp_all add: reopened_def)

lemma replay_start_reopened [simp]:
  "rs_prev_hash (replay_start (reopened path f)) = kGenesis"
  "rs_expected_seq (replay_start (reopened path f)) = 1"
  "rs_records (replay_start (reopened path f)) = []"
  "rs_index (replay_start (reopened path f)) = Map.empty"
  "rs_tail_missing_newline (replay_start (reopened path f)) = False"
  by (simp_all add: replay_start_def reopened_def)

text \<open>The three tails a chain can be followed by: nothing, a torn line, a line without its newline.\<close>

lemma chain_log_cursor:
  assumes "\<forall>r \<in> set recs. wf_record r" "chain_ok kGenesis 1 recs"
  shows "chain_log lib recs \<lparr>il_open = True, il_path = path, il_file = file_of lib recs,
    il_next_seq = (if recs = [] then 1 else ir_seq (last recs) + 1),
    il_last_hash = (if recs = [] then [] else ir_hash (last recs)), il_torn_tail = tt,
    il_index = index_of recs\<rparr>"
  using assms chain_seq_last [OF assms(2)] by (simp add: chain_log_def)

lemma replay_whole:
  assumes "json_ok lib" "\<forall>r \<in> set recs. wf_record r" "chain_ok kGenesis 1 recs"
    and log: "log = reopened path (file_of lib recs)" and io: "good_io log io"
  shows "\<exists>log'. replay lib io log = (Some (Inr recs), log') \<and> chain_log lib recs log'
    \<and> \<not> tt_repaired (il_torn_tail log')"
proof -
  have "replay_loop lib (replay_start log) 0 (il_file log) = LoopDone (push_records (replay_start log) recs)"
    using replay_own_file [OF assms(1,2), of "replay_start log" 0 "[]"] assms(3)
    by (simp add: log replay_loop.simps [of lib _ _ "[]"])
  then have "replay lib io log = (Some (Inr recs), \<lparr>il_open = True, il_path = path,
      il_file = file_of lib recs, il_next_seq = (if recs = [] then 1 else ir_seq (last recs) + 1),
      il_last_hash = (if recs = [] then [] else ir_hash (last recs)),
      il_torn_tail = no_torn_tail \<lparr>tt_records_kept := length recs\<rparr>, il_index = index_of recs\<rparr>)"
    using io unfolding good_io_def replay_def
    by (simp add: Let_def replay_start_def replay_finish_def push_records_sel index_of_def log reopened_def)
  then show ?thesis
    using chain_log_cursor [OF assms(2,3)] by (simp add: no_torn_tail_def)
qed

lemma loop_torn:
  assumes "json_ok lib" "\<forall>r \<in> set recs. wf_record r" "chain_ok kGenesis 1 recs" "wf_record r"
    "strict_prefix p (jl_dump lib (JObj (record_fields r)))" "p \<noteq> []"
  shows "replay_loop lib (replay_start (reopened path f)) 0 (file_of lib recs @ p) =
    LoopTorn (push_records (replay_start (reopened path f)) recs) (length (file_of lib recs)) (length p)"
  using replay_own_file [OF assms(1,2), of "replay_start (reopened path f)" 0 p] assms(3)
    replay_torn_line [OF assms(1,4-6)] by simp

lemma replay_torn:
  assumes "json_ok lib" "\<forall>r \<in> set recs. wf_record r" "chain_ok kGenesis 1 recs" "wf_record r"
    "strict_prefix p (jl_dump lib (JObj (record_fields r)))" "p \<noteq> []"
    and log: "log = reopened path (file_of lib recs @ p @ q)"
    and io: "rio_open io = OpenOk" "rio_truncate_error io = None" "rio_sync_ok io"
      "take (rio_read_len io) (file_of lib recs @ p @ q) = file_of lib recs @ p"
  shows "\<exists>log'. replay lib io log = (Some (Inr recs), log') \<and> chain_log lib recs log'
    \<and> tt_repaired (il_torn_tail log') \<and> tt_discarded_bytes (il_torn_tail log') = length p"
proof -
  have "replay_loop lib (replay_start log) 0 (take (rio_read_len io) (il_file log)) =
    LoopTorn (push_records (replay_start log) recs) (length (file_of lib recs)) (length p)"
    using loop_torn [OF assms(1-6)] io(4) by (simp add: log)
  then have "replay lib io log = (Some (Inr recs), \<lparr>il_open = True, il_path = path,
      il_file = file_of lib recs, il_next_seq = (if recs = [] then 1 else ir_seq (last recs) + 1),
      il_last_hash = (if recs = [] then [] else ir_hash (last recs)),
      il_torn_tail = \<lparr>tt_repaired = True, tt_discarded_bytes = length p,
        tt_truncated_to = length (file_of lib recs), tt_records_kept = length recs\<rparr>,
      il_index = index_of recs\<rparr>)"
    using io(1-3) unfolding replay_def
    by (simp add: Let_def replay_start_def replay_finish_def push_records_sel index_of_def log reopened_def)
  then show ?thesis
    using chain_log_cursor [OF assms(2,3)] by simp
qed

lemma replay_done:
  assumes "good_io log io" "replay_loop lib (replay_start log) 0 (il_file log) = LoopDone st"
  shows "replay lib io log = (case replay_finish io (length (il_file log))
      (log \<lparr>il_torn_tail := no_torn_tail, il_index := rs_index st\<rparr>) st of (res, log') \<Rightarrow> (Some res, log'))"
proof -
  have t: "take (rio_read_len io) (il_file log) = il_file log" using assms(1) by (simp add: good_io_def)
  have "replay_start (log \<lparr>il_torn_tail := no_torn_tail\<rparr>) = replay_start log"
    by (simp add: replay_start_def)
  then show ?thesis using assms unfolding replay_def good_io_def by (simp add: Let_def t)
qed

lemma replay_abrupt:
  assumes "good_io log io"
  shows "replay_loop lib (replay_start log) 0 (il_file log) = LoopThrow st \<Longrightarrow> fst (replay lib io log) = None"
    and "replay_loop lib (replay_start log) 0 (il_file log) = LoopFail e st
      \<Longrightarrow> fst (replay lib io log) = Some (Inl e)"
proof -
  have t: "take (rio_read_len io) (il_file log) = il_file log" using assms by (simp add: good_io_def)
  have s: "replay_start (log \<lparr>il_torn_tail := no_torn_tail\<rparr>) = replay_start log"
    by (simp add: replay_start_def)
  show "replay_loop lib (replay_start log) 0 (il_file log) = LoopThrow st \<Longrightarrow> fst (replay lib io log) = None"
    "replay_loop lib (replay_start log) 0 (il_file log) = LoopFail e st
      \<Longrightarrow> fst (replay lib io log) = Some (Inl e)"
    using assms unfolding replay_def good_io_def by (simp_all add: Let_def t s)
qed

lemma replay_missing_newline:
  assumes "json_ok lib" "\<forall>r \<in> set (recs @ [r]). wf_record r" "chain_ok kGenesis 1 (recs @ [r])"
    and log: "log = reopened path (file_of lib recs @ jl_dump lib (JObj (record_fields r)))"
    and io: "good_io log io"
  shows "\<exists>log'. replay lib io log = (Some (Inr (recs @ [r])), log') \<and> chain_log lib (recs @ [r]) log'
    \<and> tt_repaired (il_torn_tail log') \<and> tt_discarded_bytes (il_torn_tail log') = 0"
proof -
  let ?d = "jl_dump lib (JObj (record_fields r))"
  let ?st = "push_records (replay_start log) recs"
  have l: "next_link (rs_prev_hash ?st) (rs_expected_seq ?st) r"
    using assms(3) unfolding chain_ok_snoc push_records_sel log replay_start_reopened
    by (rule conjunct2)
  have "replay_loop lib (replay_start log) 0 (il_file log) = LoopDone (push_record ?st True r)"
    using replay_own_file [OF assms(1), of recs "replay_start log" 0 ?d] assms(2,3)
      replay_own_line(2) [OF assms(1) _ l] by (simp add: log chain_ok_snoc)
  then have "replay lib io log = (Some (Inr (recs @ [r])), \<lparr>il_open = True, il_path = path,
      il_file = file_of lib (recs @ [r]), il_next_seq = ir_seq (last (recs @ [r])) + 1,
      il_last_hash = ir_hash (last (recs @ [r])),
      il_torn_tail = \<lparr>tt_repaired = True, tt_discarded_bytes = 0,
        tt_truncated_to = length (il_file log) + 1, tt_records_kept = length recs + 1\<rparr>,
      il_index = index_of (recs @ [r])\<rparr>)"
    using io unfolding good_io_def replay_done [OF io \<open>replay_loop lib _ 0 _ = _\<close>]
    by (simp add: replay_finish_def Let_def push_records_sel index_of_def log reopened_def
        file_of_def to_json_line_def no_torn_tail_def replay_start_def)
  then show ?thesis
    using chain_log_cursor [OF assms(2,3)] by simp
qed

lemma crash_replay:
  assumes "json_ok lib" and "chain_log lib recs log" and "in_i64 (il_next_seq log)" and "in_i64 wall"
    and "log_append lib fate wall log op ref payload = (res, log1)"
    and "intent_log_open True True path dir (il_file log1) = Inr fresh" and "good_io fresh io"
  shows "\<exists>recs' log'. replay lib io fresh = (Some (Inr recs'), log') \<and> chain_log lib recs' log'
    \<and> recs' \<in> {recs, recs @ [next_record log wall op ref payload]}
    \<and> (\<forall>r. res = Inr r \<longrightarrow> recs' = recs @ [r])"
proof -
  define r where "r = next_record log wall op ref payload"
  define d where "d = jl_dump lib (JObj (record_fields r))"
  have fresh: "fresh = reopened path (il_file log1)"
    using assms(6) by (simp add: intent_log_open_ok)
  have wf: "\<forall>x \<in> set (recs @ [r]). wf_record x" and ch: "chain_ok kGenesis 1 (recs @ [r])"
    using next_record_link [OF assms(2-4)] assms(2) by (auto simp: r_def chain_log_def)
  then have wf': "\<forall>x \<in> set recs. wf_record x" and ch': "chain_ok kGenesis 1 recs" and "wf_record r"
    by (auto simp: chain_ok_snoc)
  have "il_open log" "il_file log = file_of lib recs" using assms(2) by (auto simp: chain_log_def)
  then obtain n where fl: "il_file log1 = file_of lib recs @ take n (d @ [newline])"
    and ok: "\<And>x. res = Inr x \<Longrightarrow> x = r \<and> n = length (d @ [newline])"
    using assms(5)
    by (cases fate) (fastforce simp: log_append_def Let_def r_def d_def to_json_line_def)+
  consider "n = 0" | "0 < n" "n < length d" | "n = length d" | "length d < n" by linarith
  then show ?thesis
  proof cases
    case 1
    then have "\<exists>log'. replay lib io fresh = (Some (Inr recs), log') \<and> chain_log lib recs log'"
      using replay_whole [OF assms(1) wf' ch' _ assms(7)] fresh fl by auto
    then show ?thesis using 1 ok by fastforce
  next
    case 2
    have p: "strict_prefix (take n d) d" "take n d \<noteq> []"
      using 2 by (auto simp: strict_prefix_def take_is_prefix)
    have f: "fresh = reopened path (file_of lib recs @ take n d @ [])"
      using 2 fresh fl by simp
    then have "length (file_of lib recs @ take n d @ []) \<le> rio_read_len io"
      using assms(7) unfolding good_io_def by simp
    then have "take (rio_read_len io) (file_of lib recs @ take n d @ []) = file_of lib recs @ take n d"
      by (simp only: take_all append_Nil2)
    then have "\<exists>log'. replay lib io fresh = (Some (Inr recs), log') \<and> chain_log lib recs log'"
      using replay_torn [OF assms(1) wf' ch' \<open>wf_record r\<close> p(1) [unfolded d_def] p(2) [unfolded d_def]
          f [unfolded d_def]] assms(7) unfolding good_io_def d_def by blast
    then show ?thesis using 2 ok by fastforce
  next
    case 3
    then have "\<exists>log'. replay lib io fresh = (Some (Inr (recs @ [r])), log') \<and> chain_log lib (recs @ [r]) log'"
      using replay_missing_newline [OF assms(1) wf ch _ assms(7)] fresh fl by (auto simp: d_def)
    then show ?thesis using ok by (fastforce simp: r_def)
  next
    case 4
    then have "il_file log1 = file_of lib (recs @ [r])"
      using fl by (simp add: file_of_snoc to_json_line_def d_def)
    then have "\<exists>log'. replay lib io fresh = (Some (Inr (recs @ [r])), log') \<and> chain_log lib (recs @ [r]) log'"
      using replay_whole [OF assms(1) wf ch _ assms(7)] fresh by auto
    then show ?thesis using ok by (fastforce simp: r_def)
  qed
qed

text \<open>C11. Crash safety of the write-ahead log.  Take any log that holds a verified chain, attempt
  one more append with any outcome of the write (complete, short, or failed to sync, with any number
  of bytes of the line on disk), and let the process die.  Provided that the reopened file can be
  read in full and that the truncation, sync and newline a repair needs succeed (good_io), and that
  clock and sequence number are within 64 bits, the replay of the reopened file succeeds: it returns
  the chain, or the chain and the attempted record, repairs the file to exactly those lines, and
  restores the cursor and the index; and if the append had reported success, its record is the last
  one returned.  Without the full read the conclusion can fail: see
  short_read_erases_durable_record.\<close>

theorem crash_recovery:
  assumes "json_ok lib" and "chain_log lib recs log" and "in_i64 (il_next_seq log)" and "in_i64 wall"
    and "log_append lib fate wall log op ref payload = (res, log1)"
    and "intent_log_open True True path dir (il_file log1) = Inr fresh" and "good_io fresh io"
  shows "\<exists>recs' log'. replay lib io fresh = (Some (Inr recs'), log') \<and> chain_log lib recs' log'
    \<and> recs' \<in> {recs, recs @ [next_record log wall op ref payload]}
    \<and> (\<forall>r. res = Inr r \<longrightarrow> recs' = recs @ [r])"
  using crash_replay [OF assms] .

definition sample_io :: replay_io where
  "sample_io = \<lparr>rio_open = OpenOk, rio_read_len = 100000, rio_truncate_error = None,
     rio_sync_ok = True, rio_fputc_ok = True\<rparr>"

lemma chain_log_fresh: "chain_log lib [] (reopened path [])"
  by (simp add: chain_log_def reopened_def file_of_def index_of_def)

text \<open>The witness tears the very first record after ten bytes.\<close>

theorem crash_recovery_witness:
  "\<exists>recs' log'. replay sample_json sample_io (reopened ''intent.log''
       (il_file (snd (log_append sample_json (IoShort 10) 7 (reopened ''intent.log'' []) PlaceOrder ''r'' ''{}''))))
     = (Some (Inr recs'), log') \<and> chain_log sample_json recs' log' \<and> length recs' \<le> 1"
proof -
  let ?log = "reopened ''intent.log'' []"
  obtain res log1 where a: "log_append sample_json (IoShort 10) 7 ?log PlaceOrder ''r'' ''{}'' = (res, log1)"
    by (metis surj_pair)
  have "length (il_file log1) \<le> 10"
    using a by (auto simp: log_append_def Let_def)
  then have io: "good_io (reopened ''intent.log'' (il_file log1)) sample_io"
    by (simp add: good_io_def sample_io_def)
  obtain recs' log' where "replay sample_json sample_io (reopened ''intent.log'' (il_file log1)) = (Some (Inr recs'), log')"
    "chain_log sample_json recs' log'" "recs' \<in> {[], [] @ [next_record ?log 7 PlaceOrder ''r'' ''{}'']}"
    using crash_recovery [OF sample_json_ok chain_log_fresh _ _ a intent_log_open_ok io]
    by (auto simp: reopened_def i64_defs)
  then show ?thesis using a by auto
qed

section \<open>Failures the live log does not survive\<close>

text \<open>C13. A failed append does not leave the live log usable.  When the sync of an append fails after
  the whole line reached the file, the cursor is not advanced; the next append succeeds, so its
  caller goes on to the broker, but it writes a second line with the same sequence number.  A
  replay of the file as it then stands, with the file read in full and healthy I/O (good_io), fails
  with the broken-chain error that names that sequence number and the one expected.\<close>

theorem failed_append_then_append_breaks_replay:
  assumes "json_ok lib" and "chain_log lib recs log" and "in_i64 (il_next_seq log)"
    and "in_i64 wall1" and "in_i64 wall2"
    and "log_append lib (IoSyncFail n) wall1 log op1 ref1 pl1 = (res1, log1)"
    and "length (to_json_line lib (next_record log wall1 op1 ref1 pl1)) \<le> n"
    and "log_append lib IoOk wall2 log1 op2 ref2 pl2 = (res2, log2)"
    and "good_io (reopened path (il_file log2)) io"
  shows "(\<exists>e. res1 = Inl e) \<and> (\<exists>r. res2 = Inr r)
    \<and> fst (replay lib io (reopened path (il_file log2))) =
        Some (Inl (chain_error (''intentlog: broken chain at seq '' @ show_int (il_next_seq log)
          @ '' (expected seq '' @ show_int (il_next_seq log + 1) @ '')'')))"
proof -
  define r1 where "r1 = next_record log wall1 op1 ref1 pl1"
  define r2 where "r2 = next_record log wall2 op2 ref2 pl2"
  have op: "il_open log" and f0: "il_file log = file_of lib recs" using assms(2) by (auto simp: chain_log_def)
  have log1: "log1 = log \<lparr>il_file := file_of lib (recs @ [r1])\<rparr>" and e1: "\<exists>e. res1 = Inl e"
    using assms(6,7) op f0 by (auto simp: log_append_def Let_def r1_def file_of_snoc)
  have nr: "next_record log1 wall2 op2 ref2 pl2 = r2"
    by (simp add: r2_def log1 next_record_def)
  then have f2: "il_file log2 = file_of lib (recs @ [r1]) @ to_json_line lib r2" and e2: "\<exists>r. res2 = Inr r"
    using assms(8) op by (auto simp: log_append_def Let_def log1)
  have wf: "\<forall>x \<in> set (recs @ [r1]). wf_record x" "chain_ok kGenesis 1 (recs @ [r1])"
    using next_record_link [OF assms(2,3,4)] assms(2) by (auto simp: r1_def chain_log_def)
  have wf2: "wf_record r2" unfolding r2_def using next_record_link(1) [OF assms(2,3,5)] .
  let ?ini = "replay_start (reopened path (il_file log2))"
  let ?st = "push_records ?ini (recs @ [r1])"
  let ?d = "jl_dump lib (JObj (record_fields r2))"
  obtain gs where gs: "jl_parse lib ?d = Some (JObj gs)"
    "read_record gs = Some (intent_op_to_string (ir_op r2), r2 \<lparr>ir_op := PlaceOrder\<rparr>)"
    using parse_own_line [OF assms(1) wf2] .
  have seq: "ir_seq r2 = il_next_seq log" "rs_expected_seq ?st = il_next_seq log + 1"
    using assms(2) by (simp_all add: r2_def next_record_def Let_def push_records_sel chain_log_def)
  define err where "err = chain_error (''intentlog: broken chain at seq '' @ show_int (il_next_seq log)
          @ '' (expected seq '' @ show_int (il_next_seq log + 1) @ '')'')"
  have "verify_record ?st (intent_op_to_string (ir_op r2)) (r2 \<lparr>ir_op := PlaceOrder\<rparr>) = Inl err"
    unfolding verify_record_def err_def using seq by (simp add: Let_def)
  then have "replay_loop lib ?ini 0 (il_file log2) = LoopFail err ?st"
    using replay_own_file [OF assms(1) wf(1), of ?ini 0 "to_json_line lib r2"] wf(2)
      replay_loop_terminated [of ?d lib ?st "length (file_of lib (recs @ [r1]))" "[]"]
      json_okD(1,2) [OF assms(1) flat_record_fields [OF wf2]]
    by (simp add: f2 to_json_line_def gs)
  then have "fst (replay lib io (reopened path (il_file log2))) = Some (Inl err)"
    using replay_abrupt(2) [OF assms(9)] by simp
  then show ?thesis using e1 e2 by (simp add: err_def)
qed

text \<open>A read error during a replay destroys committed records.  The read loop stops at the first
  zero return of \<^verbatim>\<open>fread\<close> and never asks whether it was the end of the file; a read that delivers
  the file only up to the middle of a line is taken for a torn tail, so the replay reports success
  with the records before it and truncates the file there, erasing a record that was durable.\<close>

theorem short_read_erases_durable_record:
  assumes "json_ok lib" and "\<forall>x \<in> set (recs @ [r]). wf_record x" and "chain_ok kGenesis 1 (recs @ [r])"
    and "rio_open io = OpenOk" and "rio_truncate_error io = None" and "rio_sync_ok io"
    and "rio_read_len io = length (file_of lib recs) + m" and "0 < m"
    and "m < length (jl_dump lib (JObj (record_fields r)))"
  shows "\<exists>log'. replay lib io (reopened path (file_of lib (recs @ [r]))) = (Some (Inr recs), log')
    \<and> il_file log' = file_of lib recs"
proof -
  let ?d = "jl_dump lib (JObj (record_fields r))"
  have p: "strict_prefix (take m ?d) ?d" "take m ?d \<noteq> []"
    using assms(8,9) by (auto simp: strict_prefix_def take_is_prefix)
  have f: "reopened path (file_of lib (recs @ [r])) =
      reopened path (file_of lib recs @ take m ?d @ drop m ?d @ [newline])"
    unfolding file_of_snoc to_json_line_def by (metis append.assoc append_take_drop_id)
  have t: "take (rio_read_len io) (file_of lib recs @ take m ?d @ drop m ?d @ [newline]) =
      file_of lib recs @ take m ?d"
    using assms(7,9) by simp
  have "\<forall>x \<in> set recs. wf_record x" "chain_ok kGenesis 1 recs" "wf_record r"
    using assms(2,3) by (auto simp: chain_ok_snoc)
  from replay_torn [OF assms(1) this p f assms(4-6) t] show ?thesis
    by (auto simp: chain_log_def)
qed

text \<open>Witnesses for the two failures, on the first record of a fresh log.\<close>

theorem failed_append_then_append_breaks_replay_witness:
  "let log = reopened ''p'' [];
       r = next_record log 7 PlaceOrder ''r'' ''{}'';
       log1 = snd (log_append sample_json (IoSyncFail (length (to_json_line sample_json r))) 7 log PlaceOrder ''r'' ''{}'');
       log2 = snd (log_append sample_json IoOk 8 log1 PlaceOrder ''q'' ''{}'')
   in fst (replay sample_json (sample_io \<lparr>rio_read_len := length (il_file log2)\<rparr>) (reopened ''p'' (il_file log2))) =
        Some (Inl (chain_error (''intentlog: broken chain at seq '' @ show_int 1 @ '' (expected seq '' @ show_int 2 @ '')'')))"
proof -
  define log where "log = reopened ''p'' []"
  define r where "r = next_record log 7 PlaceOrder ''r'' ''{}''"
  obtain res1 log1 where a: "log_append sample_json (IoSyncFail (length (to_json_line sample_json r))) 7 log
      PlaceOrder ''r'' ''{}'' = (res1, log1)" by (metis surj_pair)
  obtain res2 log2 where b: "log_append sample_json IoOk 8 log1 PlaceOrder ''q'' ''{}'' = (res2, log2)"
    by (metis surj_pair)
  have io: "good_io (reopened ''p'' (il_file log2)) (sample_io \<lparr>rio_read_len := length (il_file log2)\<rparr>)"
    by (simp add: good_io_def sample_io_def)
  have n: "il_next_seq log = 1" by (simp add: log_def reopened_def)
  have c: "chain_log sample_json [] log" unfolding log_def by (rule chain_log_fresh)
  have i: "in_i64 1" "in_i64 7" "in_i64 8" by (simp_all add: i64_defs)
  have "fst (replay sample_json (sample_io \<lparr>rio_read_len := length (il_file log2)\<rparr>) (reopened ''p'' (il_file log2))) =
        Some (Inl (chain_error (''intentlog: broken chain at seq '' @ show_int 1 @ '' (expected seq '' @ show_int (1 + 1) @ '')'')))"
    using failed_append_then_append_breaks_replay [OF sample_json_ok c _ i(2,3) a _ b io] i(1)
    unfolding n r_def [symmetric] by blast
  then show ?thesis unfolding Let_def log_def [symmetric] r_def [symmetric] a b snd_conv by simp
qed

theorem short_read_erases_durable_record_witness:
  "let r = next_record (reopened ''p'' []) 7 PlaceOrder ''r'' ''{}''
   in \<exists>log'. replay sample_json (sample_io \<lparr>rio_read_len := 1\<rparr>) (reopened ''p'' (file_of sample_json [r]))
        = (Some (Inr []), log') \<and> il_file log' = []"
proof -
  define r where "r = next_record (reopened ''p'' []) 7 PlaceOrder ''r'' ''{}''"
  have s: "in_i64 (il_next_seq (reopened ''p'' []))" "in_i64 7" by (simp_all add: reopened_def i64_defs)
  have w: "wf_record r" "chain_ok kGenesis 1 ([] @ [r])"
    unfolding r_def using next_record_link [OF chain_log_fresh [of sample_json "''p''"] s] by blast+
  have d: "1 < length (jl_dump sample_json (JObj (record_fields r)))"
    by (simp add: sample_json_def sample_dump_def)
  have "file_of sample_json [] = []" by (simp add: file_of_def)
  then show ?thesis
    using short_read_erases_durable_record [of sample_json "[]" r "sample_io \<lparr>rio_read_len := 1\<rparr>" 1 "''p''"]
      sample_json_ok w d unfolding r_def [symmetric] Let_def by (simp add: sample_io_def)
qed

section \<open>Tamper evidence\<close>

lemma framed_inject:
  assumes "show_nat (length v) @ CHR '':'' # v @ x = show_nat (length w) @ CHR '':'' # w @ y"
  shows "v = w \<and> x = y"
proof -
  have c: "CHR '':'' \<notin> set (show_nat n)" for n
    using show_nat_digits [of n] by (auto simp: is_ascii_digit_def)
  have "show_nat (length v) = show_nat (length w) \<and> v @ x = w @ y"
    by (rule append_sep_inject [OF c c, THEN iffD1, OF assms])
  then show ?thesis by auto
qed

lemma newline_not_in:
  "newline \<notin> set (show_int i)" "newline \<notin> set (intent_op_to_string op)"
  using show_int_chars [of newline i] by (auto simp: is_ascii_digit_def) (cases op; simp)

lemma op_string_inject: "intent_op_to_string a = intent_op_to_string b \<Longrightarrow> a = b"
  by (metis op_roundtrip option.inject)

lemma canonical_bytes_eq:
  "canonical_bytes r =
     CHR ''v'' # show_int (ir_schema_version r) @ newline #
     CHR ''s'' # show_int (ir_seq r) @ newline #
     CHR ''o'' # intent_op_to_string (ir_op r) @ newline #
     CHR ''t'' # show_int (ir_wall_ts_ns r) @ newline #
     CHR ''c'' # show_nat (length (ir_client_ref r)) @ CHR '':'' # ir_client_ref r @ newline #
     CHR ''p'' # show_nat (length (ir_payload_json r)) @ CHR '':'' # ir_payload_json r @ newline #
     CHR ''h'' # show_nat (length (ir_prev_hash r)) @ CHR '':'' # ir_prev_hash r @ [newline]"
  by (simp add: canonical_bytes_def append_framed_def Let_def)

lemma tagged_inject:
  assumes "t # u @ newline # x = t # v @ newline # y" "newline \<notin> set u" "newline \<notin> set v"
  shows "u = v" "x = y"
  using assms append_sep_inject [OF assms(2,3)] by auto

lemma tagged_framed_inject:
  assumes "t # show_nat (length v) @ CHR '':'' # v @ x = t # show_nat (length w) @ CHR '':'' # w @ y"
  shows "v = w" "x = y"
  using framed_inject [of v x w y] assms by simp_all

lemma canonical_bytes_inject:
  assumes "canonical_bytes a = canonical_bytes b" and "ir_hash a = ir_hash b"
  shows "a = b"
proof -
  note eq = assms(1) [unfolded canonical_bytes_eq]
  note e1 = tagged_inject [OF eq newline_not_in(1) newline_not_in(1)]
  note e2 = tagged_inject [OF e1(2) newline_not_in(1) newline_not_in(1)]
  note e3 = tagged_inject [OF e2(2) newline_not_in(2) newline_not_in(2)]
  note e4 = tagged_inject [OF e3(2) newline_not_in(1) newline_not_in(1)]
  note e5 = tagged_framed_inject [OF e4(2)]
  have e5': "CHR ''p'' # show_nat (length (ir_payload_json a)) @ CHR '':'' # ir_payload_json a @ newline #
      CHR ''h'' # show_nat (length (ir_prev_hash a)) @ CHR '':'' # ir_prev_hash a @ [newline] =
    CHR ''p'' # show_nat (length (ir_payload_json b)) @ CHR '':'' # ir_payload_json b @ newline #
      CHR ''h'' # show_nat (length (ir_prev_hash b)) @ CHR '':'' # ir_prev_hash b @ [newline]"
    using e5(2) by simp
  note e6 = tagged_framed_inject [OF e5']
  have e6': "CHR ''h'' # show_nat (length (ir_prev_hash a)) @ CHR '':'' # ir_prev_hash a @ [newline] =
      CHR ''h'' # show_nat (length (ir_prev_hash b)) @ CHR '':'' # ir_prev_hash b @ [newline]"
    using e6(2) by simp
  note e7 = tagged_framed_inject [OF e6']
  show ?thesis
    using e1(1) e2(1) op_string_inject [OF e3(1)] e4(1) e5(1) e6(1) e7(1) assms(2)
    by (cases a, cases b) simp
qed

lemma replay_loop_chain:
  "replay_loop lib st pos rest = LoopDone st' \<or> replay_loop lib st pos rest = LoopTorn st' a b \<Longrightarrow>
     \<exists>recs. rs_records st' = rs_records st @ recs \<and> chain_ok (rs_prev_hash st) (rs_expected_seq st) recs"
proof (induction lib st pos rest rule: replay_loop.induct)
  case (1 lib st pos rest)
  let ?line = "takeWhile (\<lambda>c. c \<noteq> newline) rest"
  consider "st' = st"
    | "?line = []" "rest \<noteq> []"
      "replay_loop lib st pos rest = replay_loop lib st (pos + length ?line + 1) (drop (length ?line + 1) rest)"
    | fs op_name r0 r where "?line \<noteq> []" "rest \<noteq> []" "jl_parse lib ?line = Some (JObj fs)"
      "read_record fs = Some (op_name, r0)" "verify_record st op_name r0 = Inr r"
      "replay_loop lib st pos rest = replay_loop lib (push_record st (length ?line = length rest) r)
         (pos + length ?line + 1) (drop (length ?line + 1) rest)"
    using "1.prems" by (subst (asm) (1 2) replay_loop.simps)
      (auto simp: Let_def replay_loop.simps [of lib st pos rest] split: if_splits option.splits json.splits sum.splits)
  then show ?case
  proof cases
    case 1
    then show ?thesis by (intro exI [of _ "[]"]) simp
  next
    case 2
    then show ?thesis using "1.IH"(1) "1.prems" by simp
  next
    case 3
    have "\<exists>recs. rs_records st' = rs_records (push_record st (length ?line = length rest) r) @ recs
        \<and> chain_ok (rs_prev_hash (push_record st (length ?line = length rest) r))
            (rs_expected_seq (push_record st (length ?line = length rest) r)) recs"
      using "1.IH"(2) [OF 3(2) refl refl refl refl 3(1) 3(3) refl 3(4) refl 3(5)] "1.prems" 3(6) by metis
    then obtain recs where "rs_records st' = rs_records st @ r # recs"
      "chain_ok (ir_hash r) (rs_expected_seq st + 1) recs" by auto
    moreover have "next_link (rs_prev_hash st) (rs_expected_seq st) r"
      using 3(5) by (auto simp: verify_next_link)
    ultimately show ?thesis by (intro exI [of _ "r # recs"]) simp
  qed
qed

lemma replay_sound:
  assumes "replay lib io log = (Some (Inr recs), log')"
  shows "chain_ok kGenesis 1 recs"
proof (cases "rio_open io")
  case OpenOk
  let ?c = "take (rio_read_len io) (il_file log)"
  have s: "replay_start (log \<lparr>il_torn_tail := no_torn_tail\<rparr>) = replay_start log"
    by (simp add: replay_start_def)
  obtain st where "rs_records st = recs" "replay_loop lib (replay_start log) 0 ?c = LoopDone st
      \<or> (\<exists>a b. replay_loop lib (replay_start log) 0 ?c = LoopTorn st a b)"
    using assms OpenOk unfolding replay_def
    by (auto simp: Let_def s replay_finish_def split: loop_result.splits option.splits if_splits prod.splits)
  then show ?thesis
    using replay_loop_chain [of lib "replay_start log" 0 ?c st] by (auto simp: replay_start_def)
qed (use assms in \<open>auto simp: replay_def Let_def\<close>)

text \<open>Two records with the same hash and different canonical bytes: a SHA-256 collision.\<close>

definition collide :: "intent_record \<Rightarrow> intent_record \<Rightarrow> bool" where
  "collide a b \<longleftrightarrow> canonical_bytes a \<noteq> canonical_bytes b
     \<and> sha256_hex (canonical_bytes a) = sha256_hex (canonical_bytes b)"

interpretation ichain: hash_chain next_link canonical_bytes ir_hash
  by unfold_locales (auto simp: next_link_def compute_hash_def dest: canonical_bytes_inject)

lemma chain_ok_chain_of: "chain_ok p n rs = chain_of next_link ir_hash p n rs"
  by (induction rs arbitrary: p n) simp_all

lemma chain_tamper:
  assumes "chain_ok kGenesis 1 recs" "chain_ok kGenesis 1 recs'" "recs \<noteq> []" "recs' \<noteq> []"
    "ir_hash (last recs) = ir_hash (last recs')"
  shows "recs = recs' \<or> (\<exists>a \<in> set recs. \<exists>b \<in> set recs'. collide a b)"
proof -
  obtain rs r rs' r' where recs: "recs = rs @ [r]" "recs' = rs' @ [r']"
    using assms(3,4) by (metis rev_exhaust)
  have l: "next_link (if rs = [] then kGenesis else ir_hash (last rs)) (1 + int (length rs)) r"
    "next_link (if rs' = [] then kGenesis else ir_hash (last rs')) (1 + int (length rs')) r'"
    using assms(1,2) unfolding recs chain_ok_snoc by blast+
  have h: "ir_hash r = ir_hash r'" using assms(5) recs by simp
  show ?thesis
  proof (cases "canonical_bytes r = canonical_bytes r'")
    case False
    then have "collide r r'" using l h by (simp add: collide_def next_link_def compute_hash_def)
    then show ?thesis by (auto simp: recs)
  next
    case True
    then have "r = r'" using canonical_bytes_inject h by blast
    then have "length recs = length recs'" using l recs by (simp add: next_link_def)
    then show ?thesis
      using ichain.chain_agree [of kGenesis 1 recs kGenesis recs'] assms recs
      by (auto simp: chain_ok_chain_of collide_def collision_def)
  qed
qed

text \<open>C12. Tamper evidence.  If two files both replay, whatever their contents and whatever the
  operating system did, and the last records returned carry the same hash, then the two replays
  returned the very same records in the same order, unless two of the records exhibit a SHA-256
  collision on their canonical bytes.  So the last hash commits to every field of every record.\<close>

theorem replay_tamper_evident:
  assumes "replay lib io log = (Some (Inr recs), log1)"
    and "replay lib' io' log' = (Some (Inr recs'), log1')"
    and "recs \<noteq> []" and "recs' \<noteq> []" and "ir_hash (last recs) = ir_hash (last recs')"
  shows "recs = recs' \<or> (\<exists>a \<in> set recs. \<exists>b \<in> set recs'. collide a b)"
  using chain_tamper [OF replay_sound [OF assms(1)] replay_sound [OF assms(2)] assms(3-5)] .

text \<open>The same file with and without its last newline.\<close>

theorem replay_tamper_evident_witness:
  "let log = reopened ''p'' []; r = next_record log 7 PlaceOrder ''r'' ''{}'';
       f = file_of sample_json [r]; g = jl_dump sample_json (JObj (record_fields r));
       io = sample_io \<lparr>rio_read_len := length f\<rparr>
   in \<exists>log1 log2 recs. replay sample_json io (reopened ''p'' f) = (Some (Inr [r]), log1)
        \<and> replay sample_json io (reopened ''p'' g) = (Some (Inr recs), log2)
        \<and> ([r] = recs \<or> (\<exists>a \<in> set [r]. \<exists>b \<in> set recs. collide a b))"
proof -
  define r where "r = next_record (reopened ''p'' []) 7 PlaceOrder ''r'' ''{}''"
  define f where "f = file_of sample_json [r]"
  define g where "g = jl_dump sample_json (JObj (record_fields r))"
  define io where "io = sample_io \<lparr>rio_read_len := length f\<rparr>"
  have s: "in_i64 (il_next_seq (reopened ''p'' []))" "in_i64 7" by (simp_all add: reopened_def i64_defs)
  have w: "\<forall>x \<in> set [r]. wf_record x" "chain_ok kGenesis 1 [r]"
    using next_record_link [OF chain_log_fresh [of sample_json "''p''"] s] by (simp_all add: r_def)
  have len: "length g \<le> length f"
    by (simp add: f_def g_def file_of_def to_json_line_def)
  have "good_io (reopened ''p'' f) io" "good_io (reopened ''p'' g) io"
    using len by (simp_all add: good_io_def io_def sample_io_def)
  then obtain log1 log2 where 1: "replay sample_json io (reopened ''p'' f) = (Some (Inr [r]), log1)"
    and 2: "replay sample_json io (reopened ''p'' g) = (Some (Inr ([] @ [r])), log2)"
    using replay_whole [OF sample_json_ok w, of _ "''p''" io]
      replay_missing_newline [OF sample_json_ok, of "[]" r _ "''p''" io] w
    unfolding f_def g_def by (fastforce simp: file_of_def)
  from replay_tamper_evident [OF 1 2] 1 2 show ?thesis
    unfolding r_def [symmetric] Let_def f_def [symmetric] g_def [symmetric] io_def [symmetric] by auto
qed

section \<open>Appends and look-ups\<close>

text \<open>A successful append keeps the log a verified chain extended by exactly the returned record,
  whose texts are the canonical form of the caller's; \<open>last_for\<close> finds that record under the
  caller's own bytes, ill-formed or not, and still finds what it found before for every reference
  with another canonical form.\<close>

theorem append_extends_chain:
  assumes "chain_log lib recs log" and "in_i64 (il_next_seq log)" and "in_i64 wall"
    and "log_append lib IoOk wall log op ref payload = (res, log')"
  shows "\<exists>r. res = Inr r \<and> chain_log lib (recs @ [r]) log' \<and> ir_op r = op
     \<and> ir_client_ref r = canonical_text ref \<and> ir_payload_json r = canonical_text payload
     \<and> ir_seq r = il_next_seq log
     \<and> last_for log' ref = Some r
     \<and> (\<forall>q. canonical_text q \<noteq> canonical_text ref \<longrightarrow> last_for log' q = last_for log q)"
proof -
  let ?r = "next_record log wall op ref payload"
  have f: "ir_op ?r = op" "ir_client_ref ?r = canonical_text ref"
    "ir_payload_json ?r = canonical_text payload" "ir_seq ?r = il_next_seq log"
    by (simp_all add: next_record_def Let_def)
  have i: "il_index log = index_of recs" "il_index log' = index_of (recs @ [?r])"
    using assms(1) chain_log_append(2) [OF assms] by (simp_all add: chain_log_def)
  show ?thesis
    using chain_log_append [OF assms] f by (simp add: last_for_def i index_of_snoc)
qed

theorem append_extends_chain_witness:
  "\<exists>r log'. log_append sample_json IoOk 7 (reopened ''p'' []) PlaceOrder (CHR 0xFF # ''r'') ''{}'' = (Inr r, log')
     \<and> chain_log sample_json [r] log' \<and> last_for log' (CHR 0xFF # ''r'') = Some r"
proof -
  obtain res log' where a: "log_append sample_json IoOk 7 (reopened ''p'' []) PlaceOrder (CHR 0xFF # ''r'') ''{}'' = (res, log')"
    by (metis surj_pair)
  have s: "in_i64 (il_next_seq (reopened ''p'' []))" "in_i64 7" by (simp_all add: reopened_def i64_defs)
  show ?thesis using append_extends_chain [OF chain_log_fresh s a] a by auto
qed

text \<open>An exception escapes \<open>replay\<close>, whose contract is to report every failure as a value: after
  any verified prefix, a newline-terminated line that parses as an object whose \<open>seq\<close> is a string
  makes the typed read throw, so the call does not return at all.\<close>

theorem replay_throws_on_mistyped_field:
  assumes "json_ok lib" and "\<forall>r \<in> set recs. wf_record r" and "chain_ok kGenesis 1 recs"
    and "newline \<notin> set line" and "line \<noteq> []" and "jl_parse lib line = Some (JObj fs)"
    and "map_of fs ''seq'' = Some (JStr s)"
    and "good_io (reopened path (file_of lib recs @ line @ [newline] @ rest)) io"
  shows "fst (replay lib io (reopened path (file_of lib recs @ line @ [newline] @ rest))) = None"
proof -
  let ?log = "reopened path (file_of lib recs @ line @ [newline] @ rest)"
  have "read_record fs = None"
    using assms(7) by (simp add: read_record_def json_value_int64_def split: option.split)
  then have "replay_loop lib (replay_start ?log) 0 (il_file ?log) = LoopThrow (push_records (replay_start ?log) recs)"
    using replay_own_file [OF assms(1,2), of "replay_start ?log" 0 "line @ [newline] @ rest"] assms(3,6)
      replay_loop_terminated [OF assms(4,5), of lib _ _ rest] by simp
  then show ?thesis by (rule replay_abrupt(1) [OF assms(8)])
qed

theorem replay_throws_on_mistyped_field_witness:
  "let line = ''{'' @ enc_bytes ''seq'' @ '':$'' @ enc_bytes ''x'' @ '',}''
   in fst (replay sample_json sample_io (reopened ''p'' (file_of sample_json [] @ line @ [newline] @ []))) = None"
proof -
  define line where "line = ''{'' @ enc_bytes ''seq'' @ '':$'' @ enc_bytes ''x'' @ '',}''"
  have l: "line = jl_dump sample_json (JObj [(''seq'', JStr ''x'')])"
    by (simp add: line_def sample_json_def sample_dump_def)
  have flat: "flat_object [(''seq'', JStr ''x'')]" by (simp add: flat_object_def json_scalar_def)
  have p: "jl_parse sample_json line = Some (JObj [(''seq'', JStr ''x'')])"
    using dec_fields_enc [of "[(''seq'', JStr ''x'')]"]
    by (simp add: line_def sample_json_def sample_parse_def json_scalar_def butlast_append)
  have io: "good_io (reopened ''p'' (file_of sample_json [] @ line @ [newline] @ [])) sample_io"
    by (simp add: good_io_def sample_io_def file_of_def line_def enc_bytes_def enc_byte_def)
  show ?thesis
    using replay_throws_on_mistyped_field [OF sample_json_ok _ _ _ _ p _ io]
      json_okD(1,2) [OF sample_json_ok flat] unfolding l [symmetric] line_def [symmetric] Let_def by simp
qed

end
