(* ===== verification/Store.thy ===== *)
theory Store
  imports Domain_Types Errors "HOL-Library.Char_ord" "HOL-Library.List_Lexorder"
begin

text \<open>
  \<^verbatim>\<open>store/store.cpp\<close> and \<^verbatim>\<open>store/sqlite_util.hpp\<close>: the SQLite projection, row by row.  A table is
  the list of its rows in insertion order; every SQL statement of the source is the function it
  denotes on that list (\<open>INSERT\<close> against a \<open>UNIQUE\<close> column, \<open>INSERT OR IGNORE\<close>, \<open>ON CONFLICT DO
  UPDATE\<close>, \<open>SELECT .. ORDER BY\<close>).  Whether the engine accepts a statement is an argument
  (\<open>sql_fate\<close>, with the raw result code), so every theorem covers every failure.

  The locale \<open>keyed_table\<close> is the contract the rest of the program uses a table by; it is
  interpreted on the orders, positions and funds of this model.
\<close>

section \<open>Result codes\<close>

definition SQLITE_CONSTRAINT :: int where "SQLITE_CONSTRAINT = 19"
definition SQLITE_CORRUPT :: int where "SQLITE_CORRUPT = 11"
definition SQLITE_NOTADB :: int where "SQLITE_NOTADB = 26"

definition sqlite_error :: "int \<Rightarrow> string \<Rightarrow> error" where
  "sqlite_error code ctx =
     (let primary = code mod 256;
          category = (if primary = SQLITE_CONSTRAINT then Validation else Internal)
      in make_error category (''store: '' @ ctx) (''SQLITE_'' @ show_int code))"

definition is_constraint :: "int \<Rightarrow> bool" where
  "is_constraint code \<longleftrightarrow> code mod 256 = SQLITE_CONSTRAINT"

definition is_corruption :: "int \<Rightarrow> bool" where
  "is_corruption code \<longleftrightarrow> (let primary = code mod 256 in primary = SQLITE_CORRUPT \<or> primary = SQLITE_NOTADB)"

text \<open>What the engine does with one statement: run it, or fail to prepare, bind or step it.\<close>

datatype sql_fate = SqlOk | SqlPrepare int | SqlBind int | SqlStep int

section \<open>Enumerations as text\<close>

definition decode_side :: "string \<Rightarrow> side" where
  "decode_side t = (if t = ''SELL'' then Sell else Buy)"

definition decode_order_type :: "string \<Rightarrow> order_type" where
  "decode_order_type t =
     (if t = ''LIMIT'' then Limit else if t = ''SL'' then StopLoss
      else if t = ''SL-M'' then StopLossMarket else Market)"

definition decode_product :: "string \<Rightarrow> product_kind" where
  "decode_product t =
     (if t = ''DELIVERY'' then Delivery else if t = ''MARGIN'' then Margin
      else if t = ''NORMAL'' then Normal else Intraday)"

definition decode_state :: "string \<Rightarrow> order_state" where
  "decode_state t =
     (if t = ''VALIDATED'' then Validated
      else if t = ''PENDING_SEND'' then PendingSend
      else if t = ''SENT'' then Sent
      else if t = ''ACKNOWLEDGED'' then Acknowledged
      else if t = ''PARTIALLY_FILLED'' then PartiallyFilled
      else if t = ''FILLED'' then Filled
      else if t = ''REJECTED'' then Rejected
      else if t = ''CANCELLED'' then Cancelled
      else if t = ''UNKNOWN'' then Unknown
      else if t = ''RECONCILED'' then Reconciled
      else if t = ''PARTIALLY_PLACED'' then PartiallyPlaced
      else if t = ''MANUAL_INTERVENTION_REQUIRED'' then ManualInterventionRequired
      else Created)"

section \<open>Rows\<close>

record order_row =
  or_client_ref :: string
  or_symbol :: string
  or_side :: string
  or_quantity :: int64
  or_price_paise :: int64
  or_order_type :: string
  or_product :: string
  or_strategy :: string
  or_state :: string
  or_broker_order_id :: string
  or_filled_qty :: int64
  or_avg_price_paise :: int64
  or_trigger_price_paise :: "int64 option"

record trade_row =
  trr_trade_id :: string
  trr_client_ref :: string
  trr_broker_order_id :: string
  trr_quantity :: int64
  trr_price_paise :: int64

record position_row =
  por_symbol :: string
  por_net_qty :: int64
  por_avg_price_paise :: int64

record funds =
  fd_account :: string
  fd_available :: money
  fd_used_margin :: money
  fd_fetched_at_epoch_ms :: int64

record funds_row =
  fdr_account :: string
  fdr_available_paise :: int64
  fdr_used_margin_paise :: int64
  fdr_fetched_at_epoch_ms :: int64

record risk_event =
  re_id :: int64
  re_client_ref :: string
  re_rule :: string
  re_detail :: string
  re_at_epoch_ms :: int64

record audit_record =
  au_id :: int64
  au_seq :: int64
  au_client_ref :: string
  au_event :: string
  au_payload :: string
  au_at_epoch_ms :: int64

record store =
  st_orders :: "order_row list"
  st_trades :: "trade_row list"
  st_positions :: "position_row list"
  st_funds :: "funds_row list"
  st_risk_events :: "risk_event list"
  st_audit :: "audit_record list"

definition empty_store :: store where
  "empty_store = \<lparr>st_orders = [], st_trades = [], st_positions = [], st_funds = [],
     st_risk_events = [], st_audit = []\<rparr>"

section \<open>Table operations\<close>

definition table_find :: "('r \<Rightarrow> string) \<Rightarrow> string \<Rightarrow> 'r list \<Rightarrow> 'r option" where
  "table_find key k rows = List.find (\<lambda>r. key r = k) rows"

text \<open>\<open>INSERT .. ON CONFLICT(key) DO UPDATE SET\<close> every other column.\<close>

fun table_upsert :: "('r \<Rightarrow> string) \<Rightarrow> 'r \<Rightarrow> 'r list \<Rightarrow> 'r list" where
  "table_upsert key r [] = [r]"
| "table_upsert key r (x # xs) = (if key x = key r then r # xs else x # table_upsert key r xs)"

definition table_has :: "('r \<Rightarrow> string) \<Rightarrow> string \<Rightarrow> 'r list \<Rightarrow> bool" where
  "table_has key k rows = list_ex (\<lambda>r. key r = k) rows"

text \<open>The rowid of an \<open>INTEGER PRIMARY KEY\<close> column: one more than the largest in use.\<close>

definition next_rowid :: "('r \<Rightarrow> int64) \<Rightarrow> 'r list \<Rightarrow> int64" where
  "next_rowid rid rows = (if rows = [] then 1 else Max (set (map rid rows)) + 1)"

section \<open>Orders\<close>

definition bind_order :: "order \<Rightarrow> order_row" where
  "bind_order r =
     (let i = ord_intent r in
      \<lparr>or_client_ref = oi_client_ref i, or_symbol = oi_symbol i,
       or_side = side_to_string (oi_side i), or_quantity = qty_value (oi_quantity i),
       or_price_paise = price_paise (oi_price i),
       or_order_type = order_type_to_string (oi_order_type i),
       or_product = product_to_string (oi_product i), or_strategy = oi_strategy i,
       or_state = order_state_to_string (ord_state r), or_broker_order_id = ord_broker_order_id r,
       or_filled_qty = qty_value (ord_filled_qty r), or_avg_price_paise = price_paise (ord_avg_price r),
       or_trigger_price_paise = map_option price_paise (oi_trigger_price i)\<rparr>)"

definition read_order :: "order_row \<Rightarrow> order" where
  "read_order w =
     \<lparr>ord_intent = \<lparr>oi_client_ref = or_client_ref w, oi_symbol = or_symbol w,
        oi_side = decode_side (or_side w), oi_quantity = Quantity (or_quantity w),
        oi_price = Price (or_price_paise w), oi_trigger_price = map_option Price (or_trigger_price_paise w),
        oi_order_type = decode_order_type (or_order_type w), oi_product = decode_product (or_product w),
        oi_strategy = or_strategy w\<rparr>,
      ord_state = decode_state (or_state w), ord_broker_order_id = or_broker_order_id w,
      ord_filled_qty = Quantity (or_filled_qty w), ord_avg_price = Price (or_avg_price_paise w)\<rparr>"

definition insert_order :: "sql_fate \<Rightarrow> store \<Rightarrow> order \<Rightarrow> unit result \<times> store" where
  "insert_order fate st r =
     (case fate of
        SqlPrepare c \<Rightarrow> (Inl (sqlite_error c ''prepare failed''), st)
      | SqlBind c \<Rightarrow> (Inl (sqlite_error c ''bind order''), st)
      | SqlStep c \<Rightarrow>
          (if is_constraint c
           then (Inl (make_error DuplicateOrder ''store: order with this client_ref already exists'' []), st)
           else (Inl (sqlite_error c ''insert order''), st))
      | SqlOk \<Rightarrow>
          (if table_has or_client_ref (or_client_ref (bind_order r)) (st_orders st)
           then (Inl (make_error DuplicateOrder ''store: order with this client_ref already exists'' []), st)
           else (Inr (), st \<lparr>st_orders := st_orders st @ [bind_order r]\<rparr>)))"

definition upsert_order :: "sql_fate \<Rightarrow> store \<Rightarrow> order \<Rightarrow> unit result \<times> store" where
  "upsert_order fate st r =
     (case fate of
        SqlPrepare c \<Rightarrow> (Inl (sqlite_error c ''prepare failed''), st)
      | SqlBind c \<Rightarrow> (Inl (sqlite_error c ''bind order''), st)
      | SqlStep c \<Rightarrow> (Inl (sqlite_error c ''upsert order''), st)
      | SqlOk \<Rightarrow> (Inr (), st \<lparr>st_orders := table_upsert or_client_ref (bind_order r) (st_orders st)\<rparr>))"

definition find_order :: "sql_fate \<Rightarrow> store \<Rightarrow> string \<Rightarrow> order option result" where
  "find_order fate st client_ref =
     (case fate of
        SqlPrepare c \<Rightarrow> Inl (sqlite_error c ''prepare failed'')
      | SqlBind c \<Rightarrow> Inl (sqlite_error c ''bind client_ref'')
      | SqlStep c \<Rightarrow> Inl (sqlite_error c ''find order'')
      | SqlOk \<Rightarrow> Inr (map_option read_order (table_find or_client_ref client_ref (st_orders st))))"

definition all_orders :: "sql_fate \<Rightarrow> store \<Rightarrow> order list result" where
  "all_orders fate st =
     (case fate of
        SqlPrepare c \<Rightarrow> Inl (sqlite_error c ''prepare failed'')
      | SqlBind c \<Rightarrow> Inl (sqlite_error c ''list orders'')
      | SqlStep c \<Rightarrow> Inl (sqlite_error c ''list orders'')
      | SqlOk \<Rightarrow> Inr (map read_order (sort_key or_client_ref (st_orders st))))"

section \<open>Trades, positions, funds\<close>

definition insert_trade :: "sql_fate \<Rightarrow> store \<Rightarrow> trade \<Rightarrow> unit result \<times> store" where
  "insert_trade fate st t =
     (case fate of
        SqlPrepare c \<Rightarrow> (Inl (sqlite_error c ''prepare failed''), st)
      | SqlBind c \<Rightarrow> (Inl (sqlite_error c ''bind trade''), st)
      | SqlStep c \<Rightarrow> (Inl (sqlite_error c ''insert trade''), st)
      | SqlOk \<Rightarrow>
          (Inr (),
           if table_has trr_trade_id (tr_trade_id t) (st_trades st) then st
           else st \<lparr>st_trades := st_trades st @
             [\<lparr>trr_trade_id = tr_trade_id t, trr_client_ref = tr_client_ref t,
               trr_broker_order_id = tr_broker_order_id t, trr_quantity = qty_value (tr_quantity t),
               trr_price_paise = price_paise (tr_price t)\<rparr>]\<rparr>))"

definition read_trade :: "trade_row \<Rightarrow> trade" where
  "read_trade w = \<lparr>tr_trade_id = trr_trade_id w, tr_client_ref = trr_client_ref w,
     tr_broker_order_id = trr_broker_order_id w, tr_quantity = Quantity (trr_quantity w),
     tr_price = Price (trr_price_paise w)\<rparr>"

definition all_trades :: "sql_fate \<Rightarrow> store \<Rightarrow> trade list result" where
  "all_trades fate st =
     (case fate of
        SqlPrepare c \<Rightarrow> Inl (sqlite_error c ''prepare failed'')
      | SqlBind c \<Rightarrow> Inl (sqlite_error c ''list trades'')
      | SqlStep c \<Rightarrow> Inl (sqlite_error c ''list trades'')
      | SqlOk \<Rightarrow> Inr (map read_trade (sort_key trr_trade_id (st_trades st))))"

definition bind_position :: "position \<Rightarrow> position_row" where
  "bind_position p = \<lparr>por_symbol = pos_symbol p, por_net_qty = qty_value (pos_net_qty p),
     por_avg_price_paise = price_paise (pos_avg_price p)\<rparr>"

definition upsert_position :: "sql_fate \<Rightarrow> store \<Rightarrow> position \<Rightarrow> unit result \<times> store" where
  "upsert_position fate st p =
     (case fate of
        SqlPrepare c \<Rightarrow> (Inl (sqlite_error c ''prepare failed''), st)
      | SqlBind c \<Rightarrow> (Inl (sqlite_error c ''bind position''), st)
      | SqlStep c \<Rightarrow> (Inl (sqlite_error c ''upsert position''), st)
      | SqlOk \<Rightarrow> (Inr (), st \<lparr>st_positions := table_upsert por_symbol (bind_position p) (st_positions st)\<rparr>))"

definition read_position :: "position_row \<Rightarrow> position" where
  "read_position w = \<lparr>pos_symbol = por_symbol w, pos_net_qty = Quantity (por_net_qty w),
     pos_avg_price = Price (por_avg_price_paise w)\<rparr>"

definition find_position :: "sql_fate \<Rightarrow> store \<Rightarrow> string \<Rightarrow> position option result" where
  "find_position fate st symbol =
     (case fate of
        SqlPrepare c \<Rightarrow> Inl (sqlite_error c ''prepare failed'')
      | SqlBind c \<Rightarrow> Inl (sqlite_error c ''bind symbol'')
      | SqlStep c \<Rightarrow> Inl (sqlite_error c ''find position'')
      | SqlOk \<Rightarrow> Inr (map_option read_position (table_find por_symbol symbol (st_positions st))))"

definition all_positions :: "sql_fate \<Rightarrow> store \<Rightarrow> position list result" where
  "all_positions fate st =
     (case fate of
        SqlPrepare c \<Rightarrow> Inl (sqlite_error c ''prepare failed'')
      | SqlBind c \<Rightarrow> Inl (sqlite_error c ''list positions'')
      | SqlStep c \<Rightarrow> Inl (sqlite_error c ''list positions'')
      | SqlOk \<Rightarrow> Inr (map read_position (sort_key por_symbol (st_positions st))))"

definition bind_funds :: "funds \<Rightarrow> funds_row" where
  "bind_funds f = \<lparr>fdr_account = fd_account f, fdr_available_paise = money_paise (fd_available f),
     fdr_used_margin_paise = money_paise (fd_used_margin f),
     fdr_fetched_at_epoch_ms = fd_fetched_at_epoch_ms f\<rparr>"

definition upsert_funds :: "sql_fate \<Rightarrow> store \<Rightarrow> funds \<Rightarrow> unit result \<times> store" where
  "upsert_funds fate st f =
     (case fate of
        SqlPrepare c \<Rightarrow> (Inl (sqlite_error c ''prepare failed''), st)
      | SqlBind c \<Rightarrow> (Inl (sqlite_error c ''bind funds''), st)
      | SqlStep c \<Rightarrow> (Inl (sqlite_error c ''upsert funds''), st)
      | SqlOk \<Rightarrow> (Inr (), st \<lparr>st_funds := table_upsert fdr_account (bind_funds f) (st_funds st)\<rparr>))"

definition read_funds :: "funds_row \<Rightarrow> funds" where
  "read_funds w = \<lparr>fd_account = fdr_account w, fd_available = Money (fdr_available_paise w),
     fd_used_margin = Money (fdr_used_margin_paise w),
     fd_fetched_at_epoch_ms = fdr_fetched_at_epoch_ms w\<rparr>"

definition find_funds :: "sql_fate \<Rightarrow> store \<Rightarrow> string \<Rightarrow> funds option result" where
  "find_funds fate st account =
     (case fate of
        SqlPrepare c \<Rightarrow> Inl (sqlite_error c ''prepare failed'')
      | SqlBind c \<Rightarrow> Inl (sqlite_error c ''bind account'')
      | SqlStep c \<Rightarrow> Inl (sqlite_error c ''find funds'')
      | SqlOk \<Rightarrow> Inr (map_option read_funds (table_find fdr_account account (st_funds st))))"

section \<open>Append-only tables\<close>

definition insert_risk_event :: "sql_fate \<Rightarrow> store \<Rightarrow> risk_event \<Rightarrow> unit result \<times> store" where
  "insert_risk_event fate st e =
     (case fate of
        SqlPrepare c \<Rightarrow> (Inl (sqlite_error c ''prepare failed''), st)
      | SqlBind c \<Rightarrow> (Inl (sqlite_error c ''bind risk_event''), st)
      | SqlStep c \<Rightarrow> (Inl (sqlite_error c ''insert risk_event''), st)
      | SqlOk \<Rightarrow> (Inr (), st \<lparr>st_risk_events :=
           st_risk_events st @ [e \<lparr>re_id := next_rowid re_id (st_risk_events st)\<rparr>]\<rparr>))"

definition all_risk_events :: "sql_fate \<Rightarrow> store \<Rightarrow> risk_event list result" where
  "all_risk_events fate st =
     (case fate of
        SqlPrepare c \<Rightarrow> Inl (sqlite_error c ''prepare failed'')
      | SqlBind c \<Rightarrow> Inl (sqlite_error c ''list risk_events'')
      | SqlStep c \<Rightarrow> Inl (sqlite_error c ''list risk_events'')
      | SqlOk \<Rightarrow> Inr (sort_key re_id (st_risk_events st)))"

definition insert_audit :: "sql_fate \<Rightarrow> store \<Rightarrow> audit_record \<Rightarrow> unit result \<times> store" where
  "insert_audit fate st a =
     (case fate of
        SqlPrepare c \<Rightarrow> (Inl (sqlite_error c ''prepare failed''), st)
      | SqlBind c \<Rightarrow> (Inl (sqlite_error c ''bind audit''), st)
      | SqlStep c \<Rightarrow> (Inl (sqlite_error c ''insert audit''), st)
      | SqlOk \<Rightarrow> (Inr (), st \<lparr>st_audit := st_audit st @ [a \<lparr>au_id := next_rowid au_id (st_audit st)\<rparr>]\<rparr>))"

definition all_audit :: "sql_fate \<Rightarrow> store \<Rightarrow> audit_record list result" where
  "all_audit fate st =
     (case fate of
        SqlPrepare c \<Rightarrow> Inl (sqlite_error c ''prepare failed'')
      | SqlBind c \<Rightarrow> Inl (sqlite_error c ''list audit'')
      | SqlStep c \<Rightarrow> Inl (sqlite_error c ''list audit'')
      | SqlOk \<Rightarrow> Inr (sort_key au_id (st_audit st)))"

section \<open>The contract of a keyed table\<close>

locale keyed_table =
  fixes lookup :: "'s \<Rightarrow> string \<Rightarrow> 'r option"
    and put :: "'s \<Rightarrow> 'r \<Rightarrow> 's"
    and key :: "'r \<Rightarrow> string"
    and ok :: "'s \<Rightarrow> bool"
  assumes lookup_key: "lookup s k = Some r \<Longrightarrow> key r = k"
    and lookup_put: "lookup (put s r) k = (if k = key r then Some r else lookup s k)"
    and put_ok: "ok s \<Longrightarrow> ok (put s r)"
begin

lemma last_writer_wins:
  "lookup (foldl put s rs) k = (case List.find (\<lambda>r. key r = k) (rev rs) of
     Some r \<Rightarrow> Some r | None \<Rightarrow> lookup s k)"
  by (induction rs rule: rev_induct) (simp_all add: lookup_put)

lemma foldl_put_ok: "ok s \<Longrightarrow> ok (foldl put s rs)"
  by (induction rs arbitrary: s) (simp_all add: put_ok)

lemma put_commute:
  "key a \<noteq> key b \<Longrightarrow> lookup (put (put s a) b) k = lookup (put (put s b) a) k"
  by (simp add: lookup_put)

lemma put_same: "lookup s (key r) = Some r \<Longrightarrow> lookup (put s r) k = lookup s k"
  by (simp add: lookup_put)

end

section \<open>Rows decode to what was bound\<close>

lemma decode_side_inverse [simp]: "decode_side (side_to_string x) = x"
  by (cases x) (simp_all add: decode_side_def)

lemma decode_order_type_inverse [simp]: "decode_order_type (order_type_to_string x) = x"
  by (cases x) (simp_all add: decode_order_type_def)

lemma decode_product_inverse [simp]: "decode_product (product_to_string x) = x"
  by (cases x) (simp_all add: decode_product_def)

lemma decode_state_inverse [simp]: "decode_state (order_state_to_string x) = x"
  by (cases x) (simp_all add: decode_state_def)

lemma read_bind_order [simp]: "read_order (bind_order r) = r"
  by (cases r) (simp add: read_order_def bind_order_def Let_def option.map_comp comp_def option.map_ident)

lemma read_bind_position [simp]: "read_position (bind_position p) = p"
  by (simp add: read_position_def bind_position_def)

lemma read_bind_funds [simp]: "read_funds (bind_funds f) = f"
  by (simp add: read_funds_def bind_funds_def)

lemma row_keys [simp]:
  "or_client_ref (bind_order r) = oi_client_ref (ord_intent r)"
  "por_symbol (bind_position p) = pos_symbol p" "fdr_account (bind_funds f) = fd_account f"
  "oi_client_ref (ord_intent (read_order w)) = or_client_ref w"
  "pos_symbol (read_position pw) = por_symbol pw" "fd_account (read_funds fw) = fdr_account fw"
  by (simp_all add: bind_order_def bind_position_def bind_funds_def Let_def read_order_def
      read_position_def read_funds_def)

section \<open>Tables\<close>

definition unique_rows :: "('r \<Rightarrow> string) \<Rightarrow> 'r list \<Rightarrow> bool" where
  "unique_rows key rows = distinct (map key rows)"

lemma table_find_upsert:
  "table_find key k (table_upsert key r rows) = (if k = key r then Some r else table_find key k rows)"
  by (induction key r rows rule: table_upsert.induct) (auto simp: table_find_def)

lemma upsert_keys: "set (map key (table_upsert key r rows)) = insert (key r) (set (map key rows))"
  by (induction key r rows rule: table_upsert.induct) auto

lemma unique_upsert: "unique_rows key rows \<Longrightarrow> unique_rows key (table_upsert key r rows)"
proof (induction key r rows rule: table_upsert.induct)
  case (2 key r x xs)
  then show ?case using upsert_keys [of key r xs] by (auto simp: unique_rows_def)
qed (simp add: unique_rows_def)

lemma table_find_Some: "table_find key k rows = Some r \<Longrightarrow> key r = k \<and> r \<in> set rows"
  by (auto simp: table_find_def find_Some_iff)

lemma table_find_None: "table_find key k rows = None \<longleftrightarrow> \<not> table_has key k rows"
  by (auto simp: table_find_def table_has_def find_None_iff list_ex_iff)

lemma table_find_append:
  "table_find key k (rows @ [r]) =
     (case table_find key k rows of Some x \<Rightarrow> Some x | None \<Rightarrow> if key r = k then Some r else None)"
  by (induction rows) (auto simp: table_find_def)

lemma table_find_unique: "unique_rows key rows \<Longrightarrow> w \<in> set rows \<Longrightarrow> table_find key (key w) rows = Some w"
  by (induction rows) (auto simp: table_find_def unique_rows_def)

lemma unique_append: "unique_rows key rows \<Longrightarrow> \<not> table_has key (key r) rows \<Longrightarrow> unique_rows key (rows @ [r])"
  by (auto simp: unique_rows_def table_has_def list_ex_iff)

text \<open>The database invariant: the \<open>UNIQUE\<close> columns are unique, the rowids strictly increase.\<close>

definition store_ok :: "store \<Rightarrow> bool" where
  "store_ok st \<longleftrightarrow> unique_rows or_client_ref (st_orders st) \<and> unique_rows trr_trade_id (st_trades st)
     \<and> unique_rows por_symbol (st_positions st) \<and> unique_rows fdr_account (st_funds st)
     \<and> sorted_wrt (<) (map re_id (st_risk_events st)) \<and> sorted_wrt (<) (map au_id (st_audit st))"

text \<open>The three keyed tables as a client sees them.\<close>

definition lookup_order :: "store \<Rightarrow> string \<Rightarrow> order option" where
  "lookup_order st k = (case find_order SqlOk st k of Inr x \<Rightarrow> x | Inl _ \<Rightarrow> None)"

definition put_order :: "store \<Rightarrow> order \<Rightarrow> store" where
  "put_order st r = snd (upsert_order SqlOk st r)"

definition order_key :: "order \<Rightarrow> string" where
  "order_key r = oi_client_ref (ord_intent r)"

definition lookup_position :: "store \<Rightarrow> string \<Rightarrow> position option" where
  "lookup_position st k = (case find_position SqlOk st k of Inr x \<Rightarrow> x | Inl _ \<Rightarrow> None)"

definition lookup_funds :: "store \<Rightarrow> string \<Rightarrow> funds option" where
  "lookup_funds st k = (case find_funds SqlOk st k of Inr x \<Rightarrow> x | Inl _ \<Rightarrow> None)"

interpretation orders: keyed_table lookup_order put_order order_key store_ok
proof
  show "lookup_order s k = Some r \<Longrightarrow> order_key r = k" for s k r
    by (auto simp: lookup_order_def find_order_def order_key_def dest!: table_find_Some)
  show "lookup_order (put_order s r) k = (if k = order_key r then Some r else lookup_order s k)" for s r k
    by (simp add: lookup_order_def find_order_def put_order_def upsert_order_def order_key_def
        table_find_upsert)
  show "store_ok s \<Longrightarrow> store_ok (put_order s r)" for s r
    by (simp add: put_order_def upsert_order_def store_ok_def unique_upsert)
qed

interpretation positions: keyed_table lookup_position "\<lambda>s p. snd (upsert_position SqlOk s p)" pos_symbol store_ok
proof
  show "lookup_position s k = Some r \<Longrightarrow> pos_symbol r = k" for s k r
    by (auto simp: lookup_position_def find_position_def dest!: table_find_Some)
  show "lookup_position (snd (upsert_position SqlOk s r)) k =
      (if k = pos_symbol r then Some r else lookup_position s k)" for s r k
    by (simp add: lookup_position_def find_position_def upsert_position_def table_find_upsert)
  show "store_ok s \<Longrightarrow> store_ok (snd (upsert_position SqlOk s r))" for s r
    by (simp add: upsert_position_def store_ok_def unique_upsert)
qed

interpretation funds: keyed_table lookup_funds "\<lambda>s f. snd (upsert_funds SqlOk s f)" fd_account store_ok
proof
  show "lookup_funds s k = Some r \<Longrightarrow> fd_account r = k" for s k r
    by (auto simp: lookup_funds_def find_funds_def dest!: table_find_Some)
  show "lookup_funds (snd (upsert_funds SqlOk s r)) k =
      (if k = fd_account r then Some r else lookup_funds s k)" for s r k
    by (simp add: lookup_funds_def find_funds_def upsert_funds_def table_find_upsert)
  show "store_ok s \<Longrightarrow> store_ok (snd (upsert_funds SqlOk s r))" for s r
    by (simp add: upsert_funds_def store_ok_def unique_upsert)
qed

section \<open>Properties of the projection\<close>

lemma find_order_lookup: "find_order SqlOk st k = Inr (lookup_order st k)"
  by (simp add: lookup_order_def find_order_def)

lemma insert_order_ok:
  "insert_order SqlOk st r =
     (if lookup_order st (order_key r) = None
      then (Inr (), st \<lparr>st_orders := st_orders st @ [bind_order r]\<rparr>)
      else (Inl (make_error DuplicateOrder ''store: order with this client_ref already exists'' []), st))"
  by (simp add: insert_order_def lookup_order_def find_order_def order_key_def table_find_None)

lemma lookup_insert_order:
  assumes "insert_order fate st r = (Inr u, st')"
  shows "lookup_order st' k = (if k = order_key r then Some r else lookup_order st k)"
    and "lookup_order st (order_key r) = None"
proof -
  have "fate = SqlOk" using assms by (cases fate) (auto simp: insert_order_def split: if_splits)
  then have a: "lookup_order st (order_key r) = None"
    "st' = st \<lparr>st_orders := st_orders st @ [bind_order r]\<rparr>"
    using assms by (auto simp: insert_order_ok split: if_splits)
  then show "lookup_order st (order_key r) = None"
    and "lookup_order st' k = (if k = order_key r then Some r else lookup_order st k)"
    by (auto simp: lookup_order_def find_order_def table_find_append order_key_def split: option.split)
qed

text \<open>The idempotency backstop.  Inserting an order succeeds exactly when the engine runs the
  statement and no row has its client reference; then that reference finds the very same order,
  every enumeration and the optional trigger included, and no other reference changes.  Otherwise
  the store is untouched, and a second insert for a reference is reported as \<open>DuplicateOrder\<close>.\<close>

theorem insert_order_unique:
  assumes "insert_order fate st r = (res, st')"
  shows "(res = Inr () \<longleftrightarrow> fate = SqlOk \<and> lookup_order st (order_key r) = None)
    \<and> (res = Inr () \<longrightarrow> find_order SqlOk st' (order_key r) = Inr (Some r)
         \<and> (\<forall>k. k \<noteq> order_key r \<longrightarrow> find_order SqlOk st' k = find_order SqlOk st k))
    \<and> (res \<noteq> Inr () \<longrightarrow> st' = st)
    \<and> (fate = SqlOk \<and> res \<noteq> Inr () \<longrightarrow> (\<exists>e. res = Inl e \<and> err_category e = DuplicateOrder))"
proof (cases "res = Inr ()")
  case True
  then have i: "insert_order fate st r = (Inr (), st')" using assms by simp
  have "fate = SqlOk" using i by (cases fate) (auto simp: insert_order_def split: if_splits)
  then show ?thesis using True lookup_insert_order [OF i] by (simp add: find_order_lookup)
next
  case False
  have "st' = st" using assms False by (cases fate) (auto simp: insert_order_def split: if_splits)
  moreover have "fate = SqlOk \<longrightarrow> lookup_order st (order_key r) \<noteq> None
      \<and> (\<exists>e. res = Inl e \<and> err_category e = DuplicateOrder)"
    using assms False by (auto simp: insert_order_ok split: if_splits)
  ultimately show ?thesis using False by auto
qed

definition sample_stored :: order where
  "sample_stored = \<lparr>ord_intent = \<lparr>oi_client_ref = ''r1'', oi_symbol = ''NIFTY'', oi_side = Sell,
     oi_quantity = Quantity 75, oi_price = Price 10050, oi_trigger_price = Some (Price 9900),
     oi_order_type = StopLossMarket, oi_product = Normal, oi_strategy = ''alpha''\<rparr>,
   ord_state = PartiallyPlaced, ord_broker_order_id = ''B1'', ord_filled_qty = Quantity 25,
   ord_avg_price = Price 10000\<rparr>"

theorem insert_order_unique_witness:
  "let (res, st') = insert_order SqlOk empty_store sample_stored;
       (res2, st'') = insert_order SqlOk st' (sample_stored \<lparr>ord_state := Filled\<rparr>)
   in res = Inr () \<and> find_order SqlOk st' ''r1'' = Inr (Some sample_stored)
      \<and> st'' = st' \<and> (\<exists>e. res2 = Inl e \<and> err_category e = DuplicateOrder)"
proof -
  obtain res st' where a: "insert_order SqlOk empty_store sample_stored = (res, st')" by (metis surj_pair)
  obtain res2 st'' where b: "insert_order SqlOk st' (sample_stored \<lparr>ord_state := Filled\<rparr>) = (res2, st'')"
    by (metis surj_pair)
  have k: "order_key sample_stored = ''r1''" "order_key (sample_stored \<lparr>ord_state := Filled\<rparr>) = ''r1''"
    by (simp_all add: order_key_def sample_stored_def)
  have n: "lookup_order empty_store ''r1'' = None"
    by (simp add: lookup_order_def find_order_def empty_store_def table_find_def)
  show ?thesis
    using insert_order_unique [OF a] insert_order_unique [OF b] k n
    by (auto simp: a b find_order_lookup)
qed

text \<open>Every operation that writes, with its fate: the alphabet of a run of the projection.\<close>

datatype store_write =
    WInsertOrder order | WUpsertOrder order | WInsertTrade trade | WUpsertPosition position
  | WUpsertFunds funds | WInsertRiskEvent risk_event | WInsertAudit audit_record

fun run_write :: "store \<Rightarrow> sql_fate \<times> store_write \<Rightarrow> store" where
  "run_write st (f, WInsertOrder r) = snd (insert_order f st r)"
| "run_write st (f, WUpsertOrder r) = snd (upsert_order f st r)"
| "run_write st (f, WInsertTrade t) = snd (insert_trade f st t)"
| "run_write st (f, WUpsertPosition p) = snd (upsert_position f st p)"
| "run_write st (f, WUpsertFunds x) = snd (upsert_funds f st x)"
| "run_write st (f, WInsertRiskEvent e) = snd (insert_risk_event f st e)"
| "run_write st (f, WInsertAudit a) = snd (insert_audit f st a)"

lemma next_rowid_greater:
  assumes "r \<in> set rows" shows "rid r < next_rowid rid rows"
proof -
  have "rid r \<le> Max (set (map rid rows))" using assms by (intro Max_ge) auto
  then show ?thesis using assms by (auto simp: next_rowid_def)
qed

lemma append_rowid:
  "sorted_wrt (<) (map rid rows) \<Longrightarrow> sorted_wrt (<) (map rid rows @ [next_rowid rid rows])"
  by (auto simp: sorted_wrt_append next_rowid_greater)

lemma store_ok_empty: "store_ok empty_store"
  by (simp add: store_ok_def empty_store_def unique_rows_def)

lemma run_write_ok: "store_ok st \<Longrightarrow> store_ok (run_write st w)"
proof (cases "(st, w)" rule: run_write.cases)
  case (1 s f r)
  then show "store_ok st \<Longrightarrow> ?thesis"
    by (cases f) (auto simp: insert_order_def store_ok_def intro: unique_append)
next
  case (3 s f t)
  then show "store_ok st \<Longrightarrow> ?thesis"
    by (cases f) (auto simp: insert_trade_def store_ok_def intro: unique_append)
next
  case (6 s f e)
  then show "store_ok st \<Longrightarrow> ?thesis"
    using append_rowid [of re_id "st_risk_events s"]
    by (cases f) (auto simp: insert_risk_event_def store_ok_def)
next
  case (7 s f a)
  then show "store_ok st \<Longrightarrow> ?thesis"
    using append_rowid [of au_id "st_audit s"]
    by (cases f) (auto simp: insert_audit_def store_ok_def)
qed (auto simp: upsert_order_def upsert_position_def upsert_funds_def store_ok_def
    intro: unique_upsert split: sql_fate.split)

text \<open>C14. From an empty database, every sequence of writes, each accepted or refused by the engine in
  any way, keeps the \<open>UNIQUE\<close> columns unique and the rowids increasing; \<open>all_orders\<close> then lists
  exactly the orders the references find, in strictly increasing order of client reference, and
  the append-only tables are read back in insertion order.\<close>

theorem projection_invariant:
  "let st = foldl run_write empty_store ws in store_ok st
    \<and> (\<exists>rs. all_orders SqlOk st = Inr rs \<and> sorted_wrt (<) (map order_key rs)
         \<and> (\<forall>r. r \<in> set rs \<longleftrightarrow> find_order SqlOk st (order_key r) = Inr (Some r)))
    \<and> all_risk_events SqlOk st = Inr (st_risk_events st) \<and> all_audit SqlOk st = Inr (st_audit st)"
proof -
  define st where "st = foldl run_write empty_store ws"
  have ok: "store_ok st"
    unfolding st_def by (induction ws rule: rev_induct) (simp_all add: run_write_ok store_ok_empty)
  let ?rows = "sort_key or_client_ref (st_orders st)"
  let ?rs = "map read_order ?rows"
  have u: "distinct (map or_client_ref (st_orders st))" using ok by (simp add: store_ok_def unique_rows_def)
  have "distinct (map or_client_ref ?rows)"
    using u by (simp add: distinct_map)
  then have "sorted_wrt (<) (map or_client_ref ?rows)"
    using sorted_sort_key [of or_client_ref "st_orders st"] by (simp add: strict_sorted_iff)
  moreover have eq: "map order_key ?rs = map or_client_ref ?rows" by (simp add: order_key_def)
  ultimately have s: "sorted_wrt (<) (map order_key ?rs)" by (simp only: eq)
  have find: "table_find or_client_ref (or_client_ref w) (st_orders st) = Some w" if w: "w \<in> set (st_orders st)" for w
  proof -
    obtain x where x: "table_find or_client_ref (or_client_ref w) (st_orders st) = Some x"
      using w table_find_None [of or_client_ref "or_client_ref w" "st_orders st"]
      by (cases "table_find or_client_ref (or_client_ref w) (st_orders st)")
        (auto simp: table_has_def list_ex_iff)
    then have "x = w"
      using table_find_Some [OF x] w u by (auto simp: distinct_map dest: inj_onD)
    with x show ?thesis by simp
  qed
  have "r \<in> set ?rs \<longleftrightarrow> find_order SqlOk st (order_key r) = Inr (Some r)" for r
    using find by (auto simp: find_order_def order_key_def dest!: table_find_Some)
  moreover have "sorted (map re_id (st_risk_events st))" "sorted (map au_id (st_audit st))"
    using ok by (simp_all add: store_ok_def strict_sorted_iff)
  ultimately show ?thesis
    using ok s unfolding st_def [symmetric]
    by (simp add: all_orders_def all_risk_events_def all_audit_def sort_key_id_if_sorted)
qed

text \<open>C15. Upserts converge: after any sequence of accepted upserts a client reference finds the last
  order written for it, and what it found before when there was none; so replaying a sequence, or
  interleaving it with the upserts of other orders, gives the same projection.\<close>

theorem upsert_last_writer_wins:
  "find_order SqlOk (foldl (\<lambda>s r. snd (upsert_order SqlOk s r)) st rs) k =
     Inr (case List.find (\<lambda>r. order_key r = k) (rev rs) of Some r \<Rightarrow> Some r | None \<Rightarrow> lookup_order st k)"
  using orders.last_writer_wins [of st rs k]
  by (simp add: find_order_lookup put_order_def [abs_def])

end
