(* ===== verification/Store_Open.thy ===== *)
theory Store_Open
  imports Store
begin

text \<open>
  Opening the projection (\<^verbatim>\<open>store/store.cpp\<close>): connection set-up, the integrity probe, the schema
  stamp, the forward migrations, and the rebuild that drops all six tables.  The outcome of each
  engine call is an argument: result codes are integers with \<open>0\<close> for \<^verbatim>\<open>SQLITE_OK\<close>.  A failed
  transaction leaves the database as it was before \<^verbatim>\<open>BEGIN\<close>.
\<close>

definition kCurrentSchemaVersion :: int where
  "kCurrentSchemaVersion = 2"

definition kTableNames :: "string list" where
  "kTableNames = [''orders'', ''trades'', ''positions'', ''funds'', ''risk_events'', ''audit'']"

definition schema_too_new_error :: error where
  "schema_too_new_error = make_error_with_action Internal DoNotRetry
     (''store: database schema is newer than this build supports '' @ em_dash @ '' refusing to start'') []"

definition schema_out_of_range_error :: error where
  "schema_out_of_range_error = make_error_with_action Internal DoNotRetry
     (''store: on-disk schema version is out of range '' @ em_dash @ '' refusing to start'') []"

record database =
  db_store :: store
  db_user_version :: int
  db_tables :: "string list"
  db_trigger_column :: bool

datatype health = Sound | Damaged

definition exec :: "int \<Rightarrow> string \<Rightarrow> unit result" where
  "exec rc ctx = (if rc \<noteq> 0 then Inl (sqlite_error rc ctx) else Inr ())"

section \<open>Probes\<close>

datatype probe = ProbePrepare int | ProbeStep int | ProbeRow string

definition check_integrity :: "probe \<Rightarrow> health result" where
  "check_integrity p =
     (case p of
        ProbePrepare code \<Rightarrow>
          (if is_corruption code then Inr Damaged else Inl (sqlite_error code ''prepare failed''))
      | ProbeStep rc \<Rightarrow>
          (if is_corruption rc then Inr Damaged else Inl (sqlite_error rc ''integrity check''))
      | ProbeRow t \<Rightarrow> Inr (if t = ''ok'' then Sound else Damaged))"

fun check_table_loop :: "(string \<Rightarrow> sql_fate) \<Rightarrow> string list \<Rightarrow> string list \<Rightarrow> health result" where
  "check_table_loop fates present [] = Inr Sound"
| "check_table_loop fates present (name # names) =
     (case fates name of
        SqlPrepare code \<Rightarrow>
          (if is_corruption code then Inr Damaged else Inl (sqlite_error code ''prepare failed''))
      | SqlBind rc \<Rightarrow> Inl (sqlite_error rc ''bind table name'')
      | SqlStep rc \<Rightarrow>
          (if is_corruption rc then Inr Damaged else Inl (sqlite_error rc ''check table''))
      | SqlOk \<Rightarrow>
          if name \<in> set present then check_table_loop fates present names else Inr Damaged)"

definition check_tables :: "(string \<Rightarrow> sql_fate) \<Rightarrow> database \<Rightarrow> int \<Rightarrow> health result" where
  "check_tables fates db version =
     (if version = 0 then Inr Sound else check_table_loop fates (db_tables db) kTableNames)"

definition read_user_version :: "sql_fate \<Rightarrow> database \<Rightarrow> int result" where
  "read_user_version fate db =
     (case fate of
        SqlPrepare c \<Rightarrow> Inl (sqlite_error c ''prepare failed'')
      | SqlBind c \<Rightarrow> Inl (sqlite_error c ''read schema_version'')
      | SqlStep c \<Rightarrow> Inl (sqlite_error c ''read schema_version'')
      | SqlOk \<Rightarrow> if db_user_version db < 0 then Inl schema_out_of_range_error
                else Inr (db_user_version db))"

section \<open>Migrations\<close>

record migration_fate =
  mf_begin :: int
  mf_apply :: int
  mf_bump :: int
  mf_commit :: int

text \<open>The DDL of the two migrations; \<open>None\<close> when a statement is an error on this database
  (\<open>CREATE TABLE\<close> of an existing table, \<open>ALTER TABLE\<close> without the table or with the column).\<close>

definition migration_sql :: "int \<Rightarrow> database \<Rightarrow> database option" where
  "migration_sql v db =
     (if v = 0 then
        if list_ex (\<lambda>n. n \<in> set (db_tables db)) kTableNames then None
        else Some (db \<lparr>db_tables := db_tables db @ kTableNames, db_store := empty_store,
                       db_trigger_column := False\<rparr>)
      else
        if ''orders'' \<notin> set (db_tables db) \<or> db_trigger_column db then None
        else Some (db \<lparr>db_trigger_column := True\<rparr>))"

definition migrate_step :: "migration_fate \<Rightarrow> int \<Rightarrow> database \<Rightarrow> unit result \<times> database" where
  "migrate_step f v db =
     (case exec (mf_begin f) ''begin migration'' of Inl e \<Rightarrow> (Inl e, db) | Inr _ \<Rightarrow>
      case exec (mf_apply f) ''migration'' of Inl e \<Rightarrow> (Inl e, db) | Inr _ \<Rightarrow>
      case migration_sql v db of None \<Rightarrow> (Inl (sqlite_error 1 ''migration''), db) | Some db' \<Rightarrow>
      case exec (mf_bump f) ''write schema_version'' of Inl e \<Rightarrow> (Inl e, db) | Inr _ \<Rightarrow>
      case exec (mf_commit f) ''commit migration'' of Inl e \<Rightarrow> (Inl e, db) | Inr _ \<Rightarrow>
        (Inr (), db' \<lparr>db_user_version := v + 1\<rparr>))"

fun migrate_loop :: "(int \<Rightarrow> migration_fate) \<Rightarrow> int list \<Rightarrow> database \<Rightarrow> unit result \<times> database" where
  "migrate_loop f [] db = (Inr (), db)"
| "migrate_loop f (v # vs) db =
     (case migrate_step (f v) v db of
        (Inl e, db') \<Rightarrow> (Inl e, db')
      | (Inr _, db') \<Rightarrow> migrate_loop f vs db')"

definition apply_migrations :: "(int \<Rightarrow> migration_fate) \<Rightarrow> int \<Rightarrow> database \<Rightarrow> unit result \<times> database" where
  "apply_migrations f from_v db =
     (if from_v < 0 \<or> from_v > kCurrentSchemaVersion then (Inl schema_out_of_range_error, db)
      else migrate_loop f [from_v .. kCurrentSchemaVersion - 1] db)"

section \<open>Reset and open\<close>

record reset_fate =
  rf_begin :: int
  rf_drop :: "string \<Rightarrow> int"
  rf_zero :: int
  rf_commit :: int
  rf_migrate :: "int \<Rightarrow> migration_fate"

fun drop_loop :: "(string \<Rightarrow> int) \<Rightarrow> string list \<Rightarrow> unit result" where
  "drop_loop f [] = Inr ()"
| "drop_loop f (n # ns) =
     (case exec (f n) ''drop table'' of Inl e \<Rightarrow> Inl e | Inr _ \<Rightarrow> drop_loop f ns)"

definition reset :: "reset_fate \<Rightarrow> database \<Rightarrow> unit result \<times> database" where
  "reset f db =
     (case exec (rf_begin f) ''begin reset'' of Inl e \<Rightarrow> (Inl e, db) | Inr _ \<Rightarrow>
      case drop_loop (rf_drop f) kTableNames of Inl e \<Rightarrow> (Inl e, db) | Inr _ \<Rightarrow>
      case exec (rf_zero f) ''write schema_version'' of Inl e \<Rightarrow> (Inl e, db) | Inr _ \<Rightarrow>
      case exec (rf_commit f) ''commit reset'' of Inl e \<Rightarrow> (Inl e, db) | Inr _ \<Rightarrow>
        apply_migrations (rf_migrate f) 0
          (db \<lparr>db_store := empty_store, db_user_version := 0, db_trigger_column := False,
               db_tables := filter (\<lambda>n. n \<notin> set kTableNames) (db_tables db)\<rparr>))"

record open_fate =
  of_open :: int
  of_busy :: int
  of_wal :: int
  of_synchronous :: int
  of_foreign_keys :: int
  of_integrity :: probe
  of_version :: sql_fate
  of_tables :: "string \<Rightarrow> sql_fate"
  of_migrate :: "int \<Rightarrow> migration_fate"
  of_reset :: reset_fate

definition configure_connection :: "open_fate \<Rightarrow> unit result" where
  "configure_connection f =
     (case exec (of_busy f) ''set busy timeout'' of Inl e \<Rightarrow> Inl e | Inr _ \<Rightarrow>
      case exec (of_wal f) ''set WAL'' of Inl e \<Rightarrow> Inl e | Inr _ \<Rightarrow>
      case exec (of_synchronous f) ''set synchronous'' of Inl e \<Rightarrow> Inl e | Inr _ \<Rightarrow>
      case exec (of_foreign_keys f) ''set foreign_keys'' of Inl e \<Rightarrow> Inl e | Inr _ \<Rightarrow> Inr ())"

definition open_connection :: "open_fate \<Rightarrow> unit result" where
  "open_connection f =
     (case exec (of_open f) ''open database'' of Inl e \<Rightarrow> Inl e | Inr _ \<Rightarrow> configure_connection f)"

definition store_open :: "open_fate \<Rightarrow> database \<Rightarrow> unit result \<times> database" where
  "store_open f db =
     (case open_connection f of Inl e \<Rightarrow> (Inl e, db) | Inr _ \<Rightarrow>
      case check_integrity (of_integrity f) of Inl e \<Rightarrow> (Inl e, db) | Inr h \<Rightarrow>
      if h = Damaged
      then (Inl (make_error Internal ''store: projection failed integrity check'' []), db)
      else case read_user_version (of_version f) db of Inl e \<Rightarrow> (Inl e, db) | Inr version \<Rightarrow>
      if version > kCurrentSchemaVersion then (Inl schema_too_new_error, db)
      else case check_tables (of_tables f) db version of Inl e \<Rightarrow> (Inl e, db) | Inr h \<Rightarrow>
      if h = Damaged
      then (Inl (make_error Internal ''store: projection is half-migrated'' []), db)
      else apply_migrations (of_migrate f) version db)"

text \<open>The flag of a successful result is \<^verbatim>\<open>OpenOutcome::needs_rebuild\<close>.\<close>

definition rebuild :: "open_fate \<Rightarrow> database \<Rightarrow> bool result \<times> database" where
  "rebuild f db = (case reset (of_reset f) db of
     (Inl e, db') \<Rightarrow> (Inl e, db') | (Inr _, db') \<Rightarrow> (Inr True, db'))"

definition open_or_rebuild :: "open_fate \<Rightarrow> database \<Rightarrow> bool result \<times> database" where
  "open_or_rebuild f db =
     (case open_connection f of Inl e \<Rightarrow> (Inl e, db) | Inr _ \<Rightarrow>
      case check_integrity (of_integrity f) of Inl e \<Rightarrow> (Inl e, db) | Inr h \<Rightarrow>
      if h = Damaged then rebuild f db
      else case read_user_version (of_version f) db of Inl e \<Rightarrow> (Inl e, db) | Inr version \<Rightarrow>
      if version > kCurrentSchemaVersion then (Inl schema_too_new_error, db)
      else case check_tables (of_tables f) db version of Inl e \<Rightarrow> (Inl e, db) | Inr h \<Rightarrow>
      if h = Damaged then rebuild f db
      else case apply_migrations (of_migrate f) version db of
             (Inl e, db') \<Rightarrow> (Inl e, db') | (Inr _, db') \<Rightarrow> (Inr False, db'))"

section \<open>Only a verdict of damage may destroy rows\<close>

text \<open>A database without the tables of the schema holds no rows of them.\<close>

definition db_wf :: "database \<Rightarrow> bool" where
  "db_wf db \<longleftrightarrow> (\<not> list_ex (\<lambda>n. n \<in> set (db_tables db)) kTableNames \<longrightarrow> db_store db = empty_store)"

definition damage_verdict :: "open_fate \<Rightarrow> database \<Rightarrow> bool" where
  "damage_verdict f db \<longleftrightarrow> check_integrity (of_integrity f) = Inr Damaged
     \<or> check_tables (of_tables f) db (db_user_version db) = Inr Damaged"

lemma migrate_step_cases:
  assumes "migrate_step f v db = (res, db')"
  shows "db' = db \<or> (\<exists>d. migration_sql v db = Some d \<and> db' = d \<lparr>db_user_version := v + 1\<rparr>)"
    and "res = Inr u \<Longrightarrow> db_user_version db' = v + 1"
  using assms unfolding migrate_step_def by (simp_all split: sum.splits option.splits) auto

lemma migrate_step_store:
  assumes "migrate_step f v db = (res, db')" "db_wf db"
  shows "db_store db' = db_store db \<and> db_wf db'"
  using migrate_step_cases(1) [OF assms(1)] assms(2)
  by (auto simp: migration_sql_def db_wf_def kTableNames_def split: if_splits)

lemma migrate_loop_store:
  "migrate_loop f vs db = (res, db') \<Longrightarrow> db_wf db \<Longrightarrow> db_store db' = db_store db \<and> db_wf db'"
proof (induction f vs db arbitrary: db' rule: migrate_loop.induct)
  case (2 f v vs db)
  obtain r d where s: "migrate_step (f v) v db = (r, d)" by (metis surj_pair)
  then have d: "db_store d = db_store db" "db_wf d" using migrate_step_store "2.prems"(2) by blast+
  show ?case
  proof (cases r)
    case (Inr u)
    with "2.prems"(1) s have "migrate_loop f vs d = (res, db')" by simp
    with "2.IH" [OF s [symmetric] Inr] d show ?thesis by simp
  qed (use "2.prems"(1) s d in auto)
qed simp

lemma apply_migrations_store:
  "apply_migrations f v db = (res, db') \<Longrightarrow> db_wf db \<Longrightarrow> db_store db' = db_store db"
  using migrate_loop_store by (auto simp: apply_migrations_def split: if_splits)

lemma migrate_loop_version:
  "migrate_loop f [v .. kCurrentSchemaVersion - 1] db = (Inr u, db') \<Longrightarrow> db_user_version db = v
     \<Longrightarrow> v \<le> kCurrentSchemaVersion \<Longrightarrow> db_user_version db' = kCurrentSchemaVersion"
proof (induction "nat (kCurrentSchemaVersion - v)" arbitrary: v db)
  case (Suc n)
  then have v: "v < kCurrentSchemaVersion" by simp
  then have up: "[v .. kCurrentSchemaVersion - 1] = v # [v + 1 .. kCurrentSchemaVersion - 1]"
    by (simp add: upto_rec1)
  obtain r d where s: "migrate_step (f v) v db = (r, d)" by (metis surj_pair)
  with Suc.prems(1) up obtain u' where "r = Inr u'" by (cases r) auto
  with s have "db_user_version d = v + 1" using migrate_step_cases(2) by blast
  moreover have "migrate_loop f [v + 1 .. kCurrentSchemaVersion - 1] d = (Inr u, db')"
    using Suc.prems(1) s \<open>r = Inr u'\<close> by (simp add: up)
  ultimately show ?case using Suc.hyps(1) [of "v + 1" d] Suc.hyps(2) v by simp
qed auto

lemma apply_migrations_version:
  "apply_migrations g (db_user_version d) d = (Inr u, d') \<Longrightarrow> db_user_version d' = kCurrentSchemaVersion"
  using migrate_loop_version [of g "db_user_version d" d u d']
  by (auto simp: apply_migrations_def split: if_splits)

lemma rebuild_version: "rebuild f db = (Inr x, d') \<Longrightarrow> db_user_version d' = kCurrentSchemaVersion"
proof -
  assume "rebuild f db = (Inr x, d')"
  then obtain u where "reset (of_reset f) db = (Inr u, d')"
    by (auto simp: rebuild_def split: prod.splits sum.splits)
  then obtain e where "apply_migrations (rf_migrate (of_reset f)) 0 e = (Inr u, d')" "db_user_version e = 0"
    by (auto simp: reset_def split: sum.splits)
  then show ?thesis using apply_migrations_version [of _ e u d'] by simp
qed

lemma read_user_version_eq: "read_user_version g db = Inr v \<Longrightarrow> v = db_user_version db"
  by (auto simp: read_user_version_def split: sql_fate.splits if_splits)

lemma open_or_rebuild_cases:
  "(\<exists>e. open_or_rebuild f db = (Inl e, db))
   \<or> damage_verdict f db \<and> open_or_rebuild f db = rebuild f db
   \<or> open_or_rebuild f db = (case apply_migrations (of_migrate f) (db_user_version db) db of
        (Inl e, db') \<Rightarrow> (Inl e, db') | (Inr _, db') \<Rightarrow> (Inr False, db'))"
proof -
  consider (err) "\<exists>e. open_or_rebuild f db = (Inl e, db)"
    | (dmg) "check_integrity (of_integrity f) = Inr Damaged" "open_or_rebuild f db = rebuild f db"
    | (go) v h where "read_user_version (of_version f) db = Inr v" "check_tables (of_tables f) db v = Inr h"
      "open_or_rebuild f db = (if h = Damaged then rebuild f db
        else case apply_migrations (of_migrate f) v db of
             (Inl e, db') \<Rightarrow> (Inl e, db') | (Inr _, db') \<Rightarrow> (Inr False, db'))"
  proof (cases "open_connection f")
    case (Inr u)
    show thesis
    proof (cases "check_integrity (of_integrity f)")
      case h: (Inr h)
      show thesis
      proof (cases "h = Damaged")
        case True
        then show thesis using dmg h Inr by (simp add: open_or_rebuild_def)
      next
        case False
        show thesis
        proof (cases "read_user_version (of_version f) db")
          case v: (Inr v)
          show thesis
          proof (cases "check_tables (of_tables f) db v")
            case t: (Inr t)
            show thesis
              using err go [OF v t] h Inr v t False
              by (cases "v > kCurrentSchemaVersion") (simp_all add: open_or_rebuild_def)
          qed (use err h Inr v False in \<open>auto simp: open_or_rebuild_def\<close>)
        qed (use err h Inr False in \<open>auto simp: open_or_rebuild_def\<close>)
      qed
    qed (use err Inr in \<open>auto simp: open_or_rebuild_def\<close>)
  qed (use err in \<open>auto simp: open_or_rebuild_def\<close>)
  then show ?thesis
  proof cases
    case (go v h)
    have v: "v = db_user_version db" by (rule read_user_version_eq [OF go(1)])
    show ?thesis
    proof (cases "h = Damaged")
      case True
      then have "damage_verdict f db" using go v by (simp add: damage_verdict_def)
      then show ?thesis using go(3) True by simp
    next
      case False
      then show ?thesis using go(3) v by simp
    qed
  qed (auto simp: damage_verdict_def)
qed

lemma open_too_new:
  assumes "db_user_version db > kCurrentSchemaVersion" "check_integrity (of_integrity f) \<noteq> Inr Damaged"
  shows "\<exists>e. open_or_rebuild f db = (Inl e, db)"
  using assms unfolding open_or_rebuild_def
  by (auto split: sum.split dest!: read_user_version_eq)

text \<open>Opening the projection never loses a row without a verdict of damage: unless the integrity
  probe or the table check actually concluded that the file is damaged, whatever error the engine
  reports (busy, I/O, out of memory, a bad migration) leaves every row in place, and the strict
  \<open>store_open\<close> never drops a row at all.  A successful \<open>open_or_rebuild\<close> ends at the current schema
  version, flags a rebuild only after such a verdict, and a database from a newer build is refused
  untouched.\<close>

theorem open_keeps_rows_without_verdict:
  assumes "db_wf db"
  shows "db_store (snd (store_open f db)) = db_store db
    \<and> (\<not> damage_verdict f db \<longrightarrow> db_store (snd (open_or_rebuild f db)) = db_store db)
    \<and> (fst (open_or_rebuild f db) = Inr flag \<longrightarrow>
         db_user_version (snd (open_or_rebuild f db)) = kCurrentSchemaVersion \<and> (flag \<longrightarrow> damage_verdict f db))
    \<and> (db_user_version db > kCurrentSchemaVersion \<and> check_integrity (of_integrity f) \<noteq> Inr Damaged \<longrightarrow>
         (\<exists>e. fst (open_or_rebuild f db) = Inl e) \<and> snd (open_or_rebuild f db) = db)"
proof -
  have m: "db_store (snd (apply_migrations g v db)) = db_store db" for g v
    using apply_migrations_store [OF prod.collapse [symmetric] assms] .
  have "db_store (snd (store_open f db)) = db_store db"
    using m by (simp add: store_open_def split: sum.split)
  moreover have "\<not> damage_verdict f db \<longrightarrow> db_store (snd (open_or_rebuild f db)) = db_store db"
    using open_or_rebuild_cases [of f db] m [of "of_migrate f" "db_user_version db"]
    by (auto split: prod.splits sum.splits)
  moreover have "fst (open_or_rebuild f db) = Inr flag \<longrightarrow>
      db_user_version (snd (open_or_rebuild f db)) = kCurrentSchemaVersion \<and> (flag \<longrightarrow> damage_verdict f db)"
  proof
    assume a: "fst (open_or_rebuild f db) = Inr flag"
    then obtain d where d: "open_or_rebuild f db = (Inr flag, d)" by (metis prod.collapse)
    from open_or_rebuild_cases [of f db] d
    consider "damage_verdict f db" "rebuild f db = (Inr flag, d)"
      | u where "apply_migrations (of_migrate f) (db_user_version db) db = (Inr u, d)" "\<not> flag"
      by (auto split: prod.splits sum.splits)
    then show "db_user_version (snd (open_or_rebuild f db)) = kCurrentSchemaVersion
        \<and> (flag \<longrightarrow> damage_verdict f db)"
      by cases (simp_all add: d rebuild_version apply_migrations_version)
  qed
  moreover have "db_user_version db > kCurrentSchemaVersion \<and> check_integrity (of_integrity f) \<noteq> Inr Damaged \<longrightarrow>
      (\<exists>e. fst (open_or_rebuild f db) = Inl e) \<and> snd (open_or_rebuild f db) = db"
    using open_too_new by fastforce
  ultimately show ?thesis by blast
qed

definition all_ok :: migration_fate where
  "all_ok = \<lparr>mf_begin = 0, mf_apply = 0, mf_bump = 0, mf_commit = 0\<rparr>"

definition busy_open :: open_fate where
  "busy_open = \<lparr>of_open = 0, of_busy = 0, of_wal = 0, of_synchronous = 0, of_foreign_keys = 0,
     of_integrity = ProbeStep 5, of_version = SqlOk, of_tables = (\<lambda>_. SqlOk), of_migrate = (\<lambda>_. all_ok),
     of_reset = \<lparr>rf_begin = 0, rf_drop = (\<lambda>_. 0), rf_zero = 0, rf_commit = 0, rf_migrate = (\<lambda>_. all_ok)\<rparr>\<rparr>"

definition sample_db :: database where
  "sample_db = \<lparr>db_store = snd (insert_order SqlOk empty_store sample_stored), db_user_version = 1,
     db_tables = kTableNames, db_trigger_column = False\<rparr>"

text \<open>A lock during the probe leaves the rows; without it the second migration runs and keeps them.\<close>

theorem open_keeps_rows_without_verdict_witness:
  "db_store (snd (open_or_rebuild busy_open sample_db)) = db_store sample_db
   \<and> fst (open_or_rebuild (busy_open \<lparr>of_integrity := ProbeRow ''ok''\<rparr>) sample_db) = Inr False
   \<and> db_user_version (snd (open_or_rebuild (busy_open \<lparr>of_integrity := ProbeRow ''ok''\<rparr>) sample_db)) = 2"
proof -
  have wf: "db_wf sample_db" by (simp add: db_wf_def sample_db_def kTableNames_def)
  have d: "\<not> damage_verdict busy_open sample_db"
    by (simp add: damage_verdict_def check_integrity_def busy_open_def is_corruption_def
        SQLITE_CORRUPT_def SQLITE_NOTADB_def check_tables_def sample_db_def kTableNames_def)
  have "fst (open_or_rebuild (busy_open \<lparr>of_integrity := ProbeRow ''ok''\<rparr>) sample_db) = Inr False"
    by (simp add: open_or_rebuild_def open_connection_def configure_connection_def exec_def busy_open_def
        check_integrity_def read_user_version_def sample_db_def check_tables_def kTableNames_def
        kCurrentSchemaVersion_def apply_migrations_def migrate_step_def all_ok_def migration_sql_def)
  then show ?thesis
    using open_keeps_rows_without_verdict [OF wf, of busy_open False] d
      open_keeps_rows_without_verdict [OF wf, of "busy_open \<lparr>of_integrity := ProbeRow ''ok''\<rparr>" False]
    by (simp add: kCurrentSchemaVersion_def)
qed

end
