(* ===== verification/Idempotency.thy ===== *)
theory Idempotency
  imports Signal Intent_Log Store
begin

text \<open>
  The index half of \<^verbatim>\<open>idempotency/idempotency.cpp\<close>: the canonical \<open>PlaceOrder\<close> payload, the
  signature index and its reconstruction from the intent log, and \<open>reserve\<close>, the single idempotent
  entry point of a placement.  The locale \<open>first_writer_map\<close> is the contract the dispatcher uses the
  index by.
\<close>

definition kPayloadSchema :: int where
  "kPayloadSchema = 1"

definition payload_fields :: "order_intent \<Rightarrow> (string \<times> json) list" where
  "payload_fields i =
     [(''schema'', JInt kPayloadSchema), (''sig'', JStr (signal_signature i)),
      (''client_ref'', JStr (oi_client_ref i)), (''strategy'', JStr (oi_strategy i)),
      (''symbol'', JStr (oi_symbol i)), (''side'', JStr (side_to_string (oi_side i))),
      (''qty'', JInt (qty_value (oi_quantity i))), (''price_paise'', JInt (price_paise (oi_price i))),
      (''order_type'', JStr (order_type_to_string (oi_order_type i))),
      (''product'', JStr (product_to_string (oi_product i)))]
     @ (case oi_trigger_price i of
          Some t \<Rightarrow> [(''trigger_price_paise'', JInt (price_paise t))] | None \<Rightarrow> [])"

definition intent_payload_json :: "json_lib \<Rightarrow> order_intent \<Rightarrow> string" where
  "intent_payload_json lib i = jl_dump lib (JObj (payload_fields i))"

section \<open>The index\<close>

type_synonym idempotency_index = "(string \<times> string) list"

definition existing_ref_for_signature :: "idempotency_index \<Rightarrow> string \<Rightarrow> string option" where
  "existing_ref_for_signature idx signature_hex = map_of idx signature_hex"

definition existing_ref :: "idempotency_index \<Rightarrow> order_intent \<Rightarrow> string option" where
  "existing_ref idx i = existing_ref_for_signature idx (signal_signature i)"

text \<open>\<^verbatim>\<open>std::unordered_map::emplace\<close>: a no-op when the key is present.\<close>

definition register_signature :: "idempotency_index \<Rightarrow> string \<Rightarrow> string \<Rightarrow> idempotency_index" where
  "register_signature idx signature_hex client_ref =
     (if existing_ref_for_signature idx signature_hex \<noteq> None then idx
      else idx @ [(signature_hex, client_ref)])"

definition register_ref :: "idempotency_index \<Rightarrow> order_intent \<Rightarrow> string \<Rightarrow> idempotency_index" where
  "register_ref idx i client_ref = register_signature idx (signal_signature i) client_ref"

text \<open>The signature a replayed record carries, if it is one of ours.\<close>

definition record_signature :: "json_lib \<Rightarrow> intent_record \<Rightarrow> string option" where
  "record_signature lib r =
     (if ir_op r \<noteq> PlaceOrder then None
      else case jl_parse lib (ir_payload_json r) of
             Some (JObj fs) \<Rightarrow>
               (case map_of fs ''schema'' of
                  Some (JInt v) \<Rightarrow>
                    if cast_int32 v \<noteq> kPayloadSchema then None
                    else (case map_of fs ''sig'' of
                            Some (JStr s) \<Rightarrow> if s = [] \<or> ir_client_ref r = [] then None else Some s
                          | _ \<Rightarrow> None)
                | _ \<Rightarrow> None)
           | _ \<Rightarrow> None)"

definition rebuild_step :: "json_lib \<Rightarrow> idempotency_index \<Rightarrow> intent_record \<Rightarrow> idempotency_index" where
  "rebuild_step lib idx r =
     (case record_signature lib r of
        None \<Rightarrow> idx | Some s \<Rightarrow> register_signature idx s (ir_client_ref r))"

definition rebuild_from_log :: "json_lib \<Rightarrow> idempotency_index \<Rightarrow> intent_record list \<Rightarrow> nat \<times> idempotency_index" where
  "rebuild_from_log lib idx records =
     (let idx' = foldl (rebuild_step lib) [] records in (length idx', idx'))"

section \<open>Reserve\<close>

record reservation =
  rv_client_ref :: string
  rv_is_new :: bool
  rv_existing :: "order option"

text \<open>\<open>uuid\<close> is what the generator returns if it is asked; \<open>fate\<close> the outcome of the one look-up.\<close>

definition reserve ::
    "sql_fate \<Rightarrow> string \<Rightarrow> idempotency_index \<Rightarrow> store \<Rightarrow> string \<Rightarrow> order_intent
     \<Rightarrow> reservation result \<times> idempotency_index" where
  "reserve fate uuid idx st strategy i =
     (let signature = signal_signature i in
      case existing_ref_for_signature idx signature of
        Some prior \<Rightarrow>
          (case find_order fate st prior of
             Inl e \<Rightarrow> (Inl e, idx)
           | Inr found \<Rightarrow>
               (Inr \<lparr>rv_client_ref = prior, rv_is_new = False, rv_existing = found\<rparr>, idx))
      | None \<Rightarrow>
          let client_ref = make_client_ref strategy signature uuid in
          case find_order fate st client_ref of
            Inl e \<Rightarrow> (Inl e, idx)
          | Inr (Some existing) \<Rightarrow>
              (Inr \<lparr>rv_client_ref = client_ref, rv_is_new = False, rv_existing = Some existing\<rparr>,
               register_signature idx signature client_ref)
          | Inr None \<Rightarrow>
              (Inr \<lparr>rv_client_ref = client_ref, rv_is_new = True, rv_existing = None\<rparr>,
               register_signature idx signature client_ref))"

section \<open>First writer wins\<close>

locale first_writer_map =
  fixes look :: "'m \<Rightarrow> 'k \<Rightarrow> 'v option"
    and reg :: "'m \<Rightarrow> 'k \<Rightarrow> 'v \<Rightarrow> 'm"
  assumes look_reg: "look (reg m k v) j = (if j = k \<and> look m k = None then Some v else look m j)"
begin

lemma look_keeps: "look m j = Some w \<Longrightarrow> look (reg m k v) j = Some w"
  by (auto simp: look_reg)

lemma look_registered: "look (reg m k v) k \<noteq> None"
  by (simp add: look_reg)

lemma look_fold:
  "look (foldl (\<lambda>m (k, v). reg m k v) m kvs) j =
     (case look m j of Some w \<Rightarrow> Some w | None \<Rightarrow> map_of kvs j)"
  by (induction kvs arbitrary: m) (auto simp: look_reg split: option.split)

end

interpretation sig_index: first_writer_map existing_ref_for_signature register_signature
proof
  show "existing_ref_for_signature (register_signature m k v) j =
      (if j = k \<and> existing_ref_for_signature m k = None then Some v else existing_ref_for_signature m j)"
    for m k v j
    by (auto simp: register_signature_def existing_ref_for_signature_def map_add_def split: option.split)
qed

lemma rebuild_fold:
  "foldl (rebuild_step lib) idx records =
     foldl (\<lambda>m (k, v). register_signature m k v) idx
       (List.map_filter (\<lambda>r. map_option (\<lambda>s. (s, ir_client_ref r)) (record_signature lib r)) records)"
  by (induction records arbitrary: idx) (auto simp: rebuild_step_def List.map_filter_simps split: option.split)

section \<open>What a restart recovers\<close>

lemma flat_payload_fields:
  assumes "in_i64 (qty_value (oi_quantity i))" "in_i64 (price_paise (oi_price i))"
    "\<forall>t. oi_trigger_price i = Some t \<longrightarrow> in_i64 (price_paise t)"
  shows "flat_object (payload_fields i)"
  using assms
  by (cases "oi_trigger_price i")
    (simp_all add: flat_object_def payload_fields_def json_scalar_def kPayloadSchema_def i64_defs)

definition payload_in_range :: "order_intent \<Rightarrow> bool" where
  "payload_in_range i \<longleftrightarrow> in_i64 (qty_value (oi_quantity i)) \<and> in_i64 (price_paise (oi_price i))
     \<and> (\<forall>t. oi_trigger_price i = Some t \<longrightarrow> in_i64 (price_paise t))"

lemma payload_signature:
  assumes "json_ok lib" "payload_in_range i" "ir_op r = PlaceOrder" "ir_client_ref r \<noteq> []"
    "ir_payload_json r = canonical_text (intent_payload_json lib i)"
  shows "record_signature lib r = Some (signal_signature i)"
proof -
  have flat: "flat_object (payload_fields i)"
    using flat_payload_fields assms(2) unfolding payload_in_range_def by blast
  have "canonical_text (intent_payload_json lib i) = jl_dump lib (JObj (payload_fields i))"
    unfolding intent_payload_json_def
    by (rule canonical_text_valid_fixed [OF json_okD(3) [OF assms(1) flat]])
  then have p: "ir_payload_json r = jl_dump lib (JObj (payload_fields i))" using assms(5) by simp
  obtain gs where gs: "jl_parse lib (jl_dump lib (JObj (payload_fields i))) = Some (JObj gs)"
    "\<forall>k v. map_of (payload_fields i) k = Some v \<and> json_clean v \<longrightarrow> map_of gs k = Some v"
    using json_okD(5) [OF assms(1) flat] by blast
  have sig: "valid_utf8 (signal_signature i)" "signal_signature i \<noteq> []"
    using ascii_hex_hash [of "canonical_signature_input i"] sha256_hex_props(1) [of "canonical_signature_input i"]
    by (auto simp: signal_signature_def intro: valid_utf8_ascii)
  have "map_of (payload_fields i) ''schema'' = Some (JInt kPayloadSchema)"
    "map_of (payload_fields i) ''sig'' = Some (JStr (signal_signature i))"
    by (simp_all add: payload_fields_def)
  then have "map_of gs ''schema'' = Some (JInt kPayloadSchema)" "map_of gs ''sig'' = Some (JStr (signal_signature i))"
    using gs(2) sig by (auto simp: json_clean_def)
  then show ?thesis
    using assms(3,4) sig(2) by (simp add: record_signature_def p gs(1) cast_int32_def kPayloadSchema_def)
qed

lemma map_of_map_filter:
  "map_of (List.map_filter (\<lambda>r. map_option (\<lambda>s. (s, g r)) (f r)) rs) k =
     map_option g (List.find (\<lambda>r. f r = Some k) rs)"
  by (induction rs) (auto simp: List.map_filter_simps split: option.split)

lemma rebuild_lookup:
  "existing_ref_for_signature (snd (rebuild_from_log lib idx recs)) s =
     map_option ir_client_ref (List.find (\<lambda>r. record_signature lib r = Some s) recs)"
  using sig_index.look_fold [of "[]" "List.map_filter (\<lambda>r. map_option (\<lambda>s. (s, ir_client_ref r)) (record_signature lib r)) recs" s]
  by (simp add: rebuild_from_log_def rebuild_fold map_of_map_filter existing_ref_for_signature_def Let_def)

text \<open>Restart deduplication.  Rebuilding the index from a replayed log forgets what was in memory
  and maps a signature to the client reference of the first record that carries it; and every
  \<open>PlaceOrder\<close> record written with the canonical payload of an intent, whatever bytes its texts
  hold, carries that intent's signature.  So a signal that was recorded before the restart is found
  again after it, under the reference it was recorded with first.\<close>

theorem rebuild_recovers_signals:
  assumes "json_ok lib" and "payload_in_range i" and "r \<in> set recs" and "ir_op r = PlaceOrder"
    and "ir_client_ref r \<noteq> []" and "ir_payload_json r = canonical_text (intent_payload_json lib i)"
  shows "\<exists>first. List.find (\<lambda>r. record_signature lib r = Some (signal_signature i)) recs = Some first
    \<and> existing_ref (snd (rebuild_from_log lib idx recs)) i = Some (ir_client_ref first)"
proof -
  have "record_signature lib r = Some (signal_signature i)"
    using payload_signature [OF assms(1,2,4,5,6)] .
  then have "List.find (\<lambda>r. record_signature lib r = Some (signal_signature i)) recs \<noteq> None"
    using assms(3) by (auto simp: find_None_iff)
  then show ?thesis by (auto simp: existing_ref_def rebuild_lookup)
qed

theorem rebuild_recovers_signals_witness:
  "let r = next_record (reopened ''p'' []) 7 PlaceOrder ''alpha-1'' (intent_payload_json sample_json sample_intent)
   in existing_ref (snd (rebuild_from_log sample_json [(''stale'', ''x'')] [r])) sample_intent = Some (ir_client_ref r)"
proof -
  define r where "r = next_record (reopened ''p'' []) 7 PlaceOrder ''alpha-1''
    (intent_payload_json sample_json sample_intent)"
  have c: "canonical_text ''alpha-1'' = ''alpha-1''" by code_simp
  have r: "ir_op r = PlaceOrder" "ir_client_ref r \<noteq> []"
    "ir_payload_json r = canonical_text (intent_payload_json sample_json sample_intent)"
    by (simp_all add: r_def next_record_def Let_def c)
  have "payload_in_range sample_intent" by (simp add: payload_in_range_def sample_intent_def i64_defs)
  from rebuild_recovers_signals [OF sample_json_ok this _ r, of "[r]" "[(''stale'', ''x'')]"]
  show ?thesis unfolding r_def [symmetric] Let_def by (auto split: if_splits)
qed

section \<open>The reserve contract\<close>

lemma find_order_Inr: "find_order fate st k = Inr x \<Longrightarrow> x = lookup_order st k"
  by (cases fate) (simp_all add: find_order_def lookup_order_def)

text \<open>\<open>reserve\<close> is idempotent.  It never forgets or rebinds a signature; on success the signal is
  bound to the returned reference, so the next \<open>reserve\<close> of any intent with the same signature
  returns that reference as not new, whatever identifier the generator would draw; \<open>is_new\<close> is
  answered exactly for a signal the index did not know and a minted reference the store did not
  know; otherwise the stored order for the reference is attached.  On failure nothing is bound.\<close>

theorem reserve_contract:
  assumes "reserve fate uuid idx st strategy i = (res, idx')"
  shows "(\<forall>k w. existing_ref_for_signature idx k = Some w \<longrightarrow> existing_ref_for_signature idx' k = Some w)
    \<and> (\<forall>e. res = Inl e \<longrightarrow> idx' = idx)
    \<and> (\<forall>rv. res = Inr rv \<longrightarrow>
          existing_ref idx' i = Some (rv_client_ref rv)
          \<and> rv_existing rv = lookup_order st (rv_client_ref rv)
          \<and> (rv_is_new rv \<longleftrightarrow> existing_ref idx i = None \<and> rv_existing rv = None)
          \<and> (existing_ref idx i = None \<longrightarrow>
               rv_client_ref rv = make_client_ref strategy (signal_signature i) uuid)
          \<and> (\<forall>fate2 uuid2 st2 strategy2 j rv2. signal_signature j = signal_signature i \<longrightarrow>
               fst (reserve fate2 uuid2 idx' st2 strategy2 j) = Inr rv2 \<longrightarrow>
               rv_client_ref rv2 = rv_client_ref rv \<and> \<not> rv_is_new rv2))"
proof -
  have mono: "\<forall>k w. existing_ref_for_signature idx k = Some w \<longrightarrow> existing_ref_for_signature idx' k = Some w"
    using assms by (auto simp: reserve_def Let_def sig_index.look_keeps split: option.splits sum.splits)
  have err: "\<forall>e. res = Inl e \<longrightarrow> idx' = idx"
    using assms by (auto simp: reserve_def Let_def split: option.splits sum.splits)
  have okay: "existing_ref idx' i = Some (rv_client_ref rv)
      \<and> rv_existing rv = lookup_order st (rv_client_ref rv)
      \<and> (rv_is_new rv \<longleftrightarrow> existing_ref idx i = None \<and> rv_existing rv = None)
      \<and> (existing_ref idx i = None \<longrightarrow> rv_client_ref rv = make_client_ref strategy (signal_signature i) uuid)"
    if "res = Inr rv" for rv
    using assms that
    by (auto simp: reserve_def Let_def existing_ref_def sig_index.look_reg find_order_Inr
        split: option.splits sum.splits dest!: find_order_Inr)
  have again: "rv_client_ref rv2 = ref \<and> \<not> rv_is_new rv2"
    if "existing_ref_for_signature idx' (signal_signature i) = Some ref" "signal_signature j = signal_signature i"
      "fst (reserve fate2 uuid2 idx' st2 strategy2 j) = Inr rv2" for ref fate2 uuid2 st2 strategy2 j rv2
    using that by (auto simp: reserve_def Let_def split: sum.splits)
  show ?thesis using mono err okay again unfolding existing_ref_def by blast
qed

theorem reserve_contract_witness:
  "let (res, idx) = reserve SqlOk ''u1'' [] empty_store ''alpha'' sample_intent in
   \<exists>rv. res = Inr rv \<and> rv_is_new rv \<and> existing_ref idx sample_intent = Some (rv_client_ref rv)
     \<and> rv_client_ref rv = make_client_ref ''alpha'' (signal_signature sample_intent) ''u1''"
proof -
  obtain res idx where a: "reserve SqlOk ''u1'' [] empty_store ''alpha'' sample_intent = (res, idx)"
    by (metis surj_pair)
  have n: "lookup_order empty_store k = None" for k
    by (simp add: lookup_order_def find_order_def empty_store_def table_find_def)
  then obtain rv where "res = Inr rv"
    using a by (auto simp: reserve_def Let_def find_order_lookup existing_ref_for_signature_def)
  moreover have "existing_ref [] sample_intent = None"
    by (simp add: existing_ref_def existing_ref_for_signature_def)
  ultimately show ?thesis using reserve_contract [OF a] a n by auto
qed

end
