(* ===== verification/Ports.thy ===== *)
theory Ports
  imports Domain_Types Errors
begin

text \<open>
  The value types of the abstract seams in \<^verbatim>\<open>ports/\<close>.  A sink is the list of alerts handed to it;
  its delivery result is discarded by every caller modelled here.
\<close>

datatype alert_level = AlertInfo | AlertWarning | AlertError | AlertCritical

record alert_context =
  ac_client_ref :: string
  ac_broker_order_id :: string
  ac_strategy :: string
  ac_symbol :: string

record alert =
  al_level :: alert_level
  al_message :: string
  al_context :: alert_context

definition no_context :: alert_context where
  "no_context = \<lparr>ac_client_ref = [], ac_broker_order_id = [], ac_strategy = [], ac_symbol = []\<rparr>"

record broker_ack =
  ba_broker_order_id :: string
  ba_client_ref :: string

record funds_snapshot =
  fs_available_margin :: money
  fs_used_margin :: money

text \<open>The provenance of an order, as \<open>resolve\<close> and \<open>provenance_of\<close> both fill it in.\<close>

definition provenance_of :: "order \<Rightarrow> alert_context" where
  "provenance_of r = \<lparr>ac_client_ref = oi_client_ref (ord_intent r),
     ac_broker_order_id = ord_broker_order_id r, ac_strategy = oi_strategy (ord_intent r),
     ac_symbol = oi_symbol (ord_intent r)\<rparr>"

end
