(* ===== verification/Dispatcher.thy ===== *)
theory Dispatcher
  imports Idempotency Lifecycle Ports
begin

text \<open>
  \<^verbatim>\<open>runtime/dispatcher.cpp\<close>: the single broker-mutation path, record, sync, send, record.

  A \<open>dispatcher\<close> holds the collaborators it coordinates (log, store, index, lifecycle engine), the
  set of references whose intent never became durable, and a trace of what it did in order: the
  records it made durable, the barrier, the calls to the broker.  Everything outside its control in
  one call is the argument \<open>call_env\<close>: the fate of each log write and each store statement, the
  clock, the identifier the generator draws, the broker's answer.  The broker port is abstract in
  the source, so its answers are quantified over.
\<close>

section \<open>State and environment\<close>

datatype dispatch_event =
    EvRecorded intent_record
  | EvBarrier
  | EvPlace order_intent
  | EvModify string order_intent
  | EvCancel string
  | EvSquareOff string

record dispatcher =
  dp_log :: intent_log
  dp_store :: store
  dp_index :: idempotency_index
  dp_fsm :: lifecycle_engine
  dp_unsent_refs :: "string list"
  dp_trace :: "dispatch_event list"

record call_env =
  ce_fate1 :: io_fate
  ce_fate2 :: io_fate
  ce_json_wall1 :: int64
  ce_log_wall1 :: int64
  ce_json_wall2 :: int64
  ce_log_wall2 :: int64
  ce_find :: sql_fate
  ce_write :: sql_fate
  ce_uuid :: string
  ce_ack :: "broker_ack result"
  ce_outcome :: "unit result"

section \<open>Outcome payloads\<close>

definition hex_digit :: "nat \<Rightarrow> char" where
  "hex_digit n = ''0123456789abcdef'' ! n"

definition escape_char :: "char \<Rightarrow> string" where
  "escape_char c =
     (if c = CHR 0x22 then [CHR 0x5C, CHR 0x22]
      else if c = CHR 0x5C then [CHR 0x5C, CHR 0x5C]
      else if c = CHR 0x0A then CHR 0x5C # ''n''
      else if c = CHR 0x0D then CHR 0x5C # ''r''
      else if c = CHR 0x09 then CHR 0x5C # ''t''
      else if (of_char c :: nat) < 0x20
      then CHR 0x5C # ''u00'' @ [hex_digit (of_char c div 16), hex_digit (of_char c mod 16)]
      else [c])"

definition append_escaped :: "string \<Rightarrow> string \<Rightarrow> string" where
  "append_escaped out value = out @ concat (map escape_char value)"

definition outcome_json :: "order_state \<Rightarrow> string \<Rightarrow> int64 \<Rightarrow> string" where
  "outcome_json state broker_order_id wall_ts_ns =
     (let q = [CHR 0x22];
          out = append_escaped (''{'' @ q @ ''state'' @ q @ '':'' @ q) (order_state_to_string state) @ q;
          out = (if broker_order_id \<noteq> []
                 then append_escaped (out @ '','' @ q @ ''broker_order_id'' @ q @ '':'' @ q) broker_order_id @ q
                 else out)
      in out @ '','' @ q @ ''wall_ts_ns'' @ q @ '':'' @ show_int wall_ts_ns @ ''}'')"

definition op_outcome_json :: "string \<Rightarrow> string \<Rightarrow> string \<Rightarrow> int64 \<Rightarrow> string" where
  "op_outcome_json op_name outcome broker_order_id wall_ts_ns =
     (let q = [CHR 0x22];
          out = append_escaped (''{'' @ q @ ''op'' @ q @ '':'' @ q) op_name;
          out = append_escaped (out @ q @ '','' @ q @ ''outcome'' @ q @ '':'' @ q) outcome @ q;
          out = (if broker_order_id \<noteq> []
                 then append_escaped (out @ '','' @ q @ ''broker_order_id'' @ q @ '':'' @ q) broker_order_id @ q
                 else out)
      in out @ '','' @ q @ ''wall_ts_ns'' @ q @ '':'' @ show_int wall_ts_ns @ ''}'')"

section \<open>Building blocks\<close>

definition make_order :: "order_intent \<Rightarrow> order_state \<Rightarrow> order" where
  "make_order i state = \<lparr>ord_intent = i, ord_state = state, ord_broker_order_id = [],
     ord_filled_qty = Quantity 0, ord_avg_price = Price 0\<rparr>"

definition is_reconcile_first :: "error \<Rightarrow> bool" where
  "is_reconcile_first e \<longleftrightarrow>
     (if err_action e = ReconcileFirst then True
      else err_category e = Timeout \<or> err_category e = Network \<or> err_category e = UnknownCategory)"

definition record_intent ::
    "json_lib \<Rightarrow> io_fate \<Rightarrow> int64 \<Rightarrow> dispatcher \<Rightarrow> intent_op \<Rightarrow> string \<Rightarrow> string
     \<Rightarrow> intent_record result \<times> dispatcher" where
  "record_intent lib fate wall d op client_ref payload =
     (let (res, log) = log_append lib fate wall (dp_log d) op client_ref payload in
      (res, d \<lparr>dp_log := log,
               dp_trace := dp_trace d @ (case res of Inr r \<Rightarrow> [EvRecorded r] | Inl _ \<Rightarrow> [])\<rparr>))"

definition append_result ::
    "json_lib \<Rightarrow> call_env \<Rightarrow> dispatcher \<Rightarrow> string \<Rightarrow> string \<Rightarrow> intent_record result \<times> dispatcher" where
  "append_result lib env d client_ref outcome =
     record_intent lib (ce_fate2 env) (ce_log_wall2 env) d Result client_ref outcome"

text \<open>The barrier, then one call to the broker.\<close>

definition send :: "dispatcher \<Rightarrow> dispatch_event \<Rightarrow> dispatcher" where
  "send d ev = d \<lparr>dp_trace := dp_trace d @ [EvBarrier, ev]\<rparr>"

text \<open>The tail of several branches: append the result record, then return \<open>value\<close>.\<close>

definition finish ::
    "json_lib \<Rightarrow> call_env \<Rightarrow> dispatcher \<Rightarrow> string \<Rightarrow> string \<Rightarrow> 'a result \<Rightarrow> 'a result \<times> dispatcher" where
  "finish lib env d client_ref outcome value =
     (case append_result lib env d client_ref outcome of
        (Inl e, d') \<Rightarrow> (Inl e, d') | (Inr _, d') \<Rightarrow> (value, d'))"

section \<open>Place\<close>

definition place_sent ::
    "json_lib \<Rightarrow> call_env \<Rightarrow> dispatcher \<Rightarrow> order_intent \<Rightarrow> order result \<times> dispatcher" where
  "place_sent lib env d placed =
     (case ce_ack env of
        Inr ack \<Rightarrow>
          let order = make_order placed Sent;
              view = \<lparr>bv_client_ref = oi_client_ref placed, bv_broker_order_id = ba_broker_order_id ack,
                      bv_observed_state = Acknowledged, bv_filled_qty = Quantity 0,
                      bv_avg_price = Price 0, bv_ordering_key = 1\<rparr>;
              (_, fsm, order) = fsm_apply (dp_fsm d) order view;
              d = d \<lparr>dp_fsm := fsm\<rparr>
          in (case insert_order (ce_write env) (dp_store d) order of
                (Inl e, _) \<Rightarrow> (Inl e, d)
              | (Inr _, st) \<Rightarrow>
                  finish lib env (d \<lparr>dp_store := st\<rparr>) (oi_client_ref (ord_intent order))
                    (outcome_json (ord_state order) (ord_broker_order_id order) (ce_json_wall2 env))
                    (Inr order))
      | Inl err \<Rightarrow>
          let resolved = (if is_reconcile_first err then Unknown else Rejected);
              order = make_order placed resolved
          in (case insert_order (ce_write env) (dp_store d) order of
                (Inl e, _) \<Rightarrow> (Inl e, d)
              | (Inr _, st) \<Rightarrow>
                  finish lib env (d \<lparr>dp_store := st\<rparr>) (oi_client_ref (ord_intent order))
                    (outcome_json (ord_state order) [] (ce_json_wall2 env)) (Inr order)))"

definition place_reserved ::
    "json_lib \<Rightarrow> call_env \<Rightarrow> dispatcher \<Rightarrow> order_intent \<Rightarrow> order result \<times> dispatcher" where
  "place_reserved lib env d placed =
     (case record_intent lib (ce_fate1 env) (ce_log_wall1 env) d PlaceOrder (oi_client_ref placed)
             (intent_payload_json lib placed) of
        (Inl e, d) \<Rightarrow>
          (Inl e, d \<lparr>dp_unsent_refs := List.insert (oi_client_ref placed) (dp_unsent_refs d)\<rparr>)
      | (Inr _, d) \<Rightarrow>
          let d = d \<lparr>dp_unsent_refs := removeAll (oi_client_ref placed) (dp_unsent_refs d)\<rparr>
          in place_sent lib env (send d (EvPlace placed)) placed)"

definition place ::
    "json_lib \<Rightarrow> call_env \<Rightarrow> dispatcher \<Rightarrow> string \<Rightarrow> order_intent \<Rightarrow> order result \<times> dispatcher" where
  "place lib env d strategy i =
     (let (reserved, idx) = reserve (ce_find env) (ce_uuid env) (dp_index d) (dp_store d) strategy i;
          d = d \<lparr>dp_index := idx\<rparr>
      in case reserved of
           Inl e \<Rightarrow> (Inl e, d)
         | Inr rv \<Rightarrow>
             let placed = i \<lparr>oi_client_ref := rv_client_ref rv\<rparr> in
             if \<not> rv_is_new rv \<and> rv_existing rv \<noteq> None then (Inr (the (rv_existing rv)), d)
             else if \<not> rv_is_new rv \<and> rv_client_ref rv \<notin> set (dp_unsent_refs d)
             then (Inr (make_order placed Unknown), d)
             else place_reserved lib env d placed)"

section \<open>Modify\<close>

definition modify ::
    "json_lib \<Rightarrow> call_env \<Rightarrow> dispatcher \<Rightarrow> string \<Rightarrow> order_intent \<Rightarrow> order result \<times> dispatcher" where
  "modify lib env d broker_order_id i =
     (case record_intent lib (ce_fate1 env) (ce_log_wall1 env) d ModifyOrder (oi_client_ref i)
             (intent_payload_json lib i) of
        (Inl e, d) \<Rightarrow> (Inl e, d)
      | (Inr _, d) \<Rightarrow>
          let d = send d (EvModify broker_order_id i) in
          case find_order (ce_find env) (dp_store d) (oi_client_ref i) of
            Inl e \<Rightarrow> (Inl e, d)
          | Inr found \<Rightarrow>
              let order = (case found of Some r \<Rightarrow> r | None \<Rightarrow> make_order i Acknowledged);
                  order = order \<lparr>ord_broker_order_id := broker_order_id\<rparr>
              in case ce_ack env of
                   Inr ack \<Rightarrow>
                     let order = (if ord_state order \<in> {Unknown, Created, Validated, PendingSend, Sent}
                                  then order \<lparr>ord_state := Acknowledged\<rparr> else order);
                         order = order \<lparr>ord_broker_order_id := ba_broker_order_id ack\<rparr>
                     in (case upsert_order (ce_write env) (dp_store d) order of
                           (Inl e, _) \<Rightarrow> (Inl e, d)
                         | (Inr _, st) \<Rightarrow>
                             finish lib env (d \<lparr>dp_store := st\<rparr>) (oi_client_ref (ord_intent order))
                               (outcome_json (ord_state order) (ord_broker_order_id order) (ce_json_wall2 env))
                               (Inr order))
                 | Inl err \<Rightarrow>
                     if is_reconcile_first err then
                       let order = order \<lparr>ord_state := Unknown\<rparr>
                       in (case upsert_order (ce_write env) (dp_store d) order of
                             (Inl e, _) \<Rightarrow> (Inl e, d)
                           | (Inr _, st) \<Rightarrow>
                               finish lib env (d \<lparr>dp_store := st\<rparr>) (oi_client_ref (ord_intent order))
                                 (outcome_json (ord_state order) broker_order_id (ce_json_wall2 env))
                                 (Inr order))
                     else finish lib env d (oi_client_ref i)
                            (op_outcome_json ''modify'' ''rejected'' broker_order_id (ce_json_wall2 env))
                            (Inl err))"

section \<open>Cancel and square-off\<close>

text \<open>The shared branch: mark the local order unknown unless it is terminal.\<close>

definition mark_unknown :: "call_env \<Rightarrow> dispatcher \<Rightarrow> string \<Rightarrow> unit result \<times> dispatcher" where
  "mark_unknown env d client_ref =
     (case find_order (ce_find env) (dp_store d) client_ref of
        Inr (Some order) \<Rightarrow>
          if is_terminal (ord_state order) then (Inr (), d)
          else (case upsert_order (ce_write env) (dp_store d) (order \<lparr>ord_state := Unknown\<rparr>) of
                  (Inl e, _) \<Rightarrow> (Inl e, d)
                | (Inr _, st) \<Rightarrow> (Inr (), d \<lparr>dp_store := st\<rparr>))
      | _ \<Rightarrow> (Inr (), d))"

definition cancel ::
    "json_lib \<Rightarrow> call_env \<Rightarrow> dispatcher \<Rightarrow> string \<Rightarrow> string \<Rightarrow> unit result \<times> dispatcher" where
  "cancel lib env d broker_order_id client_ref =
     (case record_intent lib (ce_fate1 env) (ce_log_wall1 env) d CancelOrder client_ref
             (op_outcome_json ''cancel'' ''intent'' broker_order_id (ce_json_wall1 env)) of
        (Inl e, d) \<Rightarrow> (Inl e, d)
      | (Inr _, d) \<Rightarrow>
          let d = send d (EvCancel broker_order_id) in
          case ce_outcome env of
            Inr _ \<Rightarrow>
              finish lib env d client_ref
                (op_outcome_json ''cancel'' ''ok'' broker_order_id (ce_json_wall2 env)) (Inr ())
          | Inl err \<Rightarrow>
              if is_reconcile_first err then
                (case mark_unknown env d client_ref of
                   (Inl e, d) \<Rightarrow> (Inl e, d)
                 | (Inr _, d) \<Rightarrow>
                     finish lib env d client_ref
                       (op_outcome_json ''cancel'' ''unknown'' broker_order_id (ce_json_wall2 env)) (Inl err))
              else
                finish lib env d client_ref
                  (op_outcome_json ''cancel'' ''rejected'' broker_order_id (ce_json_wall2 env)) (Inl err))"

definition square_off ::
    "json_lib \<Rightarrow> call_env \<Rightarrow> dispatcher \<Rightarrow> string \<Rightarrow> string \<Rightarrow> unit result \<times> dispatcher" where
  "square_off lib env d broker_order_id client_ref =
     (case record_intent lib (ce_fate1 env) (ce_log_wall1 env) d SquareOff client_ref
             (op_outcome_json ''square_off'' ''intent'' broker_order_id (ce_json_wall1 env)) of
        (Inl e, d) \<Rightarrow> (Inl e, d)
      | (Inr _, d) \<Rightarrow>
          let d = send d (EvSquareOff broker_order_id) in
          case ce_outcome env of
            Inr _ \<Rightarrow>
              finish lib env d client_ref
                (op_outcome_json ''square_off'' ''ok'' broker_order_id (ce_json_wall2 env)) (Inr ())
          | Inl err \<Rightarrow>
              if is_reconcile_first err then
                (case mark_unknown env d client_ref of
                   (Inl e, d) \<Rightarrow> (Inl e, d)
                 | (Inr _, d) \<Rightarrow>
                     finish lib env d client_ref
                       (op_outcome_json ''square_off'' ''unknown'' broker_order_id (ce_json_wall2 env)) (Inl err))
              else
                finish lib env d client_ref
                  (op_outcome_json ''square_off'' ''rejected'' broker_order_id (ce_json_wall2 env)) (Inl err))"

section \<open>Sequences of calls\<close>

datatype call = Place string order_intent | Modify string order_intent | Cancel string string
  | SquareOffCall string string

fun run_call :: "json_lib \<Rightarrow> dispatcher \<Rightarrow> call_env \<times> call \<Rightarrow> dispatcher" where
  "run_call lib d (env, Place strategy i) = snd (place lib env d strategy i)"
| "run_call lib d (env, Modify b i) = snd (modify lib env d b i)"
| "run_call lib d (env, Cancel b r) = snd (cancel lib env d b r)"
| "run_call lib d (env, SquareOffCall b r) = snd (square_off lib env d b r)"

definition run_calls :: "json_lib \<Rightarrow> dispatcher \<Rightarrow> (call_env \<times> call) list \<Rightarrow> dispatcher" where
  "run_calls lib = foldl (run_call lib)"

section \<open>What the parts leave alone\<close>

definition sent_signatures :: "dispatch_event list \<Rightarrow> string list" where
  "sent_signatures tr = List.map_filter (\<lambda>ev. case ev of EvPlace i \<Rightarrow> Some (signal_signature i) | _ \<Rightarrow> None) tr"

lemma sent_signatures_append [simp]: "sent_signatures (a @ b) = sent_signatures a @ sent_signatures b"
  by (simp add: sent_signatures_def List.map_filter_def)

lemma sent_signatures_simps [simp]:
  "sent_signatures [] = []" "sent_signatures (EvRecorded r # tr) = sent_signatures tr"
  "sent_signatures (EvBarrier # tr) = sent_signatures tr"
  "sent_signatures (EvPlace i # tr) = signal_signature i # sent_signatures tr"
  "sent_signatures (EvModify b i # tr) = sent_signatures tr"
  "sent_signatures (EvCancel b # tr) = sent_signatures tr"
  "sent_signatures (EvSquareOff b # tr) = sent_signatures tr"
  by (simp_all add: sent_signatures_def List.map_filter_simps)

text \<open>The part of the state the duplicate-submit guard lives on.\<close>

definition guard_state :: "dispatcher \<Rightarrow> idempotency_index \<times> string list \<times> string list" where
  "guard_state d = (dp_index d, dp_unsent_refs d, sent_signatures (dp_trace d))"

lemma record_intent_guard [simp]: "guard_state (snd (record_intent lib f w d op r p)) = guard_state d"
  by (auto simp: record_intent_def guard_state_def split: prod.split sum.split)

lemma record_intent_guardD: "record_intent lib f w d op r p = (res, d') \<Longrightarrow> guard_state d' = guard_state d"
  using record_intent_guard [of lib f w d op r p] by simp

lemma finish_guard [simp]: "guard_state (snd (finish lib env d r out v)) = guard_state d"
  by (auto simp: finish_def append_result_def split: prod.split sum.split dest: record_intent_guardD)

lemma guard_state_update [simp]:
  "guard_state (d \<lparr>dp_store := st\<rparr>) = guard_state d" "guard_state (d \<lparr>dp_fsm := fsm\<rparr>) = guard_state d"
  by (simp_all add: guard_state_def)

lemma place_sent_guard: "guard_state (snd (place_sent lib env d placed)) = guard_state d"
  by (simp add: place_sent_def Let_def split: sum.split prod.split)

lemma mark_unknown_guard: "mark_unknown env d r = (res, d') \<Longrightarrow> guard_state d' = guard_state d"
  by (auto simp: mark_unknown_def split: sum.splits option.splits if_splits prod.splits)

lemma send_guard:
  "guard_state (send d (EvPlace i)) =
     (dp_index d, dp_unsent_refs d, sent_signatures (dp_trace d) @ [signal_signature i])"
  "guard_state (send d (EvModify b i)) = guard_state d" "guard_state (send d (EvCancel b)) = guard_state d"
  "guard_state (send d (EvSquareOff b)) = guard_state d"
  by (simp_all add: guard_state_def send_def)

lemma modify_guard: "guard_state (snd (modify lib env d b i)) = guard_state d"
  by (auto simp: modify_def Let_def send_guard split: prod.split sum.split dest: record_intent_guardD)

lemma cancel_guard: "guard_state (snd (cancel lib env d b r)) = guard_state d"
  by (auto simp: cancel_def Let_def send_guard split: prod.split sum.split
      dest!: record_intent_guardD mark_unknown_guard)

lemma square_off_guard: "guard_state (snd (square_off lib env d b r)) = guard_state d"
  by (auto simp: square_off_def Let_def send_guard split: prod.split sum.split
      dest!: record_intent_guardD mark_unknown_guard)

lemma signature_ignores_ref [simp]: "signal_signature (i \<lparr>oi_client_ref := r\<rparr>) = signal_signature i"
  by (simp add: signal_signature_def canonical_signature_input_def defining_price_paise_def)

text \<open>The three things one \<open>place\<close> can do to the guard state: bind a signal without sending, record
  that a reference stayed unsent, or send.\<close>

lemma place_reserved_guard:
  "guard_state (snd (place_reserved lib env d placed)) =
     (dp_index d, List.insert (oi_client_ref placed) (dp_unsent_refs d), sent_signatures (dp_trace d))
   \<or> guard_state (snd (place_reserved lib env d placed)) =
     (dp_index d, removeAll (oi_client_ref placed) (dp_unsent_refs d),
      sent_signatures (dp_trace d) @ [signal_signature placed])"
proof -
  obtain res d' where a: "record_intent lib (ce_fate1 env) (ce_log_wall1 env) d PlaceOrder
      (oi_client_ref placed) (intent_payload_json lib placed) = (res, d')" by (metis surj_pair)
  have g: "dp_index d' = dp_index d" "dp_unsent_refs d' = dp_unsent_refs d"
    "sent_signatures (dp_trace d') = sent_signatures (dp_trace d)"
    using record_intent_guardD [OF a] by (simp_all add: guard_state_def)
  show ?thesis
    by (cases res) (simp_all add: place_reserved_def a Let_def place_sent_guard send_guard g,
      simp add: guard_state_def g)
qed

section \<open>At most one send per signal\<close>

text \<open>The invariant, over the guard state and the identifiers still to be drawn: a signal that was
  sent in this life, or is known from before it (\<open>P\<close>), is bound to a reference that is not marked
  unsent; nothing is sent twice; and no future identifier ends a reference in use.\<close>

definition guard_inv ::
    "string set \<Rightarrow> string list \<Rightarrow> idempotency_index \<times> string list \<times> string list \<Rightarrow> bool" where
  "guard_inv P us = (\<lambda>(idx, unsent, sent).
     distinct sent \<and> P \<inter> set sent = {}
     \<and> (\<forall>s \<in> P \<union> set sent. \<exists>ref. existing_ref_for_signature idx s = Some ref \<and> ref \<notin> set unsent)
     \<and> (\<forall>s ref. existing_ref_for_signature idx s = Some ref \<longrightarrow> (\<forall>u \<in> set us. \<not> suffix u ref))
     \<and> (\<forall>ref \<in> set unsent. \<forall>u \<in> set us. \<not> suffix u ref))"

lemma guard_inv_mono: "guard_inv P us g \<Longrightarrow> set vs \<subseteq> set us \<Longrightarrow> guard_inv P vs g"
  unfolding guard_inv_def by (cases g) blast

lemma suffix_make_client_ref:
  "length v = length u \<Longrightarrow> suffix v (make_client_ref strategy sg u) \<longleftrightarrow> v = u"
proof -
  assume l: "length v = length u"
  have r: "make_client_ref strategy sg u = (strategy @ ''-'' @ sig8_of sg @ ''-'') @ u"
    by (simp add: make_client_ref_def)
  have "suffix u (p @ u)" for p :: string by (simp add: suffix_def)
  moreover have "suffix v (p @ u) \<Longrightarrow> v = u" for p
    using l by (metis append_eq_append_conv suffix_def)
  ultimately show ?thesis unfolding r by blast
qed

lemma reserve_index:
  assumes "reserve fate u idx st strategy i = (Inr rv, idx')"
  shows "(\<exists>prior. existing_ref_for_signature idx (signal_signature i) = Some prior \<and> idx' = idx
        \<and> rv_client_ref rv = prior \<and> \<not> rv_is_new rv)
    \<or> existing_ref_for_signature idx (signal_signature i) = None
        \<and> rv_client_ref rv = make_client_ref strategy (signal_signature i) u
        \<and> idx' = register_signature idx (signal_signature i) (rv_client_ref rv)
        \<and> (rv_is_new rv \<longleftrightarrow> rv_existing rv = None)"
  using assms by (auto simp: reserve_def Let_def split: option.splits sum.splits)

lemma reserve_failed: "reserve fate u idx st strategy i = (Inl e, idx') \<Longrightarrow> idx' = idx"
  by (auto simp: reserve_def Let_def split: option.splits sum.splits)

lemma guard_inv_bound:
  assumes "guard_inv P us (idx, unsent, sent)" "s \<in> P \<union> set sent"
  shows "\<exists>ref. existing_ref_for_signature idx s = Some ref \<and> ref \<notin> set unsent"
  using assms unfolding guard_inv_def by blast

text \<open>Binding a fresh reference, marking it unsent, sending under a reference marked unsent.\<close>

lemma guard_inv_register:
  assumes "guard_inv P (u # us) (idx, unsent, sent)" "existing_ref_for_signature idx s = None"
    "\<forall>v \<in> set us. length v = length u" "u \<notin> set us"
    and ref: "ref = make_client_ref strategy s u"
  shows "guard_inv P us (register_signature idx s ref, unsent, sent)"
    and "guard_inv P us (register_signature idx s ref, List.insert ref unsent, sent)"
    and "guard_inv P us (register_signature idx s ref, removeAll ref unsent, sent @ [s])"
proof -
  have sfx: "suffix u ref" "\<forall>v \<in> set us. \<not> suffix v ref"
    using assms(3,4) suffix_make_client_ref [of _ u strategy s] unfolding ref by fastforce+
  have fresh: "\<forall>s' r. existing_ref_for_signature idx s' = Some r \<longrightarrow> r \<noteq> ref"
    using assms(1) sfx(1) by (auto simp: guard_inv_def)
  have s: "s \<notin> P \<union> set sent" using guard_inv_bound [OF assms(1), of s] assms(2) by auto
  note look = sig_index.look_reg [of idx s ref]
  show g: "guard_inv P us (register_signature idx s ref, unsent, sent)"
    using assms(1,2) sfx(2) s unfolding guard_inv_def by (auto simp: look)
  have b: "\<exists>r. existing_ref_for_signature (register_signature idx s ref) s' = Some r
      \<and> r \<notin> set (List.insert ref unsent)" if w: "s' \<in> P \<union> set sent" for s'
  proof -
    obtain r where r: "existing_ref_for_signature idx s' = Some r" "r \<notin> set unsent"
      using guard_inv_bound [OF assms(1) w] by blast
    then have "r \<noteq> ref" "s' \<noteq> s" using fresh s w by auto
    then show ?thesis using r by (simp add: look)
  qed
  show "guard_inv P us (register_signature idx s ref, List.insert ref unsent, sent)"
    using g b sfx(2) unfolding guard_inv_def by simp
  show "guard_inv P us (register_signature idx s ref, removeAll ref unsent, sent @ [s])"
    using assms(1,2) sfx(2) s unfolding guard_inv_def by (auto simp: look)
qed

lemma guard_inv_resume:
  assumes "guard_inv P us (idx, unsent, sent)" "existing_ref_for_signature idx s = Some ref"
    "ref \<in> set unsent"
  shows "guard_inv P us (idx, List.insert ref unsent, sent)"
    and "guard_inv P us (idx, removeAll ref unsent, sent @ [s])"
proof -
  have "s \<notin> P \<union> set sent" using guard_inv_bound [OF assms(1), of s] assms(2,3) by auto
  then show "guard_inv P us (idx, removeAll ref unsent, sent @ [s])"
    using assms unfolding guard_inv_def by auto
  show "guard_inv P us (idx, List.insert ref unsent, sent)"
    using assms by (simp add: List.insert_def)
qed

lemma place_guard_inv:
  assumes "guard_inv P (ce_uuid env # us) (guard_state d)"
    "\<forall>v \<in> set us. length v = length (ce_uuid env)" "ce_uuid env \<notin> set us"
  shows "guard_inv P us (guard_state (snd (place lib env d strategy i)))"
proof -
  let ?u = "ce_uuid env" and ?s = "signal_signature i"
  obtain res idx' where a: "reserve (ce_find env) ?u (dp_index d) (dp_store d) strategy i = (res, idx')"
    by (metis surj_pair)
  let ?d = "d \<lparr>dp_index := idx'\<rparr>"
  have weak: "guard_inv P us (guard_state d)" by (rule guard_inv_mono [OF assms(1)]) auto
  show ?thesis
  proof (cases res)
    case (Inl e)
    then have "idx' = dp_index d" using a reserve_failed by blast
    then show ?thesis using Inl weak by (simp add: place_def a guard_state_def)
  next
    case (Inr rv)
    let ?p = "i \<lparr>oi_client_ref := rv_client_ref rv\<rparr>"
    note idx = reserve_index [OF a [unfolded Inr]]
    have cases: "snd (place lib env d strategy i) = ?d \<or> snd (place lib env d strategy i) = snd (place_reserved lib env ?d ?p)"
      by (simp add: place_def a Inr Let_def)
    from idx show ?thesis
    proof (elim disjE exE conjE)
      fix prior assume p: "existing_ref_for_signature (dp_index d) ?s = Some prior" "idx' = dp_index d"
        "rv_client_ref rv = prior" "\<not> rv_is_new rv"
      then have d: "?d = d" by simp
      show ?thesis
      proof (cases "prior \<in> set (dp_unsent_refs d)")
        case True
        have g: "guard_inv P us (dp_index d, dp_unsent_refs d, sent_signatures (dp_trace d))"
          using weak by (simp add: guard_state_def)
        show ?thesis
          using cases place_reserved_guard [of lib env d ?p] guard_inv_resume [OF g p(1) True] weak
          unfolding d by (auto simp: p(3))
      next
        case False
        then have "snd (place lib env d strategy i) = d"
          using p d by (simp add: place_def a Inr Let_def)
        then show ?thesis using weak by simp
      qed
    next
      assume n: "existing_ref_for_signature (dp_index d) ?s = None"
        "rv_client_ref rv = make_client_ref strategy ?s ?u"
        "idx' = register_signature (dp_index d) ?s (rv_client_ref rv)"
      have g: "guard_inv P (?u # us) (dp_index d, dp_unsent_refs d, sent_signatures (dp_trace d))"
        using assms(1) by (simp add: guard_state_def)
      note r = guard_inv_register [OF g n(1) assms(2,3) n(2)]
      show ?thesis
        using cases place_reserved_guard [of lib env ?d ?p] r n(3)
        by (auto simp: guard_state_def)
    qed
  qed
qed

lemma run_call_guard_inv:
  assumes "guard_inv P (ce_uuid env # us) (guard_state d)"
    "\<forall>v \<in> set us. length v = length (ce_uuid env)" "ce_uuid env \<notin> set us"
  shows "guard_inv P us (guard_state (run_call lib d (env, c)))"
proof -
  have weak: "guard_inv P us (guard_state d)" by (rule guard_inv_mono [OF assms(1)]) auto
  show ?thesis
    using place_guard_inv [OF assms] weak
    by (cases c) (simp_all add: modify_guard cancel_guard square_off_guard)
qed

lemma run_calls_guard_inv:
  assumes "guard_inv P (map (\<lambda>ec. ce_uuid (fst ec)) cs) (guard_state d)"
    "distinct (map (\<lambda>ec. ce_uuid (fst ec)) cs)" "\<forall>ec \<in> set cs. length (ce_uuid (fst ec)) = 36"
  shows "guard_inv P [] (guard_state (run_calls lib d cs))"
  using assms
proof (induction cs arbitrary: d)
  case (Cons ec cs)
  obtain env c where ec: "ec = (env, c)" by (cases ec)
  have "guard_inv P (map (\<lambda>ec. ce_uuid (fst ec)) cs) (guard_state (run_call lib d (env, c)))"
    by (rule run_call_guard_inv) (use Cons.prems ec in auto)
  then show ?case using Cons ec by (auto simp: run_calls_def)
qed (simp add: run_calls_def)

text \<open>C1. At most one send per signal.  Start a dispatcher with nothing sent and run any sequence of
  place, modify, cancel and square-off calls, with any outcome of every log write, every store
  statement and every broker call.  As long as the identifiers drawn are 36 characters, distinct and
  not the tail of a reference the index already holds, no signature is sent to the broker twice, and
  no signature the index knew at the start (a signal recorded in an earlier life) is sent at all.\<close>

theorem at_most_one_send:
  assumes "dp_unsent_refs d = []" and "dp_trace d = []"
    and "distinct (map (\<lambda>ec. ce_uuid (fst ec)) cs)" and "\<forall>ec \<in> set cs. length (ce_uuid (fst ec)) = 36"
    and "\<forall>ec \<in> set cs. \<forall>s ref. existing_ref_for_signature (dp_index d) s = Some ref
           \<longrightarrow> \<not> suffix (ce_uuid (fst ec)) ref"
  shows "distinct (sent_signatures (dp_trace (run_calls lib d cs)))
    \<and> (\<forall>s \<in> set (sent_signatures (dp_trace (run_calls lib d cs))).
         existing_ref_for_signature (dp_index d) s = None)"
proof -
  let ?P = "{s. existing_ref_for_signature (dp_index d) s \<noteq> None}"
  have "guard_inv ?P (map (\<lambda>ec. ce_uuid (fst ec)) cs) (guard_state d)"
    using assms(1,2,5) by (auto simp: guard_inv_def guard_state_def)
  from run_calls_guard_inv [OF this assms(3,4), of lib]
  show ?thesis by (auto simp: guard_inv_def guard_state_def)
qed

section \<open>Write-ahead order\<close>

text \<open>
  The record that announces a broker call, for the dispatcher call that issued both.  The broker is
  called with that call's own arguments, and the record carries that call's kind, reference and
  payload; the reference of a placement is the one the placed intent carries.
\<close>

fun announces :: "json_lib \<Rightarrow> call_env \<times> call \<Rightarrow> intent_record \<Rightarrow> dispatch_event \<Rightarrow> bool" where
  "announces lib (env, Place strategy i) r ev \<longleftrightarrow>
     (\<exists>ref. ev = EvPlace (i \<lparr>oi_client_ref := ref\<rparr>) \<and> ir_op r = PlaceOrder \<and> ir_client_ref r = canonical_text ref
        \<and> ir_payload_json r = canonical_text (intent_payload_json lib (i \<lparr>oi_client_ref := ref\<rparr>)))"
| "announces lib (env, Modify b i) r ev \<longleftrightarrow>
     ev = EvModify b i \<and> ir_op r = ModifyOrder \<and> ir_client_ref r = canonical_text (oi_client_ref i)
     \<and> ir_payload_json r = canonical_text (intent_payload_json lib i)"
| "announces lib (env, Cancel b ref) r ev \<longleftrightarrow>
     ev = EvCancel b \<and> ir_op r = CancelOrder \<and> ir_client_ref r = canonical_text ref
     \<and> ir_payload_json r = canonical_text (op_outcome_json ''cancel'' ''intent'' b (ce_json_wall1 env))"
| "announces lib (env, SquareOffCall b ref) r ev \<longleftrightarrow>
     ev = EvSquareOff b \<and> ir_op r = SquareOff \<and> ir_client_ref r = canonical_text ref
     \<and> ir_payload_json r = canonical_text (op_outcome_json ''square_off'' ''intent'' b (ce_json_wall1 env))"

fun is_send :: "dispatch_event \<Rightarrow> bool" where
  "is_send (EvRecorded r) = False"
| "is_send EvBarrier = False"
| "is_send _ = True"

text \<open>The shape of every trace of calls out of \<open>C\<close>: lone records, and record, barrier, send.\<close>

inductive wal_trace :: "json_lib \<Rightarrow> (call_env \<times> call) set \<Rightarrow> dispatch_event list \<Rightarrow> bool" for lib C where
  wal_nil: "wal_trace lib C []"
| wal_record: "wal_trace lib C tr \<Longrightarrow> wal_trace lib C (tr @ [EvRecorded r])"
| wal_send: "wal_trace lib C tr \<Longrightarrow> ec \<in> C \<Longrightarrow> announces lib ec r ev
    \<Longrightarrow> wal_trace lib C (tr @ [EvRecorded r, EvBarrier, ev])"

lemma wal_trace_send_position:
  assumes "wal_trace lib C tr" "n < length tr" "is_send (tr ! n)"
  shows "2 \<le> n \<and> tr ! (n - 1) = EvBarrier
    \<and> (\<exists>r. tr ! (n - 2) = EvRecorded r \<and> (\<exists>ec \<in> C. announces lib ec r (tr ! n)))"
  using assms
proof (induction arbitrary: n rule: wal_trace.induct)
  case (wal_record tr r)
  then show ?case by (cases "n < length tr") (auto simp: nth_append less_Suc_eq)
next
  case (wal_send tr ec r ev)
  consider "n < length tr" | "n = length tr" | "n = length tr + 1" | "n = length tr + 2"
    using wal_send.prems(1) by fastforce
  then show ?case
  proof cases
    case 1
    then show ?thesis using wal_send.IH [of n] wal_send.prems(2) by (auto simp: nth_append)
  next
    case 4
    then show ?thesis using wal_send.hyps(2,3) by (auto simp: nth_append)
  qed (use wal_send.prems(2) in \<open>simp_all add: nth_append\<close>)
qed simp

lemma record_intent_cases:
  assumes "record_intent lib f w d op ref p = (res, d')"
  shows "(\<exists>e. res = Inl e \<and> dp_trace d' = dp_trace d)
    \<or> (\<exists>r. res = Inr r \<and> dp_trace d' = dp_trace d @ [EvRecorded r] \<and> ir_op r = op
         \<and> ir_client_ref r = canonical_text ref \<and> ir_payload_json r = canonical_text p)"
proof -
  have "log_append lib f w (dp_log d) op ref p = (Inr r, log) \<Longrightarrow>
      ir_op r = op \<and> ir_client_ref r = canonical_text ref \<and> ir_payload_json r = canonical_text p" for r log
    by (auto simp: log_append_def next_record_def Let_def split: if_splits io_fate.splits)
  then show ?thesis using assms by (cases res) (auto simp: record_intent_def split: prod.splits)
qed

lemma finish_wal: "wal_trace lib C (dp_trace d) \<Longrightarrow> wal_trace lib C (dp_trace (snd (finish lib env d ref out v)))"
  by (auto simp: finish_def append_result_def split: prod.split sum.split
      dest!: record_intent_cases intro: wal_record)

lemma place_sent_wal: "wal_trace lib C (dp_trace d) \<Longrightarrow> wal_trace lib C (dp_trace (snd (place_sent lib env d i)))"
  by (simp add: place_sent_def Let_def finish_wal split: sum.split prod.split)

lemma mark_unknown_trace: "mark_unknown env d ref = (res, d') \<Longrightarrow> dp_trace d' = dp_trace d"
  by (auto simp: mark_unknown_def split: sum.splits option.splits if_splits prod.splits)

text \<open>The step all four operations share: record, then barrier and send.\<close>

lemma record_send_wal:
  assumes "record_intent lib f w d op ref p = (Inr r, d')" "wal_trace lib C (dp_trace d)" "ec \<in> C"
    and "\<And>r. \<lbrakk>ir_op r = op; ir_client_ref r = canonical_text ref; ir_payload_json r = canonical_text p\<rbrakk>
          \<Longrightarrow> announces lib ec r ev"
    and "dp_trace d'' = dp_trace d'"
  shows "wal_trace lib C (dp_trace (send d'' ev))"
  using record_intent_cases [OF assms(1)] assms(2-5)
  by (auto simp: send_def intro: wal_send)

lemma place_wal: "(env, Place s i) \<in> C \<Longrightarrow> wal_trace lib C (dp_trace d) \<Longrightarrow> wal_trace lib C (dp_trace (snd (place lib env d s i)))"
proof -
  assume c: "(env, Place s i) \<in> C" and d: "wal_trace lib C (dp_trace d)"
  have "wal_trace lib C (dp_trace (snd (place_reserved lib env d placed)))"
    if w: "wal_trace lib C (dp_trace d)" and p: "placed = i \<lparr>oi_client_ref := ref\<rparr>" for placed ref d
  proof -
    obtain res d' where a: "record_intent lib (ce_fate1 env) (ce_log_wall1 env) d PlaceOrder
        (oi_client_ref placed) (intent_payload_json lib placed) = (res, d')" by (metis surj_pair)
    show ?thesis
    proof (cases res)
      case Inl
      then show ?thesis using record_intent_cases [OF a] w by (auto simp: place_reserved_def a)
    next
      case (Inr r)
      let ?d = "d' \<lparr>dp_unsent_refs := removeAll (oi_client_ref placed) (dp_unsent_refs d')\<rparr>"
      have "wal_trace lib C (dp_trace (send ?d (EvPlace placed)))"
        by (rule record_send_wal [OF a [unfolded Inr] w c]) (auto simp: p)
      then show ?thesis by (simp add: place_reserved_def a Inr Let_def place_sent_wal)
    qed
  qed
  then show ?thesis using d by (auto simp: place_def Let_def split: prod.split sum.split)
qed

lemma modify_wal: "(env, Modify b i) \<in> C \<Longrightarrow> wal_trace lib C (dp_trace d) \<Longrightarrow> wal_trace lib C (dp_trace (snd (modify lib env d b i)))"
proof -
  assume c: "(env, Modify b i) \<in> C" and w: "wal_trace lib C (dp_trace d)"
  obtain res d' where a: "record_intent lib (ce_fate1 env) (ce_log_wall1 env) d ModifyOrder
      (oi_client_ref i) (intent_payload_json lib i) = (res, d')" by (metis surj_pair)
  show ?thesis
  proof (cases res)
    case Inl
    then show ?thesis using record_intent_cases [OF a] w by (auto simp: modify_def a)
  next
    case (Inr r)
    have "wal_trace lib C (dp_trace (send d' (EvModify b i)))"
      by (rule record_send_wal [OF a [unfolded Inr] w c]) auto
    then show ?thesis by (simp add: modify_def a Inr Let_def finish_wal split: sum.split prod.split)
  qed
qed

lemma cancel_wal: "(env, Cancel b ref) \<in> C \<Longrightarrow> wal_trace lib C (dp_trace d) \<Longrightarrow> wal_trace lib C (dp_trace (snd (cancel lib env d b ref)))"
proof -
  assume c: "(env, Cancel b ref) \<in> C" and w: "wal_trace lib C (dp_trace d)"
  obtain res d' where a: "record_intent lib (ce_fate1 env) (ce_log_wall1 env) d CancelOrder ref
      (op_outcome_json ''cancel'' ''intent'' b (ce_json_wall1 env)) = (res, d')" by (metis surj_pair)
  show ?thesis
  proof (cases res)
    case Inl
    then show ?thesis using record_intent_cases [OF a] w by (auto simp: cancel_def a)
  next
    case (Inr r)
    have "wal_trace lib C (dp_trace (send d' (EvCancel b)))"
      by (rule record_send_wal [OF a [unfolded Inr] w c]) auto
    then show ?thesis
      by (auto simp: cancel_def a Inr Let_def finish_wal split: sum.split prod.split dest!: mark_unknown_trace)
  qed
qed

lemma square_off_wal: "(env, SquareOffCall b ref) \<in> C \<Longrightarrow> wal_trace lib C (dp_trace d) \<Longrightarrow> wal_trace lib C (dp_trace (snd (square_off lib env d b ref)))"
proof -
  assume c: "(env, SquareOffCall b ref) \<in> C" and w: "wal_trace lib C (dp_trace d)"
  obtain res d' where a: "record_intent lib (ce_fate1 env) (ce_log_wall1 env) d SquareOff ref
      (op_outcome_json ''square_off'' ''intent'' b (ce_json_wall1 env)) = (res, d')" by (metis surj_pair)
  show ?thesis
  proof (cases res)
    case Inl
    then show ?thesis using record_intent_cases [OF a] w by (auto simp: square_off_def a)
  next
    case (Inr r)
    have "wal_trace lib C (dp_trace (send d' (EvSquareOff b)))"
      by (rule record_send_wal [OF a [unfolded Inr] w c]) auto
    then show ?thesis
      by (auto simp: square_off_def a Inr Let_def finish_wal split: sum.split prod.split dest!: mark_unknown_trace)
  qed
qed

lemma run_calls_wal: "set cs \<subseteq> C \<Longrightarrow> wal_trace lib C (dp_trace d) \<Longrightarrow> wal_trace lib C (dp_trace (run_calls lib d cs))"
proof (induction cs arbitrary: d)
  case (Cons ec cs)
  obtain env c where ec: "ec = (env, c)" by (cases ec)
  have "wal_trace lib C (dp_trace (run_call lib d ec))"
    using Cons.prems unfolding ec
    by (cases c) (simp_all add: place_wal modify_wal cancel_wal square_off_wal)
  then show ?case using Cons.IH Cons.prems(1) by (simp add: run_calls_def)
qed (simp add: run_calls_def)

text \<open>C3. Record, sync, then send.  In the trace of any sequence of calls with any failures, every call
  to the broker stands immediately after the pre-send barrier, which stands immediately after a
  record whose append reported success (written and synced).  One of the calls issued both: the
  broker is called with that call's own arguments, and the record is of its kind and carries its
  reference and its payload, for a cancel and a square-off as for a placement and a modification.\<close>

theorem record_before_send:
  assumes "dp_trace d = []" and "n < length (dp_trace (run_calls lib d cs))"
    and "is_send (dp_trace (run_calls lib d cs) ! n)"
  shows "2 \<le> n \<and> dp_trace (run_calls lib d cs) ! (n - 1) = EvBarrier
    \<and> (\<exists>r. dp_trace (run_calls lib d cs) ! (n - 2) = EvRecorded r
         \<and> (\<exists>ec \<in> set cs. announces lib ec r (dp_trace (run_calls lib d cs) ! n)))"
  using run_calls_wal [of cs "set cs" lib d] assms wal_trace_send_position [of lib "set cs" _ n] by (simp add: wal_nil)

section \<open>A concrete dispatcher\<close>

definition sample_dispatcher :: dispatcher where
  "sample_dispatcher = \<lparr>dp_log = reopened ''intent.log'' [], dp_store = empty_store, dp_index = [],
     dp_fsm = lifecycle_init, dp_unsent_refs = [], dp_trace = []\<rparr>"

definition sample_env :: "string \<Rightarrow> io_fate \<Rightarrow> broker_ack result \<Rightarrow> call_env" where
  "sample_env uuid fate ack = \<lparr>ce_fate1 = fate, ce_fate2 = IoOk, ce_json_wall1 = 1, ce_log_wall1 = 2,
     ce_json_wall2 = 3, ce_log_wall2 = 4, ce_find = SqlOk, ce_write = SqlOk, ce_uuid = uuid,
     ce_ack = ack, ce_outcome = Inr ()\<rparr>"

definition sample_ack :: "broker_ack result" where
  "sample_ack = Inr \<lparr>ba_broker_order_id = ''b1'', ba_client_ref = []\<rparr>"

definition uuid_a :: string where
  "uuid_a = ''11111111-1111-4111-8111-111111111111''"

definition uuid_b :: string where
  "uuid_b = ''22222222-2222-4222-8222-222222222222''"

lemma lookup_empty_store [simp]: "lookup_order empty_store k = None"
  by (simp add: lookup_order_def find_order_def empty_store_def table_find_def)

lemma sample_dispatcher_sel [simp]:
  "dp_log sample_dispatcher = reopened ''intent.log'' []" "dp_store sample_dispatcher = empty_store"
  "dp_index sample_dispatcher = []" "dp_unsent_refs sample_dispatcher = []" "dp_trace sample_dispatcher = []"
  "dp_fsm sample_dispatcher = lifecycle_init"
  by (simp_all add: sample_dispatcher_def)

lemma sample_env_sel [simp]:
  "ce_fate1 (sample_env u f a) = f" "ce_fate2 (sample_env u f a) = IoOk" "ce_find (sample_env u f a) = SqlOk"
  "ce_write (sample_env u f a) = SqlOk" "ce_uuid (sample_env u f a) = u" "ce_ack (sample_env u f a) = a"
  "ce_log_wall1 (sample_env u f a) = 2" "ce_log_wall2 (sample_env u f a) = 4"
  "ce_outcome (sample_env u f a) = Inr ()"
  by (simp_all add: sample_env_def)

lemma existing_ref_empty [simp]: "existing_ref_for_signature [] s = None" "existing_ref [] i = None"
  by (simp_all add: existing_ref_for_signature_def existing_ref_def)

lemma sample_uuids [simp]: "length uuid_a = 36" "length uuid_b = 36" "uuid_a \<noteq> uuid_b"
  by (simp_all add: uuid_a_def uuid_b_def)

text \<open>The same signal twice, with two identifiers.\<close>

theorem at_most_one_send_witness:
  "distinct (sent_signatures (dp_trace (run_calls sample_json sample_dispatcher
     [(sample_env uuid_a IoOk sample_ack, Place ''alpha'' sample_intent),
      (sample_env uuid_b IoOk sample_ack, Place ''alpha'' sample_intent)])))"
proof -
  let ?cs = "[(sample_env uuid_a IoOk sample_ack, Place ''alpha'' sample_intent),
      (sample_env uuid_b IoOk sample_ack, Place ''alpha'' sample_intent)]"
  have u: "distinct (map (\<lambda>ec. ce_uuid (fst ec)) ?cs)" "\<forall>ec \<in> set ?cs. length (ce_uuid (fst ec)) = 36"
    by (simp_all add: uuid_a_def uuid_b_def)
  from at_most_one_send [of sample_dispatcher ?cs sample_json, OF _ _ u]
  show ?thesis by simp
qed

text \<open>A square-off on a fresh log: the only send stands third.\<close>

theorem record_before_send_witness:
  "let tr = dp_trace (run_calls sample_json sample_dispatcher
       [(sample_env uuid_a IoOk sample_ack, SquareOffCall ''b1'' ''r1'')])
   in tr ! 2 = EvSquareOff ''b1'' \<and> (\<exists>r. tr ! 0 = EvRecorded r \<and> ir_op r = SquareOff
        \<and> ir_client_ref r = canonical_text ''r1'')"
proof -
  let ?d = "run_calls sample_json sample_dispatcher
    [(sample_env uuid_a IoOk sample_ack, SquareOffCall ''b1'' ''r1'')]"
  have tr: "length (dp_trace ?d) = 4" "dp_trace ?d ! 2 = EvSquareOff ''b1''"
    by (simp_all add: run_calls_def square_off_def record_intent_def log_append_def Let_def
        finish_def append_result_def send_def)
  then show ?thesis
    using record_before_send [of sample_dispatcher 2 sample_json
        "[(sample_env uuid_a IoOk sample_ack, SquareOffCall ''b1'' ''r1'')]"]
    by (auto simp: Let_def)
qed

end
