(* ===== verification/Dispatch_Safety.thy ===== *)
theory Dispatch_Safety
  imports Dispatcher
begin

text \<open>
  What the dispatcher of \<^verbatim>\<open>runtime/dispatcher.cpp\<close> guarantees beyond one run: a signal whose
  record failed is resumed, the answers of the broker become the stored states, terminal orders stay
  put (and the one path on which they do not), and the guard holds across a crash and a restart that
  rebuilds the index from the replayed log.
\<close>

section \<open>A signal is not lost\<close>

lemma place_fresh:
  assumes "existing_ref (dp_index d) i = None" "ce_find env = SqlOk"
    "lookup_order (dp_store d) (make_client_ref strategy (signal_signature i) (ce_uuid env)) = None"
  shows "place lib env d strategy i =
    place_reserved lib env (d \<lparr>dp_index := register_ref (dp_index d) i
        (make_client_ref strategy (signal_signature i) (ce_uuid env))\<rparr>)
      (i \<lparr>oi_client_ref := make_client_ref strategy (signal_signature i) (ce_uuid env)\<rparr>)"
  using assms by (simp add: place_def reserve_def existing_ref_def register_ref_def find_order_lookup Let_def)

lemma place_resume:
  assumes "existing_ref (dp_index d) i = Some ref" "ce_find env = SqlOk"
    "lookup_order (dp_store d) ref = None" "ref \<in> set (dp_unsent_refs d)"
  shows "place lib env d strategy i = place_reserved lib env d (i \<lparr>oi_client_ref := ref\<rparr>)"
  using assms by (simp add: place_def reserve_def existing_ref_def find_order_lookup Let_def)

lemma log_append_open [simp]: "il_open (snd (log_append lib f w log op ref p)) = il_open log"
  by (simp add: log_append_def Let_def split: io_fate.split)

lemma record_intent_prefix: "record_intent lib f w d op ref p = (res, d') \<Longrightarrow> prefix (dp_trace d) (dp_trace d')"
  by (auto dest!: record_intent_cases)

lemma finish_prefix: "prefix (dp_trace d) (dp_trace (snd (finish lib env d ref out v)))"
  by (auto simp: finish_def append_result_def split: prod.split sum.split dest: record_intent_prefix)

lemma place_sent_prefix: "prefix (dp_trace d) (dp_trace (snd (place_sent lib env d i)))"
  using finish_prefix [of "d \<lparr>dp_store := st\<rparr>" for st] finish_prefix [of "d \<lparr>dp_fsm := f, dp_store := st\<rparr>" for f st]
  by (auto simp: place_sent_def Let_def split: sum.split prod.split)

lemma place_reserved_durable:
  assumes "il_open (dp_log d)" "ce_fate1 env = IoOk"
  shows "sent_signatures (dp_trace (snd (place_reserved lib env d placed))) =
      sent_signatures (dp_trace d) @ [signal_signature placed]"
    and "EvPlace placed \<in> set (dp_trace (snd (place_reserved lib env d placed)))"
proof -
  show "sent_signatures (dp_trace (snd (place_reserved lib env d placed))) =
      sent_signatures (dp_trace d) @ [signal_signature placed]"
    using assms place_sent_guard [of lib env _ placed]
    by (simp add: place_reserved_def record_intent_def log_append_def Let_def guard_state_def send_def)
  have "EvPlace placed \<in> set (dp_trace (snd (place_sent lib env (send d' (EvPlace placed)) placed)))" for d'
    using set_mono_prefix [OF place_sent_prefix] by (fastforce simp: send_def)
  then show "EvPlace placed \<in> set (dp_trace (snd (place_reserved lib env d placed)))"
    using assms by (simp add: place_reserved_def record_intent_def log_append_def Let_def)
qed

lemma place_reserved_failed:
  assumes "ce_fate1 env \<noteq> IoOk"
  shows "\<exists>e. fst (place_reserved lib env d placed) = Inl e"
    and "dp_trace (snd (place_reserved lib env d placed)) = dp_trace d"
    and "dp_store (snd (place_reserved lib env d placed)) = dp_store d"
    and "dp_index (snd (place_reserved lib env d placed)) = dp_index d"
    and "il_open (dp_log (snd (place_reserved lib env d placed))) = il_open (dp_log d)"
    and "oi_client_ref placed \<in> set (dp_unsent_refs (snd (place_reserved lib env d placed)))"
  using assms
  by (simp_all add: place_reserved_def record_intent_def log_append_def Let_def split: io_fate.splits)

text \<open>C4. A write that fails does not lose the signal.  When the intent of a new signal cannot be made
  durable, \<open>place\<close> returns the error and sends nothing; and the next attempt at the same signal,
  once the log accepts a write, is sent, once, under the reference reserved the first time,
  whatever identifier the generator would now draw.\<close>

theorem failed_intent_is_resumed:
  assumes "existing_ref (dp_index d) i = None" and "il_open (dp_log d)"
    and "ref = make_client_ref strategy (signal_signature i) (ce_uuid env1)"
    and "lookup_order (dp_store d) ref = None"
    and "ce_find env1 = SqlOk" and "ce_fate1 env1 \<noteq> IoOk"
    and "place lib env1 d strategy i = (res1, d1)"
    and "ce_find env2 = SqlOk" and "ce_fate1 env2 = IoOk"
    and "place lib env2 d1 strategy2 i = (res2, d2)"
  shows "(\<exists>e. res1 = Inl e) \<and> dp_trace d1 = dp_trace d
    \<and> sent_signatures (dp_trace d2) = sent_signatures (dp_trace d) @ [signal_signature i]
    \<and> EvPlace (i \<lparr>oi_client_ref := ref\<rparr>) \<in> set (dp_trace d2)"
proof -
  let ?p = "i \<lparr>oi_client_ref := ref\<rparr>"
  have p1: "place lib env1 d strategy i =
      place_reserved lib env1 (d \<lparr>dp_index := register_ref (dp_index d) i ref\<rparr>) ?p"
    using place_fresh [OF assms(1,5)] assms(3,4) by simp
  note f = place_reserved_failed [where lib = lib and placed = ?p and d = "d \<lparr>dp_index := register_ref (dp_index d) i ref\<rparr>",
      OF assms(6), folded p1, unfolded assms(7) fst_conv snd_conv]
  have "existing_ref (dp_index d1) i = Some ref"
    using f(4) assms(1) by (simp add: register_ref_def existing_ref_def sig_index.look_reg)
  then have p2: "place lib env2 d1 strategy2 i = place_reserved lib env2 d1 ?p"
    using place_resume [of d1 i ref env2] assms(4,8) f(3,6) by simp
  have "il_open (dp_log d1)" using f(5) assms(2) by simp
  from place_reserved_durable [where lib = lib and placed = ?p, OF this assms(9)]
  show ?thesis using f(1,2) by (simp add: p2 [symmetric] assms(10))
qed

section \<open>What the broker's answer becomes\<close>

lemma finish_ok:
  assumes "il_open (dp_log d)" "ce_fate2 env = IoOk"
  shows "fst (finish lib env d ref out v) = v \<and> dp_store (snd (finish lib env d ref out v)) = dp_store d"
  using assms by (simp add: finish_def append_result_def record_intent_def log_append_def Let_def)


lemma fresh_ack:
  assumes "\<not> stale eng v" "bv_observed_state v = Acknowledged" "bv_filled_qty v = Quantity 0"
    "bv_avg_price v = Price 0"
  shows "snd (snd (fsm_apply eng (make_order placed Sent) v)) =
    (make_order placed Acknowledged) \<lparr>ord_broker_order_id := bv_broker_order_id v\<rparr>"
  using assms
  by (simp add: fsm_apply_def make_order_def stale_def canonical_observed_def
      is_valid_transition_def Let_def split: option.splits)

lemma place_sent_answer:
  assumes "il_open (dp_log d)" "ce_fate2 env = IoOk" "ce_write env = SqlOk"
    "lookup_order (dp_store d) (oi_client_ref placed) = None"
    "le_last_key (dp_fsm d) (oi_client_ref placed) = None"
    and ord: "ord = (case ce_ack env of
        Inr ack \<Rightarrow> (make_order placed Acknowledged) \<lparr>ord_broker_order_id := ba_broker_order_id ack\<rparr>
      | Inl e \<Rightarrow> make_order placed (if is_reconcile_first e then Unknown else Rejected))"
  shows "fst (place_sent lib env d placed) = Inr ord
    \<and> lookup_order (dp_store (snd (place_sent lib env d placed))) (oi_client_ref placed) = Some ord"
proof -
  have key: "order_key ord = oi_client_ref placed"
    by (simp add: ord order_key_def make_order_def split: sum.split)
  obtain st where st: "insert_order SqlOk (dp_store d) ord = (Inr (), st)"
    using assms(4) key by (simp add: insert_order_ok)
  note f = finish_ok [where d = "d \<lparr>dp_fsm := g, dp_store := st\<rparr>" for g, simplified, OF assms(1,2)]
    finish_ok [where d = "d \<lparr>dp_store := st\<rparr>", simplified, OF assms(1,2)]
  have look: "lookup_order st (oi_client_ref placed) = Some ord"
    using lookup_insert_order(1) [OF st] key by simp
  show ?thesis
  proof (cases "ce_ack env")
    case (Inl e)
    then show ?thesis using st look
      by (simp add: place_sent_def ord assms(3) Let_def f(2))
  next
    case (Inr ack)
    define v where "v = \<lparr>bv_client_ref = oi_client_ref placed, bv_broker_order_id = ba_broker_order_id ack,
      bv_observed_state = Acknowledged, bv_filled_qty = Quantity 0, bv_avg_price = Price 0,
      bv_ordering_key = (1 :: int64)\<rparr>"
    have "snd (snd (fsm_apply (dp_fsm d) (make_order placed Sent) v)) = ord"
      using fresh_ack [of "dp_fsm d" v placed] Inr assms(5) by (simp add: v_def stale_def ord)
    then obtain o1 eng where a: "fsm_apply (dp_fsm d) (make_order placed Sent) v = (o1, eng, ord)"
      by (metis prod.collapse)
    then show ?thesis using st look
      by (simp add: place_sent_def Inr assms(3) Let_def f(1) flip: v_def)
  qed
qed

text \<open>C5. A placement that reaches the broker always leaves a row that says what is known.  For a new
  signal with a working log and store, \<open>place\<close> returns an order, never an error, and the store holds
  that very order under the reserved reference: acknowledged with the broker's order id after an
  ack; \<open>Unknown\<close>, to be reconciled, after an error that says so or whose category is a timeout, a
  network failure or unknown; \<open>Rejected\<close> after every other error, a rate limit included.\<close>

theorem place_answer:
  assumes "existing_ref (dp_index d) i = None" and "il_open (dp_log d)"
    and "ref = make_client_ref strategy (signal_signature i) (ce_uuid env)"
    and "lookup_order (dp_store d) ref = None" and "le_last_key (dp_fsm d) ref = None"
    and "ce_find env = SqlOk" and "ce_write env = SqlOk" and "ce_fate1 env = IoOk" and "ce_fate2 env = IoOk"
  shows "\<exists>ord. fst (place lib env d strategy i) = Inr ord
    \<and> lookup_order (dp_store (snd (place lib env d strategy i))) ref = Some ord
    \<and> ord_intent ord = i \<lparr>oi_client_ref := ref\<rparr>
    \<and> ord_filled_qty ord = Quantity 0
    \<and> (case ce_ack env of
         Inr ack \<Rightarrow> ord_state ord = Acknowledged \<and> ord_broker_order_id ord = ba_broker_order_id ack
       | Inl e \<Rightarrow> ord_broker_order_id ord = [] \<and>
           ord_state ord =
             (if err_action e = ReconcileFirst \<or> err_category e \<in> {Timeout, Network, UnknownCategory}
              then Unknown else Rejected))"
proof -
  let ?p = "i \<lparr>oi_client_ref := ref\<rparr>"
  let ?d = "d \<lparr>dp_index := register_ref (dp_index d) i ref\<rparr>"
  obtain r log where r: "log_append lib IoOk (ce_log_wall1 env) (dp_log d) PlaceOrder ref
      (intent_payload_json lib ?p) = (Inr r, log)" and o: "il_open log"
    using assms(2) by (auto simp: log_append_def Let_def)
  let ?e = "send (?d \<lparr>dp_log := log, dp_trace := dp_trace d @ [EvRecorded r],
      dp_unsent_refs := removeAll ref (dp_unsent_refs d)\<rparr>) (EvPlace ?p)"
  have p: "place lib env d strategy i = place_sent lib env ?e ?p"
    using place_fresh [OF assms(1,6)] assms(3,4,8) r
    by (simp add: place_reserved_def record_intent_def Let_def)
  show ?thesis unfolding p
    using place_sent_answer [of ?e env ?p _ lib, OF _ assms(9,7) _ _ refl] o assms(4,5)
    by (auto simp: send_def make_order_def is_reconcile_first_def split: sum.splits if_splits)
qed

section \<open>Terminal orders\<close>

lemma finish_store: "dp_store (snd (finish lib env d ref out v)) = dp_store d"
  by (auto simp: finish_def append_result_def record_intent_def split: prod.split sum.split)

lemma record_intent_store: "record_intent lib f w d op ref p = (res, d') \<Longrightarrow> dp_store d' = dp_store d"
  by (auto simp: record_intent_def split: prod.splits)

lemma send_store [simp]: "dp_store (send d ev) = dp_store d"
  by (simp add: send_def)

lemma upsert_order_lookup:
  assumes "upsert_order fate st r = (res, st')"
  shows "st' = st \<or> (\<forall>k. lookup_order st' k = (if k = order_key r then Some r else lookup_order st k))"
  using assms orders.lookup_put [of st r] by (cases fate) (auto simp: upsert_order_def put_order_def)

lemma mark_unknown_store:
  assumes "mark_unknown env d ref = (res, d')"
  shows "dp_store d' = dp_store d \<or> (\<exists>x. find_order (ce_find env) (dp_store d) ref = Inr (Some x)
    \<and> \<not> is_terminal (ord_state x)
    \<and> upsert_order (ce_write env) (dp_store d) (x \<lparr>ord_state := Unknown\<rparr>) = (Inr (), dp_store d'))"
proof (cases "find_order (ce_find env) (dp_store d) ref")
  case (Inr found)
  then show ?thesis
  proof (cases found)
    case (Some x)
    obtain r st where u: "upsert_order (ce_write env) (dp_store d) (x \<lparr>ord_state := Unknown\<rparr>) = (r, st)"
      by (metis surj_pair)
    show ?thesis using assms by (cases r) (auto simp: mark_unknown_def Inr Some u split: if_splits)
  qed (use assms Inr in \<open>simp add: mark_unknown_def\<close>)
qed (use assms in \<open>simp add: mark_unknown_def\<close>)

lemma mark_unknown_terminal:
  assumes "mark_unknown env d ref = (res, d')" "lookup_order (dp_store d) k = Some ord"
    "is_terminal (ord_state ord)"
  shows "lookup_order (dp_store d') k = Some ord"
proof -
  consider "dp_store d' = dp_store d" | x where "find_order (ce_find env) (dp_store d) ref = Inr (Some x)"
    "\<not> is_terminal (ord_state x)"
    "upsert_order (ce_write env) (dp_store d) (x \<lparr>ord_state := Unknown\<rparr>) = (Inr (), dp_store d')"
    using mark_unknown_store [OF assms(1)] by blast
  then show ?thesis
  proof cases
    case 2
    have x: "lookup_order (dp_store d) ref = Some x" using find_order_Inr [OF 2(1)] by simp
    then have key: "order_key (x \<lparr>ord_state := Unknown\<rparr>) = ref"
      using orders.lookup_key [OF x] by (simp add: order_key_def)
    have "k \<noteq> ref" using x 2(2) assms(2,3) by auto
    then show ?thesis using upsert_order_lookup [OF 2(3)] key assms(2) by auto
  qed (use assms(2) in simp)
qed

lemma cancel_terminal:
  assumes "lookup_order (dp_store d) k = Some ord" "is_terminal (ord_state ord)"
  shows "lookup_order (dp_store (snd (cancel lib env d b ref))) k = Some ord"
    and "lookup_order (dp_store (snd (square_off lib env d b ref))) k = Some ord"
  using assms mark_unknown_terminal [OF _ _ assms(2)]
  by (auto simp: cancel_def square_off_def Let_def finish_store split: prod.split sum.split dest!: record_intent_store)

text \<open>A placement only ever inserts.\<close>

lemma place_keeps_rows:
  assumes "lookup_order (dp_store d) k = Some ord"
  shows "lookup_order (dp_store (snd (place lib env d s i))) k = Some ord"
proof -
  have ins: "lookup_order st k = Some ord" if w: "insert_order f (dp_store d) x = (Inr u, st)" for f x u st
    using lookup_insert_order(1) [OF w, of k] lookup_insert_order(2) [OF w] assms by auto
  have sent: "lookup_order (dp_store (snd (place_sent lib env d' p))) k = Some ord"
    if w: "dp_store d' = dp_store d" for d' p
    using ins by (auto simp: place_sent_def Let_def w finish_store assms split: sum.split prod.split)
  have "lookup_order (dp_store (snd (place_reserved lib env d' p))) k = Some ord"
    if w: "dp_store d' = dp_store d" for d' p
    using sent by (auto simp: place_reserved_def Let_def w assms split: sum.split prod.split dest!: record_intent_store)
  then show ?thesis using assms by (simp add: place_def Let_def split: prod.split sum.split)
qed

text \<open>C6. Terminal orders stay as they are.  No sequence of place, cancel and square-off calls, with
  any failures and any broker answers, changes the row of an order that is filled, cancelled or
  rejected.\<close>

theorem terminal_rows_are_kept:
  assumes "lookup_order (dp_store d) k = Some ord" and "is_terminal (ord_state ord)"
    and "\<forall>ec \<in> set cs. \<forall>b i. snd ec \<noteq> Modify b i"
  shows "lookup_order (dp_store (run_calls lib d cs)) k = Some ord"
  using assms(1,3)
proof (induction cs arbitrary: d)
  case (Cons ec cs)
  obtain env c where ec: "ec = (env, c)" by (cases ec)
  have "lookup_order (dp_store (run_call lib d ec)) k = Some ord"
    using Cons.prems assms(2) unfolding ec
    by (cases c) (simp_all add: place_keeps_rows cancel_terminal)
  then show ?case using Cons by (simp add: run_calls_def)
qed (simp add: run_calls_def)

text \<open>C7. Modify is the exception.  With a durable record and a working store, an ambiguous answer to a
  modify overwrites whatever state the local row has, a fill included: the order is stored and
  returned as \<open>Unknown\<close>, where cancel and square-off would have left it alone.\<close>

theorem modify_overwrites_terminal:
  assumes "lookup_order (dp_store d) (oi_client_ref i) = Some ord" and "il_open (dp_log d)"
    and "ce_find env = SqlOk" and "ce_write env = SqlOk" and "ce_fate1 env = IoOk" and "ce_fate2 env = IoOk"
    and "ce_ack env = Inl e" and "is_reconcile_first e"
  shows "fst (modify lib env d b i) = Inr (ord \<lparr>ord_state := Unknown, ord_broker_order_id := b\<rparr>)
    \<and> lookup_order (dp_store (snd (modify lib env d b i))) (oi_client_ref i)
        = Some (ord \<lparr>ord_state := Unknown, ord_broker_order_id := b\<rparr>)"
proof -
  let ?ord = "ord \<lparr>ord_broker_order_id := b, ord_state := Unknown\<rparr>"
  have key: "order_key ?ord = oi_client_ref i" using orders.lookup_key [OF assms(1)] by (simp add: order_key_def)
  obtain r log where r: "log_append lib IoOk (ce_log_wall1 env) (dp_log d) ModifyOrder (oi_client_ref i)
      (intent_payload_json lib i) = (Inr r, log)" and o: "il_open log"
    using assms(2) by (auto simp: log_append_def Let_def)
  obtain st where u: "upsert_order SqlOk (dp_store d) ?ord = (Inr (), st)"
    by (simp add: upsert_order_def)
  have st: "lookup_order st (oi_client_ref i) = Some ?ord"
    using orders.lookup_put [of "dp_store d" ?ord "oi_client_ref i"] u key by (simp add: put_order_def)
  show ?thesis
    using u st finish_ok [OF _ assms(6)] o
    by (simp add: modify_def record_intent_def assms r Let_def find_order_lookup finish_ok send_def)
qed

section \<open>Across a restart\<close>

text \<open>While every log write succeeds the log holds a chain, and every placement sent has its record in
  that chain.\<close>

definition log_inv :: "json_lib \<Rightarrow> intent_record list \<Rightarrow> dispatcher \<Rightarrow> bool" where
  "log_inv lib recs d \<longleftrightarrow> chain_log lib recs (dp_log d)
     \<and> (\<forall>i. EvPlace i \<in> set (dp_trace d) \<longrightarrow> (\<exists>r \<in> set recs. record_signature lib r = Some (signal_signature i)))"

text \<open>From \<open>d\<close> to \<open>d'\<close> at most \<open>n\<close> records are added and the invariant is kept.\<close>

definition grows :: "json_lib \<Rightarrow> nat \<Rightarrow> dispatcher \<Rightarrow> dispatcher \<Rightarrow> bool" where
  "grows lib n d d' \<longleftrightarrow> (\<forall>recs. log_inv lib recs d \<and> in_i64 (1 + int (length recs + n))
     \<longrightarrow> (\<exists>new. length new \<le> n \<and> log_inv lib (recs @ new) d'))"

lemma growsD:
  assumes "grows lib n d d'" "log_inv lib recs d" "in_i64 (1 + int (length recs + n))"
  obtains new where "length new \<le> n" "log_inv lib (recs @ new) d'"
  using assms unfolding grows_def by blast

lemma grows_trans:
  assumes "grows lib n d d'" "grows lib m d' d''"
  shows "grows lib (n + m) d d''"
  unfolding grows_def
proof (intro allI impI, elim conjE)
  fix recs assume a: "log_inv lib recs d" "in_i64 (1 + int (length recs + (n + m)))"
  have "in_i64 (1 + int (length recs + n))" using a(2) by (simp add: i64_defs)
  then obtain new where n: "length new \<le> n" "log_inv lib (recs @ new) d'" by (rule growsD [OF assms(1) a(1)])
  have "in_i64 (1 + int (length (recs @ new) + m))" using a(2) n(1) by (simp add: i64_defs)
  then obtain new' where "length new' \<le> m" "log_inv lib ((recs @ new) @ new') d''"
    by (rule growsD [OF assms(2) n(2)])
  then show "\<exists>new. length new \<le> n + m \<and> log_inv lib (recs @ new) d''"
    using n(1) by (intro exI [of _ "new @ new'"]) simp
qed

lemma grows_same:
  assumes "dp_log d' = dp_log d" "\<And>i. EvPlace i \<in> set (dp_trace d') \<longleftrightarrow> EvPlace i \<in> set (dp_trace d)"
  shows "grows lib n d d'"
  unfolding grows_def
proof (intro allI impI, elim conjE)
  fix recs assume "log_inv lib recs d"
  then show "\<exists>new. length new \<le> n \<and> log_inv lib (recs @ new) d'"
    using assms by (intro exI [of _ "[]"]) (simp add: log_inv_def)
qed

text \<open>A successful record keeps the invariant and puts the record at the end of the chain.\<close>

lemma record_intent_inv:
  assumes "log_inv lib recs d" "in_i64 (1 + int (length recs + 1))" "in_i64 w"
    and "record_intent lib IoOk w d op ref p = (res, d')"
  shows "\<exists>r. res = Inr r \<and> log_inv lib (recs @ [r]) d' \<and> ir_op r = op
    \<and> ir_client_ref r = canonical_text ref \<and> ir_payload_json r = canonical_text p"
proof -
  have ch: "chain_log lib recs (dp_log d)" using assms(1) by (simp add: log_inv_def)
  then have sq: "in_i64 (il_next_seq (dp_log d))" using assms(2) by (simp add: chain_log_def i64_defs)
  obtain res' log where a: "log_append lib IoOk w (dp_log d) op ref p = (res', log)" by (metis surj_pair)
  note c = chain_log_append [OF ch sq assms(3) a]
  have "d' = d \<lparr>dp_log := log, dp_trace := dp_trace d @ [EvRecorded (next_record (dp_log d) w op ref p)]\<rparr>"
    "res = res'" using assms(4) by (auto simp: record_intent_def a c(1))
  then show ?thesis using c assms(1) by (auto simp: log_inv_def next_record_def Let_def)
qed

lemma record_intent_grows:
  assumes "in_i64 w" "record_intent lib IoOk w d op ref p = (res, d')"
  shows "grows lib 1 d d'"
  unfolding grows_def
proof (intro allI impI, elim conjE)
  fix recs assume "log_inv lib recs d" "in_i64 (1 + int (length recs + 1))"
  from record_intent_inv [OF this assms] obtain r where "log_inv lib (recs @ [r]) d'" by blast
  then show "\<exists>new. length new \<le> 1 \<and> log_inv lib (recs @ new) d'" by (intro exI [of _ "[r]"]) simp
qed

text \<open>The environment of a call whose log writes succeed and whose clocks fit.\<close>

definition env_ok :: "call_env \<Rightarrow> bool" where
  "env_ok env \<longleftrightarrow> ce_fate1 env = IoOk \<and> ce_fate2 env = IoOk
     \<and> in_i64 (ce_log_wall1 env) \<and> in_i64 (ce_log_wall2 env)"

lemma finish_grows: "env_ok env \<Longrightarrow> grows lib 1 d (snd (finish lib env d ref out v))"
  by (auto simp: finish_def append_result_def env_ok_def split: prod.split sum.split
      dest: record_intent_grows)

lemma grows_0_left:
  assumes "grows lib n d' d''" "dp_log d' = dp_log d"
    "\<And>i. EvPlace i \<in> set (dp_trace d') \<longleftrightarrow> EvPlace i \<in> set (dp_trace d)"
  shows "grows lib n d d''"
  using grows_trans [OF grows_same [where n = 0, OF assms(2,3)] assms(1)] by simp

lemma place_sent_grows:
  assumes "env_ok env"
  shows "grows lib 1 d (snd (place_sent lib env d p))"
proof -
  have "grows lib 1 d (snd (finish lib env (d \<lparr>dp_fsm := f, dp_store := st\<rparr>) ref out v))" for f st ref out and v :: "order result"
    by (rule grows_0_left [OF finish_grows [OF assms]]) simp_all
  moreover have "grows lib 1 d (snd (finish lib env (d \<lparr>dp_store := st\<rparr>) ref out v))" for st ref out and v :: "order result"
    by (rule grows_0_left [OF finish_grows [OF assms]]) simp_all
  moreover have "grows lib 1 d (d \<lparr>dp_fsm := f\<rparr>)" "grows lib 1 d d" for f
    by (rule grows_same; simp)+
  ultimately show ?thesis by (auto simp: place_sent_def Let_def split: sum.split prod.split)
qed

lemma client_ref_kept: "canonical_text (make_client_ref strategy sg u) \<noteq> []"
  by (simp add: make_client_ref_def)

text \<open>The reference a placement goes out under is never empty.\<close>

definition refs_ok :: "dispatcher \<Rightarrow> bool" where
  "refs_ok d \<longleftrightarrow> (\<forall>s. existing_ref_for_signature (dp_index d) s \<noteq> Some [])"

lemma reserve_refs_ok:
  assumes "refs_ok d" "reserve f u (dp_index d) st strategy i = (Inr rv, idx')"
  shows "rv_client_ref rv \<noteq> []" and "refs_ok (d \<lparr>dp_index := idx'\<rparr>)"
proof -
  have m: "make_client_ref s g u \<noteq> []" for s g u by (simp add: make_client_ref_def)
  show "rv_client_ref rv \<noteq> []" "refs_ok (d \<lparr>dp_index := idx'\<rparr>)"
    using reserve_index [OF assms(2)] assms(1) m by (auto simp: refs_ok_def sig_index.look_reg split: if_splits)
qed

lemma place_reserved_grows:
  assumes "env_ok env" "json_ok lib" "payload_in_range p" "oi_client_ref p \<noteq> []"
  shows "grows lib 2 d (snd (place_reserved lib env d p))"
  unfolding grows_def
proof (intro allI impI, elim conjE)
  fix recs assume a: "log_inv lib recs d" "in_i64 (1 + int (length recs + 2))"
  obtain res d' where b: "record_intent lib IoOk (ce_log_wall1 env) d PlaceOrder (oi_client_ref p)
      (intent_payload_json lib p) = (res, d')" by (metis surj_pair)
  have w: "in_i64 (ce_log_wall1 env)" "in_i64 (1 + int (length recs + 1))" "ce_fate1 env = IoOk"
    using assms(1) a(2) by (auto simp: env_ok_def i64_defs)
  from record_intent_inv [OF a(1) w(2,1) b] obtain r where r: "res = Inr r" "log_inv lib (recs @ [r]) d'"
    "ir_op r = PlaceOrder" "ir_client_ref r = canonical_text (oi_client_ref p)"
    "ir_payload_json r = canonical_text (intent_payload_json lib p)" by blast
  let ?d = "send (d' \<lparr>dp_unsent_refs := removeAll (oi_client_ref p) (dp_unsent_refs d')\<rparr>) (EvPlace p)"
  have "record_signature lib r = Some (signal_signature p)"
    using payload_signature [OF assms(2,3) r(3) _ r(5)] r(4) assms(4) by simp
  then have "log_inv lib (recs @ [r]) ?d" using r(2) by (auto simp: log_inv_def send_def)
  moreover have "in_i64 (1 + int (length (recs @ [r]) + 1))" using a(2) by (simp add: i64_defs)
  ultimately obtain new where "length new \<le> 1" "log_inv lib ((recs @ [r]) @ new) (snd (place_sent lib env ?d p))"
    by (rule growsD [OF place_sent_grows [OF assms(1)]])
  then show "\<exists>new. length new \<le> 2 \<and> log_inv lib (recs @ new) (snd (place_reserved lib env d p))"
    by (intro exI [of _ "r # new"]) (simp add: place_reserved_def w(3) b r(1) Let_def)
qed

lemma payload_in_range_ref [simp]: "payload_in_range (i \<lparr>oi_client_ref := ref\<rparr>) = payload_in_range i"
  by (simp add: payload_in_range_def)

lemma place_grows:
  assumes "env_ok env" "json_ok lib" "payload_in_range i" "refs_ok d"
  shows "grows lib 2 d (snd (place lib env d s i))"
proof -
  obtain res idx where a: "reserve (ce_find env) (ce_uuid env) (dp_index d) (dp_store d) s i = (res, idx)"
    by (metis surj_pair)
  have same: "grows lib 2 d (d \<lparr>dp_index := idx\<rparr>)" by (rule grows_same) simp_all
  show ?thesis
  proof (cases res)
    case (Inr rv)
    have "grows lib 2 d (snd (place_reserved lib env (d \<lparr>dp_index := idx\<rparr>) (i \<lparr>oi_client_ref := rv_client_ref rv\<rparr>)))"
      by (rule grows_0_left [OF place_reserved_grows [OF assms(1,2)]])
        (use assms(3) reserve_refs_ok(1) [OF assms(4) a [unfolded Inr]] in simp_all)
    then show ?thesis using same by (simp add: place_def a Inr Let_def)
  qed (use same in \<open>simp add: place_def a\<close>)
qed

text \<open>The other three record, send something that is no placement, and finish.\<close>

lemma send_other: "(\<And>i. ev \<noteq> EvPlace i) \<Longrightarrow> EvPlace i \<in> set (dp_trace (send d ev)) \<longleftrightarrow> EvPlace i \<in> set (dp_trace d)"
  by (auto simp: send_def)

lemma send_log [simp]: "dp_log (send d ev) = dp_log d"
  by (simp add: send_def)

lemma send_grows: "(\<And>i. ev \<noteq> EvPlace i) \<Longrightarrow> grows lib 0 d (send d ev)"
  by (rule grows_same) (simp_all add: send_other)

lemma grows_mono: "grows lib n d d' \<Longrightarrow> n \<le> m \<Longrightarrow> grows lib m d d'"
  using grows_trans [of lib n d d' "m - n" d'] grows_same [of d' d' lib "m - n"] by simp

lemma store_finish_grows:
  "env_ok env \<Longrightarrow> grows lib 1 d (snd (finish lib env (d \<lparr>dp_store := st\<rparr>) ref out v))"
  by (rule grows_0_left [OF finish_grows]) simp_all

lemma mark_unknown_finish_grows:
  "env_ok env \<Longrightarrow> mark_unknown env d ref = (res, d') \<Longrightarrow> grows lib 1 d (snd (finish lib env d' ref out v))"
  by (rule grows_0_left [OF finish_grows])
    (auto simp: mark_unknown_def split: sum.splits option.splits if_splits prod.splits)

lemma mark_unknown_grows: "mark_unknown env d ref = (res, d') \<Longrightarrow> grows lib n d d'"
  by (rule grows_same) (auto simp: mark_unknown_def split: sum.splits option.splits if_splits prod.splits)

lemma modify_grows:
  assumes "env_ok env"
  shows "grows lib 2 d (snd (modify lib env d b i))"
proof -
  obtain res d' where a: "record_intent lib IoOk (ce_log_wall1 env) d ModifyOrder (oi_client_ref i)
      (intent_payload_json lib i) = (res, d')" by (metis surj_pair)
  have one: "grows lib 1 d d'" using record_intent_grows [OF _ a] assms by (simp add: env_ok_def)
  have f: "ce_fate1 env = IoOk" using assms by (simp add: env_ok_def)
  have tail: "grows lib 1 d' (snd (finish lib env ((send d' (EvModify b i)) \<lparr>dp_store := st\<rparr>) ref out v))"
    "grows lib 1 d' (snd (finish lib env (send d' (EvModify b i)) ref out v))"
    "grows lib 1 d' (send d' (EvModify b i))" for st ref out and v :: "order result"
    using grows_trans [OF send_grows store_finish_grows [OF assms], of "EvModify b i"]
      grows_trans [OF send_grows finish_grows [OF assms], of "EvModify b i"]
      grows_mono [OF send_grows, of "EvModify b i" 1] by simp_all
  note two = grows_trans [OF one tail(1)] grows_trans [OF one tail(2)] grows_trans [OF one tail(3)]
    grows_mono [OF one, of 2]
  show ?thesis
    by (cases res) (use two in \<open>simp_all add: modify_def f a Let_def numeral_2_eq_2 split: sum.split prod.split\<close>)
qed

lemma cancel_grows:
  assumes "env_ok env"
  shows "grows lib 2 d (snd (cancel lib env d b ref))" and "grows lib 2 d (snd (square_off lib env d b ref))"
proof -
  have f: "ce_fate1 env = IoOk" "in_i64 (ce_log_wall1 env)" using assms by (simp_all add: env_ok_def)
  have tail: "grows lib 1 d' (snd (finish lib env (send d' ev) ref out v))"
    "mark_unknown env (send d' ev) ref = (r, e) \<Longrightarrow> grows lib 1 d' (snd (finish lib env e ref out v))"
    "mark_unknown env (send d' ev) ref = (r, e) \<Longrightarrow> grows lib 1 d' e"
    if w: "\<And>i. ev \<noteq> EvPlace i" for d' ev r e out and v :: "unit result"
    using grows_trans [OF send_grows [OF w] finish_grows [OF assms]]
      grows_trans [OF send_grows [OF w] mark_unknown_finish_grows [OF assms]]
      grows_trans [OF send_grows [OF w] mark_unknown_grows, of env d' ref r e lib 1] by simp_all
  have two: "grows lib 2 d e" if w: "record_intent lib IoOk (ce_log_wall1 env) d op ref p = (res, d')" "grows lib 1 d' e"
    for op p res d' e
    using grows_trans [OF record_intent_grows [OF f(2) w(1)] w(2)] by (simp add: numeral_2_eq_2)
  have two': "grows lib 2 d d'" if w: "record_intent lib IoOk (ce_log_wall1 env) d op ref p = (res, d')"
    for op p res d'
    using grows_mono [OF record_intent_grows [OF f(2) w], of 2] by simp
  show "grows lib 2 d (snd (cancel lib env d b ref))" "grows lib 2 d (snd (square_off lib env d b ref))"
    by (auto simp: cancel_def square_off_def f(1) Let_def split: sum.split prod.split
        intro: tail two two')
qed

lemma run_call_refs_ok: "refs_ok d \<Longrightarrow> refs_ok (run_call lib d (env, c))"
proof (cases c)
  case (Place s i)
  assume d: "refs_ok d"
  obtain res idx where a: "reserve (ce_find env) (ce_uuid env) (dp_index d) (dp_store d) s i = (res, idx)"
    by (metis surj_pair)
  have r: "refs_ok (d \<lparr>dp_index := idx\<rparr>)"
    using d reserve_refs_ok(2) [OF d] reserve_failed a by (cases res) fastforce+
  have "dp_index (snd (place_reserved lib env e p)) = dp_index e" for e p
    using place_reserved_guard [of lib env e p] by (auto simp: guard_state_def)
  then show ?thesis using r unfolding Place
    by (cases res) (simp_all add: place_def a Let_def refs_ok_def)
qed (use modify_guard cancel_guard square_off_guard in \<open>simp_all add: refs_ok_def guard_state_def\<close>)

text \<open>A run of calls whose environments are in order.\<close>

definition run_ok :: "(call_env \<times> call) list \<Rightarrow> bool" where
  "run_ok cs \<longleftrightarrow> list_all (\<lambda>(env, c). env_ok env \<and>
     (case c of Place s i \<Rightarrow> payload_in_range i | _ \<Rightarrow> True)) cs"

lemma run_calls_grows:
  assumes "json_ok lib" "run_ok cs" "refs_ok d"
  shows "grows lib (2 * length cs) d (run_calls lib d cs)"
  using assms(2,3)
proof (induction cs arbitrary: d)
  case (Cons ec cs)
  obtain env c where ec: "ec = (env, c)" by (cases ec)
  have "grows lib 2 d (run_call lib d (env, c))"
    using Cons.prems assms(1) unfolding ec run_ok_def
    by (cases c) (simp_all add: place_grows modify_grows cancel_grows)
  moreover have "grows lib (2 * length cs) (run_call lib d (env, c)) (run_calls lib (run_call lib d (env, c)) cs)"
    using Cons run_call_refs_ok unfolding run_ok_def by simp
  ultimately have "grows lib (2 + 2 * length cs) d (run_calls lib (run_call lib d (env, c)) cs)"
    by (rule grows_trans)
  then show ?case by (simp add: run_calls_def ec)
qed (simp add: run_calls_def grows_same)

lemma guard_holds:
  assumes "dp_unsent_refs d = []" "dp_trace d = []"
    "distinct (map (\<lambda>ec. ce_uuid (fst ec)) cs)" "\<forall>ec \<in> set cs. length (ce_uuid (fst ec)) = 36"
    "\<forall>ec \<in> set cs. \<forall>s ref. existing_ref_for_signature (dp_index d) s = Some ref \<longrightarrow> \<not> suffix (ce_uuid (fst ec)) ref"
    "existing_ref_for_signature (dp_index d) s \<noteq> None"
  shows "s \<notin> set (sent_signatures (dp_trace (run_calls lib d cs)))"
proof -
  have "guard_inv {s} (map (\<lambda>ec. ce_uuid (fst ec)) cs) (guard_state d)"
    using assms by (auto simp: guard_inv_def guard_state_def)
  from run_calls_guard_inv [OF this assms(3,4), of lib]
  show ?thesis by (auto simp: guard_inv_def guard_state_def)
qed

lemma sent_signatures_iff: "s \<in> set (sent_signatures tr) \<longleftrightarrow> (\<exists>i. EvPlace i \<in> set tr \<and> signal_signature i = s)"
proof (induction tr)
  case (Cons ev tr)
  then show ?case by (cases ev) auto
qed simp

text \<open>C2. At-most-once across a crash, given healthy I/O on reopening.  Start a dispatcher with
  well-formed references on a log that holds a chain, run any calls whose log writes succeed (with
  the record count and the clock within 64 bits), and let the process die during one more append
  that fails in any way at any byte.  If the log file can then be opened and read in full and the
  repair of its tail can be truncated and synced (good_io; a short read is outside this claim and
  is what short_read_erases_durable_record is about), the replay succeeds; and a dispatcher started
  on an index rebuilt from the replayed records, with no reference held back, never sends a signal
  that was sent before the crash, whatever calls, failures and broker answers follow, as long as
  its generator draws distinct 36-character identifiers that end no indexed reference.\<close>

theorem restart_never_resends:
  assumes "json_ok lib" and "chain_log lib recs (dp_log d)" and "dp_trace d = []" and "refs_ok d"
    and "run_ok cs" and "in_i64 (2 + int (length recs + 2 * length cs))"
    and "log_append lib fate wall (dp_log (run_calls lib d cs)) op ref payload = (res, log1)"
    and "in_i64 wall"
    and "intent_log_open True True path dir (il_file log1) = Inr fresh" and "good_io fresh io"
  shows "\<exists>recs' log'. replay lib io fresh = (Some (Inr recs'), log') \<and> chain_log lib recs' log'
    \<and> (\<forall>d2 cs2 idx. dp_index d2 = snd (rebuild_from_log lib idx recs') \<and> dp_unsent_refs d2 = []
          \<and> dp_trace d2 = [] \<and> distinct (map (\<lambda>ec. ce_uuid (fst ec)) cs2)
          \<and> (\<forall>ec \<in> set cs2. length (ce_uuid (fst ec)) = 36 \<and>
               (\<forall>s ref. existing_ref_for_signature (dp_index d2) s = Some ref
                  \<longrightarrow> \<not> suffix (ce_uuid (fst ec)) ref))
        \<longrightarrow> set (sent_signatures (dp_trace (run_calls lib d cs)))
              \<inter> set (sent_signatures (dp_trace (run_calls lib d2 cs2))) = {})"
proof -
  let ?d = "run_calls lib d cs"
  have "log_inv lib recs d" using assms(2,3) by (simp add: log_inv_def)
  moreover have "in_i64 (1 + int (length recs + 2 * length cs))" using assms(6) by (simp add: i64_defs)
  ultimately obtain new where new: "length new \<le> 2 * length cs" "log_inv lib (recs @ new) ?d"
    by (rule growsD [OF run_calls_grows [OF assms(1,5,4)]])
  have ch: "chain_log lib (recs @ new) (dp_log ?d)" using new(2) by (simp add: log_inv_def)
  have sq: "in_i64 (il_next_seq (dp_log ?d))"
    using ch new(1) assms(6) by (simp add: chain_log_def i64_defs)
  obtain recs' log' where r: "replay lib io fresh = (Some (Inr recs'), log')" "chain_log lib recs' log'"
    "recs' \<in> {recs @ new, (recs @ new) @ [next_record (dp_log ?d) wall op ref payload]}"
    using crash_replay [OF assms(1) ch sq assms(8,7,9,10)] by blast
  have known: "existing_ref_for_signature (snd (rebuild_from_log lib idx recs')) s \<noteq> None"
    if w: "s \<in> set (sent_signatures (dp_trace ?d))" for s idx
  proof -
    obtain x where "x \<in> set (recs @ new)" "record_signature lib x = Some s"
      using w new(2) unfolding sent_signatures_iff log_inv_def by metis
    then have "List.find (\<lambda>r. record_signature lib r = Some s) recs' \<noteq> None"
      using r(3) by (auto simp: find_None_iff)
    then show ?thesis by (auto simp: rebuild_lookup)
  qed
  show ?thesis
  proof (intro exI conjI allI impI, rule r(1), rule r(2), elim conjE)
    fix d2 :: dispatcher and cs2 :: "(call_env \<times> call) list" and idx :: idempotency_index
    assume a: "dp_index d2 = snd (rebuild_from_log lib idx recs')" "dp_unsent_refs d2 = []" "dp_trace d2 = []"
      "distinct (map (\<lambda>ec. ce_uuid (fst ec)) cs2)"
      "\<forall>ec \<in> set cs2. length (ce_uuid (fst ec)) = 36 \<and> (\<forall>s ref. existing_ref_for_signature (dp_index d2) s = Some ref
          \<longrightarrow> \<not> suffix (ce_uuid (fst ec)) ref)"
    have "s \<notin> set (sent_signatures (dp_trace (run_calls lib d2 cs2)))"
      if w: "s \<in> set (sent_signatures (dp_trace ?d))" for s
      by (rule guard_holds) (use a known [OF w, of idx] in auto)
    then show "set (sent_signatures (dp_trace ?d)) \<inter> set (sent_signatures (dp_trace (run_calls lib d2 cs2))) = {}"
      by blast
  qed
qed

section \<open>The dispatcher on concrete calls\<close>

theorem failed_intent_is_resumed_witness:
  "let d1 = snd (place sample_json (sample_env uuid_a (IoShort 5) sample_ack) sample_dispatcher ''alpha'' sample_intent);
       d2 = snd (place sample_json (sample_env uuid_b IoOk sample_ack) d1 ''alpha'' sample_intent)
   in sent_signatures (dp_trace d2) = [signal_signature sample_intent]"
proof -
  obtain res1 d1 where a: "place sample_json (sample_env uuid_a (IoShort 5) sample_ack) sample_dispatcher ''alpha''
      sample_intent = (res1, d1)" by (metis surj_pair)
  obtain res2 d2 where b: "place sample_json (sample_env uuid_b IoOk sample_ack) d1 ''alpha'' sample_intent = (res2, d2)"
    by (metis surj_pair)
  from failed_intent_is_resumed [OF _ _ refl _ _ _ a _ _ b] show ?thesis by (simp add: a b)
qed

definition sample_error :: error where
  "sample_error = make_error Timeout ''timed out'' []"

text \<open>An ack, and a timeout.\<close>

theorem place_answer_witness:
  "(\<exists>ord. fst (place sample_json (sample_env uuid_a IoOk sample_ack) sample_dispatcher ''alpha'' sample_intent) = Inr ord
      \<and> ord_state ord = Acknowledged \<and> ord_broker_order_id ord = ''b1'')
   \<and> (\<exists>ord. fst (place sample_json (sample_env uuid_a IoOk (Inl sample_error)) sample_dispatcher ''alpha'' sample_intent)
        = Inr ord \<and> ord_state ord = Unknown)"
proof -
  have e: "err_category sample_error = Timeout" by (simp add: sample_error_def make_error_def)
  note p = place_answer [of sample_dispatcher sample_intent _ "''alpha''" "sample_env uuid_a IoOk a" sample_json for a,
      OF _ _ refl]
  show ?thesis
    using p [of sample_ack] p [of "Inl sample_error"] e by (auto simp: lifecycle_init_def sample_ack_def)
qed

definition sample_filled :: order where
  "sample_filled = \<lparr>ord_intent = sample_intent \<lparr>oi_client_ref := ''r1''\<rparr>, ord_state = Filled,
     ord_broker_order_id = ''b1'', ord_filled_qty = Quantity 10, ord_avg_price = Price 100\<rparr>"

definition filled_dispatcher :: dispatcher where
  "filled_dispatcher = sample_dispatcher \<lparr>dp_store := put_order empty_store sample_filled\<rparr>"

lemma filled_lookup: "lookup_order (dp_store filled_dispatcher) ''r1'' = Some sample_filled"
  by (simp add: filled_dispatcher_def orders.lookup_put order_key_def sample_filled_def)

theorem terminal_rows_are_kept_witness:
  "lookup_order (dp_store (run_calls sample_json filled_dispatcher
     [(sample_env uuid_a IoOk (Inl sample_error), Cancel ''b1'' ''r1'')])) ''r1'' = Some sample_filled"
  by (rule terminal_rows_are_kept [OF filled_lookup]) (simp_all add: sample_filled_def)

theorem modify_overwrites_terminal_witness:
  "\<exists>ord. lookup_order (dp_store (snd (modify sample_json (sample_env uuid_a IoOk (Inl sample_error))
     filled_dispatcher ''b1'' (sample_intent \<lparr>oi_client_ref := ''r1''\<rparr>)))) ''r1'' = Some ord \<and> ord_state ord = Unknown"
proof -
  have "is_reconcile_first sample_error" by (simp add: is_reconcile_first_def sample_error_def make_error_def)
  with modify_overwrites_terminal [of filled_dispatcher "sample_intent \<lparr>oi_client_ref := ''r1''\<rparr>" sample_filled
      "sample_env uuid_a IoOk (Inl sample_error)" sample_error sample_json "''b1''"] filled_lookup
  show ?thesis by (simp add: filled_dispatcher_def)
qed

text \<open>One placement, a torn append, a restart, the same signal again.\<close>

theorem restart_never_resends_witness:
  "let d = run_calls sample_json sample_dispatcher [(sample_env uuid_a IoOk sample_ack, Place ''alpha'' sample_intent)];
       log1 = snd (log_append sample_json (IoShort 3) 9 (dp_log d) CancelOrder ''r'' ''{}'');
       n = length (il_file log1)
   in \<exists>recs' log'. replay sample_json (sample_io \<lparr>rio_read_len := n\<rparr>) (reopened ''p'' (il_file log1)) = (Some (Inr recs'), log')
        \<and> chain_log sample_json recs' log'"
proof -
  let ?cs = "[(sample_env uuid_a IoOk sample_ack, Place ''alpha'' sample_intent)]"
  obtain res log1 where a: "log_append sample_json (IoShort 3) 9 (dp_log (run_calls sample_json sample_dispatcher ?cs))
      CancelOrder ''r'' ''{}'' = (res, log1)" by (metis surj_pair)
  have io: "good_io (reopened ''p'' (il_file log1)) (sample_io \<lparr>rio_read_len := length (il_file log1)\<rparr>)"
    by (simp add: good_io_def sample_io_def)
  have "run_ok ?cs"
    by (simp add: run_ok_def env_ok_def payload_in_range_def sample_intent_def i64_defs)
  from restart_never_resends [OF sample_json_ok, of "[]" sample_dispatcher, OF _ _ _ this _ a _ intent_log_open_ok io]
  show ?thesis using chain_log_fresh by (auto simp: a refs_ok_def i64_defs)
qed

end
