(* ===== verification/Unknown_Resolver.thy ===== *)
theory Unknown_Resolver
  imports Ports Store Lifecycle
begin

text \<open>
  \<^verbatim>\<open>runtime/unknown_pause.cpp\<close> and \<^verbatim>\<open>runtime/unknown_resolver.cpp\<close>: the entry gate that holds while an
  order is in doubt, and the precedence ladder that resolves the doubt against the broker's own
  list of orders.  The broker is read once per resolution; the result of that read is an argument.
\<close>

section \<open>The entry gate\<close>

type_synonym unknown_pause = "string set"

definition pause_mark_unknown :: "unknown_pause \<Rightarrow> string \<Rightarrow> unknown_pause" where
  "pause_mark_unknown p client_ref = insert client_ref p"

definition pause_clear :: "unknown_pause \<Rightarrow> string \<Rightarrow> unknown_pause" where
  "pause_clear p client_ref = p - {client_ref}"

definition is_paused :: "unknown_pause \<Rightarrow> bool" where
  "is_paused p \<longleftrightarrow> p \<noteq> {}"

definition outstanding :: "unknown_pause \<Rightarrow> nat" where
  "outstanding p = card p"

definition allows :: "unknown_pause \<Rightarrow> bool \<Rightarrow> bool" where
  "allows p is_risk_reducing_exit = (if is_risk_reducing_exit then True else \<not> is_paused p)"

text \<open>The gate is a membership test: after any marks and clears a reference is outstanding exactly
  when its last operation marked it, however often it was marked before.\<close>

datatype pause_op = MarkUnknown string | ClearUnknown string

fun pause_step :: "unknown_pause \<Rightarrow> pause_op \<Rightarrow> unknown_pause" where
  "pause_step p (MarkUnknown r) = pause_mark_unknown p r"
| "pause_step p (ClearUnknown r) = pause_clear p r"

fun pause_ref :: "pause_op \<Rightarrow> string" where
  "pause_ref (MarkUnknown r) = r"
| "pause_ref (ClearUnknown r) = r"

lemma pause_outstanding:
  "r \<in> foldl pause_step {} ops \<longleftrightarrow>
     (case List.find (\<lambda>x. pause_ref x = r) (rev ops) of Some (MarkUnknown _) \<Rightarrow> True | _ \<Rightarrow> False)"
proof (induction ops rule: rev_induct)
  case (snoc x xs)
  then show ?case by (cases x) (auto simp: pause_mark_unknown_def pause_clear_def)
qed simp

lemma pause_allows: "allows p is_exit \<longleftrightarrow> is_exit \<or> p = {}"
  by (simp add: allows_def is_paused_def)

section \<open>The ladder\<close>

datatype match_kind = BrokerOrderId | CorrelationToken | AttributeCorroboration | NoMatch

fun match_kind_to_string :: "match_kind \<Rightarrow> string" where
  "match_kind_to_string BrokerOrderId = ''BROKER_ORDER_ID''"
| "match_kind_to_string CorrelationToken = ''CORRELATION_TOKEN''"
| "match_kind_to_string AttributeCorroboration = ''ATTRIBUTE_CORROBORATION''"
| "match_kind_to_string NoMatch = ''NO_MATCH''"

record unknown_resolution =
  ur_kind :: match_kind
  ur_resolved :: "order option"
  ur_new_state :: order_state
  ur_resolved_ok :: bool

definition attributes_match :: "order \<Rightarrow> order \<Rightarrow> bool" where
  "attributes_match a b \<longleftrightarrow>
     oi_symbol (ord_intent a) = oi_symbol (ord_intent b) \<and> oi_side (ord_intent a) = oi_side (ord_intent b)
     \<and> oi_quantity (ord_intent a) = oi_quantity (ord_intent b)
     \<and> oi_price (ord_intent a) = oi_price (ord_intent b)
     \<and> oi_trigger_price (ord_intent a) = oi_trigger_price (ord_intent b)"

definition same_broker_id :: "order \<Rightarrow> order \<Rightarrow> bool" where
  "same_broker_id u bo \<longleftrightarrow> ord_broker_order_id bo \<noteq> [] \<and> ord_broker_order_id bo = ord_broker_order_id u"

definition same_client_ref :: "order \<Rightarrow> order \<Rightarrow> bool" where
  "same_client_ref u bo \<longleftrightarrow> oi_client_ref (ord_intent bo) \<noteq> []
     \<and> oi_client_ref (ord_intent bo) = oi_client_ref (ord_intent u)"

definition resolver_classify :: "order \<Rightarrow> order list \<Rightarrow> match_kind \<times> order option" where
  "resolver_classify u broker_orders =
     (case (if ord_broker_order_id u \<noteq> [] then List.find (same_broker_id u) broker_orders else None) of
        Some b \<Rightarrow> (BrokerOrderId, Some b)
      | None \<Rightarrow>
          (case (if oi_client_ref (ord_intent u) \<noteq> [] then List.find (same_client_ref u) broker_orders
                 else None) of
             Some b \<Rightarrow> (CorrelationToken, Some b)
           | None \<Rightarrow>
               (case List.find (attributes_match u) broker_orders of
                  Some b \<Rightarrow> (AttributeCorroboration, Some b)
                | None \<Rightarrow> (NoMatch, None))))"

record resolver =
  rsv_store :: store
  rsv_fsm :: lifecycle_engine
  rsv_alerts :: "alert list"

definition adopt_view :: "lifecycle_engine \<Rightarrow> order \<Rightarrow> order \<Rightarrow> broker_view" where
  "adopt_view fsm u truth =
     \<lparr>bv_client_ref = oi_client_ref (ord_intent u), bv_broker_order_id = ord_broker_order_id truth,
      bv_observed_state = ord_state truth, bv_filled_qty = ord_filled_qty truth,
      bv_avg_price = ord_avg_price truth,
      bv_ordering_key = (case last_key fsm (oi_client_ref (ord_intent u)) of
                           Some k \<Rightarrow> k + 1 | None \<Rightarrow> 1)\<rparr>"

definition adopt :: "sql_fate \<Rightarrow> resolver \<Rightarrow> order \<Rightarrow> order \<Rightarrow> order result \<times> resolver" where
  "adopt fate s u truth =
     (let (_, fsm, resolved) = fsm_apply (rsv_fsm s) u (adopt_view (rsv_fsm s) u truth);
          s = s \<lparr>rsv_fsm := fsm\<rparr>;
          resolved = (if ord_broker_order_id resolved = []
                      then resolved \<lparr>ord_broker_order_id := ord_broker_order_id truth\<rparr> else resolved)
      in case upsert_order fate (rsv_store s) resolved of
           (Inl e, _) \<Rightarrow> (Inl e, s)
         | (Inr _, st) \<Rightarrow> (Inr resolved, s \<lparr>rsv_store := st\<rparr>))"

definition no_match_alert :: "order \<Rightarrow> alert" where
  "no_match_alert u = \<lparr>al_level = AlertCritical,
     al_message = ''UNKNOWN order has no authoritative broker match (fail-closed)'',
     al_context = provenance_of u\<rparr>"

definition resolve ::
    "order list result \<Rightarrow> sql_fate \<Rightarrow> resolver \<Rightarrow> order \<Rightarrow> unknown_resolution result \<times> resolver" where
  "resolve fetched fate s u =
     (case fetched of
        Inl e \<Rightarrow> (Inl e, s)
      | Inr broker_orders \<Rightarrow>
          (case resolver_classify u broker_orders of
             (kind, None) \<Rightarrow>
               (Inr \<lparr>ur_kind = kind, ur_resolved = None, ur_new_state = Unknown, ur_resolved_ok = False\<rparr>,
                s \<lparr>rsv_alerts := rsv_alerts s @ [no_match_alert u]\<rparr>)
           | (kind, Some b) \<Rightarrow>
               (case adopt fate s u b of
                  (Inl e, s) \<Rightarrow> (Inl e, s)
                | (Inr r, s) \<Rightarrow>
                    (Inr \<lparr>ur_kind = kind, ur_resolved = Some r, ur_new_state = ord_state r,
                          ur_resolved_ok = True\<rparr>, s))))"

text \<open>\<open>resolve_all\<close>: the loop over the rows.  \<open>io n\<close> is what the broker read and the store write of
  the \<open>n\<close>-th resolution do.\<close>

fun resolve_loop ::
    "(nat \<Rightarrow> order list result \<times> sql_fate) \<Rightarrow> resolver \<Rightarrow> unknown_resolution list \<Rightarrow> order list
     \<Rightarrow> unknown_resolution list result \<times> resolver" where
  "resolve_loop io s out [] = (Inr out, s)"
| "resolve_loop io s out (order # rest) =
     (if ord_state order \<noteq> Unknown then resolve_loop io s out rest
      else case resolve (fst (io (length out))) (snd (io (length out))) s order of
             (Inl e, s) \<Rightarrow> (Inl e, s)
           | (Inr r, s) \<Rightarrow> resolve_loop io s (out @ [r]) rest)"

definition resolve_all ::
    "sql_fate \<Rightarrow> (nat \<Rightarrow> order list result \<times> sql_fate) \<Rightarrow> resolver
     \<Rightarrow> unknown_resolution list result \<times> resolver" where
  "resolve_all read_fate io s =
     (case all_orders read_fate (rsv_store s) of
        Inl e \<Rightarrow> (Inl e, s) | Inr all \<Rightarrow> resolve_loop io s [] all)"

section \<open>What a resolution does\<close>

text \<open>The two emptiness guards are implied by the rungs themselves.\<close>

lemma classify_alt:
  "resolver_classify u bs =
     (case List.find (same_broker_id u) bs of Some b \<Rightarrow> (BrokerOrderId, Some b) | None \<Rightarrow>
      case List.find (same_client_ref u) bs of Some b \<Rightarrow> (CorrelationToken, Some b) | None \<Rightarrow>
      case List.find (attributes_match u) bs of Some b \<Rightarrow> (AttributeCorroboration, Some b)
      | None \<Rightarrow> (NoMatch, None))"
proof -
  have "List.find (same_broker_id u) bs = None" if "ord_broker_order_id u = []"
    using that by (simp add: find_None_iff same_broker_id_def)
  moreover have "List.find (same_client_ref u) bs = None" if "oi_client_ref (ord_intent u) = []"
    using that by (simp add: find_None_iff same_client_ref_def)
  ultimately show ?thesis unfolding resolver_classify_def by (simp split: option.split)
qed

lemma find_SomeD: "List.find P xs = Some x \<Longrightarrow> x \<in> set xs \<and> P x"
  by (auto simp: find_Some_iff)

lemma classify_None: "resolver_classify u bs = (k, None) \<longleftrightarrow> k = NoMatch
    \<and> (\<forall>b \<in> set bs. \<not> same_broker_id u b \<and> \<not> same_client_ref u b \<and> \<not> attributes_match u b)"
proof -
  have "resolver_classify u bs = (k, None) \<longleftrightarrow> k = NoMatch \<and> List.find (same_broker_id u) bs = None
      \<and> List.find (same_client_ref u) bs = None \<and> List.find (attributes_match u) bs = None"
    by (auto simp: classify_alt split: option.splits)
  then show ?thesis by (auto simp: find_None_iff)
qed

lemma classify_Some:
  assumes "resolver_classify u bs = (k, Some b)"
  shows "b \<in> set bs \<and>
    (k = BrokerOrderId \<and> same_broker_id u b
     \<or> k = CorrelationToken \<and> same_client_ref u b \<and> (\<forall>x \<in> set bs. \<not> same_broker_id u x)
     \<or> k = AttributeCorroboration \<and> attributes_match u b
         \<and> (\<forall>x \<in> set bs. \<not> same_broker_id u x \<and> \<not> same_client_ref u x))"
  using assms
  by (auto simp: classify_alt find_None_iff split: option.splits dest: find_SomeD)

lemma adopt_view_sel [simp]:
  "bv_filled_qty (adopt_view fsm u b) = ord_filled_qty b" "bv_avg_price (adopt_view fsm u b) = ord_avg_price b"
  "bv_broker_order_id (adopt_view fsm u b) = ord_broker_order_id b"
  by (simp_all add: adopt_view_def)

lemma adopt_view_fresh: "\<not> stale fsm (adopt_view fsm u b)"
  by (simp add: stale_def adopt_view_def last_key_def split: option.split)

lemma fsm_apply_same_intent:
  assumes "fsm_apply eng ord v = (oc, eng', ord')"
  shows "ord_intent ord' = ord_intent ord"
  using assms by (cases "believed eng ord v") (auto simp: fsm_apply_cases)

text \<open>What one adoption does: nothing on a failed write; otherwise exactly the row of the order's
  reference is replaced.\<close>

lemma adopt_effect:
  assumes "adopt fate s u b = (res, s')"
  shows "rsv_alerts s' = rsv_alerts s"
    and "k \<noteq> order_key u \<Longrightarrow> lookup_order (rsv_store s') k = lookup_order (rsv_store s) k"
    and "res = Inr r \<Longrightarrow> ord_intent r = ord_intent u \<and> lookup_order (rsv_store s') (order_key u) = Some r"
proof -
  obtain oc eng x where f: "fsm_apply (rsv_fsm s) u (adopt_view (rsv_fsm s) u b) = (oc, eng, x)"
    by (metis surj_pair)
  define y where "y = (if ord_broker_order_id x = [] then x \<lparr>ord_broker_order_id := ord_broker_order_id b\<rparr> else x)"
  have iy: "ord_intent y = ord_intent u" using fsm_apply_same_intent [OF f] by (simp add: y_def)
  then have key: "order_key y = order_key u" by (simp add: order_key_def)
  have ups: "lookup_order (snd (upsert_order fate st y)) j =
      (if fate = SqlOk \<and> j = order_key u then Some y else lookup_order st j)" for st j
    using orders.lookup_put [of st y j] key by (cases fate) (auto simp: upsert_order_def put_order_def)
  have okf: "upsert_order fate st y = (Inr w, st') \<Longrightarrow> fate = SqlOk" for st st' w
    by (cases fate) (auto simp: upsert_order_def)
  obtain r0 st where u: "upsert_order fate (rsv_store s) y = (r0, st)" by (metis surj_pair)
  have a: "adopt fate s u b = (case r0 of Inl e \<Rightarrow> (Inl e, s \<lparr>rsv_fsm := eng\<rparr>)
      | Inr _ \<Rightarrow> (Inr y, s \<lparr>rsv_fsm := eng, rsv_store := st\<rparr>))"
    unfolding adopt_def f Let_def prod.case y_def [symmetric] by (simp add: u split: sum.split)
  have st: "lookup_order st j = (if fate = SqlOk \<and> j = order_key u then Some y else lookup_order (rsv_store s) j)" for j
    using ups [of "rsv_store s" j] by (simp add: u)
  show "rsv_alerts s' = rsv_alerts s" using assms a by (auto split: sum.splits)
  show "k \<noteq> order_key u \<Longrightarrow> lookup_order (rsv_store s') k = lookup_order (rsv_store s) k"
    using assms a st by (auto split: sum.splits)
  show "res = Inr r \<Longrightarrow> ord_intent r = ord_intent u \<and> lookup_order (rsv_store s') (order_key u) = Some r"
    using assms a st iy okf [of "rsv_store s"] u by (auto split: sum.splits)
qed

lemma adopt_believed:
  assumes "adopt SqlOk s u b = (res, s')" "ord_state u = Unknown"
    "is_valid_transition Unknown (canonical_observed Unknown (adopt_view (rsv_fsm s) u b))"
  shows "\<exists>r. res = Inr r \<and> ord_state r = canonical_observed Unknown (adopt_view (rsv_fsm s) u b)
    \<and> ord_filled_qty r = ord_filled_qty b \<and> ord_avg_price r = ord_avg_price b
    \<and> (ord_broker_order_id b \<noteq> [] \<longrightarrow> ord_broker_order_id r = ord_broker_order_id b)"
proof -
  have "believed (rsv_fsm s) u (adopt_view (rsv_fsm s) u b)"
    using assms(2,3) adopt_view_fresh by (simp add: believed_def)
  note f = fsm_apply_believed [OF this]
  show ?thesis using assms(1,2)
    by (auto simp: adopt_def f Let_def upsert_order_def overlay_def)
qed

text \<open>Resolving an order in doubt.  With a snapshot of the broker's orders, the order is matched by
  the strongest rung that has a candidate: broker id, then our reference, then equal attributes.
  Without a candidate it stays \<open>Unknown\<close>: neither the store nor the lifecycle engine changes, and
  exactly one critical alert names the order.  With one, nothing but this order's row changes, no
  alert is raised, and (when the write succeeds and the broker's state is a legal successor of
  \<open>Unknown\<close>) the stored row carries the broker's state, fills and id.\<close>

theorem resolve_contract:
  assumes "ord_state u = Unknown" and "resolve (Inr bs) fate s u = (res, s')"
    and "resolver_classify u bs = (kind, found)"
  shows "case found of
      None \<Rightarrow> kind = NoMatch
        \<and> (\<forall>b \<in> set bs. \<not> same_broker_id u b \<and> \<not> same_client_ref u b \<and> \<not> attributes_match u b)
        \<and> res = Inr \<lparr>ur_kind = NoMatch, ur_resolved = None, ur_new_state = Unknown, ur_resolved_ok = False\<rparr>
        \<and> s' = s \<lparr>rsv_alerts := rsv_alerts s @ [no_match_alert u]\<rparr>
    | Some b \<Rightarrow> b \<in> set bs
        \<and> (kind = BrokerOrderId \<and> same_broker_id u b
           \<or> kind = CorrelationToken \<and> same_client_ref u b \<and> (\<forall>x \<in> set bs. \<not> same_broker_id u x)
           \<or> kind = AttributeCorroboration \<and> attributes_match u b
               \<and> (\<forall>x \<in> set bs. \<not> same_broker_id u x \<and> \<not> same_client_ref u x))
        \<and> rsv_alerts s' = rsv_alerts s
        \<and> (\<forall>k. k \<noteq> order_key u \<longrightarrow> lookup_order (rsv_store s') k = lookup_order (rsv_store s) k)
        \<and> (fate = SqlOk \<and> is_valid_transition Unknown (canonical_observed Unknown (adopt_view (rsv_fsm s) u b))
           \<longrightarrow> (\<exists>r. res = Inr \<lparr>ur_kind = kind, ur_resolved = Some r, ur_new_state = ord_state r, ur_resolved_ok = True\<rparr>
                 \<and> lookup_order (rsv_store s') (order_key u) = Some r \<and> ord_intent r = ord_intent u
                 \<and> ord_state r = canonical_observed Unknown (adopt_view (rsv_fsm s) u b)
                 \<and> ord_filled_qty r = ord_filled_qty b \<and> ord_avg_price r = ord_avg_price b
                 \<and> (ord_broker_order_id b \<noteq> [] \<longrightarrow> ord_broker_order_id r = ord_broker_order_id b)))"
proof (cases found)
  case None
  then have "kind = NoMatch" using assms(3) by (simp add: classify_None)
  then show ?thesis using None assms(2,3) classify_None [of u bs kind] by (auto simp: resolve_def)
next
  case (Some b)
  obtain ra sa where a: "adopt fate s u b = (ra, sa)" by (metis surj_pair)
  have r: "s' = sa" "res = (case ra of Inl e \<Rightarrow> Inl e
      | Inr r \<Rightarrow> Inr \<lparr>ur_kind = kind, ur_resolved = Some r, ur_new_state = ord_state r, ur_resolved_ok = True\<rparr>)"
    using assms(2) by (auto simp: resolve_def assms(3) Some a split: sum.splits)
  have c: "b \<in> set bs \<and> (kind = BrokerOrderId \<and> same_broker_id u b
     \<or> kind = CorrelationToken \<and> same_client_ref u b \<and> (\<forall>x \<in> set bs. \<not> same_broker_id u x)
     \<or> kind = AttributeCorroboration \<and> attributes_match u b
         \<and> (\<forall>x \<in> set bs. \<not> same_broker_id u x \<and> \<not> same_client_ref u x))"
    by (rule classify_Some [OF assms(3) [unfolded Some]])
  have e: "\<exists>x. ra = Inr x \<and> lookup_order (rsv_store s') (order_key u) = Some x \<and> ord_intent x = ord_intent u
      \<and> ord_state x = canonical_observed Unknown (adopt_view (rsv_fsm s) u b)
      \<and> ord_filled_qty x = ord_filled_qty b \<and> ord_avg_price x = ord_avg_price b
      \<and> (ord_broker_order_id b \<noteq> [] \<longrightarrow> ord_broker_order_id x = ord_broker_order_id b)"
    if w: "fate = SqlOk" "is_valid_transition Unknown (canonical_observed Unknown (adopt_view (rsv_fsm s) u b))"
    using adopt_believed [OF a [unfolded w(1)] assms(1) w(2)] adopt_effect(3) [OF a] r(1) by blast
  show ?thesis unfolding Some option.case
    using c adopt_effect(1,2) [OF a] e r by (intro conjI) auto
qed

section \<open>Resolving every row\<close>

lemma resolve_keeps:
  assumes "resolve fetched fate s u = (res, s')" "k \<noteq> order_key u"
  shows "lookup_order (rsv_store s') k = lookup_order (rsv_store s) k"
  using assms adopt_effect(2)
  by (fastforce simp: resolve_def split: sum.splits prod.splits option.splits)

lemma resolve_alerts:
  assumes "resolve fetched fate s u = (Inr r, s')"
  shows "rsv_alerts s' = rsv_alerts s @ (if ur_resolved_ok r then [] else [no_match_alert u])"
  using assms adopt_effect(1)
  by (fastforce simp: resolve_def split: sum.splits prod.splits option.splits)

lemma resolve_loop_keeps:
  assumes "resolve_loop io s out rows = (res, s')"
    "\<forall>u \<in> set rows. ord_state u = Unknown \<longrightarrow> order_key u \<noteq> k"
  shows "lookup_order (rsv_store s') k = lookup_order (rsv_store s) k"
  using assms
proof (induction io s out rows rule: resolve_loop.induct)
  case (2 io s out u rest)
  obtain r s1 where a: "resolve (fst (io (length out))) (snd (io (length out))) s u = (r, s1)" by (metis surj_pair)
  show ?case
  proof (cases "ord_state u = Unknown")
    case True
    have l: "lookup_order (rsv_store s1) k = lookup_order (rsv_store s) k"
      by (rule resolve_keeps [OF a]) (use "2.prems"(2) True in auto)
    show ?thesis using "2.prems" "2.IH"(2) [OF _ a [symmetric]] l True a by (cases r) auto
  qed (use 2 in auto)
qed auto

text \<open>
  What a row in doubt is told, and what the store holds of it afterwards.  An unresolved row had no
  candidate on any rung of the broker's list read for it, and is as it was; a resolved one was matched
  to an order of that list, and the resolution carries the stored row, which keeps the intent.
\<close>

definition answered :: "order list result \<Rightarrow> store \<Rightarrow> order \<Rightarrow> unknown_resolution \<Rightarrow> bool" where
  "answered fetched st u r \<longleftrightarrow> (\<exists>bs. fetched = Inr bs \<and>
     (if ur_resolved_ok r
      then (\<exists>b \<in> set bs. resolver_classify u bs = (ur_kind r, Some b))
        \<and> (\<exists>x. ur_resolved r = Some x \<and> ur_new_state r = ord_state x \<and> ord_intent x = ord_intent u
             \<and> lookup_order st (order_key u) = Some x)
      else ur_kind r = NoMatch \<and> ur_resolved r = None \<and> ur_new_state r = Unknown
        \<and> (\<forall>b \<in> set bs. \<not> same_broker_id u b \<and> \<not> same_client_ref u b \<and> \<not> attributes_match u b)
        \<and> lookup_order st (order_key u) = Some u))"

lemma answered_store:
  "lookup_order st' (order_key u) = lookup_order st (order_key u) \<Longrightarrow> answered fetched st u r \<Longrightarrow> answered fetched st' u r"
  by (simp only: answered_def)

lemma resolve_answered:
  assumes "resolve fetched fate s u = (Inr r, s')" "lookup_order (rsv_store s) (order_key u) = Some u"
  shows "answered fetched (rsv_store s') u r"
proof -
  obtain bs where bs: "fetched = Inr bs" using assms(1) by (cases fetched) (auto simp: resolve_def)
  obtain kind found where c: "resolver_classify u bs = (kind, found)" by (metis surj_pair)
  show ?thesis
  proof (cases found)
    case None
    then show ?thesis using assms c classify_None [of u bs kind] by (auto simp: answered_def resolve_def bs)
  next
    case (Some b)
    obtain ra sa where a: "adopt fate s u b = (ra, sa)" by (metis surj_pair)
    then obtain x where x: "ra = Inr x" "s' = sa"
      "r = \<lparr>ur_kind = kind, ur_resolved = Some x, ur_new_state = ord_state x, ur_resolved_ok = True\<rparr>"
      using assms(1) by (cases ra) (auto simp: resolve_def bs c Some)
    then show ?thesis
      using adopt_effect(3) [OF a x(1)] classify_Some [OF c [unfolded Some]] c Some by (simp add: answered_def bs)
  qed
qed

lemma resolve_loop_answers:
  assumes "resolve_loop io s out rows = (Inr all, s')"
    and "distinct (map order_key rows)" and "\<forall>u \<in> set rows. lookup_order (rsv_store s) (order_key u) = Some u"
  shows "\<exists>new. all = out @ new \<and> length new = length (filter (\<lambda>u. ord_state u = Unknown) rows)
    \<and> (\<forall>j < length new. answered (fst (io (length out + j))) (rsv_store s') (filter (\<lambda>u. ord_state u = Unknown) rows ! j) (new ! j))
    \<and> rsv_alerts s' = rsv_alerts s @ map (\<lambda>(u, r). no_match_alert u)
        (filter (\<lambda>(u, r). \<not> ur_resolved_ok r) (zip (filter (\<lambda>u. ord_state u = Unknown) rows) new))"
  using assms
proof (induction io s out rows rule: resolve_loop.induct)
  case (2 io s out u rest)
  obtain r s1 where a: "resolve (fst (io (length out))) (snd (io (length out))) s u = (r, s1)" by (metis surj_pair)
  show ?case
  proof (cases "ord_state u = Unknown")
    case True
    then obtain y where y: "r = Inr y" using "2.prems"(1) a by (cases r) auto
    have l: "resolve_loop io s1 (out @ [y]) rest = (Inr all, s')" using "2.prems"(1) a y True by simp
    have other: "\<forall>w \<in> set rest. order_key w \<noteq> order_key u" using "2.prems"(2) by (auto simp: image_iff)
    have "\<forall>w \<in> set rest. lookup_order (rsv_store s1) (order_key w) = Some w"
      using "2.prems"(3) other resolve_keeps [OF a] by auto
    then obtain new where n: "all = (out @ [y]) @ new" "length new = length (filter (\<lambda>u. ord_state u = Unknown) rest)"
      "\<forall>j < length new. answered (fst (io (length (out @ [y]) + j))) (rsv_store s') (filter (\<lambda>u. ord_state u = Unknown) rest ! j) (new ! j)"
      "rsv_alerts s' = rsv_alerts s1 @ map (\<lambda>(u, r). no_match_alert u)
        (filter (\<lambda>(u, r). \<not> ur_resolved_ok r) (zip (filter (\<lambda>u. ord_state u = Unknown) rest) new))"
      using "2.IH"(2) [OF _ a [symmetric] y l] "2.prems"(2) True by auto
    have "answered (fst (io (length out))) (rsv_store s1) u y"
      using resolve_answered [OF a [unfolded y]] "2.prems"(3) by simp
    moreover have "lookup_order (rsv_store s') (order_key u) = lookup_order (rsv_store s1) (order_key u)"
      by (rule resolve_loop_keeps [OF l]) (use other in auto)
    ultimately have "answered (fst (io (length out))) (rsv_store s') u y" by (metis answered_store)
    then have "\<forall>j < length (y # new). answered (fst (io (length out + j))) (rsv_store s')
        ((u # filter (\<lambda>u. ord_state u = Unknown) rest) ! j) ((y # new) ! j)"
      using n(3) by (auto simp: nth_Cons split: nat.split)
    then show ?thesis
      using True n resolve_alerts [OF a [unfolded y]] by (intro exI [of _ "y # new"]) auto
  qed (use 2 in auto)
qed auto

lemma all_orders_listing:
  assumes "store_ok st" "all_orders fate st = Inr rows"
  shows "sorted_wrt (<) (map order_key rows)" "u \<in> set rows \<longleftrightarrow> lookup_order st (order_key u) = Some u"
proof -
  have rows: "rows = map read_order (sort_key or_client_ref (st_orders st))"
    using assms(2) by (cases fate) (auto simp: all_orders_def)
  have u: "unique_rows or_client_ref (st_orders st)" using assms(1) by (simp add: store_ok_def)
  have "distinct (map or_client_ref (sort_key or_client_ref (st_orders st)))"
    using u by (simp add: unique_rows_def distinct_map)
  then have "sorted_wrt (<) (map or_client_ref (sort_key or_client_ref (st_orders st)))"
    using sorted_sort_key [of or_client_ref "st_orders st"] by (simp add: strict_sorted_iff)
  moreover have "map order_key rows = map or_client_ref (sort_key or_client_ref (st_orders st))"
    unfolding rows by (simp add: order_key_def)
  ultimately show "sorted_wrt (<) (map order_key rows)" by (simp only:)
  show "u \<in> set rows \<longleftrightarrow> lookup_order st (order_key u) = Some u"
    using table_find_unique [OF u]
    by (auto simp: rows lookup_order_def find_order_def order_key_def read_order_def dest: table_find_Some split: option.splits)
qed

text \<open>C16. A sweep over the store.  Whatever the broker reads and the store writes do on the way, a sweep
  never touches a row whose order is not in doubt.  When it completes, its answers are those of the
  rows in doubt, each once and in order of client reference: the \<open>n\<close>-th answer is about the \<open>n\<close>-th
  such row and rests on the \<open>n\<close>-th read of the broker.  A resolved row was matched to an order of that
  read and stands in the store with its intent kept; an unresolved one had no candidate there and is
  untouched.  The alerts raised are exactly those naming the unresolved rows, one each, in order.\<close>

theorem resolve_all_contract:
  assumes "store_ok (rsv_store s)" and "resolve_all read_fate io s = (res, s')"
  shows "(\<forall>k r. lookup_order (rsv_store s) k = Some r \<and> ord_state r \<noteq> Unknown
        \<longrightarrow> lookup_order (rsv_store s') k = Some r)
    \<and> (\<forall>out. res = Inr out \<longrightarrow> (\<exists>us.
          sorted_wrt (<) (map order_key us)
          \<and> (\<forall>u. u \<in> set us \<longleftrightarrow> lookup_order (rsv_store s) (order_key u) = Some u \<and> ord_state u = Unknown)
          \<and> length out = length us
          \<and> (\<forall>j < length us. answered (fst (io j)) (rsv_store s') (us ! j) (out ! j))
          \<and> rsv_alerts s' = rsv_alerts s @ map (\<lambda>(u, r). no_match_alert u)
              (filter (\<lambda>(u, r). \<not> ur_resolved_ok r) (zip us out))))"
proof (cases "all_orders read_fate (rsv_store s)")
  case (Inl e)
  then show ?thesis using assms(2) by (auto simp: resolve_all_def)
next
  case (Inr rows)
  then have l: "resolve_loop io s [] rows = (res, s')" using assms(2) by (simp add: resolve_all_def)
  note listing = all_orders_listing [OF assms(1) Inr]
  let ?us = "filter (\<lambda>u. ord_state u = Unknown) rows"
  have keep: "lookup_order (rsv_store s') k = Some r"
    if w: "lookup_order (rsv_store s) k = Some r" "ord_state r \<noteq> Unknown" for k r
  proof -
    have "order_key u \<noteq> k" if u: "u \<in> set rows" "ord_state u = Unknown" for u
      using listing(2) [of u] u w by auto
    then show ?thesis using resolve_loop_keeps [OF l] w(1) by simp
  qed
  have "sorted_wrt (<) (map order_key ?us)"
    using listing(1) by (simp add: sorted_wrt_map sorted_wrt_filter)
  moreover have "distinct (map order_key rows)" using listing(1) by (simp add: strict_sorted_iff)
  then have "\<exists>new. out = new \<and> length new = length ?us
      \<and> (\<forall>j < length new. answered (fst (io j)) (rsv_store s') (?us ! j) (new ! j))
      \<and> rsv_alerts s' = rsv_alerts s @ map (\<lambda>(u, r). no_match_alert u)
          (filter (\<lambda>(u, r). \<not> ur_resolved_ok r) (zip ?us new))" if "res = Inr out" for out
    using resolve_loop_answers [of io s "[]" rows out s'] l listing(2) that by simp
  ultimately show ?thesis using keep listing(2) by (intro conjI allI impI exI [of _ ?us]) auto
qed

section \<open>The weakest rung ignores identities that disagree\<close>

text \<open>Attribute corroboration is not confined to orders without identities.  An unknown order that
  carries a broker id and a reference, facing a snapshot in which one order carries another broker
  id and another reference but the same attributes, adopts that other order: its stored row takes
  the other order's broker id, state and fills.\<close>

theorem attribute_rung_adopts_other_order:
  assumes "ord_state u = Unknown" and "attributes_match u b"
    and "ord_broker_order_id u \<noteq> []" and "ord_broker_order_id b \<noteq> []"
    and "ord_broker_order_id b \<noteq> ord_broker_order_id u"
    and "oi_client_ref (ord_intent b) \<noteq> oi_client_ref (ord_intent u)"
    and "ord_state b = Filled"
    and "resolve (Inr [b]) SqlOk s u = (res, s')"
  shows "\<exists>r. lookup_order (rsv_store s') (order_key u) = Some r
    \<and> ord_broker_order_id r = ord_broker_order_id b \<and> ord_state r = Filled
    \<and> ord_filled_qty r = ord_filled_qty b \<and> ord_intent r = ord_intent u"
proof -
  have c: "resolver_classify u [b] = (AttributeCorroboration, Some b)"
    using assms(2,5,6) by (simp add: classify_alt same_broker_id_def same_client_ref_def)
  have v: "canonical_observed Unknown (adopt_view (rsv_fsm s) u b) = Filled"
    using assms(7) by (simp add: canonical_observed_def adopt_view_def)
  obtain ra sa where a: "adopt SqlOk s u b = (ra, sa)" by (metis surj_pair)
  obtain r where r: "ra = Inr r" "ord_state r = Filled" "ord_filled_qty r = ord_filled_qty b"
    "ord_broker_order_id r = ord_broker_order_id b"
    using adopt_believed [OF a assms(1)] v assms(4) by (auto simp: is_valid_transition_def)
  have "s' = sa" using assms(8) by (simp add: resolve_def c a r(1))
  then show ?thesis using r adopt_effect(3) [OF a r(1)] by auto
qed

section \<open>Concrete resolutions\<close>

definition doubtful :: order where
  "doubtful = \<lparr>ord_intent = \<lparr>oi_client_ref = ''r1'', oi_symbol = ''NIFTY'', oi_side = Buy,
      oi_quantity = Quantity 75, oi_price = Price 10050, oi_trigger_price = None,
      oi_order_type = Limit, oi_product = Intraday, oi_strategy = ''alpha''\<rparr>,
     ord_state = Unknown, ord_broker_order_id = ''b1'', ord_filled_qty = Quantity 0, ord_avg_price = Price 0\<rparr>"

definition foreign :: order where
  "foreign = \<lparr>ord_intent = (ord_intent doubtful) \<lparr>oi_client_ref := ''other''\<rparr>, ord_state = Filled,
     ord_broker_order_id = ''b2'', ord_filled_qty = Quantity 75, ord_avg_price = Price 10000\<rparr>"

definition sample_resolver :: resolver where
  "sample_resolver = \<lparr>rsv_store = put_order empty_store doubtful, rsv_fsm = lifecycle_init, rsv_alerts = []\<rparr>"

theorem resolve_contract_witness:
  "\<exists>r. fst (resolve (Inr [doubtful \<lparr>ord_state := Acknowledged\<rparr>]) SqlOk sample_resolver doubtful)
     = Inr \<lparr>ur_kind = BrokerOrderId, ur_resolved = Some r, ur_new_state = Acknowledged, ur_resolved_ok = True\<rparr>"
proof -
  let ?b = "doubtful \<lparr>ord_state := Acknowledged\<rparr>"
  obtain res s' where a: "resolve (Inr [?b]) SqlOk sample_resolver doubtful = (res, s')" by (metis surj_pair)
  have c: "resolver_classify doubtful [?b] = (BrokerOrderId, Some ?b)"
    by (simp add: classify_alt same_broker_id_def doubtful_def)
  have v: "canonical_observed Unknown (adopt_view f doubtful ?b) = Acknowledged" for f
    by (simp add: canonical_observed_def adopt_view_def)
  have "ord_state doubtful = Unknown" by (simp add: doubtful_def)
  from resolve_contract [OF this a c] show ?thesis
    by (auto simp: v is_valid_transition_def a)
qed

text \<open>One row in doubt and an empty list at the broker: one answer, one alert naming the row.\<close>

theorem resolve_all_contract_witness:
  "let (res, s') = resolve_all SqlOk (\<lambda>_. (Inr [], SqlOk)) sample_resolver in
     (\<exists>r. res = Inr [r] \<and> \<not> ur_resolved_ok r) \<and> rsv_alerts s' = [no_match_alert doubtful]"
proof -
  let ?io = "\<lambda>_. (Inr [], SqlOk) :: order list result \<times> sql_fate"
  obtain res s' where a: "resolve_all SqlOk ?io sample_resolver = (res, s')" by (metis surj_pair)
  have ok: "store_ok (rsv_store sample_resolver)"
    using orders.put_ok [OF store_ok_empty, of doubtful] by (simp add: sample_resolver_def)
  have "st_orders (rsv_store sample_resolver) = [bind_order doubtful]"
    by (simp add: sample_resolver_def put_order_def upsert_order_def empty_store_def)
  then have rows: "all_orders SqlOk (rsv_store sample_resolver) = Inr [doubtful]"
    by (simp add: all_orders_def)
  then have res: "res = Inr [\<lparr>ur_kind = NoMatch, ur_resolved = None, ur_new_state = Unknown, ur_resolved_ok = False\<rparr>]"
    using a by (simp add: resolve_all_def resolve_def classify_alt doubtful_def)
  from resolve_all_contract [OF ok a] obtain us where us: "sorted_wrt (<) (map order_key us)" "length us = 1"
    "\<forall>u. u \<in> set us \<longleftrightarrow> lookup_order (rsv_store sample_resolver) (order_key u) = Some u \<and> ord_state u = Unknown"
    "rsv_alerts s' = rsv_alerts sample_resolver @ map (\<lambda>(u, r). no_match_alert u)
       (filter (\<lambda>(u, r). \<not> ur_resolved_ok r) (zip us [\<lparr>ur_kind = NoMatch, ur_resolved = None, ur_new_state = Unknown, ur_resolved_ok = False\<rparr>]))"
    unfolding res by auto
  have "doubtful \<in> set us"
    using us(3) all_orders_listing(2) [OF ok rows, of doubtful] by (simp add: doubtful_def)
  then have "us = [doubtful]" using us(2) by (cases us) auto
  then have "rsv_alerts s' = [no_match_alert doubtful]" using us(4) by (simp add: sample_resolver_def)
  then show ?thesis unfolding a by (simp add: res)
qed

theorem attribute_rung_adopts_other_order_witness:
  "\<exists>r. lookup_order (rsv_store (snd (resolve (Inr [foreign]) SqlOk sample_resolver doubtful))) ''r1'' = Some r
     \<and> ord_broker_order_id r = ''b2'' \<and> ord_state r = Filled"
proof -
  obtain res s' where a: "resolve (Inr [foreign]) SqlOk sample_resolver doubtful = (res, s')" by (metis surj_pair)
  have h: "ord_state doubtful = Unknown" "attributes_match doubtful foreign" "ord_broker_order_id doubtful \<noteq> []"
    "ord_broker_order_id foreign \<noteq> []" "ord_broker_order_id foreign \<noteq> ord_broker_order_id doubtful"
    "oi_client_ref (ord_intent foreign) \<noteq> oi_client_ref (ord_intent doubtful)" "ord_state foreign = Filled"
    by (simp_all add: doubtful_def foreign_def attributes_match_def)
  have "order_key doubtful = ''r1''" "ord_broker_order_id foreign = ''b2''"
    by (simp_all add: order_key_def doubtful_def foreign_def)
  then show ?thesis using attribute_rung_adopts_other_order [OF h a] by (auto simp: a)
qed

end
