(* ===== verification/Reconcile.thy ===== *)
theory Reconcile
  imports Ports Lifecycle
begin

text \<open>
  \<^verbatim>\<open>reconcile/reconciler.cpp\<close>: the read side that packages a snapshot of the broker, the apply side
  that folds it into the local orders through the lifecycle engine and escalates every
  disagreement, and the polling cadence.  The four broker reads are arguments of \<open>reconciler_fetch\<close>.
\<close>

record reconcile_result =
  rr_orders :: "order list"
  rr_trades :: "trade list"
  rr_positions :: "position list"
  rr_funds :: funds_snapshot
  rr_ordering_key :: int64
  rr_fetched_at :: int64

definition same_order :: "order \<Rightarrow> order \<Rightarrow> bool" where
  "same_order local_o broker_o =
     (if oi_client_ref (ord_intent local_o) \<noteq> []
         \<and> oi_client_ref (ord_intent local_o) = oi_client_ref (ord_intent broker_o) then True
      else if ord_broker_order_id local_o \<noteq> []
         \<and> ord_broker_order_id local_o = ord_broker_order_id broker_o then True
      else False)"

definition contradiction_body :: "order_state \<Rightarrow> order_state \<Rightarrow> string" where
  "contradiction_body believed_st observed =
     ''reconcile: broker contradicts local order state (local='' @ order_state_to_string believed_st
     @ '' broker='' @ order_state_to_string observed @ '')''"

definition reconciler_fetch ::
    "order list result \<Rightarrow> trade list result \<Rightarrow> position list result \<Rightarrow> funds_snapshot result
     \<Rightarrow> int64 \<Rightarrow> int64 \<Rightarrow> reconcile_result result" where
  "reconciler_fetch orders trades positions funds now_wall snapshot_seq =
     (case orders of Inl e \<Rightarrow> Inl e | Inr os \<Rightarrow>
      case trades of Inl e \<Rightarrow> Inl e | Inr ts \<Rightarrow>
      case positions of Inl e \<Rightarrow> Inl e | Inr ps \<Rightarrow>
      case funds of Inl e \<Rightarrow> Inl e | Inr fs \<Rightarrow>
        Inr \<lparr>rr_orders = os, rr_trades = ts, rr_positions = ps, rr_funds = fs,
             rr_ordering_key = snapshot_seq, rr_fetched_at = now_wall\<rparr>)"

record reconcile_outcome =
  ro_applied :: int
  ro_advanced :: int
  ro_dropped_stale :: int
  ro_mismatches :: int
  ro_block_new_orders :: bool

record applier =
  ap_engine :: lifecycle_engine
  ap_alerts :: "alert list"
  ap_last_snapshot_key :: int64

definition applier_init :: "lifecycle_engine \<Rightarrow> applier" where
  "applier_init eng = \<lparr>ap_engine = eng, ap_alerts = [], ap_last_snapshot_key = -1\<rparr>"

section \<open>The apply side\<close>

text \<open>One mismatch: counted, blocking, alerted.\<close>

definition escalate :: "applier \<times> reconcile_outcome \<Rightarrow> string \<Rightarrow> order \<Rightarrow> applier \<times> reconcile_outcome" where
  "escalate = (\<lambda>(ap, out) body subject.
     (ap \<lparr>ap_alerts := ap_alerts ap @
            [\<lparr>al_level = AlertWarning, al_message = body, al_context = provenance_of subject\<rparr>]\<rparr>,
      out \<lparr>ro_mismatches := ro_mismatches out + 1, ro_block_new_orders := True\<rparr>))"

definition match_index :: "order list \<Rightarrow> order \<Rightarrow> nat option" where
  "match_index local_orders broker_order =
     (let i = length (takeWhile (\<lambda>l. \<not> same_order l broker_order) local_orders)
      in if i < length local_orders then Some i else None)"

definition reconcile_view :: "int64 \<Rightarrow> order \<Rightarrow> order \<Rightarrow> broker_view" where
  "reconcile_view key m broker_order =
     \<lparr>bv_client_ref = (if oi_client_ref (ord_intent m) \<noteq> [] then oi_client_ref (ord_intent m)
                       else ord_broker_order_id m),
      bv_broker_order_id = ord_broker_order_id broker_order,
      bv_observed_state = ord_state broker_order, bv_filled_qty = ord_filled_qty broker_order,
      bv_avg_price = ord_avg_price broker_order, bv_ordering_key = key\<rparr>"

definition is_contradiction :: "apply_outcome \<Rightarrow> lifecycle_engine \<Rightarrow> broker_view \<Rightarrow> order \<Rightarrow> order \<Rightarrow> bool" where
  "is_contradiction applied engine_after view before broker_order =
     (case applied of
        Applied \<Rightarrow> False
      | DroppedStale \<Rightarrow> False
      | DroppedTerminal \<Rightarrow> ord_state broker_order \<noteq> ord_state before
          \<or> ord_filled_qty broker_order \<noteq> ord_filled_qty before
          \<or> ord_avg_price broker_order \<noteq> ord_avg_price before
      | NoChange \<Rightarrow> (case last_key engine_after (bv_client_ref view) of
                      None \<Rightarrow> True | Some k \<Rightarrow> k \<noteq> bv_ordering_key view))"

definition apply_matched ::
    "bool \<Rightarrow> int64 \<Rightarrow> applier \<times> reconcile_outcome \<Rightarrow> order \<Rightarrow> order \<Rightarrow> (applier \<times> reconcile_outcome) \<times> order" where
  "apply_matched stale_snapshot key = (\<lambda>(ap, out) m broker_order.
     (let view = reconcile_view key m broker_order;
          key_before = last_key (ap_engine ap) (bv_client_ref view);
          (applied, eng, m') = fsm_apply (ap_engine ap) m view;
          ap = ap \<lparr>ap_engine := eng\<rparr>;
          out = out \<lparr>ro_applied := ro_applied out + 1\<rparr>;
          out = (if applied = Applied then out \<lparr>ro_advanced := ro_advanced out + 1\<rparr>
                 else if applied = DroppedStale then out \<lparr>ro_dropped_stale := ro_dropped_stale out + 1\<rparr>
                 else out);
          contradiction = is_contradiction applied eng view m broker_order;
          view_is_older = (case key_before of None \<Rightarrow> False | Some k \<Rightarrow> bv_ordering_key view < k);
          body = (if ord_state broker_order \<noteq> ord_state m
                  then contradiction_body (ord_state m) (ord_state broker_order)
                  else ''reconcile: broker fill correction refused by a terminal local order'')
      in (if contradiction \<and> \<not> stale_snapshot \<and> \<not> view_is_older
          then escalate (ap, out) body broker_order else (ap, out), m')))"

definition apply_broker_order ::
    "bool \<Rightarrow> int64 \<Rightarrow> (applier \<times> reconcile_outcome) \<times> order list \<Rightarrow> order
     \<Rightarrow> (applier \<times> reconcile_outcome) \<times> order list" where
  "apply_broker_order stale_snapshot key = (\<lambda>(acc, local_orders) broker_order.
     (case match_index local_orders broker_order of
        None \<Rightarrow>
          (if stale_snapshot then acc
           else escalate acc ''reconcile: unmatched broker order'' broker_order, local_orders)
      | Some i \<Rightarrow>
          let (acc, m') = apply_matched stale_snapshot key acc (local_orders ! i) broker_order
          in (acc, local_orders[i := m'])))"

definition check_vanished ::
    "order list \<Rightarrow> applier \<times> reconcile_outcome \<Rightarrow> order \<Rightarrow> applier \<times> reconcile_outcome" where
  "check_vanished broker_orders acc local_o =
     (if is_terminal (ord_state local_o) \<or> ord_broker_order_id local_o = [] then acc
      else if list_ex (same_order local_o) broker_orders then acc
      else escalate acc ''reconcile: local order missing from broker snapshot'' local_o)"

definition reconcile_apply ::
    "applier \<Rightarrow> reconcile_result \<Rightarrow> order list \<Rightarrow> reconcile_outcome \<times> applier \<times> order list" where
  "reconcile_apply ap result local_orders =
     (let out = \<lparr>ro_applied = 0, ro_advanced = 0, ro_dropped_stale = 0, ro_mismatches = 0,
                 ro_block_new_orders = False\<rparr>;
          stale_snapshot = (rr_ordering_key result \<le> ap_last_snapshot_key ap);
          ap = (if stale_snapshot then ap else ap \<lparr>ap_last_snapshot_key := rr_ordering_key result\<rparr>);
          (acc, local_orders) = foldl (apply_broker_order stale_snapshot (rr_ordering_key result))
                                  ((ap, out), local_orders) (rr_orders result);
          (ap, out) = (if stale_snapshot then acc
                       else foldl (check_vanished (rr_orders result)) acc local_orders)
      in (out, ap, local_orders))"

section \<open>Cadence\<close>

record reconcile_state =
  rst_any_inflight :: bool
  rst_any_open_position :: bool

definition next_cadence :: "reconcile_state \<Rightarrow> int64 \<Rightarrow> int64 \<Rightarrow> int64" where
  "next_cadence st tight loose = (if rst_any_inflight st \<or> rst_any_open_position st then tight else loose)"

definition is_inflight :: "order_state \<Rightarrow> bool" where
  "is_inflight s \<longleftrightarrow> s \<in> {PendingSend, Sent, Acknowledged, PartiallyFilled, Unknown, PartiallyPlaced}"

definition derive_state :: "order list \<Rightarrow> position list \<Rightarrow> reconcile_state" where
  "derive_state orders positions =
     \<lparr>rst_any_inflight = list_ex (\<lambda>r. is_inflight (ord_state r)) orders,
      rst_any_open_position = list_ex (\<lambda>p. pos_net_qty p \<noteq> Quantity 0) positions\<rparr>"

section \<open>Counting and alerting agree\<close>

text \<open>\<open>acc_ok n\<close>: \<open>n\<close> alerts before; since then one alert per counted mismatch, and the block
  flag says whether there was any.\<close>

definition acc_ok :: "nat \<Rightarrow> applier \<times> reconcile_outcome \<Rightarrow> bool" where
  "acc_ok n = (\<lambda>(ap, out). int (length (ap_alerts ap)) = int n + ro_mismatches out \<and> 0 \<le> ro_mismatches out
     \<and> (ro_block_new_orders out \<longleftrightarrow> 0 < ro_mismatches out))"

lemma escalate_ok: "acc_ok n acc \<Longrightarrow> acc_ok n (escalate acc body b)"
  by (auto simp: acc_ok_def escalate_def split: prod.splits)

lemma escalate_blocks [simp]: "ro_block_new_orders (snd (escalate acc body b))"
  by (simp add: escalate_def split: prod.split)

lemma apply_matched_acc:
  assumes "apply_matched st key (ap, out) m b = (acc', m')"
  shows "acc_ok n (ap, out) \<Longrightarrow> acc_ok n acc'"
    and "ro_block_new_orders out \<Longrightarrow> ro_block_new_orders (snd acc')"
    and "m' = snd (snd (fsm_apply (ap_engine ap) m (reconcile_view key m b)))"
    and "ap_engine (fst acc') = fst (snd (fsm_apply (ap_engine ap) m (reconcile_view key m b)))"
    and "st \<Longrightarrow> ap_alerts (fst acc') = ap_alerts ap \<and> ro_mismatches (snd acc') = ro_mismatches out
      \<and> ro_block_new_orders (snd acc') = ro_block_new_orders out"
proof -
  obtain oc eng y where f: "fsm_apply (ap_engine ap) m (reconcile_view key m b) = (oc, eng, y)" by (metis surj_pair)
  note d = assms [unfolded apply_matched_def split_conv f Let_def]
  show "acc_ok n (ap, out) \<Longrightarrow> acc_ok n acc'"
    using d by (auto simp: acc_ok_def escalate_def split: if_splits)
  show "ro_block_new_orders out \<Longrightarrow> ro_block_new_orders (snd acc')"
    using d by (auto simp: escalate_def split: if_splits)
  show "m' = snd (snd (fsm_apply (ap_engine ap) m (reconcile_view key m b)))"
    "ap_engine (fst acc') = fst (snd (fsm_apply (ap_engine ap) m (reconcile_view key m b)))"
    using d by (auto simp: f escalate_def split: if_splits)
  show "st \<Longrightarrow> ap_alerts (fst acc') = ap_alerts ap \<and> ro_mismatches (snd acc') = ro_mismatches out
      \<and> ro_block_new_orders (snd acc') = ro_block_new_orders out"
    using d by (auto split: if_splits)
qed

section \<open>What a snapshot can do to the local orders\<close>

lemma fsm_apply_effect:
  assumes "fsm_apply eng m v = (oc, eng', m')"
  shows "ord_intent m' = ord_intent m"
    and "is_terminal (ord_state m) \<Longrightarrow> m' = m \<and> eng' = eng \<and> oc = DroppedTerminal"
    and "ord_broker_order_id m' = ord_broker_order_id m \<or> ord_broker_order_id m' = bv_broker_order_id v"
    and "last_key eng' r = Some k \<Longrightarrow> k = bv_ordering_key v \<or> last_key eng r = Some k"
proof -
  show "ord_intent m' = ord_intent m"
    and "ord_broker_order_id m' = ord_broker_order_id m \<or> ord_broker_order_id m' = bv_broker_order_id v"
    and "last_key eng' r = Some k \<Longrightarrow> k = bv_ordering_key v \<or> last_key eng r = Some k"
    using assms by (cases "believed eng m v"; auto simp: fsm_apply_cases overlay_def advance_key_def last_key_def
        split: if_splits)+
  show "is_terminal (ord_state m) \<Longrightarrow> m' = m \<and> eng' = eng \<and> oc = DroppedTerminal"
    using assms by (auto simp: fsm_apply_def)
qed

text \<open>The relation between the start of the loop and the state after the broker orders \<open>seen\<close>.\<close>

definition slot_kept :: "order list \<Rightarrow> order \<Rightarrow> order \<Rightarrow> bool" where
  "slot_kept seen l0 l \<longleftrightarrow> ord_intent l = ord_intent l0 \<and> (is_terminal (ord_state l0) \<longrightarrow> l = l0)
     \<and> (ord_broker_order_id l = ord_broker_order_id l0
        \<or> ord_broker_order_id l \<in> ord_broker_order_id ` set seen)
     \<and> ((\<forall>b \<in> set seen. \<not> same_order l0 b) \<longrightarrow> l = l0)"

definition loop_inv ::
    "nat \<Rightarrow> int64 \<Rightarrow> lifecycle_engine \<Rightarrow> order list \<Rightarrow> order list \<Rightarrow> (applier \<times> reconcile_outcome) \<times> order list \<Rightarrow> bool" where
  "loop_inv n key eng0 L0 seen = (\<lambda>(acc, L). acc_ok n acc \<and> list_all2 (slot_kept seen) L0 L
     \<and> (\<forall>r k. last_key (ap_engine (fst acc)) r = Some k \<longrightarrow> k = key \<or> last_key eng0 r = Some k))"

lemma match_index_Some:
  assumes "match_index L b = Some i"
  shows "i < length L \<and> same_order (L ! i) b"
  using assms nth_length_takeWhile [of "\<lambda>l. \<not> same_order l b" L]
  by (auto simp: match_index_def Let_def split: if_splits)

lemma slot_kept_grow: "slot_kept seen l0 l \<Longrightarrow> slot_kept (seen @ [b]) l0 l"
  by (auto simp: slot_kept_def)

lemma slot_kept_matched:
  assumes "slot_kept seen l0 l" "same_order l b" "fsm_apply eng l (reconcile_view key l b) = (oc, eng', l')"
  shows "slot_kept (seen @ [b]) l0 l'"
proof -
  note e = fsm_apply_effect [OF assms(3)]
  have "l' = l0" if "is_terminal (ord_state l0)" using e(2) assms(1) that by (simp add: slot_kept_def)
  moreover have "\<exists>x \<in> set (seen @ [b]). same_order l0 x"
  proof (rule ccontr)
    assume n: "\<not> ?thesis"
    then have "l = l0" using assms(1) by (auto simp: slot_kept_def)
    then show False using n assms(2) by simp
  qed
  ultimately show ?thesis
    using assms(1) e(1,3) by (auto simp: slot_kept_def reconcile_view_def)
qed

lemma loop_inv_step:
  assumes "loop_inv n key eng0 L0 seen (acc, L)"
  shows "loop_inv n key eng0 L0 (seen @ [b]) (apply_broker_order st key (acc, L) b)"
proof (cases "match_index L b")
  case None
  have "list_all2 (slot_kept (seen @ [b])) L0 L"
    using assms by (auto simp: loop_inv_def intro: list_all2_mono slot_kept_grow)
  moreover have "ap_engine (fst (escalate acc body x)) = ap_engine (fst acc)" for body x
    by (simp add: escalate_def split: prod.split)
  ultimately show ?thesis
    using assms by (auto simp: apply_broker_order_def None loop_inv_def intro: escalate_ok)
next
  case (Some i)
  obtain ap out where acc: "acc = (ap, out)" by (cases acc)
  obtain acc' m' where a: "apply_matched st key (ap, out) (L ! i) b = (acc', m')" by (metis surj_pair)
  obtain oc eng y where f: "fsm_apply (ap_engine ap) (L ! i) (reconcile_view key (L ! i) b) = (oc, eng, y)"
    by (metis surj_pair)
  note am = apply_matched_acc(1) [OF a] apply_matched_acc(3,4) [OF a, unfolded f, simplified]
  note i = match_index_Some [OF Some]
  have sl: "list_all2 (slot_kept seen) L0 L" using assms by (simp add: loop_inv_def)
  then have si: "slot_kept seen (L0 ! i) (L ! i)" using i by (simp add: list_all2_conv_all_nth)
  have "list_all2 (slot_kept (seen @ [b])) L0 (L[i := m'])"
    using sl slot_kept_matched [OF si _ f] i am(2)
    by (auto simp: list_all2_conv_all_nth nth_list_update slot_kept_grow)
  moreover have "k = key \<or> last_key eng0 r = Some k" if w: "last_key (ap_engine (fst acc')) r = Some k" for r k
    using fsm_apply_effect(4) [OF f, of r k] w am(3) assms by (auto simp: loop_inv_def acc reconcile_view_def)
  ultimately show ?thesis
    using assms am(1) by (auto simp: apply_broker_order_def Some acc a loop_inv_def)
qed

lemma loop_inv_foldl:
  assumes "loop_inv n key eng0 L0 seen s"
  shows "loop_inv n key eng0 L0 (seen @ bs) (foldl (apply_broker_order st key) s bs)"
  using assms
proof (induction bs arbitrary: seen s)
  case (Cons b bs)
  then have "loop_inv n key eng0 L0 (seen @ [b]) (apply_broker_order st key s b)"
    using loop_inv_step by (cases s) blast
  from Cons.IH [OF this] show ?case by simp
qed simp

text \<open>Once blocked, always blocked; a stale snapshot never blocks.\<close>

lemma apply_broker_order_block:
  "ro_block_new_orders (snd (fst s)) \<Longrightarrow> ro_block_new_orders (snd (fst (apply_broker_order st key s b)))"
proof -
  assume blk: "ro_block_new_orders (snd (fst s))"
  obtain ap out L where s: "s = ((ap, out), L)" by (metis surj_pair)
  show ?thesis
  proof (cases "match_index L b")
    case None
    then show ?thesis using blk by (simp add: apply_broker_order_def s)
  next
    case (Some i)
    obtain acc' m' where a: "apply_matched st key (ap, out) (L ! i) b = (acc', m')" by (metis surj_pair)
    then show ?thesis using apply_matched_acc(2) [OF a] blk by (simp add: apply_broker_order_def s Some)
  qed
qed

lemma foldl_block:
  "ro_block_new_orders (snd (fst s)) \<Longrightarrow> ro_block_new_orders (snd (fst (foldl (apply_broker_order st key) s bs)))"
  by (induction bs arbitrary: s) (simp_all add: apply_broker_order_block)

lemma stale_step:
  "ap_alerts (fst (fst (apply_broker_order True key s b))) = ap_alerts (fst (fst s))
   \<and> ro_block_new_orders (snd (fst (apply_broker_order True key s b))) = ro_block_new_orders (snd (fst s))"
proof -
  obtain ap out L where s: "s = ((ap, out), L)" by (metis surj_pair)
  show ?thesis
  proof (cases "match_index L b")
    case (Some i)
    obtain acc' m' where a: "apply_matched True key (ap, out) (L ! i) b = (acc', m')" by (metis surj_pair)
    then show ?thesis using apply_matched_acc(5) [OF a] by (simp add: apply_broker_order_def s Some)
  qed (simp add: apply_broker_order_def s)
qed

lemma stale_foldl:
  "ap_alerts (fst (fst (foldl (apply_broker_order True key) s bs))) = ap_alerts (fst (fst s))
   \<and> ro_block_new_orders (snd (fst (foldl (apply_broker_order True key) s bs))) = ro_block_new_orders (snd (fst s))"
  by (induction bs arbitrary: s) (simp_all add: stale_step)

section \<open>Every disagreement is escalated\<close>

lemma same_order_alt:
  "same_order l b \<longleftrightarrow> oi_client_ref (ord_intent l) \<noteq> [] \<and> oi_client_ref (ord_intent l) = oi_client_ref (ord_intent b)
    \<or> ord_broker_order_id l \<noteq> [] \<and> ord_broker_order_id l = ord_broker_order_id b"
  by (auto simp: same_order_def)

text \<open>A local order does not come to match a broker order because of orders processed before it, as
  long as none of those shares its broker id.\<close>

lemma slot_kept_unmatched:
  assumes "slot_kept seen l0 l" "\<not> same_order l0 b"
    "\<forall>x \<in> set seen. ord_broker_order_id x = ord_broker_order_id b \<longrightarrow> ord_broker_order_id b = []"
  shows "\<not> same_order l b"
  using assms by (auto simp: slot_kept_def same_order_alt)

lemma match_index_None: "(\<forall>l \<in> set L. \<not> same_order l b) \<Longrightarrow> match_index L b = None"
  using takeWhile_full [of "\<lambda>l. \<not> same_order l b" L] by (simp add: match_index_def)

lemma match_index_first:
  assumes "j < length L" "same_order (L ! j) b" "\<forall>i < j. \<not> same_order (L ! i) b"
  shows "match_index L b = Some j"
proof -
  have "takeWhile (\<lambda>l. \<not> same_order l b) L = take j L"
    by (rule takeWhile_eq_take_P_nth) (use assms in auto)
  then show ?thesis using assms(1) by (simp add: match_index_def)
qed

lemma phantom_blocks:
  assumes "loop_inv n key eng0 L0 pre s" "\<forall>l \<in> set L0. \<not> same_order l b"
    "\<forall>x \<in> set pre. ord_broker_order_id x = ord_broker_order_id b \<longrightarrow> ord_broker_order_id b = []"
  shows "ro_block_new_orders (snd (fst (apply_broker_order False key s b)))"
proof -
  obtain acc L where s: "s = (acc, L)" by (cases s)
  have "\<not> same_order l b" if w: "l \<in> set L" for l
  proof -
    obtain j where j: "j < length L" "l = L ! j" using w by (auto simp: in_set_conv_nth)
    then have "slot_kept pre (L0 ! j) l" "j < length L0"
      using assms(1) by (auto simp: loop_inv_def s list_all2_conv_all_nth)
    then show ?thesis using slot_kept_unmatched assms(2,3) by (metis nth_mem)
  qed
  then show ?thesis using match_index_None by (simp add: apply_broker_order_def s)
qed

lemma contradiction_blocks:
  assumes inv: "loop_inv n key eng0 L0 pre s"
    and j: "j < length L0" "same_order (L0 ! j) b" "\<forall>i < j. \<not> same_order (L0 ! i) b"
    and pre: "\<forall>x \<in> set pre. ord_broker_order_id x = ord_broker_order_id b \<longrightarrow> ord_broker_order_id b = []"
    and trm: "is_terminal (ord_state (L0 ! j))"
    and diff: "ord_state b \<noteq> ord_state (L0 ! j) \<or> ord_filled_qty b \<noteq> ord_filled_qty (L0 ! j)
      \<or> ord_avg_price b \<noteq> ord_avg_price (L0 ! j)"
    and fresh: "\<not> stale eng0 (reconcile_view key (L0 ! j) b)"
  shows "ro_block_new_orders (snd (fst (apply_broker_order False key s b)))"
proof -
  obtain ap out L where s: "s = ((ap, out), L)" by (metis surj_pair)
  have sl: "length L = length L0" "\<And>i. i < length L0 \<Longrightarrow> slot_kept pre (L0 ! i) (L ! i)"
    using inv by (auto simp: loop_inv_def s list_all2_conv_all_nth)
  have lj: "L ! j = L0 ! j" using sl(2) [OF j(1)] trm by (simp add: slot_kept_def)
  have "\<not> same_order (L ! i) b" if "i < j" for i
    using slot_kept_unmatched [OF sl(2) _ pre] j that by simp
  then have m: "match_index L b = Some j" using match_index_first [of j L b] j sl(1) lj by simp
  let ?v = "reconcile_view key (L0 ! j) b"
  have f: "fsm_apply (ap_engine ap) (L0 ! j) ?v = (DroppedTerminal, ap_engine ap, L0 ! j)"
    using trm by (simp add: fsm_apply_def)
  have "last_key (ap_engine ap) r = Some k \<Longrightarrow> k = key \<or> last_key eng0 r = Some k" for r k
    using inv by (auto simp: loop_inv_def s)
  then have "\<not> stale (ap_engine ap) ?v"
    using fresh by (fastforce simp: stale_def last_key_def reconcile_view_def split: option.splits)
  then show ?thesis
    using diff by (simp add: apply_broker_order_def s m lj apply_matched_def f Let_def is_contradiction_def
        stale_def last_key_def escalate_def split: option.splits)
qed

definition vanished :: "order list \<Rightarrow> order \<Rightarrow> bool" where
  "vanished bs l \<longleftrightarrow> \<not> is_terminal (ord_state l) \<and> ord_broker_order_id l \<noteq> [] \<and> \<not> list_ex (same_order l) bs"

lemma check_vanished_alt:
  "check_vanished bs acc l =
     (if vanished bs l then escalate acc ''reconcile: local order missing from broker snapshot'' l else acc)"
  by (simp add: check_vanished_def vanished_def)

lemma foldl_check_vanished:
  "acc_ok n acc \<Longrightarrow> acc_ok n (foldl (check_vanished bs) acc ls)"
  "ro_block_new_orders (snd (foldl (check_vanished bs) acc ls)) \<longleftrightarrow>
     ro_block_new_orders (snd acc) \<or> (\<exists>l \<in> set ls. vanished bs l)"
  by (induction ls arbitrary: acc) (simp_all add: check_vanished_alt escalate_ok)

lemma reconcile_apply_spec:
  assumes "ap_last_snapshot_key ap < rr_ordering_key result"
    and "reconcile_apply ap result L0 = (out, ap', L)"
  shows "(\<forall>pre b post. rr_orders result = pre @ b # post
           \<and> (\<forall>x \<in> set pre. ord_broker_order_id x = ord_broker_order_id b \<longrightarrow> ord_broker_order_id b = [])
           \<and> ((\<forall>l \<in> set L0. \<not> same_order l b)
              \<or> (\<exists>j < length L0. same_order (L0 ! j) b \<and> (\<forall>i < j. \<not> same_order (L0 ! i) b)
                   \<and> is_terminal (ord_state (L0 ! j))
                   \<and> (ord_state b \<noteq> ord_state (L0 ! j) \<or> ord_filled_qty b \<noteq> ord_filled_qty (L0 ! j)
                      \<or> ord_avg_price b \<noteq> ord_avg_price (L0 ! j))
                   \<and> \<not> stale (ap_engine ap) (reconcile_view (rr_ordering_key result) (L0 ! j) b)))
         \<longrightarrow> ro_block_new_orders out)
    \<and> (\<forall>l \<in> set L0. \<not> is_terminal (ord_state l) \<and> ord_broker_order_id l \<noteq> []
           \<and> (\<forall>b \<in> set (rr_orders result). \<not> same_order l b) \<longrightarrow> ro_block_new_orders out)
    \<and> int (length (ap_alerts ap')) = int (length (ap_alerts ap)) + ro_mismatches out
    \<and> (ro_block_new_orders out \<longleftrightarrow> 0 < ro_mismatches out)
    \<and> length L = length L0
    \<and> (\<forall>j < length L0. ord_intent (L ! j) = ord_intent (L0 ! j)
         \<and> (is_terminal (ord_state (L0 ! j)) \<longrightarrow> L ! j = L0 ! j))"
proof -
  let ?k = "rr_ordering_key result" and ?n = "length (ap_alerts ap)" and ?bs = "rr_orders result"
  define s where "s = ((ap \<lparr>ap_last_snapshot_key := ?k\<rparr>, \<lparr>ro_applied = 0, ro_advanced = 0,
    ro_dropped_stale = 0, ro_mismatches = 0, ro_block_new_orders = False\<rparr>), L0)"
  have i0: "loop_inv ?n ?k (ap_engine ap) L0 [] s"
    by (auto simp: loop_inv_def s_def acc_ok_def list_all2_conv_all_nth slot_kept_def)
  define t where "t = foldl (apply_broker_order False ?k) s ?bs"
  have it: "loop_inv ?n ?k (ap_engine ap) L0 ?bs t"
    using loop_inv_foldl [OF i0, of ?bs False] by (simp add: t_def)
  have r: "L = snd t" "(ap', out) = foldl (check_vanished ?bs) (fst t) (snd t)"
    using assms by (auto simp: reconcile_apply_def Let_def t_def s_def split: prod.splits)
  have slots: "list_all2 (slot_kept ?bs) L0 L" "acc_ok ?n (fst t)"
    using it r(1) by (auto simp: loop_inv_def split: prod.splits)
  have acc: "acc_ok ?n (ap', out)" using foldl_check_vanished(1) [OF slots(2)] r(2) by simp
  have blk: "ro_block_new_orders out \<longleftrightarrow> ro_block_new_orders (snd (fst t)) \<or> (\<exists>l \<in> set (snd t). vanished ?bs l)"
    using foldl_check_vanished(2) [of ?bs "fst t" "snd t", folded r(2)] by simp
  have row: "ro_block_new_orders out"
    if w: "?bs = pre @ b # post" "ro_block_new_orders (snd (fst (apply_broker_order False ?k (foldl (apply_broker_order False ?k) s pre) b)))"
    for pre b post
    using foldl_block [OF w(2), of False ?k post] blk by (simp add: t_def w(1))
  have inv: "loop_inv ?n ?k (ap_engine ap) L0 pre (foldl (apply_broker_order False ?k) s pre)" for pre
    using loop_inv_foldl [OF i0, of pre False] by simp
  have one: "\<forall>pre b post. ?bs = pre @ b # post
      \<and> (\<forall>x \<in> set pre. ord_broker_order_id x = ord_broker_order_id b \<longrightarrow> ord_broker_order_id b = [])
      \<and> ((\<forall>l \<in> set L0. \<not> same_order l b)
         \<or> (\<exists>j < length L0. same_order (L0 ! j) b \<and> (\<forall>i < j. \<not> same_order (L0 ! i) b)
              \<and> is_terminal (ord_state (L0 ! j))
              \<and> (ord_state b \<noteq> ord_state (L0 ! j) \<or> ord_filled_qty b \<noteq> ord_filled_qty (L0 ! j)
                 \<or> ord_avg_price b \<noteq> ord_avg_price (L0 ! j))
              \<and> \<not> stale (ap_engine ap) (reconcile_view ?k (L0 ! j) b)))
      \<longrightarrow> ro_block_new_orders out"
    using row phantom_blocks [OF inv] contradiction_blocks [OF inv] by blast
  have two: "ro_block_new_orders out"
    if w: "l \<in> set L0" "\<not> is_terminal (ord_state l)" "ord_broker_order_id l \<noteq> []" "\<forall>b \<in> set ?bs. \<not> same_order l b" for l
  proof -
    obtain j where j: "j < length L0" "l = L0 ! j" using w(1) by (auto simp: in_set_conv_nth)
    then have "slot_kept ?bs l (L ! j)" "j < length L" using slots(1) by (auto simp: list_all2_conv_all_nth)
    then have "l \<in> set (snd t)" using w(4) r(1) by (metis nth_mem slot_kept_def)
    then show ?thesis using blk w by (auto simp: list_ex_iff vanished_def)
  qed
  show ?thesis
    using one two acc slots(1) by (auto simp: acc_ok_def list_all2_conv_all_nth slot_kept_def)
qed

text \<open>C17. Reconciliation hides nothing.  Take a snapshot newer than all applied before.  New orders are
  blocked if the broker lists an order no local order corresponds to; if a terminal local order is
  contradicted by the broker's state, filled quantity or price (and no newer view of it was
  believed); or if an acknowledged live local order is missing from the snapshot.  (Two broker rows
  of one snapshot are assumed not to share a broker id.)  Every mismatch counted is one alert sent,
  the block flag is set exactly when there is one, and the local order itself is never overwritten
  once it is terminal.\<close>

theorem reconcile_escalates:
  assumes "ap_last_snapshot_key ap < rr_ordering_key result"
    and "reconcile_apply ap result L0 = (out, ap', L)"
  shows "(\<forall>pre b post. rr_orders result = pre @ b # post
           \<and> (\<forall>x \<in> set pre. ord_broker_order_id x = ord_broker_order_id b \<longrightarrow> ord_broker_order_id b = [])
           \<and> ((\<forall>l \<in> set L0. \<not> same_order l b)
              \<or> (\<exists>j < length L0. same_order (L0 ! j) b \<and> (\<forall>i < j. \<not> same_order (L0 ! i) b)
                   \<and> is_terminal (ord_state (L0 ! j))
                   \<and> (ord_state b \<noteq> ord_state (L0 ! j) \<or> ord_filled_qty b \<noteq> ord_filled_qty (L0 ! j)
                      \<or> ord_avg_price b \<noteq> ord_avg_price (L0 ! j))
                   \<and> \<not> stale (ap_engine ap) (reconcile_view (rr_ordering_key result) (L0 ! j) b)))
         \<longrightarrow> ro_block_new_orders out)
    \<and> (\<forall>l \<in> set L0. \<not> is_terminal (ord_state l) \<and> ord_broker_order_id l \<noteq> []
           \<and> (\<forall>b \<in> set (rr_orders result). \<not> same_order l b) \<longrightarrow> ro_block_new_orders out)
    \<and> int (length (ap_alerts ap')) = int (length (ap_alerts ap)) + ro_mismatches out
    \<and> (ro_block_new_orders out \<longleftrightarrow> 0 < ro_mismatches out)
    \<and> length L = length L0
    \<and> (\<forall>j < length L0. ord_intent (L ! j) = ord_intent (L0 ! j)
         \<and> (is_terminal (ord_state (L0 ! j)) \<longrightarrow> L ! j = L0 ! j))"
  by (rule reconcile_apply_spec [OF assms])

text \<open>A snapshot that is not newer than one already applied escalates nothing.\<close>

lemma stale_snapshot_silent:
  assumes "rr_ordering_key result \<le> ap_last_snapshot_key ap" "reconcile_apply ap result L0 = (out, ap', L)"
  shows "ap_alerts ap' = ap_alerts ap \<and> \<not> ro_block_new_orders out"
  using assms stale_foldl [of "rr_ordering_key result" "((ap, \<lparr>ro_applied = 0, ro_advanced = 0,
    ro_dropped_stale = 0, ro_mismatches = 0, ro_block_new_orders = False\<rparr>), L0)" "rr_orders result"]
  by (auto simp: reconcile_apply_def Let_def split: prod.splits)

definition broker_row :: order where
  "broker_row = \<lparr>ord_intent = \<lparr>oi_client_ref = ''r1'', oi_symbol = ''NIFTY'', oi_side = Buy,
      oi_quantity = Quantity 75, oi_price = Price 10050, oi_trigger_price = None,
      oi_order_type = Limit, oi_product = Intraday, oi_strategy = ''alpha''\<rparr>,
     ord_state = Filled, ord_broker_order_id = ''b1'', ord_filled_qty = Quantity 75, ord_avg_price = Price 10000\<rparr>"

definition snapshot_of :: "order list \<Rightarrow> reconcile_result" where
  "snapshot_of os = \<lparr>rr_orders = os, rr_trades = [], rr_positions = [],
     rr_funds = \<lparr>fs_available_margin = Money 0, fs_used_margin = Money 0\<rparr>, rr_ordering_key = 5, rr_fetched_at = 0\<rparr>"

text \<open>The broker reports a fill of an order that is locally rejected.\<close>

theorem reconcile_escalates_witness:
  "let (out, ap, L) = reconcile_apply (applier_init lifecycle_init) (snapshot_of [broker_row])
         [broker_row \<lparr>ord_state := Rejected\<rparr>]
   in ro_block_new_orders out \<and> L = [broker_row \<lparr>ord_state := Rejected\<rparr>]"
proof -
  let ?l = "broker_row \<lparr>ord_state := Rejected\<rparr>"
  obtain out ap L where a: "reconcile_apply (applier_init lifecycle_init) (snapshot_of [broker_row]) [?l] = (out, ap, L)"
    by (metis surj_pair)
  have k: "ap_last_snapshot_key (applier_init lifecycle_init) < rr_ordering_key (snapshot_of [broker_row])"
    by (simp add: applier_init_def snapshot_of_def)
  have h: "same_order ?l broker_row" "is_terminal (ord_state ?l)" "ord_state broker_row \<noteq> ord_state ?l"
    "\<not> stale (ap_engine (applier_init lifecycle_init)) (reconcile_view 5 ?l broker_row)"
    "rr_orders (snapshot_of [broker_row]) = [] @ broker_row # []"
    "rr_ordering_key (snapshot_of [broker_row]) = 5"
    by (simp_all add: same_order_def broker_row_def stale_def applier_init_def lifecycle_init_def snapshot_of_def)
  note t = reconcile_escalates [OF k a]
  have "ro_block_new_orders out"
    using t [THEN conjunct1, rule_format, of "[]" broker_row "[]"] h by simp
  moreover have "L = [?l]"
    using t h(2) by (cases L) auto
  ultimately show ?thesis by (simp add: a)
qed

end
