(* ===== verification/Risk.thy ===== *)
theory Risk
  imports Ports
begin

text \<open>
  \<^verbatim>\<open>risk/\<close>: the validation gate that every order passes (\<^verbatim>\<open>validation_gate.cpp\<close>), the four-level risk
  engine (\<^verbatim>\<open>risk_engine.cpp\<close>) and the freshness-guarded view of the account's funds
  (\<^verbatim>\<open>funds_view.cpp\<close>).  The predicates injected into the gate are options of the results they return:
  an empty \<^verbatim>\<open>std::function\<close> or null pointer is \<open>None\<close>.
\<close>

section \<open>The validation gate\<close>

datatype gate_outcome = Allow | AllowWithSlicing

record gate_context =
  gc_intent :: order_intent
  gc_instrument :: instrument
  gc_is_risk_reducing :: bool
  gc_kill_entry_block :: bool
  gc_unknown_pause_active :: bool
  gc_is_duplicate :: "bool option"
  gc_calendar :: "unit result option"
  gc_funds_check :: "unit result option"
  gc_risk_check :: "unit result option"
  gc_hedge_check :: "unit result option"
  gc_allowed_exchanges :: "string list"
  gc_allowed_products :: "product_kind list"
  gc_slice_mode :: bool

definition named :: "string \<Rightarrow> string \<Rightarrow> string" where
  "named check detail = ''gate: '' @ check @ '' check failed: '' @ detail"

definition gate_error :: "error_category \<Rightarrow> string \<Rightarrow> string \<Rightarrow> error" where
  "gate_error category check detail = make_error category (named check detail) []"

definition wrap_error :: "string \<Rightarrow> error \<Rightarrow> error" where
  "wrap_error check inner = inner \<lparr>err_message := named check (err_message inner)\<rparr>"

definition uses_limit_price :: "order_type \<Rightarrow> bool" where
  "uses_limit_price t \<longleftrightarrow> t = Limit \<or> t = StopLoss"

definition uses_trigger_price :: "order_type \<Rightarrow> bool" where
  "uses_trigger_price t \<longleftrightarrow> t = StopLoss \<or> t = StopLossMarket"

definition tick_violation :: "int64 \<Rightarrow> int64 \<Rightarrow> string \<Rightarrow> error option" where
  "tick_violation price tick label =
     (if price \<le> 0
      then Some (gate_error Validation ''tick'' (label @ '' '' @ show_int price @ '' paise must be positive''))
      else if tick \<le> 0
      then Some (gate_error Validation ''tick'' (''instrument tick size '' @ show_int tick @ '' is invalid''))
      else if price mod tick \<noteq> 0
      then Some (gate_error Validation ''tick'' (label @ '' '' @ show_int price
             @ '' paise is not aligned to tick size '' @ show_int tick @ '' paise''))
      else None)"

definition quoted :: "string \<Rightarrow> string" where
  "quoted s = [CHR 0x27] @ s @ [CHR 0x27]"

text \<open>An injected predicate that failed, with its error wrapped in the check's name.\<close>

definition injected :: "string \<Rightarrow> unit result option \<Rightarrow> error option" where
  "injected check p = (case p of Some (Inl e) \<Rightarrow> Some (wrap_error check e) | _ \<Rightarrow> None)"

definition validate :: "gate_context \<Rightarrow> gate_outcome result" where
  "validate ctx =
     (let is_entry = (\<not> gc_is_risk_reducing ctx); i = gc_intent ctx; inst = gc_instrument ctx in
      if is_entry \<and> gc_kill_entry_block ctx
      then Inl ((gate_error RiskRejected ''kill-switch'' ''entries are blocked by an active kill-switch'')
                \<lparr>err_action := BlockStrategy\<rparr>)
      else if is_entry \<and> gc_unknown_pause_active ctx
      then Inl ((gate_error RiskRejected ''UNKNOWN-pause'' ''entries are paused while UNKNOWN orders are unresolved'')
                \<lparr>err_action := BlockStrategy\<rparr>)
      else if is_entry \<and> gc_is_duplicate ctx = Some True
      then Inl (gate_error DuplicateOrder ''duplicate''
             (''client_ref '' @ quoted (oi_client_ref i) @ '' has already been seen''))
      else if ins_exchange inst = []
      then Inl (gate_error Validation ''exchange'' ''instrument has no exchange'')
      else if gc_allowed_exchanges ctx \<noteq> [] \<and> ins_exchange inst \<notin> set (gc_allowed_exchanges ctx)
      then Inl (gate_error Validation ''exchange'' (''exchange '' @ quoted (ins_exchange inst) @ '' is not allowed''))
      else if gc_allowed_products ctx \<noteq> [] \<and> oi_product i \<notin> set (gc_allowed_products ctx)
      then Inl (gate_error Validation ''product''
             (''product '' @ quoted (product_to_string (oi_product i)) @ '' is not allowed for this instrument''))
      else
        let qty = qty_value (oi_quantity i); lot = qty_value (ins_lot_size inst) in
        if qty \<le> 0
        then Inl (gate_error Validation ''lot'' (''quantity '' @ show_int qty @ '' must be positive''))
        else if lot \<le> 0
        then Inl (gate_error Validation ''lot'' (''instrument lot size '' @ show_int lot @ '' is invalid''))
        else if qty < lot \<or> qty mod lot \<noteq> 0
        then Inl (gate_error Validation ''lot'' (''quantity '' @ show_int qty
               @ '' is not a multiple of lot size '' @ show_int lot))
        else if uses_trigger_price (oi_order_type i) \<and> oi_trigger_price i = None
        then Inl (gate_error Validation ''order-shape'' (''order type ''
               @ quoted (order_type_to_string (oi_order_type i)) @ '' requires a trigger price''))
        else if \<not> uses_trigger_price (oi_order_type i) \<and> oi_trigger_price i \<noteq> None
        then Inl (gate_error Validation ''order-shape'' (''order type ''
               @ quoted (order_type_to_string (oi_order_type i)) @ '' must not carry a trigger price''))
        else if oi_order_type i = StopLoss
               \<and> \<not> (if oi_side i = Sell then oi_price i \<le> the (oi_trigger_price i)
                    else the (oi_trigger_price i) \<le> oi_price i)
        then Inl (gate_error Validation ''order-shape'' (''a '' @ side_to_string (oi_side i)
               @ '' stop-loss limit price '' @ show_int (price_paise (oi_price i))
               @ '' paise is on the wrong side of its trigger '' @ show_int (price_paise (the (oi_trigger_price i)))
               @ '' paise (SELL requires limit <= trigger, BUY requires limit >= trigger); ''
               @ ''the order would arm and then never fill''))
        else
          let tick = price_paise (ins_tick_size inst);
              bad_limit = (if uses_limit_price (oi_order_type i)
                           then tick_violation (price_paise (oi_price i)) tick ''price'' else None);
              bad_trigger = (if uses_trigger_price (oi_order_type i)
                             then tick_violation (price_paise (the (oi_trigger_price i))) tick ''trigger price''
                             else None);
              freeze = qty_value (ins_freeze_qty inst)
          in case bad_limit of Some e \<Rightarrow> Inl e | None \<Rightarrow>
             case bad_trigger of Some e \<Rightarrow> Inl e | None \<Rightarrow>
             if freeze \<le> 0
             then Inl (gate_error Validation ''freeze'' (''instrument freeze ceiling '' @ show_int freeze
                    @ '' is unknown or invalid''))
             else if qty > freeze \<and> \<not> gc_slice_mode ctx
             then Inl (gate_error Validation ''freeze'' (''quantity '' @ show_int qty
                    @ '' exceeds the freeze ceiling '' @ show_int freeze @ '' and slicing is disabled''))
             else
               case (if is_entry then injected ''time-window'' (gc_calendar ctx) else None) of Some e \<Rightarrow> Inl e | None \<Rightarrow>
               case (if is_entry then injected ''funds'' (gc_funds_check ctx) else None) of Some e \<Rightarrow> Inl e | None \<Rightarrow>
               case injected ''risk'' (gc_risk_check ctx) of Some e \<Rightarrow> Inl e | None \<Rightarrow>
               case injected ''hedge'' (gc_hedge_check ctx) of Some e \<Rightarrow> Inl e | None \<Rightarrow>
                 Inr (if qty > freeze then AllowWithSlicing else Allow))"

text \<open>What the gate decides, written as one condition.  \<open>shape_ok\<close> concerns the order and its reference
  data and applies to exits as well; \<open>entry_ok\<close> holds back entries only.\<close>

definition priced_ok :: "int64 \<Rightarrow> int64 \<Rightarrow> bool" where
  "priced_ok price tick \<longleftrightarrow> 0 < price \<and> 0 < tick \<and> tick dvd price"

definition shape_ok :: "gate_context \<Rightarrow> bool" where
  "shape_ok ctx \<longleftrightarrow>
     (let i = gc_intent ctx; inst = gc_instrument ctx; qty = qty_value (oi_quantity i);
          lot = qty_value (ins_lot_size inst); freeze = qty_value (ins_freeze_qty inst);
          tick = price_paise (ins_tick_size inst) in
      ins_exchange inst \<noteq> []
      \<and> (gc_allowed_exchanges ctx = [] \<or> ins_exchange inst \<in> set (gc_allowed_exchanges ctx))
      \<and> (gc_allowed_products ctx = [] \<or> oi_product i \<in> set (gc_allowed_products ctx))
      \<and> 0 < qty \<and> 0 < lot \<and> lot dvd qty
      \<and> (uses_trigger_price (oi_order_type i) \<longleftrightarrow> oi_trigger_price i \<noteq> None)
      \<and> (uses_limit_price (oi_order_type i) \<longrightarrow> priced_ok (price_paise (oi_price i)) tick)
      \<and> (\<forall>t. oi_trigger_price i = Some t \<longrightarrow> priced_ok (price_paise t) tick
            \<and> (oi_order_type i = StopLoss \<longrightarrow>
                 (if oi_side i = Sell then oi_price i \<le> t else t \<le> oi_price i)))
      \<and> 0 < freeze \<and> (qty \<le> freeze \<or> gc_slice_mode ctx))"

definition passes :: "unit result option \<Rightarrow> bool" where
  "passes p \<longleftrightarrow> (\<forall>e. p \<noteq> Some (Inl e))"

definition entry_ok :: "gate_context \<Rightarrow> bool" where
  "entry_ok ctx \<longleftrightarrow> \<not> gc_kill_entry_block ctx \<and> \<not> gc_unknown_pause_active ctx
     \<and> gc_is_duplicate ctx \<noteq> Some True \<and> passes (gc_calendar ctx) \<and> passes (gc_funds_check ctx)"

lemma injected_None [simp]: "injected check p = None \<longleftrightarrow> passes p"
  by (auto simp: injected_def passes_def split: option.splits sum.splits)

lemma tick_violation_None [simp]: "tick_violation price tick label = None \<longleftrightarrow> priced_ok price tick"
  by (auto simp: tick_violation_def priced_ok_def dvd_eq_mod_eq_0)

lemma dvd_at_least: "0 < qty \<Longrightarrow> 0 < lot \<Longrightarrow> (\<not> qty < lot \<and> qty mod lot = 0) \<longleftrightarrow> lot dvd (qty :: int)"
  by (auto simp: dvd_eq_mod_eq_0 dest: zmod_trivial_iff [THEN iffD2])

text \<open>A refusal first, a decision otherwise.\<close>

lemma case_None_Inr:
  "(case x of Some e \<Rightarrow> Inl e | None \<Rightarrow> y) = Inr v \<longleftrightarrow> x = None \<and> y = Inr v"
  by (cases x) auto

lemma if_Inl_Inr: "(if c then Inl e else y) = Inr v \<longleftrightarrow> \<not> c \<and> y = Inr v"
  by simp

lemma if_None: "(if c then x else None) = None \<longleftrightarrow> (c \<longrightarrow> x = None)"
  by simp

lemma trigger_shape:
  "(\<not> (u \<and> t = None) \<and> \<not> (\<not> u \<and> t \<noteq> None)) \<longleftrightarrow> (u \<longleftrightarrow> t \<noteq> None)"
  by auto

lemma validate_Inr:
  "validate ctx = Inr outcome \<longleftrightarrow>
     shape_ok ctx \<and> passes (gc_risk_check ctx) \<and> passes (gc_hedge_check ctx)
     \<and> (gc_is_risk_reducing ctx \<or> entry_ok ctx)
     \<and> outcome = (if qty_value (ins_freeze_qty (gc_instrument ctx)) < qty_value (oi_quantity (gc_intent ctx))
                  then AllowWithSlicing else Allow)"
proof -
  let ?i = "gc_intent ctx" and ?inst = "gc_instrument ctx" and ?r = "gc_is_risk_reducing ctx"
  let ?t = "oi_order_type (gc_intent ctx)" and ?q = "qty_value (oi_quantity (gc_intent ctx))"
  let ?l = "qty_value (ins_lot_size (gc_instrument ctx))"
  have "validate ctx = Inr outcome \<longleftrightarrow>
      \<not> (\<not> ?r \<and> gc_kill_entry_block ctx) \<and> \<not> (\<not> ?r \<and> gc_unknown_pause_active ctx)
      \<and> \<not> (\<not> ?r \<and> gc_is_duplicate ctx = Some True) \<and> ins_exchange ?inst \<noteq> []
      \<and> \<not> (gc_allowed_exchanges ctx \<noteq> [] \<and> ins_exchange ?inst \<notin> set (gc_allowed_exchanges ctx))
      \<and> \<not> (gc_allowed_products ctx \<noteq> [] \<and> oi_product ?i \<notin> set (gc_allowed_products ctx))
      \<and> \<not> ?q \<le> 0 \<and> \<not> ?l \<le> 0 \<and> \<not> (?q < ?l \<or> ?q mod ?l \<noteq> 0)
      \<and> \<not> (uses_trigger_price ?t \<and> oi_trigger_price ?i = None)
      \<and> \<not> (\<not> uses_trigger_price ?t \<and> oi_trigger_price ?i \<noteq> None)
      \<and> \<not> (?t = StopLoss \<and> \<not> (if oi_side ?i = Sell then oi_price ?i \<le> the (oi_trigger_price ?i)
              else the (oi_trigger_price ?i) \<le> oi_price ?i))
      \<and> (uses_limit_price ?t \<longrightarrow> priced_ok (price_paise (oi_price ?i)) (price_paise (ins_tick_size ?inst)))
      \<and> (uses_trigger_price ?t \<longrightarrow>
           priced_ok (price_paise (the (oi_trigger_price ?i))) (price_paise (ins_tick_size ?inst)))
      \<and> \<not> qty_value (ins_freeze_qty ?inst) \<le> 0
      \<and> \<not> (?q > qty_value (ins_freeze_qty ?inst) \<and> \<not> gc_slice_mode ctx)
      \<and> (\<not> ?r \<longrightarrow> passes (gc_calendar ctx)) \<and> (\<not> ?r \<longrightarrow> passes (gc_funds_check ctx))
      \<and> passes (gc_risk_check ctx) \<and> passes (gc_hedge_check ctx)
      \<and> (if ?q > qty_value (ins_freeze_qty ?inst) then AllowWithSlicing else Allow) = outcome"
    unfolding validate_def Let_def if_Inl_Inr case_None_Inr if_None injected_None tick_violation_None
      sum.inject by (rule refl)
  also have "\<dots> \<longleftrightarrow> shape_ok ctx \<and> passes (gc_risk_check ctx) \<and> passes (gc_hedge_check ctx)
      \<and> (?r \<or> entry_ok ctx)
      \<and> outcome = (if ?q > qty_value (ins_freeze_qty ?inst) then AllowWithSlicing else Allow)"
  proof -
    have lot: "\<not> ?q \<le> 0 \<and> \<not> ?l \<le> 0 \<and> \<not> (?q < ?l \<or> ?q mod ?l \<noteq> 0) \<longleftrightarrow> 0 < ?q \<and> 0 < ?l \<and> ?l dvd ?q"
      using dvd_at_least [of ?q ?l] by (auto simp: not_le)
    have trig: "\<not> (uses_trigger_price ?t \<and> oi_trigger_price ?i = None)
        \<and> \<not> (\<not> uses_trigger_price ?t \<and> oi_trigger_price ?i \<noteq> None)
        \<and> \<not> (?t = StopLoss \<and> \<not> (if oi_side ?i = Sell then oi_price ?i \<le> the (oi_trigger_price ?i)
              else the (oi_trigger_price ?i) \<le> oi_price ?i))
        \<and> (uses_trigger_price ?t \<longrightarrow>
             priced_ok (price_paise (the (oi_trigger_price ?i))) (price_paise (ins_tick_size ?inst)))
      \<longleftrightarrow> (uses_trigger_price ?t \<longleftrightarrow> oi_trigger_price ?i \<noteq> None)
        \<and> (\<forall>t. oi_trigger_price ?i = Some t \<longrightarrow> priced_ok (price_paise t) (price_paise (ins_tick_size ?inst))
            \<and> (?t = StopLoss \<longrightarrow> (if oi_side ?i = Sell then oi_price ?i \<le> t else t \<le> oi_price ?i)))"
      by (cases "oi_trigger_price ?i") (auto simp: uses_trigger_price_def)
    have frz: "\<not> qty_value (ins_freeze_qty ?inst) \<le> 0
        \<and> \<not> (?q > qty_value (ins_freeze_qty ?inst) \<and> \<not> gc_slice_mode ctx)
      \<longleftrightarrow> 0 < qty_value (ins_freeze_qty ?inst) \<and> (?q \<le> qty_value (ins_freeze_qty ?inst) \<or> gc_slice_mode ctx)"
      by linarith
    show ?thesis unfolding shape_ok_def entry_ok_def Let_def using lot trig frz by argo
  qed
  finally show ?thesis by argo
qed

text \<open>The gate's decision.  An order is let through exactly when its shape is right (known and
  allowed exchange, allowed product, positive lot-aligned quantity, a trigger exactly for the two
  stop types, a stop limit on the far side of its trigger, every price the type uses positive and on
  the tick, a known freeze ceiling that is respected or sliced), the risk and hedge checks pass, and,
  unless it reduces risk, the kill switch, the unknown-order pause, the duplicate check, the
  calendar and the funds check do not object.  It is sliced exactly when it exceeds the ceiling.\<close>

theorem gate_decision:
  "validate ctx = Inr outcome \<longleftrightarrow>
     shape_ok ctx \<and> passes (gc_risk_check ctx) \<and> passes (gc_hedge_check ctx)
     \<and> (gc_is_risk_reducing ctx \<or> entry_ok ctx)
     \<and> outcome = (if qty_value (ins_freeze_qty (gc_instrument ctx)) < qty_value (oi_quantity (gc_intent ctx))
                  then AllowWithSlicing else Allow)"
  by (rule validate_Inr)

section \<open>The risk engine\<close>

record risk_limits =
  rl_daily_loss_limit_paise :: int64
  rl_max_open_positions :: int
  rl_max_account_margin_paise :: int64
  rl_max_order_value_paise :: int64
  rl_block_market_orders :: bool
  rl_max_slippage_bps :: int
  rl_max_lots_per_strategy :: int
  rl_max_lots_per_instrument :: int
  rl_strategy_daily_loss_limit_paise :: int64

record risk_state =
  rk_account_pnl_paise :: int64
  rk_open_positions :: int
  rk_used_margin_paise :: int64
  rk_order_value_paise :: int64
  rk_order_value_known :: bool
  rk_order_lots :: int
  rk_slippage_bps :: int
  rk_is_entry :: bool
  rk_strategy_lots :: int
  rk_strategy_pnl_paise :: int64
  rk_strategy_enabled :: bool
  rk_instrument_lots :: int
  rk_data_tradable :: bool

definition rejected :: "string \<Rightarrow> string \<Rightarrow> error" where
  "rejected level rule =
     (make_error RiskRejected (''risk['' @ level @ '']: '' @ rule) []) \<lparr>err_action := BlockStrategy\<rparr>"

text \<open>The template \<open>sum_over\<close> at its two widths; the machine subtraction is written out.\<close>

definition sum_over64 :: "int64 \<Rightarrow> int64 \<Rightarrow> int64 \<Rightarrow> bool" where
  "sum_over64 a b ceiling \<longleftrightarrow> a > wrap64 (ceiling - b)"

definition sum_over32 :: "int \<Rightarrow> int \<Rightarrow> int \<Rightarrow> bool" where
  "sum_over32 a b ceiling \<longleftrightarrow> a > wrap32 (ceiling - b)"

definition check_account :: "risk_limits \<Rightarrow> risk_state \<Rightarrow> unit result" where
  "check_account limits st =
     (if rl_daily_loss_limit_paise limits > 0
         \<and> rk_account_pnl_paise st \<le> wrap64 (- rl_daily_loss_limit_paise limits)
      then Inl (rejected ''account'' ''daily loss limit breached'')
      else if rl_max_open_positions limits > 0 \<and> rk_is_entry st
              \<and> rk_open_positions st \<ge> rl_max_open_positions limits
      then Inl (rejected ''account'' ''max open positions reached'')
      else if rl_max_account_margin_paise limits > 0 then
        if \<not> rk_order_value_known st
        then Inl (rejected ''account'' ''cannot verify margin (order value unknown)'')
        else if rk_used_margin_paise st < 0 \<or> rk_order_value_paise st < 0
        then Inl (rejected ''account'' ''cannot verify margin (negative margin/order value)'')
        else if sum_over64 (rk_used_margin_paise st) (rk_order_value_paise st) (rl_max_account_margin_paise limits)
        then Inl (rejected ''account'' ''max account margin exceeded'')
        else Inr ()
      else Inr ())"

definition check_strategy :: "risk_limits \<Rightarrow> risk_state \<Rightarrow> unit result" where
  "check_strategy limits st =
     (if \<not> rk_strategy_enabled st then Inl (rejected ''strategy'' ''strategy is stopped'')
      else if rl_strategy_daily_loss_limit_paise limits > 0
              \<and> rk_strategy_pnl_paise st \<le> wrap64 (- rl_strategy_daily_loss_limit_paise limits)
      then Inl (rejected ''strategy'' ''strategy daily loss limit breached'')
      else if rl_max_lots_per_strategy limits > 0 then
        if rk_strategy_lots st < 0 \<or> rk_order_lots st < 0
        then Inl (rejected ''strategy'' ''cannot verify lots (negative lot count)'')
        else if sum_over32 (rk_strategy_lots st) (rk_order_lots st) (rl_max_lots_per_strategy limits)
        then Inl (rejected ''strategy'' ''max lots per strategy exceeded'')
        else Inr ()
      else Inr ())"

definition check_instrument :: "risk_limits \<Rightarrow> risk_state \<Rightarrow> unit result" where
  "check_instrument limits st =
     (case (if rl_max_lots_per_instrument limits > 0 then
              if rk_instrument_lots st < 0 \<or> rk_order_lots st < 0
              then Inl (rejected ''instrument'' ''cannot verify lots (negative lot count)'')
              else if sum_over32 (rk_instrument_lots st) (rk_order_lots st) (rl_max_lots_per_instrument limits)
              then Inl (rejected ''instrument'' ''max lots per instrument exceeded'')
              else Inr ()
            else Inr ()) of
        Inl e \<Rightarrow> Inl e
      | Inr _ \<Rightarrow>
          if \<not> rk_data_tradable st
          then Inl (rejected ''instrument'' ''price not tradable (illiquid/stale)'') else Inr ())"

definition check_order :: "order_intent \<Rightarrow> risk_limits \<Rightarrow> risk_state \<Rightarrow> unit result" where
  "check_order i limits st =
     (if rl_block_market_orders limits \<and> oi_order_type i = Market
      then Inl (rejected ''order'' ''market orders are blocked'')
      else
        case (if rl_max_order_value_paise limits > 0 then
                if \<not> rk_order_value_known st
                then Inl (rejected ''order'' ''cannot verify order value (unknown)'')
                else if rk_order_value_paise st < 0
                then Inl (rejected ''order'' ''cannot verify order value (negative)'')
                else if rk_order_value_paise st > rl_max_order_value_paise limits
                then Inl (rejected ''order'' ''max order value exceeded'')
                else Inr ()
              else Inr ()) of
          Inl e \<Rightarrow> Inl e
        | Inr _ \<Rightarrow>
            if rl_max_slippage_bps limits > 0 \<and> rk_slippage_bps st > rl_max_slippage_bps limits
            then Inl (rejected ''order'' ''max slippage exceeded'') else Inr ())"

definition check_all :: "order_intent \<Rightarrow> risk_limits \<Rightarrow> risk_state \<Rightarrow> unit result" where
  "check_all i limits st =
     (case check_account limits st of Inl e \<Rightarrow> Inl e | Inr _ \<Rightarrow>
      case check_strategy limits st of Inl e \<Rightarrow> Inl e | Inr _ \<Rightarrow>
      case check_instrument limits st of Inl e \<Rightarrow> Inl e | Inr _ \<Rightarrow>
      case check_order i limits st of Inl e \<Rightarrow> Inl e | Inr _ \<Rightarrow> Inr ())"

definition make_risk_check :: "order_intent \<Rightarrow> risk_limits \<Rightarrow> risk_state \<Rightarrow> unit result" where
  "make_risk_check i limits st = check_all i limits st"

subsection \<open>The limits in exact arithmetic\<close>

definition risk_in_range :: "risk_limits \<Rightarrow> risk_state \<Rightarrow> bool" where
  "risk_in_range limits st \<longleftrightarrow>
     list_all in_i64 [rl_daily_loss_limit_paise limits, rl_max_account_margin_paise limits,
       rl_strategy_daily_loss_limit_paise limits, rk_used_margin_paise st, rk_order_value_paise st]
     \<and> list_all in_i32 [rl_max_lots_per_strategy limits, rl_max_lots_per_instrument limits,
       rk_strategy_lots st, rk_instrument_lots st, rk_order_lots st]"

text \<open>Each armed limit, over the integers: zero or a negative value means not armed.\<close>

definition within_limits :: "order_intent \<Rightarrow> risk_limits \<Rightarrow> risk_state \<Rightarrow> bool" where
  "within_limits i limits st \<longleftrightarrow>
     (0 < rl_daily_loss_limit_paise limits \<longrightarrow> - rl_daily_loss_limit_paise limits < rk_account_pnl_paise st)
     \<and> (0 < rl_max_open_positions limits \<and> rk_is_entry st \<longrightarrow> rk_open_positions st < rl_max_open_positions limits)
     \<and> (0 < rl_max_account_margin_paise limits \<longrightarrow> rk_order_value_known st
          \<and> 0 \<le> rk_used_margin_paise st \<and> 0 \<le> rk_order_value_paise st
          \<and> rk_used_margin_paise st + rk_order_value_paise st \<le> rl_max_account_margin_paise limits)
     \<and> rk_strategy_enabled st
     \<and> (0 < rl_strategy_daily_loss_limit_paise limits \<longrightarrow>
          - rl_strategy_daily_loss_limit_paise limits < rk_strategy_pnl_paise st)
     \<and> (0 < rl_max_lots_per_strategy limits \<longrightarrow> 0 \<le> rk_strategy_lots st \<and> 0 \<le> rk_order_lots st
          \<and> rk_strategy_lots st + rk_order_lots st \<le> rl_max_lots_per_strategy limits)
     \<and> (0 < rl_max_lots_per_instrument limits \<longrightarrow> 0 \<le> rk_instrument_lots st \<and> 0 \<le> rk_order_lots st
          \<and> rk_instrument_lots st + rk_order_lots st \<le> rl_max_lots_per_instrument limits)
     \<and> rk_data_tradable st
     \<and> \<not> (rl_block_market_orders limits \<and> oi_order_type i = Market)
     \<and> (0 < rl_max_order_value_paise limits \<longrightarrow> rk_order_value_known st
          \<and> 0 \<le> rk_order_value_paise st \<and> rk_order_value_paise st \<le> rl_max_order_value_paise limits)
     \<and> (0 < rl_max_slippage_bps limits \<longrightarrow> rk_slippage_bps st \<le> rl_max_slippage_bps limits)"

lemma sum_over64_exact:
  "in_i64 b \<Longrightarrow> in_i64 c \<Longrightarrow> 0 < c \<Longrightarrow> 0 \<le> b \<Longrightarrow> sum_over64 a b c \<longleftrightarrow> a + b > c"
  using wrap64_id [of "c - b"] by (auto simp: sum_over64_def i64_defs)

lemma sum_over32_exact:
  "in_i32 b \<Longrightarrow> in_i32 c \<Longrightarrow> 0 < c \<Longrightarrow> 0 \<le> b \<Longrightarrow> sum_over32 a b c \<longleftrightarrow> a + b > c"
  using wrap32_id [of "c - b"] by (auto simp: sum_over32_def in_i32_def)

lemma wrap64_neg: "in_i64 x \<Longrightarrow> 0 < x \<Longrightarrow> wrap64 (- x) = - x"
  by (rule wrap64_id) (simp add: i64_defs)

lemma rejected_sel [simp]: "err_category (rejected l r) = RiskRejected" "err_action (rejected l r) = BlockStrategy"
  by (simp_all add: rejected_def make_error_def)

lemma check_account_ok:
  assumes "risk_in_range limits st"
  shows "check_account limits st = Inr () \<longleftrightarrow>
     (0 < rl_daily_loss_limit_paise limits \<longrightarrow> - rl_daily_loss_limit_paise limits < rk_account_pnl_paise st)
     \<and> (0 < rl_max_open_positions limits \<and> rk_is_entry st \<longrightarrow> rk_open_positions st < rl_max_open_positions limits)
     \<and> (0 < rl_max_account_margin_paise limits \<longrightarrow> rk_order_value_known st
          \<and> 0 \<le> rk_used_margin_paise st \<and> 0 \<le> rk_order_value_paise st
          \<and> rk_used_margin_paise st + rk_order_value_paise st \<le> rl_max_account_margin_paise limits)"
  using assms sum_over64_exact [of "rk_order_value_paise st" "rl_max_account_margin_paise limits" "rk_used_margin_paise st"]
    wrap64_neg [of "rl_daily_loss_limit_paise limits"]
  by (auto simp: check_account_def risk_in_range_def not_le not_less)

lemma check_strategy_ok:
  assumes "risk_in_range limits st"
  shows "check_strategy limits st = Inr () \<longleftrightarrow> rk_strategy_enabled st
     \<and> (0 < rl_strategy_daily_loss_limit_paise limits \<longrightarrow>
          - rl_strategy_daily_loss_limit_paise limits < rk_strategy_pnl_paise st)
     \<and> (0 < rl_max_lots_per_strategy limits \<longrightarrow> 0 \<le> rk_strategy_lots st \<and> 0 \<le> rk_order_lots st
          \<and> rk_strategy_lots st + rk_order_lots st \<le> rl_max_lots_per_strategy limits)"
  using assms sum_over32_exact [of "rk_order_lots st" "rl_max_lots_per_strategy limits" "rk_strategy_lots st"]
    wrap64_neg [of "rl_strategy_daily_loss_limit_paise limits"]
  by (auto simp: check_strategy_def risk_in_range_def not_le not_less)

lemma check_instrument_ok:
  assumes "risk_in_range limits st"
  shows "check_instrument limits st = Inr () \<longleftrightarrow>
     (0 < rl_max_lots_per_instrument limits \<longrightarrow> 0 \<le> rk_instrument_lots st \<and> 0 \<le> rk_order_lots st
          \<and> rk_instrument_lots st + rk_order_lots st \<le> rl_max_lots_per_instrument limits)
     \<and> rk_data_tradable st"
  using assms sum_over32_exact [of "rk_order_lots st" "rl_max_lots_per_instrument limits" "rk_instrument_lots st"]
  by (auto simp: check_instrument_def risk_in_range_def not_le not_less)

lemma check_order_ok:
  "check_order i limits st = Inr () \<longleftrightarrow> \<not> (rl_block_market_orders limits \<and> oi_order_type i = Market)
     \<and> (0 < rl_max_order_value_paise limits \<longrightarrow> rk_order_value_known st
          \<and> 0 \<le> rk_order_value_paise st \<and> rk_order_value_paise st \<le> rl_max_order_value_paise limits)
     \<and> (0 < rl_max_slippage_bps limits \<longrightarrow> rk_slippage_bps st \<le> rl_max_slippage_bps limits)"
  by (auto simp: check_order_def not_le not_less)

lemma unit_result_cases: "(r :: unit result) = Inr () \<or> (\<exists>e. r = Inl e)"
  by (cases r) auto

lemma check_all_ok:
  "check_all i limits st = Inr () \<longleftrightarrow> check_account limits st = Inr () \<and> check_strategy limits st = Inr ()
     \<and> check_instrument limits st = Inr () \<and> check_order i limits st = Inr ()"
  by (auto simp: check_all_def split: sum.split)

lemma check_levels_rejected:
  "check_account limits st = Inl e \<Longrightarrow> \<exists>l r. e = rejected l r"
  "check_strategy limits st = Inl e \<Longrightarrow> \<exists>l r. e = rejected l r"
  "check_instrument limits st = Inl e \<Longrightarrow> \<exists>l r. e = rejected l r"
  "check_order i limits st = Inl e \<Longrightarrow> \<exists>l r. e = rejected l r"
  unfolding check_account_def check_strategy_def check_instrument_def check_order_def
  by (auto split: if_splits)

text \<open>C18. The risk engine is exact.  For every combination of limits and state that fits the machine
  types, extremes included, an order passes all four levels exactly when every armed limit holds in
  unbounded integer arithmetic (no sum wraps past a ceiling), with unknown or negative amounts
  failing the limits that need them; and every refusal is a risk rejection that asks to block the
  strategy, never to reconcile or retry.\<close>

theorem risk_engine_exact:
  assumes "risk_in_range limits st"
  shows "(check_all i limits st = Inr () \<longleftrightarrow> within_limits i limits st)
    \<and> (\<forall>e. check_all i limits st = Inl e \<longrightarrow> err_category e = RiskRejected \<and> err_action e = BlockStrategy)"
proof
  show "check_all i limits st = Inr () \<longleftrightarrow> within_limits i limits st"
    unfolding check_all_ok check_account_ok [OF assms] check_strategy_ok [OF assms]
      check_instrument_ok [OF assms] check_order_ok within_limits_def by argo
  have "\<exists>l r. e = rejected l r" if "check_all i limits st = Inl e" for e
    using that check_levels_rejected by (auto simp: check_all_def split: sum.splits)
  then show "\<forall>e. check_all i limits st = Inl e \<longrightarrow> err_category e = RiskRejected \<and> err_action e = BlockStrategy"
    by auto
qed

definition extreme_limits :: risk_limits where
  "extreme_limits = \<lparr>rl_daily_loss_limit_paise = 0, rl_max_open_positions = 0,
     rl_max_account_margin_paise = INT64_MAX, rl_max_order_value_paise = 0, rl_block_market_orders = False,
     rl_max_slippage_bps = 0, rl_max_lots_per_strategy = 2147483647, rl_max_lots_per_instrument = 0,
     rl_strategy_daily_loss_limit_paise = 0\<rparr>"

definition extreme_state :: risk_state where
  "extreme_state = \<lparr>rk_account_pnl_paise = 0, rk_open_positions = 0, rk_used_margin_paise = INT64_MAX,
     rk_order_value_paise = 1, rk_order_value_known = True, rk_order_lots = 1, rk_slippage_bps = 0,
     rk_is_entry = True, rk_strategy_lots = 2147483647, rk_strategy_pnl_paise = 0, rk_strategy_enabled = True,
     rk_instrument_lots = 0, rk_data_tradable = True\<rparr>"

text \<open>A sum that would wrap: margin at the largest value and one more paisa.\<close>

theorem risk_engine_exact_witness:
  "\<forall>i. check_all i extreme_limits extreme_state \<noteq> Inr ()"
proof
  fix i
  have "risk_in_range extreme_limits extreme_state"
    by (simp add: risk_in_range_def extreme_limits_def extreme_state_def i64_defs in_i32_def)
  from risk_engine_exact [OF this, of i] show "check_all i extreme_limits extreme_state \<noteq> Inr ()"
    by (simp add: within_limits_def extreme_limits_def extreme_state_def i64_defs)
qed

section \<open>The funds view\<close>

record funds_view =
  fv_snapshot :: funds_snapshot
  fv_fetched_at :: int64
  fv_has_snapshot :: bool
  fv_cadence :: int64

definition fv_refresh :: "funds_snapshot result \<Rightarrow> int64 \<Rightarrow> funds_view \<Rightarrow> unit result \<times> funds_view" where
  "fv_refresh fetched now_steady v =
     (case fetched of
        Inl e \<Rightarrow> (Inl e, v)
      | Inr snap \<Rightarrow> (Inr (), v \<lparr>fv_snapshot := snap, fv_fetched_at := now_steady, fv_has_snapshot := True\<rparr>))"

text \<open>Steady-clock readings are nanoseconds, the cadence is in seconds.\<close>

definition fv_is_fresh :: "int64 \<Rightarrow> funds_view \<Rightarrow> bool" where
  "fv_is_fresh now_steady v =
     (if \<not> fv_has_snapshot v then False else now_steady - fv_fetched_at v \<le> fv_cadence v * 1000000000)"

definition fv_invalidate :: "funds_view \<Rightarrow> funds_view" where
  "fv_invalidate v = v \<lparr>fv_has_snapshot := False\<rparr>"

text \<open>\<open>now1\<close>, \<open>now2\<close>, \<open>now3\<close> are the clock at the first test, at the refresh and at the second test.\<close>

definition ensure_fresh ::
    "funds_snapshot result \<Rightarrow> int64 \<Rightarrow> int64 \<Rightarrow> int64 \<Rightarrow> funds_view \<Rightarrow> funds_snapshot result \<times> funds_view" where
  "ensure_fresh fetched now1 now2 now3 v =
     (let (root_cause, v) =
            (if \<not> fv_is_fresh now1 v then
               (case fv_refresh fetched now2 v of
                  (Inl e, v) \<Rightarrow>
                    (if err_broker_code e = [] then err_message e
                     else err_message e @ '' ['' @ err_broker_code e @ '']'', v)
                | (Inr _, v) \<Rightarrow> ([], v))
             else ([], v))
      in if \<not> fv_is_fresh now3 v
         then (Inl (make_error DataStale (''funds view is stale and could not be refreshed''
                 @ (if root_cause \<noteq> [] then '': '' @ root_cause else [])) []), v)
         else (Inr (fv_snapshot v), v))"

definition check_margin ::
    "funds_snapshot result \<Rightarrow> int64 \<Rightarrow> int64 \<Rightarrow> int64 \<Rightarrow> int64 \<Rightarrow> funds_view \<Rightarrow> unit result \<times> funds_view" where
  "check_margin fetched now1 now2 now3 required v =
     (case ensure_fresh fetched now1 now2 now3 v of
        (Inl e, v) \<Rightarrow> (Inl e, v)
      | (Inr f, v) \<Rightarrow>
          let available = money_paise (fs_available_margin f) in
          if available \<ge> required then (Inr (), v)
          else (Inl ((make_error InsufficientFunds (''insufficient margin: available '' @ show_int available
                  @ '' paise < required '' @ show_int required @ '' paise'') []) \<lparr>err_action := DoNotRetry\<rparr>), v))"

text \<open>A passed margin check rests on a snapshot that was fresh when it was read, and that either was
  fresh already or was fetched by this very call; a failed fetch changes nothing.\<close>

lemma check_margin_sound:
  assumes "check_margin fetched now1 now2 now3 required v = (Inr u, v')"
  shows "fv_is_fresh now3 v' \<and> required \<le> money_paise (fs_available_margin (fv_snapshot v'))
    \<and> (v' = v \<and> fv_is_fresh now1 v \<or> (\<exists>snap. fetched = Inr snap \<and> fv_snapshot v' = snap \<and> fv_fetched_at v' = now2)
       \<or> v' = v \<and> (\<exists>e. fetched = Inl e))"
  using assms
  by (auto simp: check_margin_def ensure_fresh_def fv_refresh_def Let_def split: sum.splits if_splits prod.splits)

lemma stale_funds_block:
  assumes "\<not> fv_is_fresh now1 v" "fetched = Inl e" "now1 \<le> now3"
  shows "\<exists>msg. check_margin fetched now1 now2 now3 required v = (Inl (make_error DataStale msg []), v)"
proof -
  have "\<not> fv_is_fresh now3 v" using assms(1,3) by (auto simp: fv_is_fresh_def split: if_splits)
  then show ?thesis using assms(1,2) by (auto simp: check_margin_def ensure_fresh_def fv_refresh_def Let_def)
qed

end
