(* ===== verification/Slicing.thy ===== *)
theory Slicing
  imports Signal Errors
begin

text \<open>
  \<^verbatim>\<open>slicing/freeze_slicer.cpp\<close>: an order above the exchange's freeze quantity is cut into children
  that each stay below it.
\<close>

definition slice_error :: "string \<Rightarrow> order_intent list result" where
  "slice_error message = Inl (make_error Validation message [])"

definition slicer_child_ref :: "string \<Rightarrow> int64 \<Rightarrow> string" where
  "slicer_child_ref parent_client_ref k = parent_client_ref @ ''#'' @ show_int k"

definition make_child :: "order_intent \<Rightarrow> int64 \<Rightarrow> int64 \<Rightarrow> order_intent" where
  "make_child parent q k = parent \<lparr>oi_quantity := Quantity q,
     oi_client_ref := slicer_child_ref (oi_client_ref parent) k\<rparr>"

definition slice :: "order_intent \<Rightarrow> instrument \<Rightarrow> order_intent list result" where
  "slice parent inst =
     (let qty = qty_value (oi_quantity parent); freeze = qty_value (ins_freeze_qty inst);
          lot = qty_value (ins_lot_size inst) in
      if CHR ''#'' \<in> set (oi_client_ref parent)
      then slice_error ''freeze slicer: cannot slice a child order ref''
      else if lot \<le> 0 then slice_error ''freeze slicer: lot size must be positive''
      else if qty \<le> 0 then slice_error ''freeze slicer: order quantity must be positive''
      else if qty < lot \<or> qty mod lot \<noteq> 0 then slice_error ''freeze slicer: order quantity is not lot-aligned''
      else if freeze \<le> 0 then slice_error ''freeze slicer: freeze quantity must be positive''
      else if freeze < lot then slice_error ''freeze slicer: freeze quantity is below one lot''
      else if qty \<le> freeze then Inr [parent]
      else
        let chunk = (freeze div lot) * lot; full = qty div chunk; rem = qty mod chunk
        in Inr (map (make_child parent chunk) [1 .. full]
                @ (if rem > 0 then [make_child parent rem (full + 1)] else [])))"

section \<open>Conservation\<close>

definition slice_input_ok :: "order_intent \<Rightarrow> instrument \<Rightarrow> bool" where
  "slice_input_ok parent inst \<longleftrightarrow> CHR ''#'' \<notin> set (oi_client_ref parent)
     \<and> 0 < qty_value (ins_lot_size inst) \<and> 0 < qty_value (oi_quantity parent)
     \<and> qty_value (ins_lot_size inst) dvd qty_value (oi_quantity parent)
     \<and> qty_value (ins_lot_size inst) \<le> qty_value (ins_freeze_qty inst)"

lemma slice_cases:
  fixes parent inst
  defines "qty \<equiv> qty_value (oi_quantity parent)" and "freeze \<equiv> qty_value (ins_freeze_qty inst)"
    and "lot \<equiv> qty_value (ins_lot_size inst)"
  shows "slice_input_ok parent inst \<Longrightarrow> slice parent inst =
      (if qty \<le> freeze then Inr [parent]
       else let chunk = (freeze div lot) * lot; full = qty div chunk; rem = qty mod chunk
         in Inr (map (make_child parent chunk) [1 .. full]
              @ (if rem > 0 then [make_child parent rem (full + 1)] else [])))"
    and "\<not> slice_input_ok parent inst \<Longrightarrow> \<exists>e. slice parent inst = Inl e \<and> err_category e = Validation"
proof -
  have al: "(qty < lot \<or> qty mod lot \<noteq> 0) \<longleftrightarrow> \<not> lot dvd qty" if "0 < lot" "0 < qty"
    using that by (auto simp: dvd_eq_mod_eq_0 dest: zmod_trivial_iff [THEN iffD2])
  show "slice_input_ok parent inst \<Longrightarrow> slice parent inst =
      (if qty \<le> freeze then Inr [parent]
       else let chunk = (freeze div lot) * lot; full = qty div chunk; rem = qty mod chunk
         in Inr (map (make_child parent chunk) [1 .. full]
              @ (if rem > 0 then [make_child parent rem (full + 1)] else [])))"
    using al unfolding slice_def slice_input_ok_def Let_def
    by (fold qty_def freeze_def lot_def) auto
  show "\<not> slice_input_ok parent inst \<Longrightarrow> \<exists>e. slice parent inst = Inl e \<and> err_category e = Validation"
    using al unfolding slice_def slice_input_ok_def Let_def slice_error_def make_error_def
    by (fold qty_def freeze_def lot_def) (auto simp: not_le)
qed

text \<open>The children in one shape: \<open>n\<close> references counted from one, and their quantities.\<close>

lemma slice_children:
  fixes parent :: order_intent and chunk qty :: int
  assumes "0 < chunk" "0 < qty" "chunk \<le> qty"
  defines "full \<equiv> qty div chunk" and "rem \<equiv> qty mod chunk"
  defines "children \<equiv> map (make_child parent chunk) [1 .. full] @ (if rem > 0 then [make_child parent rem (full + 1)] else [])"
  shows "sum_list (map (\<lambda>c. qty_value (oi_quantity c)) children) = qty"
    and "\<forall>c \<in> set children. 0 < qty_value (oi_quantity c) \<and> qty_value (oi_quantity c) \<le> chunk
          \<and> (\<forall>lot. lot dvd chunk \<and> lot dvd qty \<longrightarrow> lot dvd qty_value (oi_quantity c))
          \<and> (\<exists>q k. c = make_child parent q k)"
    and "map oi_client_ref children = map (slicer_child_ref (oi_client_ref parent)) [1 .. int (length children)]"
    and "int (length children) = (if rem > 0 then full + 1 else full)"
proof -
  have f: "0 < full" using assms(1-3) by (simp add: full_def pos_imp_zdiv_pos_iff)
  have r: "0 \<le> rem" "rem < chunk" "full * chunk + rem = qty" using assms(1) by (simp_all add: rem_def full_def)
  have q: "qty_value (oi_quantity (make_child parent x k)) = x" "oi_client_ref (make_child parent x k) = slicer_child_ref (oi_client_ref parent) k" for x k
    by (simp_all add: make_child_def)
  have "sum_list (map (\<lambda>c. qty_value (oi_quantity c)) (map (make_child parent chunk) [1 .. full])) = full * chunk"
    using f by (simp add: comp_def q sum_list_triv)
  then show "sum_list (map (\<lambda>c. qty_value (oi_quantity c)) children) = qty"
    using r by (simp add: children_def q)
  have dr: "lot dvd rem" if "lot dvd chunk" "lot dvd qty" for lot using that by (simp add: rem_def dvd_mod)
  have shape: "\<exists>x k. c = make_child parent x k \<and> (x = chunk \<or> x = rem \<and> 0 < rem)" if w: "c \<in> set children" for c
    using w unfolding children_def by (auto split: if_splits)
  show "\<forall>c \<in> set children. 0 < qty_value (oi_quantity c) \<and> qty_value (oi_quantity c) \<le> chunk
      \<and> (\<forall>lot. lot dvd chunk \<and> lot dvd qty \<longrightarrow> lot dvd qty_value (oi_quantity c))
      \<and> (\<exists>q k. c = make_child parent q k)"
  proof
    fix c assume "c \<in> set children"
    then obtain x k where c: "c = make_child parent x k" and x: "x = chunk \<or> x = rem \<and> 0 < rem"
      using shape by blast
    have "0 < x \<and> x \<le> chunk \<and> (\<forall>lot. lot dvd chunk \<and> lot dvd qty \<longrightarrow> lot dvd x)"
      using x assms(1) r(2) dr by auto
    then show "0 < qty_value (oi_quantity c) \<and> qty_value (oi_quantity c) \<le> chunk
        \<and> (\<forall>lot. lot dvd chunk \<and> lot dvd qty \<longrightarrow> lot dvd qty_value (oi_quantity c))
        \<and> (\<exists>q k. c = make_child parent q k)"
      using c by (simp add: q(1)) blast
  qed
  show l: "int (length children) = (if rem > 0 then full + 1 else full)" using f by (simp add: children_def)
  have "[1 .. full + 1] = [1 .. full] @ [full + 1]" using f by (simp add: upto_rec2)
  then show "map oi_client_ref children = map (slicer_child_ref (oi_client_ref parent)) [1 .. int (length children)]"
    unfolding l by (simp add: children_def q comp_def)
qed

lemma slicer_child_ref_child_ref: "1 \<le> k \<Longrightarrow> slicer_child_ref p k = child_ref p k"
  by (simp add: slicer_child_ref_def child_ref_eq show_int_def)

lemma slice_spec:
  "(if slice_input_ok parent inst
    then \<exists>children. slice parent inst = Inr children
      \<and> sum_list (map (\<lambda>c. qty_value (oi_quantity c)) children) = qty_value (oi_quantity parent)
      \<and> list_all (\<lambda>c. 0 < qty_value (oi_quantity c)
            \<and> qty_value (oi_quantity c) \<le> qty_value (ins_freeze_qty inst)
            \<and> qty_value (ins_lot_size inst) dvd qty_value (oi_quantity c)
            \<and> c \<lparr>oi_quantity := oi_quantity parent, oi_client_ref := oi_client_ref parent\<rparr> = parent) children
      \<and> (if qty_value (oi_quantity parent) \<le> qty_value (ins_freeze_qty inst) then children = [parent]
         else map oi_client_ref children = map (child_ref (oi_client_ref parent)) [1 .. int (length children)]
              \<and> distinct (map oi_client_ref children))
    else \<exists>e. slice parent inst = Inl e \<and> err_category e = Validation)"
proof (cases "slice_input_ok parent inst")
  case False
  then show ?thesis using slice_cases(2) by simp
next
  case True
  let ?qty = "qty_value (oi_quantity parent)" and ?freeze = "qty_value (ins_freeze_qty inst)"
    and ?lot = "qty_value (ins_lot_size inst)"
  have in_ok: "0 < ?lot" "0 < ?qty" "?lot dvd ?qty" "?lot \<le> ?freeze" using True by (auto simp: slice_input_ok_def)
  show ?thesis
  proof (cases "?qty \<le> ?freeze")
    case le: True
    then have "slice parent inst = Inr [parent]" using slice_cases(1) [OF True] by simp
    then show ?thesis using True le in_ok by simp
  next
    case gt: False
    define chunk where "chunk = (?freeze div ?lot) * ?lot"
    have md: "0 \<le> ?freeze mod ?lot" "?freeze mod ?lot < ?lot" "chunk = ?freeze - ?freeze mod ?lot"
      using in_ok(1) by (simp_all add: chunk_def minus_mod_eq_div_mult)
    have c: "0 < chunk" "chunk \<le> ?freeze" "?lot dvd chunk"
      using md in_ok(4) by (linarith, linarith, simp add: chunk_def)
    then have cq: "chunk \<le> ?qty" using gt by simp
    define children where "children = map (make_child parent chunk) [1 .. ?qty div chunk]
      @ (if 0 < ?qty mod chunk then [make_child parent (?qty mod chunk) (?qty div chunk + 1)] else [])"
    have s: "slice parent inst = Inr children"
      using slice_cases(1) [OF True] gt by (simp add: children_def chunk_def Let_def)
    note ch = slice_children [OF c(1) in_ok(2) cq, of parent, folded children_def]
    have refs: "map oi_client_ref children = map (child_ref (oi_client_ref parent)) [1 .. int (length children)]"
      unfolding ch(3) by (simp add: slicer_child_ref_child_ref)
    have "inj_on (child_ref (oi_client_ref parent)) {1 .. int (length children)}"
      by (auto simp: inj_on_def child_ref_inject max_def)
    then have "distinct (map oi_client_ref children)" unfolding refs by (simp add: distinct_map)
    moreover have "list_all (\<lambda>x. 0 < qty_value (oi_quantity x) \<and> qty_value (oi_quantity x) \<le> ?freeze
        \<and> ?lot dvd qty_value (oi_quantity x)
        \<and> x \<lparr>oi_quantity := oi_quantity parent, oi_client_ref := oi_client_ref parent\<rparr> = parent) children"
      using ch(2) c in_ok(3) by (fastforce simp: list_all_iff make_child_def)
    ultimately show ?thesis using True s ch(1) refs gt by auto
  qed
qed

text \<open>C19. Slicing conserves the order.  It succeeds exactly for a positive, lot-aligned quantity under a
  reference that is not itself a slice and a freeze ceiling of at least one lot.  Then the children's
  quantities add up to the parent's; each is positive, lot-aligned and at most the ceiling; each
  child differs from the parent in quantity and reference only, so a trigger price is inherited; an
  order within the ceiling is passed on unchanged; otherwise the references are the canonical slice
  references \<open>1, 2, ...\<close> of the parent, pairwise distinct.\<close>

theorem slice_conserves:
  "(if slice_input_ok parent inst
    then \<exists>children. slice parent inst = Inr children
      \<and> sum_list (map (\<lambda>c. qty_value (oi_quantity c)) children) = qty_value (oi_quantity parent)
      \<and> list_all (\<lambda>c. 0 < qty_value (oi_quantity c)
            \<and> qty_value (oi_quantity c) \<le> qty_value (ins_freeze_qty inst)
            \<and> qty_value (ins_lot_size inst) dvd qty_value (oi_quantity c)
            \<and> c \<lparr>oi_quantity := oi_quantity parent, oi_client_ref := oi_client_ref parent\<rparr> = parent) children
      \<and> (if qty_value (oi_quantity parent) \<le> qty_value (ins_freeze_qty inst) then children = [parent]
         else map oi_client_ref children = map (child_ref (oi_client_ref parent)) [1 .. int (length children)]
              \<and> distinct (map oi_client_ref children))
    else \<exists>e. slice parent inst = Inl e \<and> err_category e = Validation)"
  by (rule slice_spec)

end
