(* ===== verification/Redaction.thy ===== *)
theory Redaction
  imports Prelude Utf8 Signal
begin

text \<open>
  \<^verbatim>\<open>domain/redaction.cpp\<close>: the scrubber that every sink of the program runs its text through, the
  shape rules of typed provenance columns, the rules for strategy names and the rendering of a
  provenance block.

  A position of the C++ text is the pair of the bytes before it and the bytes from it on, so that a
  loop over positions is a recursion over the rest of the text.
\<close>

section \<open>Character classes\<close>

definition to_lower_ascii :: "char \<Rightarrow> char" where
  "to_lower_ascii c = (if 65 \<le> byte c \<and> byte c \<le> 90 then char_of (byte c - 65 + 97) else c)"

definition is_letter :: "char \<Rightarrow> bool" where
  "is_letter c \<longleftrightarrow> (65 \<le> byte c \<and> byte c \<le> 90) \<or> (97 \<le> byte c \<and> byte c \<le> 122)"

definition is_upper_letter :: "char \<Rightarrow> bool" where
  "is_upper_letter c \<longleftrightarrow> 65 \<le> byte c \<and> byte c \<le> 90"

definition is_digit :: "char \<Rightarrow> bool" where
  "is_digit c \<longleftrightarrow> 48 \<le> byte c \<and> byte c \<le> 57"

definition is_hex_digit :: "char \<Rightarrow> bool" where
  "is_hex_digit c \<longleftrightarrow> is_digit c \<or> (97 \<le> byte c \<and> byte c \<le> 102) \<or> (65 \<le> byte c \<and> byte c \<le> 70)"

definition is_token_char :: "char \<Rightarrow> bool" where
  "is_token_char c \<longleftrightarrow> is_letter c \<or> is_digit c \<or> c = CHR ''_'' \<or> c = CHR ''-''"

definition is_alnum :: "char \<Rightarrow> bool" where
  "is_alnum c \<longleftrightarrow> is_letter c \<or> is_digit c"

definition is_provenance_id_char :: "char \<Rightarrow> bool" where
  "is_provenance_id_char c \<longleftrightarrow> is_token_char c \<or> c = CHR ''#''"

definition is_space_char :: "char \<Rightarrow> bool" where
  "is_space_char c \<longleftrightarrow>
     c \<in> {CHR '' '', CHR 0x09, CHR 0x0D, CHR 0x0A, CHR 0x0C, CHR 0x0B}"

definition is_value_delim :: "char \<Rightarrow> bool" where
  "is_value_delim c \<longleftrightarrow>
     c \<in> {CHR '' '', CHR 0x09, CHR 0x0D, CHR 0x0A, CHR 0x0C, CHR 0x0B, CHR ''&'', CHR '','',
          CHR '';'', CHR 0x22, CHR 0x27, CHR ''}'', CHR '']'', CHR '')'', CHR ''<'', CHR ''>'', CHR ''|''}"

definition is_quote :: "char \<Rightarrow> bool" where
  "is_quote c \<longleftrightarrow> c = CHR 0x22 \<or> c = CHR 0x27"

section \<open>Needles\<close>

definition kRedactionMarker :: string where
  "kRedactionMarker = ''***REDACTED***''"

definition kSensitiveKeyNeedles :: "string list" where
  "kSensitiveKeyNeedles = [''token'', ''secret'', ''password'', ''api_key'', ''api-key'', ''apikey'',
     ''mpin'', ''totp'', ''bearer'']"

definition kAuthContextNeedles :: "string list" where
  "kAuthContextNeedles = [''mpin'', ''totp'', ''otp'', ''pin'']"

text \<open>The comparison loop over the bytes of a needle, at offset \<open>i\<close> of the text.\<close>

definition needle_at :: "string \<Rightarrow> string \<Rightarrow> nat \<Rightarrow> bool" where
  "needle_at needle s i \<longleftrightarrow> map to_lower_ascii (take (length needle) (drop i s)) = needle"

definition key_is_sensitive :: "string \<Rightarrow> bool" where
  "key_is_sensitive key =
     list_ex (\<lambda>needle. length needle \<le> length key
        \<and> list_ex (needle_at needle key) [0..<length key - length needle + 1]) kSensitiveKeyNeedles"

definition auth_window :: "string \<Rightarrow> string" where
  "auth_window pre = drop (length pre - 10) pre"

definition auth_context_before :: "string \<Rightarrow> bool" where
  "auth_context_before pre =
     (let window = auth_window pre in
      list_ex (\<lambda>needle. length needle \<le> length window
        \<and> list_ex (\<lambda>i. needle_at needle window i
             \<and> (i = 0 \<or> \<not> is_letter (window ! (i - 1)))
             \<and> (i + length needle = length window \<or> \<not> is_letter (window ! (i + length needle))))
            [0..<length window - length needle + 1]) kAuthContextNeedles)"

definition run_has_letter_and_digit :: "string \<Rightarrow> bool" where
  "run_has_letter_and_digit run \<longleftrightarrow> list_ex is_letter run \<and> list_ex is_digit run"

definition run_is_all_digits :: "string \<Rightarrow> bool" where
  "run_is_all_digits run \<longleftrightarrow> list_all is_digit run \<and> run \<noteq> []"

section \<open>The scrubber\<close>

text \<open>The value of a matched key, quoted or bare, at the start of \<open>r\<close>; then \<^verbatim>\<open>try_key_value\<close> at the start
  of \<open>s\<close>: the bytes it emits and the text it leaves, or \<open>None\<close> for \<^verbatim>\<open>kNoMatch\<close>.\<close>

definition redact_value :: "string \<Rightarrow> string \<times> string" where
  "redact_value r =
     (case r of
        q # vs \<Rightarrow>
          if is_quote q then
            let v = takeWhile (\<lambda>x. x \<noteq> q) vs in
            ([q] @ (if v \<noteq> [] then kRedactionMarker else []), drop (length v) vs)
          else
            let v = takeWhile (\<lambda>x. \<not> is_value_delim x) r in
            ((if v \<noteq> [] then kRedactionMarker else []), drop (length v) r)
      | [] \<Rightarrow> ([], []))"

definition try_key_value :: "string \<Rightarrow> (string \<times> string) option" where
  "try_key_value s =
     (let key = takeWhile is_token_char s; r = drop (length key) s in
      if key = [] \<or> \<not> key_is_sensitive key then None
      else
        let r = (case r of c # cs \<Rightarrow> if is_quote c then cs else r | [] \<Rightarrow> r);
            r = dropWhile is_space_char r
        in case r of
             [] \<Rightarrow> None
           | c # cs \<Rightarrow>
               if c \<noteq> CHR '':'' \<and> c \<noteq> CHR ''='' then None
               else
                 let r = dropWhile is_space_char cs;
                     out = take (length s - length r) s;
                     (value_out, r') = redact_value r
                 in Some (out @ value_out, r'))"

text \<open>What a match looks like: the key, an optional closing quote, blanks around the separator, an
  optional opening quote, the value and the text left over.\<close>

definition kv_value :: "string \<Rightarrow> string \<Rightarrow> string \<Rightarrow> bool" where
  "kv_value opener v r \<longleftrightarrow>
     (\<exists>q. opener = [q] \<and> is_quote q \<and> q \<notin> set v \<and> (r = [] \<or> hd r = q))
     \<or> (opener = [] \<and> list_all (\<lambda>x. \<not> is_value_delim x) v \<and> (r = [] \<or> is_value_delim (hd r))
        \<and> (v @ r = [] \<or> (\<not> is_quote (hd (v @ r)) \<and> \<not> is_space_char (hd (v @ r)))))"

definition kv_head :: "string \<Rightarrow> bool" where
  "kv_head h \<longleftrightarrow> (\<exists>key q1 ws1 sep ws2. h = key @ q1 @ ws1 @ [sep] @ ws2
     \<and> key \<noteq> [] \<and> list_all is_token_char key \<and> key_is_sensitive key
     \<and> (q1 = [] \<or> (\<exists>c. q1 = [c] \<and> is_quote c)) \<and> list_all is_space_char ws1
     \<and> (sep = CHR '':'' \<or> sep = CHR ''='') \<and> list_all is_space_char ws2)"

lemmas char_class_defs = is_letter_def is_upper_letter_def is_digit_def is_hex_digit_def
  is_token_char_def is_alnum_def is_provenance_id_char_def

lemma nontoken [simp]:
  "is_quote c \<Longrightarrow> \<not> is_token_char c" "is_space_char c \<Longrightarrow> \<not> is_token_char c"
  "is_value_delim c \<Longrightarrow> \<not> is_token_char c" "\<not> is_token_char (CHR '':'')" "\<not> is_token_char (CHR ''='')"
  "\<not> is_token_char (CHR ''*'')"
  by (auto simp: is_quote_def is_space_char_def is_value_delim_def char_class_defs)

lemma sep_facts [simp]:
  "\<not> is_space_char (CHR '':'')" "\<not> is_space_char (CHR ''='')" "\<not> is_quote (CHR '':'')" "\<not> is_quote (CHR ''='')"
  "\<not> is_quote (CHR ''*'')" "\<not> is_space_char (CHR ''*'')"
  "is_quote c \<Longrightarrow> \<not> is_space_char c" "is_quote c \<Longrightarrow> is_value_delim c" "is_space_char c \<Longrightarrow> is_value_delim c"
  by (auto simp: is_space_char_def is_quote_def is_value_delim_def)

lemma takeWhile_stop: "list_all P xs \<Longrightarrow> ys = [] \<or> \<not> P (hd ys) \<Longrightarrow> takeWhile P (xs @ ys) = xs"
  by (cases ys) (auto simp: list_all_iff takeWhile_append2)

lemma dropWhile_stop: "list_all P xs \<Longrightarrow> ys = [] \<or> \<not> P (hd ys) \<Longrightarrow> dropWhile P (xs @ ys) = ys"
  by (cases ys) (auto simp: list_all_iff dropWhile_append2)

lemma redact_value_intro:
  assumes "kv_value opener v r"
  shows "redact_value (opener @ v @ r) = (opener @ (if v = [] then [] else kRedactionMarker), r)"
proof -
  consider (quoted) q where "opener = [q]" "is_quote q" "q \<notin> set v" "r = [] \<or> hd r = q"
    | (bare) "opener = []" "list_all (\<lambda>x. \<not> is_value_delim x) v" "r = [] \<or> is_value_delim (hd r)"
        "v @ r = [] \<or> (\<not> is_quote (hd (v @ r)) \<and> \<not> is_space_char (hd (v @ r)))"
    using assms unfolding kv_value_def by blast
  then show ?thesis
  proof cases
    case quoted
    then have "takeWhile (\<lambda>x. x \<noteq> q) (v @ r) = v"
      by (intro takeWhile_stop) (auto simp: list_all_iff)
    with quoted show ?thesis by (simp add: redact_value_def)
  next
    case bare
    then have tw: "takeWhile (\<lambda>x. \<not> is_value_delim x) (v @ r) = v"
      by (intro takeWhile_stop) auto
    show ?thesis
    proof (cases "v @ r")
      case (Cons c cs)
      then have "drop (length v) (c # cs) = r" by (metis append_eq_conv_conj)
      then show ?thesis unfolding bare(1) append_Nil redact_value_def Let_def tw
        using bare(4) Cons by simp
    qed (simp add: bare(1) redact_value_def)
  qed
qed

lemma redact_value_elim:
  assumes "redact_value s = (out, r)" "s = [] \<or> \<not> is_space_char (hd s)"
  obtains opener v where "kv_value opener v r" "s = opener @ v @ r"
    "out = opener @ (if v = [] then [] else kRedactionMarker)"
proof (cases s)
  case Nil
  then show thesis using that [of "[]" "[]"] assms(1) by (simp add: redact_value_def kv_value_def)
next
  case (Cons q vs)
  show thesis
  proof (cases "is_quote q")
    case True
    let ?v = "takeWhile (\<lambda>x. x \<noteq> q) vs"
    have r: "r = dropWhile (\<lambda>x. x \<noteq> q) vs" and out: "out = [q] @ (if ?v = [] then [] else kRedactionMarker)"
      using assms(1) Cons True by (auto simp: redact_value_def dropWhile_eq_drop Let_def)
    have "kv_value [q] ?v r" using True hd_dropWhile [of "\<lambda>x. x \<noteq> q" vs]
      by (auto simp: kv_value_def r dest: set_takeWhileD)
    then show thesis using that [of "[q]" ?v] Cons out r by simp
  next
    case False
    let ?v = "takeWhile (\<lambda>x. \<not> is_value_delim x) s"
    have r: "r = dropWhile (\<lambda>x. \<not> is_value_delim x) s" and out: "out = (if ?v = [] then [] else kRedactionMarker)"
      using assms(1) Cons False by (auto simp: redact_value_def dropWhile_eq_drop Let_def)
    have "r = [] \<or> is_value_delim (hd r)" using hd_dropWhile r by metis
    moreover have "list_all (\<lambda>x. \<not> is_value_delim x) ?v" by (auto simp: list_all_iff dest: set_takeWhileD)
    moreover have "?v @ r = s" by (simp add: r)
    ultimately have "kv_value [] ?v r" using False Cons assms(2) by (auto simp: kv_value_def)
    then show thesis using that [of "[]" ?v] out r by simp
  qed
qed

text \<open>A sensitive key with a separator always matches, whatever follows.\<close>

lemma try_key_value_sep:
  fixes z :: string
  assumes key: "key \<noteq> []" "list_all is_token_char key" "key_is_sensitive key"
    and q1: "q1 = [] \<or> (\<exists>c. q1 = [c] \<and> is_quote c)" and ws: "list_all is_space_char ws1"
    and sep: "sep = CHR '':'' \<or> sep = CHR ''=''"
  defines "s \<equiv> key @ q1 @ ws1 @ sep # z" and "u \<equiv> dropWhile is_space_char z"
  shows "try_key_value s =
    Some (take (length s - length u) s @ fst (redact_value u), snd (redact_value u))"
proof -
  define t where "t = ws1 @ sep # z"
  have s: "s = key @ q1 @ t" by (simp add: s_def t_def)
  have hd_t: "\<not> is_token_char (hd t)" "\<not> is_quote (hd t)" "t \<noteq> []"
    using ws sep by (cases ws1; auto simp: t_def)+
  have tw: "takeWhile is_token_char s = key"
    unfolding s using key(2) q1 hd_t by (intro takeWhile_stop) auto
  have r0: "drop (length key) s = q1 @ t" by (simp add: s)
  have dq: "(case q1 @ t of [] \<Rightarrow> q1 @ t | c # cs \<Rightarrow> if is_quote c then cs else q1 @ t) = t"
    using q1 hd_t by (cases t) auto
  have dw: "dropWhile is_space_char t = sep # z"
    unfolding t_def using ws sep by (subst dropWhile_stop) auto
  show ?thesis unfolding try_key_value_def Let_def tw r0 dq dw list.case u_def [symmetric]
    using key sep by (auto simp: case_prod_unfold)
qed

lemma try_key_value_intro:
  assumes "kv_head h" "kv_value opener v r"
  shows "try_key_value (h @ opener @ v @ r) =
    Some (h @ opener @ (if v = [] then [] else kRedactionMarker), r)"
proof -
  from assms(1) obtain key q1 ws1 sep ws2 where h: "h = key @ q1 @ ws1 @ [sep] @ ws2"
    and key: "key \<noteq> []" "list_all is_token_char key" "key_is_sensitive key"
    and q1: "q1 = [] \<or> (\<exists>c. q1 = [c] \<and> is_quote c)" and ws: "list_all is_space_char ws1" "list_all is_space_char ws2"
    and sep: "sep = CHR '':'' \<or> sep = CHR ''=''" unfolding kv_head_def by blast
  define u where "u = opener @ v @ r"
  have dw2: "dropWhile is_space_char (ws2 @ u) = u"
    unfolding u_def using ws(2) assms(2) by (intro dropWhile_stop) (auto simp: kv_value_def)
  show ?thesis
    using try_key_value_sep [OF key q1 ws(1) sep, of "ws2 @ u", unfolded dw2] redact_value_intro [OF assms(2)]
    by (simp add: h u_def)
qed

lemma try_key_value_elim:
  assumes "try_key_value s = Some (out, r)"
  obtains h opener v where "kv_head h" "kv_value opener v r" "s = h @ opener @ v @ r"
    "out = h @ opener @ (if v = [] then [] else kRedactionMarker)"
proof -
  define key where "key = takeWhile is_token_char s"
  define r0 where "r0 = drop (length key) s"
  define r1 where "r1 = (case r0 of c # cs \<Rightarrow> if is_quote c then cs else r0 | [] \<Rightarrow> r0)"
  define q1 where "q1 = (case r0 of c # cs \<Rightarrow> if is_quote c then [c] else [] | [] \<Rightarrow> [])"
  define ws1 where "ws1 = takeWhile is_space_char r1"
  have s: "s = key @ r0" unfolding r0_def key_def by (metis dropWhile_eq_drop takeWhile_dropWhile_id)
  have r0: "r0 = q1 @ r1" by (auto simp: r1_def q1_def split: list.split)
  have q1: "q1 = [] \<or> (\<exists>c. q1 = [c] \<and> is_quote c)" by (auto simp: q1_def split: list.split)
  have r1: "r1 = ws1 @ dropWhile is_space_char r1" by (simp add: ws1_def)
  note a = assms [unfolded try_key_value_def Let_def, folded key_def, folded r0_def, folded r1_def]
  have k: "key \<noteq> []" "key_is_sensitive key" using a by (auto split: if_splits)
  have tok: "list_all is_token_char key" by (auto simp: key_def list_all_iff dest: set_takeWhileD)
  from a obtain sep cs where sep: "dropWhile is_space_char r1 = sep # cs" "sep = CHR '':'' \<or> sep = CHR ''=''"
    by (auto split: if_splits list.splits)
  define r2 where "r2 = dropWhile is_space_char cs"
  define ws2 where "ws2 = takeWhile is_space_char cs"
  define h where "h = key @ q1 @ ws1 @ [sep] @ ws2"
  have cs: "cs = ws2 @ r2" by (simp add: ws2_def r2_def)
  have s2: "s = h @ r2" using s r0 r1 sep(1) cs by (simp add: h_def)
  have tk: "take (length s - length r2) s = h" using s2 by simp
  have head: "kv_head h" unfolding kv_head_def
    using k tok q1 sep(2) by (intro exI [of _ key] exI [of _ q1] exI [of _ ws1] exI [of _ sep] exI [of _ ws2])
      (auto simp: h_def ws1_def ws2_def list_all_iff dest: set_takeWhileD)
  have "Some (h @ fst (redact_value r2), snd (redact_value r2)) = Some (out, r)"
    using a sep(2) k unfolding sep(1) list.case r2_def [symmetric] tk
    by (auto simp: case_prod_unfold split: if_splits)
  then have rv: "redact_value r2 = (fst (redact_value r2), r)" "out = h @ fst (redact_value r2)"
    by (auto simp: prod_eq_iff)
  have "r2 = [] \<or> \<not> is_space_char (hd r2)" unfolding r2_def using hd_dropWhile by blast
  from redact_value_elim [OF rv(1) this] obtain opener v where "kv_value opener v r"
    "r2 = opener @ v @ r" "fst (redact_value r2) = opener @ (if v = [] then [] else kRedactionMarker)" .
  then show thesis using that [OF head] s2 rv(2) by simp
qed

lemma kv_head_nonempty: "kv_head h \<Longrightarrow> h \<noteq> []"
  by (auto simp: kv_head_def)

lemma try_key_value_shrinks: "try_key_value s = Some (out, r) \<Longrightarrow> length r < length s"
  by (erule try_key_value_elim) (auto dest: kv_head_nonempty)

lemma drop_run_shorter: "s \<noteq> [] \<Longrightarrow> P (hd s) \<Longrightarrow> length s - length (takeWhile P s) < length s"
  by (cases s) auto

text \<open>The main loop at the position after \<open>pre\<close>.\<close>

function scrub_loop :: "string \<Rightarrow> string \<Rightarrow> string" where
  "scrub_loop pre s =
     (if s = [] then []
      else if is_token_char (hd s) \<and> (pre = [] \<or> \<not> is_token_char (last pre)) then
        case try_key_value s of
          Some (out, r) \<Rightarrow> out @ scrub_loop (pre @ take (length s - length r) s) r
        | None \<Rightarrow>
            let run = takeWhile is_token_char s; r = drop (length run) s in
            if 20 \<le> length run \<and> run_has_letter_and_digit run
            then kRedactionMarker @ scrub_loop (pre @ run) r
            else if 4 \<le> length run \<and> length run \<le> 8 \<and> run_is_all_digits run \<and> auth_context_before pre
            then kRedactionMarker @ scrub_loop (pre @ run) r
            else run @ scrub_loop (pre @ run) r
      else hd s # scrub_loop (pre @ [hd s]) (tl s))"
  by pat_completeness auto
termination by (relation "measure (length \<circ> snd)") (auto simp: Let_def drop_run_shorter dest: try_key_value_shrinks)

declare scrub_loop.simps [simp del]

definition scrub :: "string \<Rightarrow> string" where
  "scrub s = scrub_loop [] s"

section \<open>Typed columns\<close>

definition kMaxProvenanceIdChars :: nat where
  "kMaxProvenanceIdChars = 128"

definition kMaxStrategyNameChars :: nat where
  "kMaxStrategyNameChars = 64"

definition kMaxInstrumentSymbolChars :: nat where
  "kMaxInstrumentSymbolChars = 32"

text \<open>The loop of \<^verbatim>\<open>is_provenance_id_shape\<close>: the number of segments so far, whether one is open, and its
  two homogeneity flags.\<close>

fun shape_loop :: "nat \<Rightarrow> bool \<Rightarrow> bool \<Rightarrow> bool \<Rightarrow> string \<Rightarrow> bool" where
  "shape_loop segments in_segment all_letters all_hex [] = (2 \<le> segments)"
| "shape_loop segments in_segment all_letters all_hex (c # cs) =
     (if \<not> is_provenance_id_char c then False
      else if is_alnum c then
        let (segments, all_letters, all_hex) =
              (if \<not> in_segment then (segments + 1, True, True) else (segments, all_letters, all_hex));
            all_letters = (all_letters \<and> is_letter c);
            all_hex = (all_hex \<and> is_hex_digit c)
        in if \<not> all_letters \<and> \<not> all_hex then False
           else shape_loop segments True all_letters all_hex cs
      else shape_loop segments False all_letters all_hex cs)"

definition is_provenance_id_shape :: "string \<Rightarrow> bool" where
  "is_provenance_id_shape s =
     (if s = [] \<or> length s > kMaxProvenanceIdChars then False
      else shape_loop 0 False False False s)"

definition scrub_provenance_column :: "string \<Rightarrow> string" where
  "scrub_provenance_column s = (if is_provenance_id_shape s then s else scrub s)"

definition is_instrument_symbol_shape :: "string \<Rightarrow> bool" where
  "is_instrument_symbol_shape s =
     (if s = [] \<or> length s > kMaxInstrumentSymbolChars then False
      else list_all (\<lambda>c. is_upper_letter c \<or> is_digit c) s)"

definition scrub_symbol_column :: "string \<Rightarrow> string" where
  "scrub_symbol_column s = (if is_instrument_symbol_shape s then s else scrub s)"

section \<open>Strategy names\<close>

definition is_strategy_name_char :: "char \<Rightarrow> bool" where
  "is_strategy_name_char c = is_token_char c"

function first_mixed_segment :: "string \<Rightarrow> string" where
  "first_mixed_segment name =
     (if name = [] then []
      else if \<not> is_alnum (hd name) then first_mixed_segment (tl name)
      else
        let seg = takeWhile is_alnum name in
        if \<not> list_all is_letter seg \<and> \<not> list_all is_hex_digit seg then seg
        else first_mixed_segment (drop (length seg) name))"
  by pat_completeness auto
termination by (relation "measure length") (auto simp: Let_def drop_run_shorter)

declare first_mixed_segment.simps [simp del]

text \<open>The inner loop over a segment that is not homogeneous: a dash wherever a letter meets a digit.\<close>

fun dash_segment :: "string \<Rightarrow> string" where
  "dash_segment (a # b # cs) =
     (if is_letter b \<noteq> is_letter a then a # CHR ''-'' # dash_segment (b # cs) else a # dash_segment (b # cs))"
| "dash_segment cs = cs"

function split_mixed_segments :: "string \<Rightarrow> string" where
  "split_mixed_segments name =
     (if name = [] then []
      else if \<not> is_alnum (hd name) then hd name # split_mixed_segments (tl name)
      else
        let seg = takeWhile is_alnum name in
        (if first_mixed_segment seg = [] then seg else dash_segment seg)
        @ split_mixed_segments (drop (length seg) name))"
  by pat_completeness auto
termination by (relation "measure length") (auto simp: Let_def drop_run_shorter)

declare split_mixed_segments.simps [simp del]

definition sanitized_for_message :: "string \<Rightarrow> string" where
  "sanitized_for_message name =
     map (\<lambda>c. if is_strategy_name_char c then c else CHR ''?'') (take kMaxStrategyNameChars name)"

section \<open>Runs and segments\<close>

text \<open>The maximal runs of characters of one class, in order.\<close>

function runs :: "(char \<Rightarrow> bool) \<Rightarrow> string \<Rightarrow> string list" where
  "runs P s =
     (if s = [] then []
      else if P (hd s) then takeWhile P s # runs P (dropWhile P s) else runs P (tl s))"
  by pat_completeness auto
termination
  by (relation "measure (length \<circ> snd)")
    (auto simp: dropWhile_eq_drop drop_run_shorter)

declare runs.simps [simp del]

lemma runs_simps [simp]:
  "runs P [] = []" "P c \<Longrightarrow> runs P (c # s) = takeWhile P (c # s) # runs P (dropWhile P s)"
  "\<not> P c \<Longrightarrow> runs P (c # s) = runs P s"
  by (simp_all add: runs.simps [of P "c # s"] runs.simps [of P "[]"])

lemma list_all_takeWhile [simp]: "list_all P (takeWhile P s)"
  by (auto simp: list_all_iff dest: set_takeWhileD)

lemma dropWhile_every: "list_all P s \<Longrightarrow> dropWhile P s = []"
  by (simp add: list_all_iff)

lemma takeWhile_every: "list_all P s \<Longrightarrow> takeWhile P s = s"
  by (simp add: list_all_iff takeWhile_eq_all_conv)

lemma runs_all [simp]: "list_all P s \<Longrightarrow> s \<noteq> [] \<Longrightarrow> runs P s = [s]"
  by (cases s) (simp_all add: takeWhile_every dropWhile_every)

lemma runs_append:
  "xs = [] \<or> ys = [] \<or> \<not> P (last xs) \<or> \<not> P (hd ys) \<Longrightarrow> runs P (xs @ ys) = runs P xs @ runs P ys"
proof (induction P xs rule: runs.induct)
  case (1 P xs)
  show ?case
  proof (cases xs)
    case (Cons c cs)
    show ?thesis
    proof (cases "P c")
      case True
      define ds where "ds = dropWhile P cs"
      have cs: "cs = takeWhile P cs @ ds" by (simp add: ds_def)
      have hd_ds: "ds \<noteq> [] \<Longrightarrow> \<not> P (hd ds)" using hd_dropWhile [of P cs] by (simp add: ds_def)
      have "ds \<noteq> [] \<Longrightarrow> last ds = last xs" using cs Cons by (metis last_ConsR last_appendR append_is_Nil_conv)
      then have IH: "runs P (ds @ ys) = runs P ds @ runs P ys"
        using "1.IH"(1) "1.prems" Cons True by (cases "ds = []") (auto simp: ds_def)
      have all: "\<forall>x \<in> set (takeWhile P cs). P x" by (auto dest: set_takeWhileD)
      have "ds = [] \<longrightarrow> ys = [] \<or> \<not> P (hd ys)"
        using "1.prems" all True Cons cs by (cases "takeWhile P cs") (auto split: if_splits)
      then have stop: "ds @ ys = [] \<or> \<not> P (hd (ds @ ys))" using hd_ds by (cases ds) auto
      have "takeWhile P (takeWhile P cs @ ds @ ys) = takeWhile P cs"
        "dropWhile P (takeWhile P cs @ ds @ ys) = ds @ ys"
        using takeWhile_stop [of P "takeWhile P cs" "ds @ ys"] dropWhile_stop [of P "takeWhile P cs" "ds @ ys"]
          stop list_all_takeWhile [of P cs] by blast+
      then have "takeWhile P (cs @ ys) = takeWhile P cs" "dropWhile P (cs @ ys) = ds @ ys"
        using cs by (metis append.assoc)+
      then show ?thesis using Cons True IH by (simp add: ds_def)
    next
      case False
      then have "runs P (cs @ ys) = runs P cs @ runs P ys"
        using "1.IH"(2) "1.prems" Cons by (cases cs) auto
      then show ?thesis using Cons False by simp
    qed
  qed simp
qed

lemma runs_sub: "r \<in> set (runs P s) \<Longrightarrow> list_all P r \<and> r \<noteq> []"
proof (induction P s rule: runs.induct)
  case (1 P s)
  consider "s = []" | (hit) "s \<noteq> []" "P (hd s)" | (miss) "s \<noteq> []" "\<not> P (hd s)" by blast
  then show ?case
  proof cases
    case hit
    then have "r = takeWhile P s \<or> r \<in> set (runs P (dropWhile P s))"
      using "1.prems" runs.simps [of P s] by simp
    moreover have "takeWhile P s \<noteq> []" using hit by (cases s) simp_all
    ultimately show ?thesis using "1.IH"(1) hit by auto
  next
    case miss
    then show ?thesis using "1.IH"(2) "1.prems" runs.simps [of P s] by simp
  qed (use 1 in simp)
qed

lemma runs_takeWhile_drop:
  "s \<noteq> [] \<Longrightarrow> P (hd s) \<Longrightarrow> runs P s = takeWhile P s # runs P (drop (length (takeWhile P s)) s)"
  by (subst runs.simps) (simp add: dropWhile_eq_drop)

definition homogeneous :: "string \<Rightarrow> bool" where
  "homogeneous seg \<longleftrightarrow> list_all is_letter seg \<or> list_all is_hex_digit seg"

lemma first_mixed_segment_runs:
  "first_mixed_segment s = (case filter (\<lambda>r. \<not> homogeneous r) (runs is_alnum s) of [] \<Rightarrow> [] | r # _ \<Rightarrow> r)"
proof (induction s rule: first_mixed_segment.induct)
  case (1 s)
  show ?case
  proof (cases "s = [] \<or> \<not> is_alnum (hd s)")
    case True
    then show ?thesis using 1 by (cases s) (auto simp: first_mixed_segment.simps [of "_ # _"] first_mixed_segment.simps [of "[]"])
  next
    case False
    then show ?thesis using 1 runs_takeWhile_drop [of s is_alnum]
      by (subst first_mixed_segment.simps) (auto simp: homogeneous_def Let_def)
  qed
qed

lemma first_mixed_segment_empty: "first_mixed_segment s = [] \<longleftrightarrow> list_all homogeneous (runs is_alnum s)"
proof -
  have "r \<noteq> []" if "filter (\<lambda>r. \<not> homogeneous r) (runs is_alnum s) = r # rs" for r rs
    using that runs_sub [of r is_alnum s] by (metis filter_eq_ConsD in_set_conv_decomp)
  then have "first_mixed_segment s = [] \<longleftrightarrow> filter (\<lambda>r. \<not> homogeneous r) (runs is_alnum s) = []"
    by (auto simp: first_mixed_segment_runs split: list.split)
  then show ?thesis by (simp add: filter_empty_conv list_all_iff)
qed

lemma dash_segment_runs:
  "list_all is_alnum (a # cs) \<Longrightarrow>
   \<exists>r rs. runs is_alnum (dash_segment (a # cs)) = (a # r) # rs
     \<and> list_all (\<lambda>c. is_letter c = is_letter a) r
     \<and> (\<forall>t \<in> set rs. list_all is_letter t \<or> list_all is_digit t)"
proof (induction cs arbitrary: a)
  case (Cons b cs)
  have ab: "is_alnum a" "is_alnum b" "\<not> is_alnum (CHR ''-'')" using Cons.prems by (auto simp: char_class_defs)
  from Cons obtain r rs where IH: "runs is_alnum (dash_segment (b # cs)) = (b # r) # rs"
    "list_all (\<lambda>c. is_letter c = is_letter b) r" "\<forall>t \<in> set rs. list_all is_letter t \<or> list_all is_digit t"
    by force
  have alnum: "list_all is_alnum (b # r)" using runs_sub [of "b # r" is_alnum "dash_segment (b # cs)"] IH(1) by simp
  have hd: "dash_segment (b # cs) \<noteq> []" "hd (dash_segment (b # cs)) = b"
    by (cases cs; simp)+
  show ?case
  proof (cases "is_letter b = is_letter a")
    case True
    obtain ds where ds: "dash_segment (b # cs) = b # ds" using hd by (cases "dash_segment (b # cs)") auto
    then have "runs is_alnum (a # dash_segment (b # cs)) = (a # b # r) # rs"
      using IH(1) ab by simp
    then show ?thesis using True IH by auto
  next
    case False
    have "list_all is_letter (b # r) \<or> list_all is_digit (b # r)"
      using IH(2) alnum by (cases "is_letter b") (auto simp: list_all_iff is_alnum_def)
    then show ?thesis using False IH ab by auto
  qed
qed simp

lemma split_mixed_segments_homogeneous: "list_all homogeneous (runs is_alnum (split_mixed_segments s))"
proof (induction s rule: split_mixed_segments.induct)
  case (1 s)
  consider "s = []" | (sep) "s \<noteq> []" "\<not> is_alnum (hd s)" | (seg) "s \<noteq> []" "is_alnum (hd s)" by blast
  then show ?case
  proof cases
    case sep
    then show ?thesis using 1 by (subst split_mixed_segments.simps) simp
  next
    case seg
    define sg where "sg = takeWhile is_alnum s"
    define out where "out = (if first_mixed_segment sg = [] then sg else dash_segment sg)"
    obtain a cs where sg: "sg = a # cs" using seg by (cases s) (auto simp: sg_def)
    have alnum: "list_all is_alnum (a # cs)" using sg list_all_takeWhile [of is_alnum s] by (simp add: sg_def)
    have "list_all homogeneous (runs is_alnum out)"
    proof (cases "first_mixed_segment sg = []")
      case True
      then show ?thesis by (simp add: out_def first_mixed_segment_empty)
    next
      case False
      have "homogeneous t" if "list_all is_letter t \<or> list_all is_digit t" for t
        using that by (auto simp: homogeneous_def is_hex_digit_def list_all_iff)
      moreover from dash_segment_runs [OF alnum] obtain r rs where r:
        "runs is_alnum (dash_segment sg) = (a # r) # rs" "list_all (\<lambda>c. is_letter c = is_letter a) r"
        "\<forall>t \<in> set rs. list_all is_letter t \<or> list_all is_digit t" using sg by blast
      moreover have "list_all is_alnum (a # r)" using runs_sub [of "a # r" is_alnum "dash_segment sg"] r(1) by simp
      then have "list_all is_letter (a # r) \<or> list_all is_digit (a # r)"
        using r(2) by (cases "is_letter a") (auto simp: list_all_iff is_alnum_def)
      ultimately show ?thesis using False by (auto simp: out_def list_all_iff)
    qed
    moreover have rest: "drop (length sg) s = dropWhile is_alnum s" by (simp add: sg_def dropWhile_eq_drop)
    have hd_rest: "split_mixed_segments (dropWhile is_alnum s) = []
        \<or> \<not> is_alnum (hd (split_mixed_segments (dropWhile is_alnum s)))"
    proof (cases "dropWhile is_alnum s")
      case (Cons c cs)
      then have "\<not> is_alnum c" using hd_dropWhile [of is_alnum s] by simp
      then show ?thesis unfolding Cons by (subst (1 2) split_mixed_segments.simps) simp
    next
      case Nil
      show ?thesis unfolding Nil by (simp add: split_mixed_segments.simps [of "[]"])
    qed
    moreover have "split_mixed_segments s = out @ split_mixed_segments (dropWhile is_alnum s)"
      using seg by (subst split_mixed_segments.simps) (simp add: Let_def out_def sg_def dropWhile_eq_drop)
    moreover have "list_all homogeneous (runs is_alnum (split_mixed_segments (dropWhile is_alnum s)))"
      using "1.IH"(2) seg rest by (auto simp: sg_def)
    ultimately show ?thesis by (subst (asm) (1) disj_commute) (auto simp: runs_append)
  qed (simp add: split_mixed_segments.simps [of "[]"])
qed

section \<open>The rule for strategy names\<close>

text \<open>The diagnosis of a name, in the order of the checks.  A name with a mixed segment asks for the
  diagnosis of its suggested spelling, which has none, so the recursion ends.\<close>

definition quoted :: "string \<Rightarrow> string" where
  "quoted s = [CHR 0x27] @ s @ [CHR 0x27]"

function explain_invalid_strategy_name :: "string \<Rightarrow> string" where
  "explain_invalid_strategy_name name =
     (let shown = sanitized_for_message name; mixed = first_mixed_segment name in
      if name = [] then
        ''strategy name is EMPTY; it must be 1..'' @ show_nat kMaxStrategyNameChars
        @ '' characters from [A-Za-z0-9_-], at least one of them a letter or digit, with each ''
        @ quoted ''-'' @ ''/'' @ quoted ''_'' @ ''-separated segment all letters or all hex''
      else if length name > kMaxStrategyNameChars then
        ''strategy name '' @ quoted shown @ '' (truncated here) is '' @ show_nat (length name)
        @ '' bytes; the maximum is '' @ show_nat kMaxStrategyNameChars
        @ '' so that every client_ref it mints stays inside the ''
        @ show_nat kMaxProvenanceIdChars @ ''-char provenance-id bound''
      else if canonical_text name \<noteq> name then
        ''strategy name '' @ quoted shown @ '' (bytes outside [A-Za-z0-9_-] shown as '' @ quoted ''?''
        @ '') is not valid UTF-8; an ill-formed name ''
        @ ''travels raw through the store and the idempotency index and is normalised only at the ''
        @ ''log writer, where the hash preimage and the stored bytes then disagree''
      else if \<not> list_all is_strategy_name_char name then
        ''strategy name '' @ quoted shown @ '' (bytes outside [A-Za-z0-9_-] shown as '' @ quoted ''?''
        @ '') contains a character that is not in ''
        @ ''[A-Za-z0-9_-]; a space, '' @ quoted ''.'' @ '', '' @ quoted ''/'' @ '', '' @ quoted '':''
        @ '' or '' @ quoted ''#'' @ '' makes the strategy column and every ''
        @ ''client_ref it mints unloggable (both are then wholly redacted)''
      else if \<not> list_ex is_alnum name then
        ''strategy name '' @ quoted shown @ '' has no letter or digit; a name of only '' @ quoted ''-'' @ ''/''
        @ quoted ''_'' @ '' separators renders a strategy ''
        @ ''column that attributes an order to nothing at all, exactly as an empty name does''
      else if mixed \<noteq> [] then
        let suggestion = split_mixed_segments name in
        ''strategy name '' @ quoted shown @ '': segment '' @ quoted mixed
        @ '' mixes letters and digits (every segment of a client_ref must be all ''
        @ ''letters or all hex, or the WHOLE ref stops being id-shaped and is redacted ''
        @ ''in every alert and ledger entry)''
        @ (if suggestion \<noteq> name \<and> explain_invalid_strategy_name suggestion = []
           then ''; use '' @ quoted suggestion else [])
      else if scrub_provenance_column name \<noteq> name then
        ''strategy name '' @ quoted shown
        @ '' is a single un-separated run that domain::scrub cannot distinguish from a ''
        @ ''credential, so the strategy column itself would be redacted; separate it with a '' @ quoted ''-''
        @ '' or '' @ quoted ''_'' @ '' (a name with two or more segments is exempt as a whole typed column)''
      else [])"
  by pat_completeness auto
termination
  by (relation "measure (\<lambda>name. if first_mixed_segment name = [] then 0 else 1)")
    (auto simp: split_mixed_segments_homogeneous first_mixed_segment_empty [THEN iffD2])

declare explain_invalid_strategy_name.simps [simp del]

definition is_valid_strategy_name :: "string \<Rightarrow> bool" where
  "is_valid_strategy_name name \<longleftrightarrow> explain_invalid_strategy_name name = []"

section \<open>Provenance blocks\<close>

datatype provenance_kind = IdKind | SymbolKind

record provenance_field =
  pf_key :: string
  pf_value :: string
  pf_kind :: provenance_kind

definition is_block_safe :: "string \<Rightarrow> bool" where
  "is_block_safe rendered = list_all (\<lambda>c. is_provenance_id_char c \<or> c = CHR ''*'') rendered"

definition is_block_safe_key :: "string \<Rightarrow> bool" where
  "is_block_safe_key key = (if key = [] then False else list_all is_provenance_id_char key)"

definition render_column :: "provenance_field \<Rightarrow> string" where
  "render_column field =
     (case pf_kind field of
        SymbolKind \<Rightarrow> scrub_symbol_column (pf_value field)
      | IdKind \<Rightarrow> scrub_provenance_column (pf_value field))"

definition render_field :: "string \<Rightarrow> provenance_field \<Rightarrow> string" where
  "render_field block field =
     (if pf_value field = [] then block
      else if \<not> is_block_safe_key (pf_key field) then block
      else
        let rendered = render_column field;
            rendered = (if length rendered > kMaxProvenanceIdChars \<or> \<not> is_block_safe rendered
                        then kRedactionMarker else rendered)
        in block @ (if block = [] then '' ['' else '' '') @ pf_key field @ ''='' @ rendered)"

definition render_provenance_block :: "provenance_field list \<Rightarrow> string" where
  "render_provenance_block fs =
     (let block = foldl render_field [] fs in if block \<noteq> [] then block @ '']'' else block)"

section \<open>The shape of an identifier\<close>

lemma shape_loop_open:
  assumes "p \<noteq> []" "list_all is_alnum p" "homogeneous p"
  shows "shape_loop (Suc n) True (list_all is_letter p) (list_all is_hex_digit p) s \<longleftrightarrow>
    list_all is_provenance_id_char s \<and> list_all homogeneous (runs is_alnum (p @ s))
    \<and> 2 \<le> n + length (runs is_alnum (p @ s))"
  and "shape_loop n False al ah s \<longleftrightarrow>
    list_all is_provenance_id_char s \<and> list_all homogeneous (runs is_alnum s)
    \<and> 2 \<le> n + length (runs is_alnum s)"
  using assms
proof (induction s arbitrary: p n al ah)
  case Nil
  {
    case 1
    then show ?case by auto
  next
    case 2
    then show ?case by auto
  }
next
  case (Cons c cs)
  have alnum_id: "is_alnum x \<Longrightarrow> is_provenance_id_char x" for x by (auto simp: char_class_defs)
  have mixed_run: "\<not> list_all homogeneous (runs is_alnum (q @ cs))"
    if "q \<noteq> []" "list_all is_alnum q" "\<not> homogeneous q" for q
  proof -
    have "runs is_alnum (q @ cs) = takeWhile is_alnum (q @ cs) # runs is_alnum (dropWhile is_alnum (q @ cs))"
      using that by (cases q) (simp_all add: runs_simps(2))
    moreover have "takeWhile is_alnum (q @ cs) = q @ takeWhile is_alnum cs"
      using that by (auto simp: list_all_iff takeWhile_append)
    ultimately show ?thesis using that by (auto simp: homogeneous_def)
  qed
  {
    case 1
    show ?case
    proof (cases "is_alnum c")
      case True
      have q: "p @ [c] \<noteq> []" "list_all is_alnum (p @ [c])" using 1 True by auto
      show ?thesis
      proof (cases "homogeneous (p @ [c])")
        case h: True
        then show ?thesis
          using Cons.IH(1) [OF q h, of n] True alnum_id by (auto simp: homogeneous_def)
      next
        case h: False
        then have "\<not> (list_all is_letter p \<and> is_letter c)" "\<not> (list_all is_hex_digit p \<and> is_hex_digit c)"
          by (auto simp: homogeneous_def)
        then show ?thesis using mixed_run [OF q h] True alnum_id [OF True] by auto
      qed
    next
      case False
      have "runs is_alnum (p @ c # cs) = p # runs is_alnum cs"
        using 1 False runs_append [of p "c # cs" is_alnum] by simp
      then show ?thesis using Cons.IH(2) [OF 1, of "Suc n"] False 1 by auto
    qed
  next
    case 2
    show ?case
    proof (cases "is_alnum c")
      case True
      have q: "[c] \<noteq> []" "list_all is_alnum [c]" "homogeneous [c]" using True by (auto simp: homogeneous_def char_class_defs)
      show ?thesis using Cons.IH(1) [OF q, of n] True alnum_id [OF True] q(3)
        by (auto simp: homogeneous_def)
    next
      case False
      then show ?thesis using Cons.IH(2) [OF 2, of n] by auto
    qed
  }
qed

text \<open>Rules 1 to 3 of the header: a bounded length, the identifier alphabet, and at least two segments,
  each of one kind.\<close>

lemma is_provenance_id_shape_iff:
  "is_provenance_id_shape s \<longleftrightarrow> s \<noteq> [] \<and> length s \<le> kMaxProvenanceIdChars
     \<and> list_all is_provenance_id_char s \<and> list_all homogeneous (runs is_alnum s)
     \<and> 2 \<le> length (runs is_alnum s)"
proof -
  have "homogeneous ''a''" "list_all is_alnum ''a''" by (simp_all add: homogeneous_def char_class_defs)
  then show ?thesis using shape_loop_open(2) [of "''a''" 0 False False s]
    by (auto simp: is_provenance_id_shape_def)
qed

section \<open>Accepted strategy names stay traceable\<close>

lemma valid_strategy_nameD:
  assumes "is_valid_strategy_name name"
  shows "name \<noteq> []" "length name \<le> kMaxStrategyNameChars" "list_all is_token_char name"
    "list_ex is_alnum name" "list_all homogeneous (runs is_alnum name)" "scrub_provenance_column name = name"
  using assms explain_invalid_strategy_name.simps [of name]
  unfolding is_valid_strategy_name_def Let_def first_mixed_segment_empty [symmetric]
  by (auto simp: is_strategy_name_char_def list_all_iff split: if_splits)

lemma runs_separated: "\<not> P c \<Longrightarrow> runs P (xs @ c # ys) = runs P xs @ runs P ys"
  using runs_append [of xs "c # ys" P] by simp

lemma hex_text:
  assumes "set x \<subseteq> set ''0123456789abcdef''" "x \<noteq> []"
  shows "list_all is_token_char x" "runs is_alnum x = [x]" "homogeneous x"
proof -
  have "list_all is_hex_digit ''0123456789abcdef''" by (simp add: char_class_defs)
  then have h: "list_all is_hex_digit x" using assms(1) unfolding list_all_iff by blast
  then show "homogeneous x" by (simp add: homogeneous_def)
  have "list_all is_alnum x" "list_all is_token_char x"
    by (rule list.pred_mono_strong [OF h]; auto simp: char_class_defs)+
  then show "list_all is_token_char x" "runs is_alnum x = [x]" using assms(2) by simp_all
qed

lemma separators: "\<not> is_alnum (CHR ''-'')" "\<not> is_alnum (CHR ''#'')" "is_token_char (CHR ''-'')"
  by (simp_all add: char_class_defs)

text \<open>The tail of a minted reference: the signature prefix and the five groups of the UUID.\<close>

lemma client_ref_shape:
  assumes "set sig \<subseteq> set ''0123456789abcdef''" "8 \<le> length sig"
  shows "length (make_client_ref name sig (format_uuid_v4 hi lo)) = length name + 46"
    "list_all is_token_char (make_client_ref name sig (format_uuid_v4 hi lo)) \<longleftrightarrow> list_all is_token_char name"
    "\<exists>segs. runs is_alnum (make_client_ref name sig (format_uuid_v4 hi lo)) = runs is_alnum name @ segs
       \<and> length segs = 6 \<and> list_all homogeneous segs"
proof -
  obtain a b c d e where u: "format_uuid_v4 hi lo = a @ ''-'' @ b @ ''-'' @ c @ ''-'' @ d @ ''-'' @ e"
    and len: "length a = 8" "length b = 4" "length c = 4" "length d = 4" "length e = 12"
    and hex: "set a \<subseteq> set kHex" "set b \<subseteq> set kHex" "set c \<subseteq> set kHex" "set d \<subseteq> set kHex" "set e \<subseteq> set kHex"
    by (rule that [OF format_uuid_v4_groups [of hi lo]]) (simp_all add: append_hex_chars)
  define g where "g = sig8_of sig"
  have g: "length g = 8" "set g \<subseteq> set kHex" unfolding g_def sig8_of_def kHex_def
    using assms set_take_subset [of 8 sig] by (simp, auto)
  have ref: "make_client_ref name sig (format_uuid_v4 hi lo)
     = name @ ''-'' @ g @ ''-'' @ a @ ''-'' @ b @ ''-'' @ c @ ''-'' @ d @ ''-'' @ e"
    by (simp add: make_client_ref_def u g_def)
  note hx = hex_text [folded kHex_def]
  have ne: "g \<noteq> []" "a \<noteq> []" "b \<noteq> []" "c \<noteq> []" "d \<noteq> []" "e \<noteq> []" using len g(1) by auto
  note seg = hx [OF g(2) ne(1)] hx [OF hex(1) ne(2)] hx [OF hex(2) ne(3)] hx [OF hex(3) ne(4)]
    hx [OF hex(4) ne(5)] hx [OF hex(5) ne(6)]
  show "length (make_client_ref name sig (format_uuid_v4 hi lo)) = length name + 46"
    unfolding ref using len g(1) by simp
  show "list_all is_token_char (make_client_ref name sig (format_uuid_v4 hi lo)) \<longleftrightarrow> list_all is_token_char name"
    unfolding ref using seg separators(3) by simp
  have "runs is_alnum (make_client_ref name sig (format_uuid_v4 hi lo)) = runs is_alnum name @ [g, a, b, c, d, e]"
    unfolding ref by (simp add: runs_separated separators seg)
  then show "\<exists>segs. runs is_alnum (make_client_ref name sig (format_uuid_v4 hi lo)) = runs is_alnum name @ segs
       \<and> length segs = 6 \<and> list_all homogeneous segs" using seg by force
qed

lemma child_suffix_shape:
  assumes "t \<noteq> []" "list_all is_digit t \<or> t = ''X''" "length t \<le> 10"
    and "list_all is_token_char ref" "list_all homogeneous (runs is_alnum ref)" "2 \<le> length (runs is_alnum ref)"
    and "length ref + 11 \<le> kMaxProvenanceIdChars"
  shows "is_provenance_id_shape (ref @ CHR ''#'' # t)"
proof -
  have t: "list_all is_alnum t" "homogeneous t"
    using assms(2) by (auto simp: homogeneous_def char_class_defs list_all_iff)
  then have "runs is_alnum (ref @ CHR ''#'' # t) = runs is_alnum ref @ [t]"
    using assms(1) by (simp add: runs_separated separators)
  moreover have "list_all is_provenance_id_char (ref @ CHR ''#'' # t)"
    using assms(4) t by (auto simp: list_all_iff is_provenance_id_char_def is_alnum_def is_token_char_def)
  ultimately show ?thesis using assms t by (auto simp: is_provenance_id_shape_iff)
qed

lemma token_block_safe: "list_all is_token_char s \<Longrightarrow> is_block_safe s"
  by (auto simp: is_block_safe_def is_provenance_id_char_def list_all_iff)

text \<open>What the rules on strategy names are for.  Every reference minted for an accepted name - by the
  real minter, whatever the signal and the random bits - keeps the shape of an identifier, and so
  do its slice references for every 32-bit slice number and its square-off reference; it is not
  itself mistaken for a slice reference; and the provenance block of an alert or a ledger entry
  shows the reference and the name verbatim.\<close>

theorem valid_strategy_names_stay_traceable:
  fixes intent :: order_intent and hi lo :: uint64
  assumes valid: "is_valid_strategy_name name" and k: "in_i32 k"
  defines "ref \<equiv> make_client_ref name (signal_signature intent) (format_uuid_v4 hi lo)"
  shows "is_provenance_id_shape ref \<and> is_provenance_id_shape (child_ref ref k)
    \<and> is_provenance_id_shape (ref @ ''#X'') \<and> \<not> is_child_ref ref
    \<and> render_provenance_block [\<lparr>pf_key = ''client_ref'', pf_value = ref, pf_kind = IdKind\<rparr>,
        \<lparr>pf_key = ''strategy'', pf_value = name, pf_kind = IdKind\<rparr>]
      = '' [client_ref='' @ ref @ '' strategy='' @ name @ '']''"
proof -
  note v = valid_strategy_nameD [OF valid]
  have sig: "set (signal_signature intent) \<subseteq> set ''0123456789abcdef''" "8 \<le> length (signal_signature intent)"
    using sha256_hex_props [of "canonical_signature_input intent"]
    by (simp_all add: signal_signature_def kHexDigits_def)
  from client_ref_shape [OF sig, of name hi lo] v(3) obtain segs where
    ref: "length ref = length name + 46" "list_all is_token_char ref"
      "runs is_alnum ref = runs is_alnum name @ segs" "length segs = 6" "list_all homogeneous segs"
    unfolding ref_def by auto
  have len: "length ref + 11 \<le> kMaxProvenanceIdChars"
    using v(2) ref(1) by (simp add: kMaxStrategyNameChars_def kMaxProvenanceIdChars_def)
  have runs: "list_all homogeneous (runs is_alnum ref)" "2 \<le> length (runs is_alnum ref)" using ref v(5) by simp_all
  have shape: "is_provenance_id_shape ref"
    using ref(2) runs len v(1) ref(1) by (auto simp: is_provenance_id_shape_iff is_provenance_id_char_def list_all_iff)
  note child = child_suffix_shape [OF _ _ _ ref(2) runs len]
  have "max 1 k < 10 ^ Suc 9" using k by (auto simp: in_i32_def max_def)
  then have "nat (max 1 k) < 10 ^ Suc 9" by (simp add: nat_less_iff)
  then have "length (show_nat (nat (max 1 k))) \<le> 10" using show_nat_length by fastforce
  moreover have "list_all is_digit (show_nat n)" for n
    using show_nat_digits [of n] by (auto simp: list_all_iff is_digit_def is_ascii_digit_def)
  ultimately have "is_provenance_id_shape (child_ref ref k)" by (simp add: child_ref_eq child)
  moreover have "is_provenance_id_shape (ref @ ''#X'')" by (simp add: child)
  moreover have "CHR ''#'' \<notin> set ref" using ref(2) by (auto simp: list_all_iff char_class_defs)
  then have "\<not> is_child_ref ref" by (auto simp: is_child_ref_iff)
  moreover have "render_provenance_block [\<lparr>pf_key = ''client_ref'', pf_value = ref, pf_kind = IdKind\<rparr>,
        \<lparr>pf_key = ''strategy'', pf_value = name, pf_kind = IdKind\<rparr>]
      = '' [client_ref='' @ ref @ '' strategy='' @ name @ '']''"
  proof -
    have keys: "is_block_safe_key ''client_ref''" "is_block_safe_key ''strategy''"
      by (simp_all add: is_block_safe_key_def char_class_defs)
    have "ref \<noteq> []" "length ref \<le> kMaxProvenanceIdChars" using len ref(1) by auto
    moreover have "length name \<le> kMaxProvenanceIdChars" using len ref(1) by simp
    moreover have "scrub_provenance_column ref = ref" using shape by (simp add: scrub_provenance_column_def)
    ultimately show ?thesis using v(1,3,6) ref(2) keys
      by (simp add: render_provenance_block_def render_field_def render_column_def token_block_safe)
  qed
  ultimately show ?thesis using shape by blast
qed

theorem valid_strategy_names_stay_traceable_witness:
  "is_valid_strategy_name ''atm-straddle-9-20'' \<and> in_i32 999
   \<and> (\<forall>intent. is_provenance_id_shape
        (child_ref (make_client_ref ''atm-straddle-9-20'' (signal_signature intent) (format_uuid_v4 5 7)) 999))"
proof -
  have v: "is_valid_strategy_name ''atm-straddle-9-20''" by code_simp
  have k: "in_i32 999" by (simp add: in_i32_def)
  show ?thesis using valid_strategy_names_stay_traceable [OF v k] v k by blast
qed

section \<open>What the scrubber leaves behind\<close>

text \<open>The positions the loop visits: a token run is always entered at its first character.\<close>

definition boundary :: "string \<Rightarrow> string \<Rightarrow> bool" where
  "boundary pre s \<longleftrightarrow> s = [] \<or> \<not> is_token_char (hd s) \<or> pre = [] \<or> \<not> is_token_char (last pre)"

lemma scrub_loop_Nil [simp]: "scrub_loop pre [] = []"
  by (simp add: scrub_loop.simps)

lemma scrub_loop_nontoken [simp]:
  "\<not> is_token_char c \<Longrightarrow> scrub_loop pre (c # s) = c # scrub_loop (pre @ [c]) s"
  by (subst scrub_loop.simps) simp

lemma scrub_loop_stop:
  "s = [] \<or> \<not> is_token_char (hd s) \<Longrightarrow> scrub_loop pre s = [] \<and> s = [] \<or> s \<noteq> [] \<and> scrub_loop pre s \<noteq> []
     \<and> hd (scrub_loop pre s) = hd s"
  by (cases s) auto

lemma kv_rest: "kv_value opener v r \<Longrightarrow> r = [] \<or> \<not> is_token_char (hd r)"
  by (auto simp: kv_value_def)

lemma marker_facts:
  "length kRedactionMarker = 14" "kRedactionMarker \<noteq> []" "hd kRedactionMarker = CHR ''*''"
  "list_all (\<lambda>x. \<not> is_value_delim x) kRedactionMarker" "is_quote q \<Longrightarrow> q \<notin> set kRedactionMarker"
  "runs is_token_char kRedactionMarker = [''REDACTED'']" "last kRedactionMarker = CHR ''*''"
proof -
  have "runs is_token_char ''***REDACTED***'' = [''REDACTED'']" by code_simp
  then show "runs is_token_char kRedactionMarker = [''REDACTED'']" by (simp add: kRedactionMarker_def)
qed (auto simp: kRedactionMarker_def is_value_delim_def is_quote_def)

text \<open>The four things the loop does at a boundary.\<close>

lemma scrub_loop_cases:
  assumes "boundary pre s"
  obtains (done_) "s = []"
  | (other) c cs where "s = c # cs" "\<not> is_token_char c" "scrub_loop pre s = c # scrub_loop (pre @ [c]) cs"
  | (pair) h opener v r where "s = h @ opener @ v @ r" "kv_head h" "kv_value opener v r"
      "scrub_loop pre s = h @ opener @ (if v = [] then [] else kRedactionMarker)
         @ scrub_loop (pre @ h @ opener @ v) r"
  | (hidden) run r where "s = run @ r" "run \<noteq> []" "list_all is_token_char run" "r = [] \<or> \<not> is_token_char (hd r)"
      "scrub_loop pre s = kRedactionMarker @ scrub_loop (pre @ run) r"
  | (kept) run r where "s = run @ r" "run \<noteq> []" "list_all is_token_char run" "r = [] \<or> \<not> is_token_char (hd r)"
      "pre = [] \<or> \<not> is_token_char (last pre)" "try_key_value s = None"
      "\<not> (20 \<le> length run \<and> run_has_letter_and_digit run)"
      "\<not> (4 \<le> length run \<and> length run \<le> 8 \<and> run_is_all_digits run \<and> auth_context_before pre)"
      "scrub_loop pre s = run @ scrub_loop (pre @ run) r"
proof (cases "s = [] \<or> \<not> is_token_char (hd s)")
  case True
  then show thesis using done_ other by (cases s) auto
next
  case False
  define run where "run = takeWhile is_token_char s"
  define r where "r = drop (length run) s"
  have start: "s \<noteq> []" "is_token_char (hd s)" "pre = [] \<or> \<not> is_token_char (last pre)"
    using False assms by (auto simp: boundary_def)
  have r: "r = dropWhile is_token_char s" by (simp add: r_def run_def dropWhile_eq_drop)
  have s: "s = run @ r" by (simp add: run_def r)
  have run: "run \<noteq> []" "list_all is_token_char run" using start by (cases s; simp add: run_def)+
  have stop: "r = [] \<or> \<not> is_token_char (hd r)" using hd_dropWhile r by metis
  note step = scrub_loop.simps [of pre s, unfolded Let_def, folded run_def, folded r_def]
  show thesis
  proof (cases "try_key_value s")
    case None
    let ?A = "20 \<le> length run \<and> run_has_letter_and_digit run"
    let ?B = "4 \<le> length run \<and> length run \<le> 8 \<and> run_is_all_digits run \<and> auth_context_before pre"
    have *: "scrub_loop pre s = (if ?A \<or> ?B then kRedactionMarker else run) @ scrub_loop (pre @ run) r"
      using start unfolding step None by simp
    show thesis
    proof (cases "?A \<or> ?B")
      case True
      then show thesis using hidden [OF s run stop * [unfolded if_P [OF True]]] by blast
    next
      case False
      then show thesis using kept [OF s run stop start(3) None _ _ * [unfolded if_not_P [OF False]]] by blast
    qed
  next
    case (Some p)
    obtain out r' where p: "p = (out, r')" by (cases p)
    from try_key_value_elim [OF Some [unfolded p]] obtain h opener v where
      kv: "kv_head h" "kv_value opener v r'" "s = h @ opener @ v @ r'"
      "out = h @ opener @ (if v = [] then [] else kRedactionMarker)" .
    have "take (length s - length r') s = h @ opener @ v" using kv(3) by simp
    then show thesis using pair [OF kv(3,1,2)] step start Some p kv(4) by simp
  qed
qed

lemma kv_head_runs:
  assumes "kv_head h" obtains key where "runs is_token_char h = [key]" "key_is_sensitive key"
    "\<not> is_token_char (last h)" "h \<noteq> []" "is_token_char (hd h)"
proof -
  from assms obtain key q1 ws1 sep ws2 where h: "h = key @ q1 @ ws1 @ [sep] @ ws2"
    and key: "key \<noteq> []" "list_all is_token_char key" "key_is_sensitive key"
    and rest: "q1 = [] \<or> (\<exists>c. q1 = [c] \<and> is_quote c)" "list_all is_space_char ws1" "list_all is_space_char ws2"
      "sep = CHR '':'' \<or> sep = CHR ''=''" unfolding kv_head_def by blast
  let ?t = "q1 @ ws1 @ [sep] @ ws2"
  have no: "list_all (\<lambda>c. \<not> is_token_char c) ?t" using rest by (auto simp: list_all_iff)
  have "runs is_token_char x = []" if "list_all (\<lambda>c. \<not> is_token_char c) x" for x
    using that by (induction x) auto
  moreover have "\<not> is_token_char (hd ?t)" using no by (cases q1; cases ws1) auto
  ultimately have "runs is_token_char h = [key]"
    unfolding h using key no by (subst runs_append) auto
  moreover have "\<not> is_token_char (last h)" unfolding h using no by (auto simp: list_all_iff)
  moreover have "is_token_char (hd h)" unfolding h using key by (cases key) auto
  ultimately show thesis using that key(3) h key(1) by simp
qed

text \<open>Induction over the loop along these cases.\<close>

lemma boundary_next:
  "r = [] \<or> \<not> is_token_char (hd r) \<Longrightarrow> boundary pre r" "\<not> is_token_char c \<Longrightarrow> boundary (pre @ [c]) r"
  by (auto simp: boundary_def)

section \<open>Scrubbing twice\<close>

lemma auth_context_iff:
  "auth_context_before b \<longleftrightarrow> (\<exists>needle \<in> set kAuthContextNeedles. \<exists>a m c. auth_window b = a @ m @ c
     \<and> map to_lower_ascii m = needle \<and> (a = [] \<or> \<not> is_letter (last a)) \<and> (c = [] \<or> \<not> is_letter (hd c)))"
proof -
  have "(length needle \<le> length w \<and> (\<exists>i \<in> set [0..<length w - length needle + 1]. needle_at needle w i
        \<and> (i = 0 \<or> \<not> is_letter (w ! (i - 1)))
        \<and> (i + length needle = length w \<or> \<not> is_letter (w ! (i + length needle)))))
      \<longleftrightarrow> (\<exists>a m c. w = a @ m @ c \<and> map to_lower_ascii m = needle
        \<and> (a = [] \<or> \<not> is_letter (last a)) \<and> (c = [] \<or> \<not> is_letter (hd c)))" (is "?L \<longleftrightarrow> ?R")
    for needle w
  proof
    assume ?L
    then obtain i where i': "i \<in> set [0..<length w - length needle + 1]" "length needle \<le> length w"
      and i2: "needle_at needle w i" "i = 0 \<or> \<not> is_letter (w ! (i - 1))"
      "i + length needle = length w \<or> \<not> is_letter (w ! (i + length needle))" by blast
    from i' have "i + length needle \<le> length w" by simp linarith
    note i = this i2
    define m where "m = take (length needle) (drop i w)"
    have "w = take i w @ m @ drop (i + length needle) w"
      by (metis m_def append_take_drop_id drop_drop add.commute)
    moreover have "map to_lower_ascii m = needle" using i(2) by (simp add: needle_at_def m_def)
    moreover have "take i w = [] \<or> \<not> is_letter (last (take i w))"
      using i(1,3) by (cases i) (auto simp: last_conv_nth)
    moreover have "drop (i + length needle) w = [] \<or> \<not> is_letter (hd (drop (i + length needle) w))"
      using i(1,4) by (auto simp: hd_drop_conv_nth)
    ultimately show ?R by blast
  next
    assume ?R
    then obtain a m c where w: "w = a @ m @ c" and m: "map to_lower_ascii m = needle"
      and ac: "a = [] \<or> \<not> is_letter (last a)" "c = [] \<or> \<not> is_letter (hd c)" by blast
    have len: "length m = length needle" using m by auto
    have "needle_at needle w (length a)" using w m len by (simp add: needle_at_def)
    moreover have "length a = 0 \<or> \<not> is_letter (w ! (length a - 1))"
      using ac(1) w by (cases "a = []") (auto simp: nth_append last_conv_nth)
    moreover have "length a + length needle = length w \<or> \<not> is_letter (w ! (length a + length needle))"
      using ac(2) w len by (cases c) (auto simp: nth_append)
    moreover have "length a \<in> set [0..<length w - length needle + 1]" "length needle \<le> length w" using w len by auto
    ultimately show ?L by blast
  qed
  then show ?thesis unfolding auth_context_before_def Let_def list_ex_iff by simp
qed

text \<open>No needle begins inside the end of a marker.\<close>

lemma needle_not_in_marker:
  assumes "needle \<in> set kAuthContextNeedles" "map to_lower_ascii m = needle"
    and "k < 14" "m @ c = drop k kRedactionMarker @ u" "5 \<le> k"
  shows False
proof -
  have "k \<in> {5, 6, 7, 8, 9, 10, 11, 12, 13}" using assms(3,5) by auto
  moreover obtain x y z m' where m: "m = x # y # z # m'"
    using assms(1,2) by (auto simp: kAuthContextNeedles_def map_eq_Cons_conv)
  moreover have "to_lower_ascii (CHR ''D'') = CHR ''d''" "to_lower_ascii (CHR ''A'') = CHR ''a''"
    "to_lower_ascii (CHR ''C'') = CHR ''c''" "to_lower_ascii (CHR ''T'') = CHR ''t''"
    "to_lower_ascii (CHR ''E'') = CHR ''e''" "to_lower_ascii (CHR ''*'') = CHR ''*''"
    by code_simp+
  ultimately show False
    using assms(1,2,4) by (auto simp: kAuthContextNeedles_def kRedactionMarker_def m)
qed

text \<open>The text before a position in the first and in the second pass: equal, or equal since a marker.\<close>

definition same_tail :: "string \<Rightarrow> string \<Rightarrow> string \<Rightarrow> bool" where
  "same_tail pre q s \<longleftrightarrow> pre = q \<or>
     (\<exists>p1 q1 u. pre = p1 @ u \<and> q = q1 @ kRedactionMarker @ u \<and> (u @ s = [] \<or> \<not> is_token_char (hd (u @ s))))"

lemma same_tail_push: "same_tail pre q (x @ s) \<Longrightarrow> same_tail (pre @ x) (q @ x) s"
  unfolding same_tail_def by fastforce

lemma same_tail_marker: "r = [] \<or> \<not> is_token_char (hd r) \<Longrightarrow> same_tail pre (q @ kRedactionMarker) r"
  unfolding same_tail_def by fastforce

lemma lower_letter_token: "is_letter (to_lower_ascii c) \<Longrightarrow> is_token_char c"
  by (auto simp: to_lower_ascii_def is_token_char_def is_letter_def split: if_splits)

lemma same_tail_auth:
  assumes "same_tail pre q s" "s \<noteq> []" "is_token_char (hd s)" "auth_context_before q"
  shows "auth_context_before pre"
proof (cases "pre = q")
  case False
  with assms(1) obtain p1 q1 u where b: "pre = p1 @ u" and q: "q = q1 @ kRedactionMarker @ u"
    and u: "u @ s = [] \<or> \<not> is_token_char (hd (u @ s))" unfolding same_tail_def by blast
  have une: "u \<noteq> []" "\<not> is_token_char (hd u)" using u assms(2,3) by (cases u; auto)+
  show ?thesis
  proof (cases "10 \<le> length u")
    case True
    then have "auth_window q = auth_window pre" by (simp add: auth_window_def b q)
    then show ?thesis using assms(4) by (simp add: auth_context_iff)
  next
    case False
    define k where "k = 4 + length u"
    have k: "5 \<le> k" "k < 14" using False une(1) by (auto simp: k_def Suc_le_eq)
    have wq: "auth_window q = drop k kRedactionMarker @ u"
      using False by (simp add: auth_window_def q k_def marker_facts(1))
    define x where "x = drop (length pre - 10) p1"
    have wb: "auth_window pre = x @ u" using False by (simp add: auth_window_def b x_def)
    from assms(4) obtain needle a m c where n: "needle \<in> set kAuthContextNeedles" "auth_window q = a @ m @ c"
      "map to_lower_ascii m = needle" "a = [] \<or> \<not> is_letter (last a)" "c = [] \<or> \<not> is_letter (hd c)"
      unfolding auth_context_iff by blast
    have eq: "a @ m @ c = drop k kRedactionMarker @ u" using n(2) wq by simp
    have "length (drop k kRedactionMarker) \<le> length a"
    proof (rule ccontr)
      assume short: "\<not> length (drop k kRedactionMarker) \<le> length a"
      then have "m @ c = drop (k + length a) kRedactionMarker @ u"
        using arg_cong [OF eq, of "drop (length a)"] by (simp add: add.commute)
      moreover have "k + length a < 14" using short by (simp add: marker_facts)
      ultimately show False using needle_not_in_marker [OF n(1,3), of "k + length a" c u] k by simp
    qed
    note le = this
    define a' where "a' = drop (length (drop k kRedactionMarker)) a"
    have "drop k kRedactionMarker = take (length (drop k kRedactionMarker)) a"
      using arg_cong [OF eq, of "take (length (drop k kRedactionMarker))"] le by simp
    then have "a = drop k kRedactionMarker @ a'" unfolding a'_def by (metis append_take_drop_id)
    moreover from this have "u = a' @ m @ c" using eq by (metis append.assoc same_append_eq)
    ultimately have a': "a = drop k kRedactionMarker @ a'" "u = a' @ m @ c" .
    have "m \<noteq> []" using n(1,3) by (auto simp: kAuthContextNeedles_def)
    have "a' \<noteq> []"
    proof
      assume "a' = []"
      then have "hd u = hd m" using a' \<open>m \<noteq> []\<close> by simp
      moreover have "is_letter (to_lower_ascii (hd m))" using n(1,3)
        by (cases m) (auto simp: kAuthContextNeedles_def is_letter_def)
      then have "is_token_char (hd m)" by (rule lower_letter_token)
      ultimately show False using une by simp
    qed
    then have "\<not> is_letter (last (x @ a'))" using n(4) a' by simp
    then show ?thesis unfolding auth_context_iff wb
      using n(1,3,5) a'(2) by (intro bexI [of _ needle] exI [of _ "x @ a'"] exI [of _ m] exI [of _ c]) auto
  qed
qed (use assms in simp)

lemma scrub_loop_marker: "scrub_loop q (kRedactionMarker @ t) = kRedactionMarker @ scrub_loop (q @ kRedactionMarker) t"
proof -
  let ?word = "''REDACTED''" and ?t = "CHR ''*'' # CHR ''*'' # CHR ''*'' # t"
  have word: "list_all is_token_char ?word" "\<not> key_is_sensitive ?word" "\<not> list_ex is_digit ?word" by code_simp+
  then have tw: "takeWhile is_token_char (?word @ ?t) = ?word" by (intro takeWhile_stop) auto
  then have "try_key_value (?word @ ?t) = None" using word(2) by (simp add: try_key_value_def)
  moreover have "is_token_char (CHR ''R'')" by (simp add: char_class_defs)
  ultimately have "scrub_loop (q @ ''***'') (?word @ ?t) = ?word @ scrub_loop (q @ ''***'' @ ?word) ?t"
    using tw word(3) by (subst scrub_loop.simps) (simp add: run_is_all_digits_def is_digit_def)
  then show ?thesis by (simp add: kRedactionMarker_def)
qed

lemma scrub_loop_hd:
  assumes "scrub_loop pre s = c # y" "\<not> is_token_char c" "c \<noteq> CHR ''*''" "boundary pre s"
  shows "\<exists>cs. s = c # cs \<and> y = scrub_loop (pre @ [c]) cs"
  using assms(4)
proof (cases rule: scrub_loop_cases)
  case (pair h opener v r)
  then show ?thesis using assms by (cases h) (auto elim: kv_head_runs)
next
  case (kept run r)
  then show ?thesis using assms by (cases run) auto
next
  case (hidden run r)
  then have "hd (kRedactionMarker @ scrub_loop (pre @ run) r) = c" using assms(1) by simp
  then show ?thesis using assms(3) marker_facts(2,3) by simp
qed (use assms in auto)

text \<open>A key that matches nothing in the text matches nothing in the scrubbed text.\<close>

lemma scrub_loop_blank:
  assumes "scrub_loop pre s = x @ c # z" "list_all (\<lambda>c. \<not> is_token_char c \<and> c \<noteq> CHR ''*'') (x @ [c])" "boundary pre s"
  shows "\<exists>z'. s = x @ c # z'"
  using assms
proof (induction x arbitrary: pre s)
  case Nil
  then show ?case using scrub_loop_hd by fastforce
next
  case (Cons d x)
  then obtain cs where cs: "s = d # cs" "x @ c # z = scrub_loop (pre @ [d]) cs"
    using scrub_loop_hd [of pre s d] by fastforce
  then show ?case using Cons.IH [of "pre @ [d]" cs] Cons.prems boundary_next(2) by force
qed

lemma kept_again:
  assumes "run \<noteq> []" "list_all is_token_char run" "r = [] \<or> \<not> is_token_char (hd r)" "try_key_value (run @ r) = None"
  shows "try_key_value (run @ scrub_loop pre r) = None"
proof (rule ccontr)
  assume "try_key_value (run @ scrub_loop pre r) \<noteq> None"
  then obtain out r' where "try_key_value (run @ scrub_loop pre r) = Some (out, r')" by (metis not_None_eq surj_pair)
  from try_key_value_elim [OF this] obtain h z where h: "kv_head h" "run @ scrub_loop pre r = h @ z" by metis
  from h(1) obtain key q1 ws1 sep ws2 where h': "h = key @ q1 @ ws1 @ [sep] @ ws2"
    and key: "key \<noteq> []" "list_all is_token_char key" "key_is_sensitive key"
    and q1: "q1 = [] \<or> (\<exists>c. q1 = [c] \<and> is_quote c)" and ws: "list_all is_space_char ws1" "list_all is_space_char ws2"
    and sep: "sep = CHR '':'' \<or> sep = CHR ''=''" unfolding kv_head_def by blast
  let ?b = "q1 @ ws1" and ?rest = "q1 @ ws1 @ sep # ws2 @ z"
  have "?rest \<noteq> []" "\<not> is_token_char (hd ?rest)" using q1 ws sep by (cases q1; cases ws1; auto)+
  then have "takeWhile is_token_char (key @ ?rest) = key" using key(2) by (intro takeWhile_stop) auto
  moreover have "takeWhile is_token_char (run @ scrub_loop pre r) = run"
    using assms(2) scrub_loop_stop [OF assms(3), of pre] assms(3) by (intro takeWhile_stop) auto
  ultimately have "key = run" using h(2) h' by simp
  then have sl: "scrub_loop pre r = ?b @ sep # ws2 @ z" using h(2) h' by simp
  have "list_all (\<lambda>c. \<not> is_token_char c \<and> c \<noteq> CHR ''*'') (?b @ [sep])"
    using q1 ws(1) sep by (auto simp: list_all_iff)
  from scrub_loop_blank [OF sl this boundary_next(1) [OF assms(3)]] obtain z' where "r = ?b @ sep # z'" by blast
  then show False using assms(4) try_key_value_sep [OF key q1 ws(1) sep, of z'] \<open>key = run\<close> by simp
qed

lemma kv_value_again:
  assumes "kv_value opener v r"
  shows "kv_value opener (if v = [] then [] else kRedactionMarker) (scrub_loop pre r)"
proof -
  note stop = scrub_loop_stop [OF kv_rest [OF assms], of pre]
  show ?thesis using assms stop marker_facts unfolding kv_value_def
    by (cases "v = []") (auto simp: hd_append)
qed

lemma same_tail_start:
  assumes "same_tail pre q s" "boundary pre s" "s \<noteq> []" "is_token_char (hd s)"
  shows "q = [] \<or> \<not> is_token_char (last q)"
proof (cases "pre = q")
  case False
  with assms(1) obtain p1 q1 u where b: "pre = p1 @ u" "q = q1 @ kRedactionMarker @ u"
    and u: "u @ s = [] \<or> \<not> is_token_char (hd (u @ s))" unfolding same_tail_def by blast
  then have "u \<noteq> []" using assms(3,4) by auto
  then show ?thesis using assms(2-4) b by (auto simp: boundary_def)
qed (use assms in \<open>auto simp: boundary_def\<close>)

lemma scrub_loop_again:
  assumes "boundary pre s" "same_tail pre q s"
  shows "scrub_loop q (scrub_loop pre s) = scrub_loop pre s"
  using assms
proof (induction "length s" arbitrary: pre s q rule: less_induct)
  case less
  from less.prems(1) show ?case
  proof (cases rule: scrub_loop_cases)
    case (other c cs)
    then show ?thesis using less.hyps [of cs "pre @ [c]" "q @ [c]"] boundary_next(2)
        same_tail_push [of pre q "[c]" cs] less.prems(2) by simp
  next
    case (pair h opener v r)
    note stop = kv_rest [OF pair(3)]
    let ?m = "if v = [] then [] else kRedactionMarker" and ?again = "scrub_loop (pre @ h @ opener @ v) r"
    have out: "scrub_loop pre s = h @ opener @ ?m @ ?again" using pair(4) .
    have hd: "h \<noteq> []" "is_token_char (hd h)" using pair(2) by (auto elim: kv_head_runs)
    then have sh: "s \<noteq> []" "is_token_char (hd s)" using pair(1) by simp_all
    have tail: "same_tail (pre @ h @ opener @ v) (q @ h @ opener @ ?m) r"
    proof (cases "v = []")
      case True
      then show ?thesis using less.prems(2) pair(1) same_tail_push [of pre q "h @ opener" r] by simp
    next
      case False
      then show ?thesis using same_tail_marker [OF stop, of "pre @ h @ opener @ v" "q @ h @ opener"] by simp
    qed
    have start: "q = [] \<or> \<not> is_token_char (last q)" using same_tail_start less.prems sh by blast
    have kv: "try_key_value (h @ opener @ ?m @ ?again) = Some (h @ opener @ ?m, ?again)"
      using try_key_value_intro [OF pair(2) kv_value_again [OF pair(3)], of "pre @ h @ opener @ v"]
      by (simp add: marker_facts split: if_splits)
    have "scrub_loop q (h @ opener @ ?m @ ?again) = h @ opener @ ?m @ scrub_loop (q @ h @ opener @ ?m) ?again"
      using hd start by (subst scrub_loop.simps) (simp add: kv)
    then show ?thesis using less.hyps [of r, OF _ boundary_next(1) [OF stop] tail] pair(1) hd out by simp
  next
    case (hidden run r)
    then show ?thesis
      using less.hyps [of r, OF _ boundary_next(1) same_tail_marker [of r "pre @ run" q]]
      by (simp add: scrub_loop_marker)
  next
    case (kept run r)
    let ?again = "scrub_loop (pre @ run) r"
    have sh: "s \<noteq> []" "is_token_char (hd s)" using kept(1-3) by (cases run; simp)+
    have start: "q = [] \<or> \<not> is_token_char (last q)" using same_tail_start less.prems sh by blast
    have none: "try_key_value (run @ ?again) = None" by (rule kept_again [OF kept(2-4) kept(6) [unfolded kept(1)]])
    have tw: "takeWhile is_token_char (run @ ?again) = run"
      using kept(3) scrub_loop_stop [OF kept(4), of "pre @ run"] kept(4) by (intro takeWhile_stop) auto
    have auth: "auth_context_before q \<Longrightarrow> auth_context_before pre"
      using same_tail_auth [OF less.prems(2) sh] .
    then have nB: "\<not> (4 \<le> length run \<and> length run \<le> 8 \<and> run_is_all_digits run \<and> auth_context_before q)"
      using kept(8) by blast
    have "run @ ?again \<noteq> []" "is_token_char (hd (run @ ?again))" using kept(2) sh kept(1) by simp_all
    then have "scrub_loop q (run @ ?again) = run @ scrub_loop (q @ run) ?again"
      using start kept(2,7) nB by (subst scrub_loop.simps) (auto simp: none tw Let_def)
    moreover have "same_tail (pre @ run) (q @ run) r"
      using same_tail_push [of pre q run r] less.prems(2) kept(1) by simp
    ultimately show ?thesis
      using less.hyps [of r, OF _ boundary_next(1) [OF kept(4)]] kept(1,2,9) by simp
  qed simp
qed

text \<open>Scrubbing is idempotent: a text that went through one sink is not changed by the next.  (The window
  in which a bare digit run looks for an authentication word is shorter than the marker, so no
  redaction can bring such a word into view.)\<close>

theorem scrub_idempotent: "scrub (scrub s) = scrub s"
  using scrub_loop_again [of "[]" s "[]"] by (simp add: scrub_def boundary_def same_tail_def)

text \<open>The order of the two transforms of a ledger payload is observable, in both directions: the
  documented counterexamples.\<close>

lemma scrub_canonical_order:
  "scrub (''mpin '' @ [CHR 0x80, CHR 0x80] @ '' 1234'') = ''mpin '' @ [CHR 0x80, CHR 0x80] @ '' ***REDACTED***''"
  "scrub (canonical_text (''mpin '' @ [CHR 0x80, CHR 0x80] @ '' 1234''))
     = ''mpin '' @ kUtf8Replacement @ kUtf8Replacement @ '' 1234''"
  "scrub (''passwordtokentotp'' @ [CHR 0xC0, CHR 0x80] @ ''12345678'')
     = ''passwordtokentotp'' @ [CHR 0xC0, CHR 0x80] @ ''12345678''"
  "scrub (canonical_text (''passwordtokentotp'' @ [CHR 0xC0, CHR 0x80] @ ''12345678''))
     = ''passwordtokentotp'' @ kUtf8Replacement @ kUtf8Replacement @ ''***REDACTED***''"
  by code_simp+

section \<open>What can stand in scrubbed text\<close>

text \<open>What may stand between a key and its value's separator: an optional closing quote and blanks.\<close>

definition kv_gap :: "string \<Rightarrow> string \<Rightarrow> char \<Rightarrow> bool" where
  "kv_gap q1 ws1 sep \<longleftrightarrow> (q1 = [] \<or> (\<exists>c. q1 = [c] \<and> is_quote c)) \<and> list_all is_space_char ws1
     \<and> (sep = CHR '':'' \<or> sep = CHR ''='')"

text \<open>A token run at its full length.\<close>

definition maximal_run :: "string \<Rightarrow> string \<Rightarrow> string \<Rightarrow> bool" where
  "maximal_run a run b \<longleftrightarrow> run \<noteq> [] \<and> list_all is_token_char run
     \<and> (a = [] \<or> \<not> is_token_char (last a)) \<and> (b = [] \<or> \<not> is_token_char (hd b))"

lemma maximal_run_stop:
  "maximal_run a run b \<Longrightarrow> takeWhile is_token_char (run @ b) = run \<and> dropWhile is_token_char (run @ b) = b"
  by (auto simp: maximal_run_def intro!: takeWhile_stop dropWhile_stop)

lemma maximal_run_split:
  assumes "maximal_run a run b" "a @ run @ b = x @ y" "y = [] \<or> \<not> is_token_char (hd y)"
  shows "(\<exists>b'. x = a @ run @ b' \<and> b = b' @ y) \<or> (\<exists>a'. a = x @ a' \<and> a' @ run @ b = y)"
proof -
  consider (after) d where "a = x @ d" "d @ run @ b = y" | (before) d where "x = a @ d" "run @ b = d @ y"
    using assms(2) unfolding append_eq_append_conv2 by blast
  then show ?thesis
  proof cases
    case before
    then consider (inside) b' where "d = run @ b'" "b = b' @ y" | (cut) e where "run = d @ e" "y = e @ b" "e \<noteq> []"
      unfolding append_eq_append_conv2 by (metis append.right_neutral append_Nil)
    then show ?thesis
    proof cases
      case cut
      then have "is_token_char (hd y)" using assms(1) by (cases e) (auto simp: maximal_run_def)
      then show ?thesis using assms(3) cut by simp
    qed (use before in blast)
  qed blast
qed

lemma maximal_run_after:
  "maximal_run (x @ a') run b \<Longrightarrow> maximal_run a' run b \<and> (x = [] \<or> a' \<noteq> [] \<or> \<not> is_token_char (last x))"
  by (auto simp: maximal_run_def split: if_splits)

lemma no_maximal_run:
  assumes "list_all (\<lambda>c. \<not> is_token_char c) (a @ run @ b)" shows "\<not> maximal_run a' run b'"
  using assms by (cases run) (auto simp: maximal_run_def)

text \<open>Where a run can stand in what a match emits: it is the key, or the inside of the marker.\<close>

lemma maximal_run_marker:
  assumes "maximal_run a run b" "kRedactionMarker = a @ run @ b" shows "run = ''REDACTED''"
proof -
  have "kRedactionMarker = ''***'' @ ''REDACTED***''" "\<not> is_token_char (hd (''***'' :: string))"
    by (simp_all add: kRedactionMarker_def)
  have "run \<in> set (runs is_token_char kRedactionMarker)"
  proof -
    have "runs is_token_char (a @ run @ b) = runs is_token_char a @ runs is_token_char (run @ b)"
      using assms(1) by (intro runs_append) (auto simp: maximal_run_def)
    also have "runs is_token_char (run @ b) = run # runs is_token_char b"
      using assms(1) runs_append [of run b is_token_char] by (auto simp: maximal_run_def)
    finally show ?thesis by (simp add: assms(2))
  qed
  then show ?thesis by (simp add: marker_facts)
qed

lemma maximal_run_head:
  assumes "maximal_run a run b" "kv_head h" "h = a @ run @ b" shows "a = []"
proof -
  from assms(2) obtain key q1 ws1 sep ws2 where h: "h = key @ q1 @ ws1 @ [sep] @ ws2"
    and key: "key \<noteq> []" "list_all is_token_char key"
    and rest: "q1 = [] \<or> (\<exists>c. q1 = [c] \<and> is_quote c)" "list_all is_space_char ws1" "list_all is_space_char ws2"
      "sep = CHR '':'' \<or> sep = CHR ''=''" unfolding kv_head_def by blast
  let ?t = "q1 @ ws1 @ [sep] @ ws2"
  have no: "list_all (\<lambda>c. \<not> is_token_char c) ?t" using rest by (auto simp: list_all_iff)
  then have "?t = [] \<or> \<not> is_token_char (hd ?t)" by (cases q1; cases ws1) auto
  from maximal_run_split [OF assms(1) _ this, of key] assms(3) h
  consider b' where "key = a @ run @ b'" | a' where "a' @ run @ b = ?t" by auto
  then show ?thesis
  proof cases
    case 1
    then have "list_all is_token_char a" using key(2) by simp
    then show ?thesis using assms(1) by (cases a rule: rev_cases) (auto simp: maximal_run_def)
  next
    case 2
    then show ?thesis using no_maximal_run [of a' run b] no assms(1) by metis
  qed
qed

text \<open>In text the scrubber leaves as it is, a replaced value is empty or the marker.\<close>

lemma kept_value:
  assumes "kv_value opener v r" "(if v = [] then [] else kRedactionMarker) @ scrub_loop p r = v @ r"
  shows "v = (if v = [] then [] else kRedactionMarker) \<and> scrub_loop p r = r"
proof (cases "v = []")
  case False
  note stop = scrub_loop_stop [OF kv_rest [OF assms(1)], of p]
  consider (quoted) q where "is_quote q" "q \<notin> set v" "r = [] \<or> hd r = q"
    | (bare) "list_all (\<lambda>x. \<not> is_value_delim x) v" "r = [] \<or> is_value_delim (hd r)"
    using assms(1) unfolding kv_value_def by blast
  then have "v = kRedactionMarker"
  proof cases
    case quoted
    have "takeWhile (\<lambda>x. x \<noteq> q) (v @ r) = v" "takeWhile (\<lambda>x. x \<noteq> q) (kRedactionMarker @ scrub_loop p r) = kRedactionMarker"
      using quoted stop marker_facts(5) by (intro takeWhile_stop; auto simp: list_all_iff)+
    then show ?thesis using assms(2) False by simp
  next
    case bare
    have "takeWhile (\<lambda>x. \<not> is_value_delim x) (v @ r) = v"
      "takeWhile (\<lambda>x. \<not> is_value_delim x) (kRedactionMarker @ scrub_loop p r) = kRedactionMarker"
      using bare stop marker_facts(4) by (intro takeWhile_stop; auto)+
    then show ?thesis using assms(2) False by simp
  qed
  then show ?thesis using assms(2) False by simp
qed (use assms(2) in simp)

text \<open>Every run of such text but the inside of a marker is one the loop stops at.\<close>

lemma fixed_run:
  assumes "boundary q t" "scrub_loop q t = t" "t = a @ run @ b" "maximal_run a run b" "run \<noteq> ''REDACTED''"
  shows "boundary (q @ a) (run @ b) \<and> scrub_loop (q @ a) (run @ b) = run @ b"
  using assms
proof (induction "length t" arbitrary: q t a rule: less_induct)
  case less
  have tok: "is_token_char (hd (run @ b))" "run @ b \<noteq> []" using less.prems(4)
    by (cases run; auto simp: maximal_run_def)+
  show ?case
  proof (cases "a = []")
    case True
    then show ?thesis using less.prems by simp
  next
    case a: False
    have step: ?thesis if "t = x @ y" "x \<noteq> []" "y = [] \<or> \<not> is_token_char (hd y)" "scrub_loop (q @ x) y = y"
      "\<not> (\<exists>b'. x = a @ run @ b')" for x y
    proof -
      from maximal_run_split [OF less.prems(4) less.prems(3) [symmetric, unfolded that(1)] that(3)] that(5)
      obtain a' where a': "a = x @ a'" "a' @ run @ b = y" by blast
      have "length y < length t" using that(1,2) by simp
      from less.hyps [OF this boundary_next(1) [OF that(3)] that(4) a'(2) [symmetric]
          conjunct1 [OF maximal_run_after [OF less.prems(4) [unfolded a'(1)]]] less.prems(5)]
      show ?thesis using a' by simp
    qed
    from less.prems(1) show ?thesis
    proof (cases rule: scrub_loop_cases)
      case done_
      then show ?thesis using less.prems(3) a by simp
    next
      case (other c cs)
      then have cs: "scrub_loop (q @ [c]) cs = cs" using less.prems(2) by simp
      from a obtain a' where a': "a = c # a'" using less.prems(3) other(1) by (cases a) auto
      have m: "maximal_run a' run b" using less.prems(4) a' by (auto simp: maximal_run_def split: if_splits)
      have "length cs < length t" using other(1) by simp
      from less.hyps [OF this boundary_next(2) [OF other(2)] cs _ m less.prems(5)]
      show ?thesis using less.prems(3) other(1) a' by simp
    next
      case (pair h opener v r)
      let ?m = "if v = [] then [] else kRedactionMarker"
      have "?m @ scrub_loop (q @ h @ opener @ v) r = v @ r" using less.prems(2) pair(1,4) by simp
      note kept = kept_value [OF pair(3) this]
      have v: "v = [] \<or> v = kRedactionMarker" using kept by presburger
      have h: "h \<noteq> []" "\<not> is_token_char (last h)" using pair(2) by (auto elim: kv_head_runs)
      have "\<not> (\<exists>b'. h @ opener @ v = a @ run @ b')"
      proof
        assume "\<exists>b'. h @ opener @ v = a @ run @ b'"
        then obtain b' where b': "h @ opener @ v = a @ run @ b'" by blast
        have "(h @ opener @ v) @ r = a @ run @ b" using less.prems(3) pair(1) by simp
        then have "b' @ r = b" unfolding b' by simp
        then have m: "maximal_run a run b'" using less.prems(4) by (cases b') (auto simp: maximal_run_def)
        have ov: "opener @ v = [] \<or> \<not> is_token_char (hd (opener @ v))"
          using v pair(3) by (auto simp: kv_value_def marker_facts)
        from maximal_run_split [OF m b' [symmetric] ov] show False
        proof (elim disjE exE conjE)
          fix b'' assume "h = a @ run @ b''" "b' = b'' @ opener @ v"
          moreover from this have "maximal_run a run b''" using m by (cases b'') (auto simp: maximal_run_def)
          ultimately show False using maximal_run_head pair(2) a by blast
        next
          fix a' assume a': "a = h @ a'" "a' @ run @ b' = opener @ v"
          have m': "maximal_run a' run b'" using maximal_run_after m a'(1) by blast
          have op: "list_all (\<lambda>c. \<not> is_token_char c) opener" using pair(3) by (auto simp: kv_value_def)
          from v show False
          proof
            assume "v = []" then show False using no_maximal_run [of a' run b'] op a'(2) m' by simp
          next
            assume mv: "v = kRedactionMarker"
            have "v = [] \<or> \<not> is_token_char (hd v)" using mv by (simp add: marker_facts)
            from maximal_run_split [OF m' a'(2) this] show False
            proof (elim disjE exE conjE)
              fix z assume "opener = a' @ run @ z"
              then show False using no_maximal_run [of a' run z] op m' by simp
            next
              fix z assume "a' = opener @ z" "z @ run @ b' = v"
              then show False using maximal_run_marker [of z run b'] maximal_run_after m' mv less.prems(5) by metis
            qed
          qed
        qed
      qed
      with step [of "h @ opener @ v" r] show ?thesis using pair(1) h kv_rest [OF pair(3)] kept by simp
    next
      case (hidden w r)
      then have "hd (kRedactionMarker @ scrub_loop (q @ w) r) = hd (w @ r)" using less.prems(2) by simp
      then show ?thesis using hidden(2,3) by (cases w) (auto simp: marker_facts)
    next
      case (kept w r)
      have "\<not> (\<exists>b'. w = a @ run @ b')"
      proof
        assume "\<exists>b'. w = a @ run @ b'"
        then have "list_all is_token_char a" using kept(3) by auto
        then show False using less.prems(4) a by (cases a rule: rev_cases) (auto simp: maximal_run_def)
      qed
      then show ?thesis using step [of w r] kept less.prems(2) by simp
    qed
  qed
qed

lemma sensitive_not_digits:
  assumes "key_is_sensitive run" shows "\<not> run_is_all_digits run"
proof
  assume "run_is_all_digits run"
  then have digits: "\<And>c. c \<in> set run \<Longrightarrow> to_lower_ascii c = c \<and> is_digit c"
    by (auto simp: run_is_all_digits_def list_all_iff is_digit_def to_lower_ascii_def)
  from assms obtain needle i where n: "needle \<in> set kSensitiveKeyNeedles" "needle_at needle run i"
    unfolding key_is_sensitive_def list_ex_iff by blast
  have "hd needle \<in> set needle" "\<not> is_digit (hd needle)"
    using n(1) by (auto simp: kSensitiveKeyNeedles_def is_digit_def)
  moreover have "set needle \<subseteq> set run"
  proof
    fix c assume "c \<in> set needle"
    then obtain d where "d \<in> set (take (length needle) (drop i run))" "c = to_lower_ascii d"
      using n(2) unfolding needle_at_def by (metis imageE list.set_map)
    then show "c \<in> set run" using digits by (metis in_set_dropD in_set_takeD)
  qed
  ultimately show False using digits by blast
qed

lemma kv_head_run:
  assumes "kv_head h" "maximal_run a run b" "run @ b = h @ z"
  obtains q1 ws1 sep z' where "b = q1 @ ws1 @ sep # z'" "kv_gap q1 ws1 sep" "key_is_sensitive run"
proof -
  from assms(1) obtain key q1 ws1 sep ws2 where h: "h = key @ q1 @ ws1 @ [sep] @ ws2"
    and key: "key \<noteq> []" "list_all is_token_char key" "key_is_sensitive key"
    and gap: "kv_gap q1 ws1 sep" unfolding kv_head_def kv_gap_def by blast
  let ?t = "q1 @ ws1 @ sep # ws2 @ z"
  have "?t = [] \<or> \<not> is_token_char (hd ?t)" using gap by (cases q1; cases ws1) (auto simp: kv_gap_def)
  then have "takeWhile is_token_char (key @ ?t) = key" using key(2) by (intro takeWhile_stop) auto
  then have "run = key" using maximal_run_stop [OF assms(2)] assms(3) h by simp
  then show thesis using that [of q1 ws1 sep "ws2 @ z"] gap key(3) assms(3) h by simp
qed

lemma scrub_loop_match:
  assumes "try_key_value s = Some (out, r)" "s \<noteq> []" "is_token_char (hd s)" "p = [] \<or> \<not> is_token_char (last p)"
  shows "scrub_loop p s = out @ scrub_loop (p @ take (length s - length r) s) r"
  using assms by (subst scrub_loop.simps) simp

lemma sensitive_value_kept:
  assumes "maximal_run a run b" "key_is_sensitive run" "b = q1 @ ws1 @ sep # z" "kv_gap q1 ws1 sep"
    and "boundary p (run @ b)" "scrub_loop p (run @ b) = run @ b"
  shows "\<exists>opener v r. dropWhile is_space_char z = opener @ v @ r \<and> kv_value opener v r \<and> v \<in> {[], kRedactionMarker}"
proof -
  let ?s = "run @ b" and ?u = "dropWhile is_space_char z"
  have run: "run \<noteq> []" "list_all is_token_char run" using assms(1) by (auto simp: maximal_run_def)
  have "is_token_char (hd ?s)" "?s \<noteq> []" using run by (cases run; simp)+
  then have p: "p = [] \<or> \<not> is_token_char (last p)" using assms(5) by (auto simp: boundary_def)
  have match: "try_key_value ?s = Some (take (length ?s - length ?u) ?s @ fst (redact_value ?u), snd (redact_value ?u))"
    using try_key_value_sep [OF run assms(2), of q1 ws1 sep z] assms(3,4) by (simp add: kv_gap_def)
  have "?u = [] \<or> \<not> is_space_char (hd ?u)" using hd_dropWhile by blast
  from redact_value_elim [OF surjective_pairing this] obtain opener v where
    kv: "kv_value opener v (snd (redact_value ?u))" "?u = opener @ v @ snd (redact_value ?u)"
      "fst (redact_value ?u) = opener @ (if v = [] then [] else kRedactionMarker)" .
  let ?r = "snd (redact_value ?u)" and ?k = "length ?s - length ?u"
  note scrub_loop_match [OF match \<open>?s \<noteq> []\<close> \<open>is_token_char (hd ?s)\<close> p]
  then obtain p' where "scrub_loop p ?s = (take ?k ?s @ fst (redact_value ?u)) @ scrub_loop p' ?r" by blast
  moreover have "?s = (run @ q1 @ ws1 @ [sep] @ takeWhile is_space_char z) @ ?u" unfolding assms(3) by simp
  then have "?s = take ?k ?s @ ?u" by (metis append_eq_conv_conj diff_diff_cancel length_append add_diff_cancel_right')
  ultimately have "(if v = [] then [] else kRedactionMarker) @ scrub_loop p' ?r = v @ ?r"
    using assms(6) kv(2,3) by (metis append.assoc same_append_eq)
  from kept_value [OF kv(1) this] have "v \<in> {[], kRedactionMarker}" by (cases "v = []") simp_all
  then show ?thesis using kv(1,2) by blast
qed

text \<open>C20. What can stand in scrubbed text, whatever text was scrubbed.  Take any maximal run of token
  characters of the result.  If it has the shape of an access token (twenty characters or more, with
  a letter and a digit), it is a key: it contains a sensitive needle and is followed, after an
  optional closing quote and blanks, by a colon or an equals sign.  If it is such a key with such a
  separator, whatever its length, the value after the separator (quoted up to the closing quote, or
  bare up to a delimiter) is empty or is the redaction marker.  And it is not a number of four to eight
  digits with one of the authentication words, as a word, in the ten characters before it.\<close>

theorem scrub_hides_credentials:
  assumes "scrub text = a @ run @ b" and "maximal_run a run b"
  shows "(20 \<le> length run \<and> run_has_letter_and_digit run \<longrightarrow>
      key_is_sensitive run \<and> (\<exists>q1 ws1 sep z. b = q1 @ ws1 @ sep # z \<and> kv_gap q1 ws1 sep))
    \<and> (\<forall>q1 ws1 sep z. key_is_sensitive run \<and> b = q1 @ ws1 @ sep # z \<and> kv_gap q1 ws1 sep \<longrightarrow>
      (\<exists>opener v r. dropWhile is_space_char z = opener @ v @ r \<and> kv_value opener v r
         \<and> v \<in> {[], kRedactionMarker}))
    \<and> \<not> (4 \<le> length run \<and> length run \<le> 8 \<and> run_is_all_digits run \<and> auth_context_before a)"
proof (cases "run = ''REDACTED''")
  case True
  have "\<not> key_is_sensitive ''REDACTED''" by code_simp
  then show ?thesis using True by (simp add: run_is_all_digits_def is_digit_def)
next
  case False
  have "scrub_loop [] (scrub text) = scrub text" using scrub_idempotent [of "text"] by (simp add: scrub_def)
  from fixed_run [OF _ this assms False] have fx: "boundary a (run @ b)"
    "scrub_loop a (run @ b) = run @ b"
    by (simp_all add: boundary_def)
  note run = maximal_run_stop [OF assms(2)]
  have ne: "run \<noteq> []" "list_all is_token_char run" using assms(2) by (auto simp: maximal_run_def)
  have "(20 \<le> length run \<and> run_has_letter_and_digit run \<longrightarrow>
      key_is_sensitive run \<and> (\<exists>q1 ws1 sep z. b = q1 @ ws1 @ sep # z \<and> kv_gap q1 ws1 sep))
    \<and> \<not> (4 \<le> length run \<and> length run \<le> 8 \<and> run_is_all_digits run \<and> auth_context_before a)"
    using fx(1)
  proof (cases rule: scrub_loop_cases)
    case (pair h opener v r)
    from kv_head_run [OF pair(2) assms(2) pair(1)] show ?thesis using sensitive_not_digits by metis
  next
    case (hidden w r)
    then have "hd (kRedactionMarker @ scrub_loop (a @ w) r) = hd (run @ b)" using fx(2) by simp
    then show ?thesis using ne by (cases run) (auto simp: marker_facts)
  next
    case (kept w r)
    then have "w = run" using run takeWhile_stop [of is_token_char w r] by simp
    then show ?thesis using kept(7,8) by blast
  next
    case (other c cs)
    then show ?thesis using ne by (cases run) auto
  qed (use ne in simp)
  then show ?thesis using sensitive_value_kept [OF assms(2) _ _ _ fx] by blast
qed

text \<open>The witness scrubs a long key with its value, and finds the key kept and the value gone.\<close>

theorem scrub_hides_credentials_witness:
  "scrub ''x_token_a1b2c3d4e5f6a7 = s3cr3t ok'' = ''x_token_a1b2c3d4e5f6a7 = ***REDACTED*** ok''
   \<and> scrub ''a1b2c3d4e5f6a7b8c9d0_token ok'' = ''***REDACTED*** ok''
   \<and> (\<exists>opener v r. ''***REDACTED*** ok'' = opener @ v @ r \<and> kv_value opener v r \<and> v \<in> {[], kRedactionMarker})"
proof -
  let ?run = "''x_token_a1b2c3d4e5f6a7''" and ?b = "'' = ***REDACTED*** ok''"
  have s: "scrub ''x_token_a1b2c3d4e5f6a7 = s3cr3t ok'' = [] @ ?run @ ?b" by code_simp
  have t: "scrub ''a1b2c3d4e5f6a7b8c9d0_token ok'' = ''***REDACTED*** ok''" by code_simp
  have m: "maximal_run [] ?run ?b" unfolding maximal_run_def by code_simp
  have key: "key_is_sensitive ?run" by code_simp
  have b: "?b = [] @ '' '' @ CHR ''='' # '' ***REDACTED*** ok''" by simp
  have g: "kv_gap [] '' '' (CHR ''='')" by (simp add: kv_gap_def is_space_char_def)
  have "\<exists>opener v r. dropWhile is_space_char '' ***REDACTED*** ok'' = opener @ v @ r \<and> kv_value opener v r
     \<and> v \<in> {[], kRedactionMarker}"
    using scrub_hides_credentials [OF s m] key b g by blast
  moreover have "dropWhile is_space_char '' ***REDACTED*** ok'' = ''***REDACTED*** ok''" by code_simp
  ultimately show ?thesis using s t by simp
qed

end
