(* ===== verification/Civil_Date.thy ===== *)
theory Civil_Date
  imports Prelude
begin

text \<open>
  What the program uses of the calendar half of \<^verbatim>\<open>std::chrono\<close>: the proleptic Gregorian date of a day
  number counted from 1970-01-01 and back, and the text of an instant in UTC.
\<close>

record civil_date =
  cd_year :: int
  cd_month :: int
  cd_day :: int

definition civil_of_days :: "int \<Rightarrow> civil_date" where
  "civil_of_days days =
     (let z = days + 719468;
          era = z div 146097;
          doe = z mod 146097;
          yoe = (doe - doe div 1460 + doe div 36524 - doe div 146096) div 365;
          doy = doe - (365 * yoe + yoe div 4 - yoe div 100);
          mp = (5 * doy + 2) div 153;
          d = doy - (153 * mp + 2) div 5 + 1;
          m = (if mp < 10 then mp + 3 else mp - 9)
      in \<lparr>cd_year = yoe + era * 400 + (if m \<le> 2 then 1 else 0), cd_month = m, cd_day = d\<rparr>)"

definition days_of_civil :: "civil_date \<Rightarrow> int" where
  "days_of_civil c =
     (let y = cd_year c - (if cd_month c \<le> 2 then 1 else 0);
          era = y div 400;
          yoe = y mod 400;
          mp = (if cd_month c > 2 then cd_month c - 3 else cd_month c + 9);
          doy = (153 * mp + 2) div 5 + cd_day c - 1;
          doe = yoe * 365 + yoe div 4 - yoe div 100 + doy
      in era * 146097 + doe - 719468)"

definition is_leap :: "int \<Rightarrow> bool" where
  "is_leap y \<longleftrightarrow> y mod 4 = 0 \<and> (y mod 100 \<noteq> 0 \<or> y mod 400 = 0)"

definition last_day_of_month :: "int \<Rightarrow> int \<Rightarrow> int" where
  "last_day_of_month y m =
     (if m = 2 then (if is_leap y then 29 else 28)
      else if m \<in> {4, 6, 9, 11} then 30 else 31)"

text \<open>\<^verbatim>\<open>year_month_day::ok()\<close>.\<close>

definition civil_ok :: "civil_date \<Rightarrow> bool" where
  "civil_ok c \<longleftrightarrow> 1 \<le> cd_month c \<and> cd_month c \<le> 12 \<and> 1 \<le> cd_day c
     \<and> cd_day c \<le> last_day_of_month (cd_year c) (cd_month c)"

definition ns_per_day :: int where
  "ns_per_day = 86400000000000"

text \<open>Zero-padded decimal, and the text YYYY-MM-DD of a date.\<close>

definition pad :: "int \<Rightarrow> nat \<Rightarrow> string" where
  "pad v width = (let digits = show_int v in replicate (width - length digits) (CHR ''0'') @ digits)"

definition to_iso :: "civil_date \<Rightarrow> string" where
  "to_iso c = pad (cd_year c) 4 @ ''-'' @ pad (cd_month c) 2 @ ''-'' @ pad (cd_day c) 2"

section \<open>Known dates\<close>

lemma civil_examples:
  "civil_of_days 0 = \<lparr>cd_year = 1970, cd_month = 1, cd_day = 1\<rparr>"
  "civil_of_days 19782 = \<lparr>cd_year = 2024, cd_month = 2, cd_day = 29\<rparr>"
  "civil_of_days (- 1) = \<lparr>cd_year = 1969, cd_month = 12, cd_day = 31\<rparr>"
  "days_of_civil \<lparr>cd_year = 2000, cd_month = 3, cd_day = 1\<rparr> = 11017"
  by code_simp+

section \<open>Days and dates correspond\<close>

text \<open>A year of the 400-year cycle begins on the first of March; \<open>year_start\<close> is its first day.\<close>

definition year_start :: "int \<Rightarrow> int" where
  "year_start y = 365 * y + y div 4 - y div 100"

definition year_of_doe :: "int \<Rightarrow> int" where
  "year_of_doe doe = (doe - doe div 1460 + doe div 36524 - doe div 146096) div 365"

definition date_of_doy :: "int \<Rightarrow> int \<times> int" where
  "date_of_doy doy = (let mp = (5 * doy + 2) div 153 in (mp, doy - (153 * mp + 2) div 5 + 1))"

definition year_days :: "int \<Rightarrow> int" where
  "year_days y = (if is_leap (y + 1) then 366 else 365)"

lemma year_start_table:
  "list_all (\<lambda>y. year_of_doe (year_start y) = y
      \<and> year_of_doe (year_start y + year_days y - 1) = y
      \<and> (y < 399 \<longrightarrow> year_start (y + 1) = year_start y + year_days y)) [0..399]"
  by code_simp

lemma date_of_doy_table:
  "list_all (\<lambda>doy. let (mp, d) = date_of_doy doy in 0 \<le> mp \<and> mp \<le> 11 \<and> 1 \<le> d
      \<and> (if mp = 11 then d \<le> (if doy = 365 then 29 else 28)
         else d \<le> (if (if mp < 10 then mp + 3 else mp - 9) \<in> {4, 6, 9, 11} then 30 else 31))) [0..365]"
  by code_simp

lemma year_table:
  assumes "0 \<le> y" "y \<le> 399"
  shows "year_of_doe (year_start y) = y" "year_of_doe (year_start y + year_days y - 1) = y"
    "y < 399 \<Longrightarrow> year_start (y + 1) = year_start y + year_days y"
  using year_start_table [unfolded list_all_iff] assms by auto

lemma scaled_mono: "a \<le> b \<Longrightarrow> 1 < k \<Longrightarrow> a - a div k \<le> b - b div (k :: int)"
proof -
  assume "a \<le> b" "1 < k"
  have "a - a div k \<le> a + int n - (a + int n) div k" for n
  proof (induction n)
    case (Suc n)
    have "(a + int n + 1) div k \<le> (a + int n + k) div k" using \<open>1 < k\<close> by (intro zdiv_mono1) auto
    also have "\<dots> = (a + int n) div k + 1" using div_add_self2 [of k "a + int n"] \<open>1 < k\<close> by simp
    finally have "(a + int (Suc n)) div k \<le> (a + int n) div k + 1" by (simp add: algebra_simps)
    then show ?case using Suc by simp
  qed simp
  from this [of "nat (b - a)"] show ?thesis using \<open>a \<le> b\<close> by simp
qed

lemma year_of_doe_mono: "a \<le> b \<Longrightarrow> year_of_doe a \<le> year_of_doe b"
proof -
  assume ab: "a \<le> b"
  have q: "x div 146096 = x div 36524 div 4" for x :: int by (simp add: zdiv_zmult2_eq [of 4 x 36524, simplified])
  have "a div 36524 \<le> b div 36524" using ab by (simp add: zdiv_mono1)
  then have "a div 36524 - a div 146096 \<le> b div 36524 - b div 146096" unfolding q by (rule scaled_mono) simp
  moreover have "a - a div 1460 \<le> b - b div 1460" using ab by (rule scaled_mono) simp
  ultimately show ?thesis unfolding year_of_doe_def by (intro zdiv_mono1) auto
qed

lemma doe_in_year:
  assumes "0 \<le> doe" "k \<le> 399" "doe < year_start (int k) + year_days (int k)"
  shows "\<exists>y. 0 \<le> y \<and> y \<le> 399 \<and> year_start y \<le> doe \<and> doe < year_start y + year_days y"
  using assms
proof (induction k)
  case 0
  then show ?case by (intro exI [of _ 0]) (simp add: year_start_def)
next
  case (Suc k)
  show ?case
  proof (cases "year_start (int (Suc k)) \<le> doe")
    case True
    then show ?thesis using Suc.prems by (intro exI [of _ "int (Suc k)"]) auto
  next
    case False
    then have "doe < year_start (int k) + year_days (int k)"
      using year_table(3) [of "int k"] Suc.prems by (simp add: algebra_simps)
    then show ?thesis using Suc.IH Suc.prems by simp
  qed
qed

lemma year_of_doe_spec:
  assumes "0 \<le> doe" "doe < 146097"
  obtains y where "0 \<le> y" "y \<le> 399" "year_of_doe doe = y" "0 \<le> doe - year_start y" "doe - year_start y < year_days y"
proof -
  have "year_start 399 + year_days 399 = 146097" by (simp add: year_start_def year_days_def is_leap_def)
  then obtain y where y: "0 \<le> y" "y \<le> 399" "year_start y \<le> doe" "doe < year_start y + year_days y"
    using doe_in_year [of doe 399] assms by auto
  have "year_of_doe doe = y"
    using year_table(1,2) [OF y(1,2)] year_of_doe_mono [OF y(3)] year_of_doe_mono [of doe "year_start y + year_days y - 1"] y(4)
    by simp
  then show ?thesis using that y by simp
qed

lemma leap_cycle: "is_leap (y + n * 400) = is_leap y"
proof -
  have "(y + n * 400) mod 100 = y mod 100" "(y + n * 400) mod 4 = y mod 4"
    using mod_mult_self1 [of y "n * 4" 100] mod_mult_self1 [of y "n * 100" 4] by (simp_all add: algebra_simps)
  then show ?thesis by (simp add: is_leap_def)
qed

lemma civil_of_days_alt:
  "civil_of_days days =
     (let era = (days + 719468) div 146097; doe = (days + 719468) mod 146097; y = year_of_doe doe;
          doy = doe - year_start y; mp = (5 * doy + 2) div 153; m = (if mp < 10 then mp + 3 else mp - 9)
      in \<lparr>cd_year = y + era * 400 + (if m \<le> 2 then 1 else 0), cd_month = m,
          cd_day = doy - (153 * mp + 2) div 5 + 1\<rparr>)"
  unfolding civil_of_days_def year_of_doe_def year_start_def Let_def by (rule refl)

lemma civil_of_days_spec:
  fixes day :: int
  shows "civil_ok (civil_of_days day)" "days_of_civil (civil_of_days day) = day"
proof -
  define era where "era = (day + 719468) div 146097"
  define doe where "doe = (day + 719468) mod 146097"
  have day: "day = era * 146097 + doe - 719468" "0 \<le> doe" "doe < 146097"
    using div_mult_mod_eq [of "day + 719468" 146097] by (simp_all add: era_def doe_def)
  then obtain y where y: "0 \<le> y" "y \<le> 399" "year_of_doe doe = y" "0 \<le> doe - year_start y" "doe - year_start y < year_days y"
    using year_of_doe_spec by metis
  define doy where "doy = doe - year_start y"
  define mp where "mp = (5 * doy + 2) div 153"
  define d where "d = doy - (153 * mp + 2) div 5 + 1"
  define m where "m = (if mp < 10 then mp + 3 else mp - 9)"
  have doy: "0 \<le> doy" "doy \<le> 365" "doy = 365 \<longrightarrow> is_leap (y + 1)"
    using y(4,5) by (auto simp: doy_def year_days_def split: if_splits)
  have t: "0 \<le> mp \<and> mp \<le> 11 \<and> 1 \<le> d \<and> (if mp = 11 then d \<le> (if doy = 365 then 29 else 28)
      else d \<le> (if (if mp < 10 then mp + 3 else mp - 9) \<in> {4, 6, 9, 11} then 30 else 31))"
  proof -
    have "doy \<in> set [0..365]" using doy(1,2) by simp
    then show ?thesis using date_of_doy_table [unfolded list_all_iff date_of_doy_def Let_def prod.case] unfolding mp_def d_def by blast
  qed
  have c: "civil_of_days day = \<lparr>cd_year = y + era * 400 + (if m \<le> 2 then 1 else 0), cd_month = m, cd_day = d\<rparr>"
    unfolding civil_of_days_alt Let_def doe_def [symmetric] era_def [symmetric] y(3) doy_def [symmetric]
      mp_def [symmetric] d_def [symmetric] m_def [symmetric] by (rule refl)
  have m11: "m = 2 \<longleftrightarrow> mp = 11" "1 \<le> m" "m \<le> 12" "m > 2 \<Longrightarrow> m - 3 = mp" "m \<le> 2 \<Longrightarrow> m + 9 = mp"
    using t by (auto simp: m_def split: if_splits)
  have lp: "is_leap (y + era * 400 + 1) = is_leap (y + 1)" using leap_cycle [of "y + 1" era] by (simp add: algebra_simps)
  have "d \<le> last_day_of_month (y + era * 400 + (if m \<le> 2 then 1 else 0)) m"
  proof (cases "mp = 11")
    case True
    then have "m = 2" using m11(1) by simp
    then show ?thesis using True t doy(3) lp by (simp add: last_day_of_month_def split: if_splits)
  next
    case False
    then have "m \<noteq> 2" "d \<le> (if m \<in> {4, 6, 9, 11} then 30 else 31)" using m11(1) t unfolding m_def by simp_all
    then show ?thesis by (simp add: last_day_of_month_def)
  qed
  then show "civil_ok (civil_of_days day)" using t m11(2,3) unfolding c civil_ok_def by simp
  have "(y + era * 400) div 400 = era" "(y + era * 400) mod 400 = y" using y(1,2) by simp_all
  moreover have "(153 * mp + 2) div 5 + d - 1 = doy" by (simp add: d_def)
  ultimately show "days_of_civil (civil_of_days day) = day"
    using m11(4,5) day(1) unfolding c days_of_civil_def Let_def
    by (auto simp: doy_def year_start_def split: if_splits)
qed

end
