(* ===== verification/Ledger.thy ===== *)
theory Ledger
  imports Errors Json Redaction Sha256 Civil_Date
begin

text \<open>
  \<^verbatim>\<open>ledger/ledger.cpp\<close>: the hash-chained audit ledger, its checkpoint file and the operator's
  heartbeat.

  The record \<open>ledger\<close> holds the members of the class and the bytes of the two files it owns.  What
  the operating system does is an argument of each operation (\<open>append_io\<close>, \<open>load_io\<close>,
  \<open>checkpoint_io\<close>), and so are OpenSSL's primitives: \<open>evp\<close> is the raw digest of a text
  (\<open>None\<close> when a call fails) and \<open>ed25519\<close> the two signature primitives.  Byte vectors are byte
  strings.
\<close>

section \<open>Hexadecimal\<close>

definition kDigits :: string where
  "kDigits = ''0123456789abcdef''"

definition to_hex :: "string \<Rightarrow> string" where
  "to_hex data = concat (map (\<lambda>b. [kDigits ! (byte b div 16), kDigits ! (byte b mod 16)]) data)"

definition nibble :: "char \<Rightarrow> int" where
  "nibble c =
     (if 48 \<le> byte c \<and> byte c \<le> 57 then int (byte c) - 48
      else if 97 \<le> byte c \<and> byte c \<le> 102 then int (byte c) - 97 + 10
      else if 65 \<le> byte c \<and> byte c \<le> 70 then int (byte c) - 65 + 10
      else -1)"

fun from_hex_loop :: "string \<Rightarrow> string option" where
  "from_hex_loop (a # b # rest) =
     (let hi = nibble a; lo = nibble b in
      if hi < 0 \<or> lo < 0 then None
      else case from_hex_loop rest of
             None \<Rightarrow> None
           | Some out \<Rightarrow> Some (char_of (nat (hi * 16 + lo)) # out))"
| "from_hex_loop _ = Some []"

definition from_hex :: "string \<Rightarrow> string option" where
  "from_hex hex = (if length hex mod 2 \<noteq> 0 then None else from_hex_loop hex)"

definition ledger_sha256_hex :: "(string \<Rightarrow> string option) \<Rightarrow> string \<Rightarrow> string" where
  "ledger_sha256_hex evp data = (case evp data of None \<Rightarrow> [] | Some digest \<Rightarrow> to_hex digest)"

section \<open>State\<close>

record ledger_entry =
  le_seq :: int64
  le_prev_hash :: string
  le_payload :: string
  le_hash :: string

record provenance_context =
  pc_client_ref :: string
  pc_broker_order_id :: string
  pc_strategy :: string

definition no_provenance :: provenance_context where
  "no_provenance = \<lparr>pc_client_ref = [], pc_broker_order_id = [], pc_strategy = []\<rparr>"

record ledger =
  lg_entries :: "ledger_entry list"
  lg_poisoned :: bool
  lg_file :: "string option"
  lg_checkpoint :: "string option"

definition file_bytes :: "ledger \<Rightarrow> string" where
  "file_bytes lg = (case lg_file lg of None \<Rightarrow> [] | Some s \<Rightarrow> s)"

definition ledger_error :: "error_category \<Rightarrow> string \<Rightarrow> error" where
  "ledger_error c message = make_error c message []"

definition provenance_block :: "provenance_context \<Rightarrow> string" where
  "provenance_block p = render_provenance_block
     [\<lparr>pf_key = ''client_ref'', pf_value = pc_client_ref p, pf_kind = IdKind\<rparr>,
      \<lparr>pf_key = ''broker_order_id'', pf_value = pc_broker_order_id p, pf_kind = IdKind\<rparr>,
      \<lparr>pf_key = ''strategy'', pf_value = pc_strategy p, pf_kind = IdKind\<rparr>]"

definition entry_fields :: "ledger_entry \<Rightarrow> (string \<times> json) list" where
  "entry_fields e =
     [(''seq'', JInt (le_seq e)), (''prev_hash'', JStr (le_prev_hash e)),
      (''payload'', JStr (le_payload e)), (''hash'', JStr (le_hash e))]"

definition entry_to_line :: "json_lib \<Rightarrow> ledger_entry \<Rightarrow> string" where
  "entry_to_line lib e = jl_dump lib (JObj (entry_fields e))"

section \<open>Appending\<close>

text \<open>The outcomes of the system calls of one append: the measurement, the open and the read of the last
  byte, \<^verbatim>\<open>fopen\<close>, the write (\<open>Some n\<close>: it failed with the first \<open>n\<close> bytes in the file; \<open>None\<close>: all
  bytes are in the file), the sync and the close; then the calls of \<open>restore_to_size\<close>.\<close>

record append_io =
  ai_measure_ok :: bool
  ai_tail_readable :: bool
  ai_fopen_ok :: bool
  ai_short_write :: "nat option"
  ai_sync_ok :: bool
  ai_close_ok :: bool
  ai_remeasure_ok :: bool
  ai_resize_ok :: bool
  ai_reopen_ok :: bool
  ai_resync_ok :: bool
  ai_reclose_ok :: bool

definition ends_on_record_boundary :: "bool \<Rightarrow> string \<Rightarrow> bool" where
  "ends_on_record_boundary readable contents =
     (if \<not> readable then False else contents \<noteq> [] \<and> last contents = newline)"

definition restore_to_size :: "append_io \<Rightarrow> nat \<Rightarrow> string \<Rightarrow> bool \<times> string" where
  "restore_to_size io target contents =
     (if \<not> ai_remeasure_ok io then (False, contents)
      else if length contents = target then (True, contents)
      else if length contents < target then (False, contents)
      else if \<not> ai_resize_ok io then (False, contents)
      else
        let contents = take target contents in
        if \<not> ai_reopen_ok io then (False, contents)
        else (ai_resync_ok io \<and> ai_reclose_ok io, contents))"

definition next_entry :: "(string \<Rightarrow> string option) \<Rightarrow> ledger \<Rightarrow> string \<Rightarrow> provenance_context \<Rightarrow> ledger_entry" where
  "next_entry evp lg payload provenance =
     (let prev = (if lg_entries lg = [] then [] else le_hash (last (lg_entries lg)));
          stored = canonical_text (scrub payload @ provenance_block provenance)
      in \<lparr>le_seq = int (length (lg_entries lg)), le_prev_hash = prev, le_payload = stored,
          le_hash = ledger_sha256_hex evp (prev @ stored)\<rparr>)"

definition ledger_append ::
    "json_lib \<Rightarrow> (string \<Rightarrow> string option) \<Rightarrow> append_io \<Rightarrow> ledger \<Rightarrow> string \<Rightarrow> provenance_context
     \<Rightarrow> ledger_entry result \<times> ledger" where
  "ledger_append lib evp io lg payload provenance =
     (if lg_poisoned lg
      then (Inl (ledger_error Validation (''ledger: sealed by an earlier failed append; refusing to write onto ''
              @ ''unaccounted bytes'')), lg)
      else
        let entry = next_entry evp lg payload provenance in
        if le_hash entry = []
        then (Inl (ledger_error Internal ''ledger: SHA-256 hashing failed''), lg)
        else
          let line = entry_to_line lib entry @ [newline];
              size0 = length (file_bytes lg)
          in if \<not> ai_measure_ok io
             then (Inl (ledger_error Internal ''ledger: failed to measure ledger file before append''), lg)
             else if size0 > 0 \<and> \<not> ends_on_record_boundary (ai_tail_readable io) (file_bytes lg)
             then (Inl (ledger_error Validation (''ledger: refusing to append onto a torn ledger file (the last record ''
                     @ ''has no line terminator)'')), lg \<lparr>lg_poisoned := True\<rparr>)
             else if \<not> ai_fopen_ok io
             then (Inl (ledger_error Internal ''ledger: failed to open ledger file for append''), lg)
             else
               let flushed = (ai_short_write io = None);
                   contents = file_bytes lg @ (case ai_short_write io of None \<Rightarrow> line | Some n \<Rightarrow> take n line);
                   synced = (flushed \<and> ai_sync_ok io)
               in if \<not> flushed \<or> \<not> synced \<or> \<not> ai_close_ok io
                  then
                    (case restore_to_size io size0 contents of (restored, contents) \<Rightarrow>
                       if \<not> restored
                       then (Inl (ledger_error Validation (''ledger: failed to write ledger entry AND could not restore the file ''
                               @ ''to its pre-append size; ledger sealed'')),
                             lg \<lparr>lg_file := Some contents, lg_poisoned := True\<rparr>)
                       else (Inl (ledger_error Internal
                               (if flushed then ''ledger: failed to durably sync ledger entry''
                                else ''ledger: failed to write ledger entry'')),
                             lg \<lparr>lg_file := Some contents\<rparr>))
                  else (Inr entry, lg \<lparr>lg_file := Some contents, lg_entries := lg_entries lg @ [entry]\<rparr>))"

section \<open>Verification and loading\<close>

definition replacement_hint :: string where
  "replacement_hint = '' (observed: payload hash mismatch; link and seq intact; stored payload contains ''
     @ ''U+FFFD. These are facts for the runbook to interpret, NOT an exoneration ''
     @ [CHR 0xE2, CHR 0x80, CHR 0x94] @ '' the entry ''
     @ ''is BROKEN and still blocks safe start.)''"

fun verify_loop :: "(string \<Rightarrow> string option) \<Rightarrow> nat \<Rightarrow> string \<Rightarrow> ledger_entry list \<Rightarrow> unit result" where
  "verify_loop evp i prev [] = Inr ()"
| "verify_loop evp i prev (e # es) =
     (let expected = ledger_sha256_hex evp (le_prev_hash e @ le_payload e);
          hash_ok = (expected \<noteq> [] \<and> le_hash e = expected);
          link_ok = (if i = 0 then le_prev_hash e = [] else le_prev_hash e = prev);
          seq_ok = (le_seq e = int i)
      in if \<not> hash_ok \<or> \<not> link_ok \<or> \<not> seq_ok
         then Inl (ledger_error Validation
                (''ledger chain broken at seq '' @ show_nat i
                 @ (if \<not> hash_ok \<and> link_ok \<and> seq_ok \<and> contains_text kUtf8Replacement (le_payload e)
                    then replacement_hint else [])))
         else verify_loop evp (i + 1) (le_hash e) es)"

definition verify_chain :: "(string \<Rightarrow> string option) \<Rightarrow> ledger \<Rightarrow> unit result" where
  "verify_chain evp lg = verify_loop evp 0 [] (lg_entries lg)"

text \<open>\<^verbatim>\<open>std::getline\<close> until the end of the stream.\<close>

function getlines :: "string \<Rightarrow> string list" where
  "getlines s = (if s = [] then []
     else let l = takeWhile (\<lambda>c. c \<noteq> newline) s in l # getlines (drop (length l + 1) s))"
  by pat_completeness auto
termination by (relation "measure length") auto

declare getlines.simps [simp del]

text \<open>The index of the last non-empty line, or the number of lines.\<close>

definition last_content :: "string list \<Rightarrow> nat" where
  "last_content lines =
     (let k = length (takeWhile (\<lambda>l. l = []) (rev lines))
      in if k = length lines then length lines else length lines - 1 - k)"

definition parse_entry :: "json_lib \<Rightarrow> string \<Rightarrow> ledger_entry option" where
  "parse_entry lib line =
     (case jl_parse lib line of
        Some (JObj fs) \<Rightarrow>
          (case (map_of fs ''seq'', map_of fs ''prev_hash'', map_of fs ''payload'', map_of fs ''hash'') of
             (Some (JInt sq), Some (JStr ph), Some (JStr pl), Some (JStr h)) \<Rightarrow>
               Some \<lparr>le_seq = cast_int64 sq, le_prev_hash = ph, le_payload = pl, le_hash = h\<rparr>
           | _ \<Rightarrow> None)
      | _ \<Rightarrow> None)"

fun load_loop :: "json_lib \<Rightarrow> nat \<Rightarrow> nat \<Rightarrow> ledger_entry list \<Rightarrow> string list \<Rightarrow> unit result \<times> ledger_entry list" where
  "load_loop lib lc i acc [] = (Inr (), acc)"
| "load_loop lib lc i acc (l # ls) =
     (if l = [] then load_loop lib lc (i + 1) acc ls
      else case parse_entry lib l of
             None \<Rightarrow> if i = lc then load_loop lib lc (i + 1) acc ls
                     else (Inl (ledger_error Validation (''ledger: malformed entry on line '' @ show_nat (i + 1))), acc)
           | Some e \<Rightarrow> load_loop lib lc (i + 1) (acc @ [e]) ls)"

record load_io =
  li_open_ok :: bool
  li_read_ok :: bool

definition ledger_load :: "json_lib \<Rightarrow> load_io \<Rightarrow> ledger \<Rightarrow> unit result \<times> ledger" where
  "ledger_load lib io lg =
     (let lg = lg \<lparr>lg_entries := []\<rparr> in
      case lg_file lg of
        None \<Rightarrow> (Inl (ledger_error Validation ''ledger: ledger file not found''), lg)
      | Some contents \<Rightarrow>
          if \<not> li_open_ok io
          then (Inl (ledger_error Validation ''ledger: ledger file not found''), lg)
          else if \<not> li_read_ok io
          then (Inl (ledger_error Internal ''ledger: failed to read ledger file''), lg)
          else
            let lines = getlines contents;
                (res, es) = load_loop lib (last_content lines) 0 [] lines
            in (res, lg \<lparr>lg_entries := es\<rparr>))"

definition head_hash :: "ledger \<Rightarrow> string" where
  "head_hash lg = (if lg_entries lg = [] then [] else le_hash (last (lg_entries lg)))"

definition ledger_size :: "ledger \<Rightarrow> nat" where
  "ledger_size lg = length (lg_entries lg)"

section \<open>Signatures\<close>

text \<open>OpenSSL's Ed25519: \<open>ed_sign key message\<close> and \<open>ed_verify key message signature\<close>, \<open>Inl\<close> with the
  program's message when one of the set-up calls fails, otherwise the signature, or the return code
  of \<^verbatim>\<open>EVP_DigestVerify\<close>.  \<open>ed_keygen\<close> is the outcome of one key generation.\<close>

record ed25519 =
  ed_keygen :: "string + string \<times> string"
  ed_sign :: "string \<Rightarrow> string \<Rightarrow> string + string"
  ed_verify :: "string \<Rightarrow> string \<Rightarrow> string \<Rightarrow> string + int"

definition kEd25519KeyBytes :: nat where
  "kEd25519KeyBytes = 32"

record ed25519_key_pair =
  kp_public_key :: string
  kp_private_key :: string

definition generate_keypair :: "ed25519 \<Rightarrow> ed25519_key_pair result" where
  "generate_keypair ed =
     (case ed_keygen ed of
        Inl message \<Rightarrow> Inl (ledger_error Internal message)
      | Inr (pub, prv) \<Rightarrow>
          if length pub \<noteq> kEd25519KeyBytes \<or> length prv \<noteq> kEd25519KeyBytes
          then Inl (ledger_error Internal ''ledger: Ed25519 raw key export failed'')
          else Inr \<lparr>kp_public_key = pub, kp_private_key = prv\<rparr>)"

definition sign_head :: "ed25519 \<Rightarrow> ledger \<Rightarrow> string \<Rightarrow> string result" where
  "sign_head ed lg private_key =
     (let head = head_hash lg in
      if head = [] then Inl (ledger_error Validation ''ledger empty, nothing to sign'')
      else if length private_key \<noteq> kEd25519KeyBytes
      then Inl (ledger_error Validation ''ledger: Ed25519 private key must be 32 bytes'')
      else case ed_sign ed private_key head of
             Inl message \<Rightarrow> Inl (ledger_error Internal message)
           | Inr signature \<Rightarrow> Inr signature)"

definition verify_head :: "ed25519 \<Rightarrow> string \<Rightarrow> string \<Rightarrow> string \<Rightarrow> unit result" where
  "verify_head ed head signature public_key =
     (if length public_key \<noteq> kEd25519KeyBytes
      then Inl (ledger_error Validation ''ledger: Ed25519 public key must be 32 bytes'')
      else case ed_verify ed public_key head signature of
             Inl message \<Rightarrow> Inl (ledger_error Internal message)
           | Inr rc \<Rightarrow>
               if rc \<noteq> 1
               then Inl (ledger_error Validation
                      ''ledger: signature verification failed (wrong key or tampered head)'')
               else Inr ())"

definition require_key_match :: "string \<Rightarrow> string \<Rightarrow> unit result" where
  "require_key_match expected actual =
     (if expected \<noteq> actual then Inl (ledger_error Auth ''ledger signing key mismatch'') else Inr ())"

record eod_report =
  eod_entry_count :: int64
  eod_head_hash :: string
  eod_signature :: string
  eod_public_key :: string

definition eod_fields :: "eod_report \<Rightarrow> (string \<times> json) list" where
  "eod_fields r =
     [(''entry_count'', JInt (eod_entry_count r)), (''head_hash'', JStr (eod_head_hash r)),
      (''signature'', JStr (to_hex (eod_signature r))), (''public_key'', JStr (to_hex (eod_public_key r)))]"

definition eod_to_json :: "json_lib \<Rightarrow> eod_report \<Rightarrow> string" where
  "eod_to_json lib r = jl_dump lib (JObj (eod_fields r))"

definition make_eod_report :: "ed25519 \<Rightarrow> ledger \<Rightarrow> string \<Rightarrow> string \<Rightarrow> eod_report result" where
  "make_eod_report ed lg private_key public_key =
     (case sign_head ed lg private_key of
        Inl e \<Rightarrow> Inl e
      | Inr signature \<Rightarrow>
          Inr \<lparr>eod_entry_count = int (ledger_size lg), eod_head_hash = head_hash lg,
               eod_signature = signature, eod_public_key = public_key\<rparr>)"

section \<open>Checkpoints\<close>

record checkpoint_io =
  ci_fopen_ok :: bool
  ci_write_ok :: bool
  ci_sync_ok :: bool
  ci_close_ok :: bool
  ci_rename_ok :: bool
  ci_stat_ok :: bool
  ci_open_ok :: bool
  ci_read_ok :: bool

definition write_checkpoint ::
    "json_lib \<Rightarrow> ed25519 \<Rightarrow> checkpoint_io \<Rightarrow> ledger \<Rightarrow> string \<Rightarrow> string \<Rightarrow> unit result \<times> ledger" where
  "write_checkpoint lib ed io lg private_key public_key =
     (if head_hash lg = []
      then (Inl (ledger_error Validation ''ledger empty, nothing to checkpoint''), lg)
      else case make_eod_report ed lg private_key public_key of
             Inl e \<Rightarrow> (Inl e, lg)
           | Inr report \<Rightarrow>
               let bundle = eod_to_json lib report in
               if \<not> ci_fopen_ok io
               then (Inl (ledger_error Internal ''ledger: failed to open checkpoint temp file''), lg)
               else if \<not> ci_write_ok io
               then (Inl (ledger_error Internal ''ledger: failed to write checkpoint''), lg)
               else if \<not> ci_close_ok io \<or> \<not> ci_sync_ok io
               then (Inl (ledger_error Internal ''ledger: failed to durably sync checkpoint''), lg)
               else if \<not> ci_rename_ok io
               then (Inl (ledger_error Internal ''ledger: failed to atomically publish checkpoint''), lg)
               else (Inr (), lg \<lparr>lg_checkpoint := Some bundle\<rparr>))"

text \<open>The typed fields of a parsed checkpoint, with the two byte fields decoded.\<close>

definition parse_checkpoint :: "json_lib \<Rightarrow> string \<Rightarrow> (int64 \<times> string \<times> string \<times> string) option" where
  "parse_checkpoint lib s =
     (case jl_parse lib s of
        Some (JObj fs) \<Rightarrow>
          (case (map_of fs ''entry_count'', map_of fs ''head_hash'', map_of fs ''signature'', map_of fs ''public_key'') of
             (Some (JInt n), Some (JStr h), Some (JStr sg), Some (JStr pk)) \<Rightarrow>
               (case (from_hex sg, from_hex pk) of
                  (Some sgb, Some pkb) \<Rightarrow> Some (cast_int64 n, h, sgb, pkb)
                | _ \<Rightarrow> None)
           | _ \<Rightarrow> None)
      | _ \<Rightarrow> None)"

definition verify_against_checkpoint ::
    "json_lib \<Rightarrow> ed25519 \<Rightarrow> checkpoint_io \<Rightarrow> ledger \<Rightarrow> string \<Rightarrow> unit result" where
  "verify_against_checkpoint lib ed io lg pinned =
     (if \<not> ci_stat_ok io then Inl (ledger_error Internal ''ledger: failed to stat checkpoint file'')
      else case lg_checkpoint lg of
        None \<Rightarrow> Inr ()
      | Some contents \<Rightarrow>
          if \<not> ci_open_ok io then Inl (ledger_error Internal ''ledger: failed to open checkpoint file'')
          else if \<not> ci_read_ok io then Inl (ledger_error Internal ''ledger: failed to read checkpoint file'')
          else case parse_checkpoint lib contents of
            None \<Rightarrow> Inl (ledger_error Validation ''ledger: checkpoint file malformed or unparseable'')
          | Some (cp_size, cp_head, signature, public_key) \<Rightarrow>
              if cp_size < 1
              then Inl (ledger_error Validation ''ledger: checkpoint records a non-positive size'')
              else case require_key_match pinned public_key of
                Inl _ \<Rightarrow> Inl (ledger_error Validation
                   ''checkpoint public key does not match the pinned key (substitution)'')
              | Inr _ \<Rightarrow>
                  (case verify_head ed cp_head signature pinned of
                     Inl _ \<Rightarrow> Inl (ledger_error Validation ''checkpoint signature invalid'')
                   | Inr _ \<Rightarrow>
                       if int (ledger_size lg) < cp_size
                       then Inl (ledger_error Validation (''ledger TRUNCATED: have '' @ show_nat (ledger_size lg)
                              @ '' entries, checkpoint signed '' @ show_int cp_size))
                       else if le_hash (lg_entries lg ! nat (cp_size - 1)) \<noteq> cp_head
                       then Inl (ledger_error Validation (''ledger ROLLED BACK/SUBSTITUTED: entry ''
                              @ show_int (cp_size - 1) @ '' hash diverges from the signed checkpoint''))
                       else Inr ()))"

section \<open>Published key and heartbeat\<close>

text \<open>The file \<^verbatim>\<open>ledger_public_key.hex\<close> is truncated when it opens; \<open>short_write\<close> as above.\<close>

definition write_public_key ::
    "bool \<Rightarrow> bool \<Rightarrow> nat option \<Rightarrow> string \<Rightarrow> string option \<Rightarrow> unit result \<times> string option" where
  "write_public_key dir_ok open_ok short_write public_key old =
     (if \<not> dir_ok then (Inl (ledger_error Internal ''ledger: failed to create public-key directory''), old)
      else if \<not> open_ok then (Inl (ledger_error Internal ''ledger: failed to open public-key file''), old)
      else case short_write of
             Some n \<Rightarrow> (Inl (ledger_error Internal ''ledger: failed to write public-key file''),
                        Some (take n (to_hex public_key)))
           | None \<Rightarrow> (Inr (), Some (to_hex public_key)))"

record position_heartbeat =
  hb_ts :: string
  hb_exposure :: string

text \<open>An instant is a count of nanoseconds since 1970-01-01T00:00:00Z.\<close>

definition to_iso8601_utc :: "int \<Rightarrow> string" where
  "to_iso8601_utc ns =
     (let day = ns div ns_per_day;
          ymd = civil_of_days day;
          tod = (ns - day * ns_per_day) div 1000000000
      in pad (cd_year ymd) 4 @ ''-'' @ pad (cd_month ymd) 2 @ ''-'' @ pad (cd_day ymd) 2 @ ''T''
         @ pad (tod div 3600) 2 @ '':'' @ pad (tod div 60 mod 60) 2 @ '':'' @ pad (tod mod 60) 2 @ ''Z'')"

definition make_heartbeat :: "string \<Rightarrow> int \<Rightarrow> provenance_context \<Rightarrow> position_heartbeat" where
  "make_heartbeat exposure_summary ts provenance =
     \<lparr>hb_ts = to_iso8601_utc ts,
      hb_exposure = canonical_text (scrub exposure_summary @ provenance_block provenance)\<rparr>"

definition heartbeat_to_json :: "json_lib \<Rightarrow> position_heartbeat \<Rightarrow> string" where
  "heartbeat_to_json lib hb = jl_dump lib (JObj
     [(''ts'', JStr (canonical_text (hb_ts hb))), (''exposure'', JStr (canonical_text (hb_exposure hb)))])"

end
