(* ===== verification/Ledger_Safety.thy ===== *)
theory Ledger_Safety
  imports Ledger Hash_Chain
begin

text \<open>
  What the ledger guarantees: the round trip of an entry through its line, the shape of the file after
  any sequence of appends and restarts (nothing a caller was told is written is lost, and the file
  always loads), and what a checkpoint does and does not detect.
\<close>

section \<open>Hexadecimal text\<close>

lemma kDigits_nth:
  assumes "n < 16"
  shows "nibble (kDigits ! n) = int n" "kDigits ! n \<in> set kDigits" "is_ascii (kDigits ! n)"
proof -
  have "\<forall>n \<in> set [0..<16]. nibble (kDigits ! n) = int n \<and> kDigits ! n \<in> set kDigits \<and> is_ascii (kDigits ! n)"
    by code_simp
  then show "nibble (kDigits ! n) = int n" "kDigits ! n \<in> set kDigits" "is_ascii (kDigits ! n)"
    using assms by auto
qed

lemma byte_nibbles: "byte b div 16 < 16" "byte b mod 16 < 16"
proof -
  have "byte b < 256" by simp
  then show "byte b div 16 < 16" by linarith
qed simp

lemma to_hex_Cons: "to_hex (b # bs) = kDigits ! (byte b div 16) # kDigits ! (byte b mod 16) # to_hex bs"
  by (simp add: to_hex_def)

lemma to_hex_facts: "length (to_hex bs) = 2 * length bs" "list_all is_ascii (to_hex bs)"
proof -
  show "length (to_hex bs) = 2 * length bs" by (induction bs) (simp_all add: to_hex_Cons, simp add: to_hex_def)
  show "list_all is_ascii (to_hex bs)"
  proof (induction bs)
    case (Cons b bs)
    then show ?case unfolding to_hex_Cons using kDigits_nth(3) byte_nibbles by simp
  qed (simp add: to_hex_def)
qed

text \<open>What a checkpoint stores as hexadecimal it reads back.\<close>

lemma from_hex_to_hex: "from_hex (to_hex bs) = Some bs"
proof -
  have "from_hex_loop (to_hex bs) = Some bs"
  proof (induction bs)
    case (Cons b bs)
    have "int (byte b div 16) * 16 + int (byte b mod 16) = int (byte b)"
      by (metis div_mult_mod_eq of_nat_add of_nat_mult of_nat_numeral)
    then show ?case using Cons by (simp add: to_hex_Cons kDigits_nth byte_nibbles Let_def)
  qed (simp add: to_hex_def)
  then show ?thesis by (simp add: from_hex_def to_hex_facts)
qed

section \<open>Lines\<close>

lemma getlines_Nil [simp]: "getlines [] = []"
  by (simp add: getlines.simps)

lemma getlines_line [simp]: "newline \<notin> set l \<Longrightarrow> getlines (l @ newline # s) = l # getlines s"
  by (subst getlines.simps) (simp add: takeWhile_line Let_def)

lemma getlines_unterminated: "newline \<notin> set l \<Longrightarrow> l \<noteq> [] \<Longrightarrow> getlines l = [l]"
  by (subst getlines.simps) (simp add: takeWhile_all_line Let_def)

section \<open>Entries and their lines\<close>

definition wf_entry :: "ledger_entry \<Rightarrow> bool" where
  "wf_entry e \<longleftrightarrow> in_i64 (le_seq e) \<and> valid_utf8 (le_payload e)
     \<and> list_all is_ascii (le_prev_hash e) \<and> list_all is_ascii (le_hash e)"

lemma flat_entry_fields: "wf_entry e \<Longrightarrow> flat_object (entry_fields e)"
  by (simp add: flat_object_def entry_fields_def json_scalar_def wf_entry_def)

lemma clean_entry_fields: "wf_entry e \<Longrightarrow> map_of (entry_fields e) k = Some v \<Longrightarrow> json_clean v"
  by (drule map_of_SomeD) (auto simp: entry_fields_def json_clean_def wf_entry_def valid_utf8_ascii)

text \<open>A flat object of clean values reads back as the same lookup function.\<close>

lemma flat_roundtrip:
  assumes "json_ok lib" "flat_object fs" "\<And>k v. map_of fs k = Some v \<Longrightarrow> json_clean v"
  obtains gs where "jl_parse lib (jl_dump lib (JObj fs)) = Some (JObj gs)" "map_of gs = map_of fs"
proof -
  from json_okD(5) [OF assms(1,2)] obtain gs
    where gs: "jl_parse lib (jl_dump lib (JObj fs)) = Some (JObj gs)"
      "\<forall>k. map_of fs k = None \<longrightarrow> map_of gs k = None"
      "\<forall>k v. map_of fs k = Some v \<and> json_clean v \<longrightarrow> map_of gs k = Some v"
    by blast
  have "map_of gs = map_of fs" by (rule ext) (metis assms(3) gs(2,3) option.exhaust)
  then show thesis using that gs(1) by blast
qed

lemma parse_own_entry:
  assumes "json_ok lib" "wf_entry e" shows "parse_entry lib (entry_to_line lib e) = Some e"
proof -
  obtain gs where "jl_parse lib (entry_to_line lib e) = Some (JObj gs)" "map_of gs = map_of (entry_fields e)"
    unfolding entry_to_line_def
    by (rule flat_roundtrip [OF assms(1) flat_entry_fields [OF assms(2)] clean_entry_fields [OF assms(2)]])
  then show ?thesis using assms(2)
    by (simp add: parse_entry_def entry_fields_def wf_entry_def cast_int64_def sint_word_of_int_i64)
qed

lemma parse_torn_entry:
  assumes "json_ok lib" "wf_entry e" "strict_prefix p (entry_to_line lib e)"
  shows "parse_entry lib p = None"
  using json_okD(4) [OF assms(1) flat_entry_fields [OF assms(2)] assms(3) [unfolded entry_to_line_def]]
  by (simp add: parse_entry_def split: option.split json.split)

lemma line_text:
  assumes "json_ok lib" "wf_entry e"
  shows "entry_to_line lib e \<noteq> []" "newline \<notin> set (entry_to_line lib e)"
  using json_okD(1,2) [OF assms(1) flat_entry_fields [OF assms(2)]] by (simp_all add: entry_to_line_def)

definition ledger_text :: "json_lib \<Rightarrow> ledger_entry list \<Rightarrow> string" where
  "ledger_text lib es = concat (map (\<lambda>e. entry_to_line lib e @ [newline]) es)"

lemma ledger_text_simps [simp]:
  "ledger_text lib [] = []" "ledger_text lib (e # es) = entry_to_line lib e @ newline # ledger_text lib es"
  "ledger_text lib (es @ fs) = ledger_text lib es @ ledger_text lib fs"
  by (simp_all add: ledger_text_def)

lemma ledger_text_boundary: "ledger_text lib es \<noteq> [] \<Longrightarrow> last (ledger_text lib es) = newline"
  by (induction es) (auto simp: last_append)

lemma getlines_text:
  assumes "json_ok lib" "\<forall>e \<in> set es. wf_entry e"
  shows "getlines (ledger_text lib es @ rest) = map (entry_to_line lib) es @ getlines rest"
  using assms(2) line_text [OF assms(1)] by (induction es) simp_all

lemma load_loop_text:
  assumes "json_ok lib" "\<forall>e \<in> set es. wf_entry e"
  shows "load_loop lib lc i acc (map (entry_to_line lib) es @ rest) = load_loop lib lc (i + length es) (acc @ es) rest"
  using assms(2) line_text(1) [OF assms(1)] parse_own_entry [OF assms(1)]
  by (induction es arbitrary: i acc) simp_all

lemma last_content_snoc: "l \<noteq> [] \<Longrightarrow> last_content (ls @ [l]) = length ls"
  by (simp add: last_content_def)

text \<open>Loading a file that ends in a torn record: the complete records are read and the torn one is
  skipped.\<close>

lemma load_text:
  assumes "json_ok lib" "\<forall>e \<in> set es. wf_entry e" "lg_file lg = Some (ledger_text lib es @ p)"
    and "p = [] \<or> (\<exists>e. wf_entry e \<and> strict_prefix p (entry_to_line lib e))" "li_open_ok io" "li_read_ok io"
  shows "ledger_load lib io lg = (Inr (), lg \<lparr>lg_entries := es\<rparr>)"
proof (cases "p = []")
  case True
  then show ?thesis using assms(3,5,6) getlines_text [OF assms(1,2), of "[]"]
      load_loop_text [OF assms(1,2), of _ 0 "[]" "[]"] by (simp add: ledger_load_def Let_def)
next
  case False
  with assms(4) obtain e where e: "wf_entry e" "strict_prefix p (entry_to_line lib e)" by blast
  have "newline \<notin> set p" using line_text(2) [OF assms(1) e(1)] set_mono_prefix [of p "entry_to_line lib e"] e(2)
    by (auto simp: strict_prefix_def)
  then have "getlines (ledger_text lib es @ p) = map (entry_to_line lib) es @ [p]"
    using getlines_text [OF assms(1,2)] getlines_unterminated False by simp
  then show ?thesis using assms(3,5,6) False parse_torn_entry [OF assms(1) e]
      load_loop_text [OF assms(1,2), of "length es" 0 "[]" "[p]"] last_content_snoc [OF False, of "map (entry_to_line lib) es"]
    by (simp add: ledger_load_def Let_def)
qed

lemma load_unterminated:
  assumes "json_ok lib" "\<forall>e \<in> set (es @ [e]). wf_entry e" "lg_file lg = Some (ledger_text lib es @ entry_to_line lib e)"
    and "li_open_ok io" "li_read_ok io"
  shows "ledger_load lib io lg = (Inr (), lg \<lparr>lg_entries := es @ [e]\<rparr>)"
proof -
  have wf: "\<forall>e \<in> set es. wf_entry e" "wf_entry e" using assms(2) by auto
  have "getlines (ledger_text lib es @ entry_to_line lib e) = map (entry_to_line lib) (es @ [e]) @ []"
    using getlines_text [OF assms(1) wf(1)] getlines_unterminated line_text [OF assms(1) wf(2)] by simp
  then show ?thesis using assms(3-5) load_loop_text [OF assms(1,2), of _ 0 "[]" "[]"]
    by (simp add: ledger_load_def Let_def)
qed

section \<open>The chain\<close>

definition ledger_linked :: "string \<Rightarrow> int \<Rightarrow> ledger_entry \<Rightarrow> bool" where
  "ledger_linked p n e \<longleftrightarrow> le_seq e = n \<and> le_prev_hash e = p \<and> le_hash e = sha256_hex (le_prev_hash e @ le_payload e)"

definition entry_preimage :: "ledger_entry \<Rightarrow> string" where
  "entry_preimage e = le_prev_hash e @ le_payload e"

abbreviation ledger_chain :: "string \<Rightarrow> int \<Rightarrow> ledger_entry list \<Rightarrow> bool" where
  "ledger_chain \<equiv> chain_of ledger_linked le_hash"

interpretation lchain: hash_chain ledger_linked entry_preimage le_hash
  by unfold_locales (auto simp: ledger_linked_def entry_preimage_def intro: ledger_entry.equality)

text \<open>What the program relies on of OpenSSL's digest: when it returns, it is the SHA-256 of the text.\<close>

definition evp_ok :: "(string \<Rightarrow> string option) \<Rightarrow> bool" where
  "evp_ok evp \<longleftrightarrow> (\<forall>s d. evp s = Some d \<longrightarrow> to_hex d = sha256_hex s)"

definition evp_total :: "(string \<Rightarrow> string option) \<Rightarrow> bool" where
  "evp_total evp \<longleftrightarrow> (\<forall>s. \<exists>d. evp s = Some d \<and> to_hex d = sha256_hex s)"

lemma sha256_hex_nonempty [simp]: "sha256_hex s \<noteq> []"
  using sha256_hex_props(1) [of s] by auto

lemma ledger_sha256: "evp_ok evp \<Longrightarrow> ledger_sha256_hex evp s \<noteq> [] \<Longrightarrow> ledger_sha256_hex evp s = sha256_hex s"
  by (auto simp: evp_ok_def ledger_sha256_hex_def split: option.splits)

lemma ledger_sha256_total: "evp_total evp \<Longrightarrow> ledger_sha256_hex evp s = sha256_hex s"
  unfolding evp_total_def ledger_sha256_hex_def by (metis option.simps(5))

lemma verify_loop_sound:
  "evp_ok evp \<Longrightarrow> verify_loop evp i p es = Inr () \<Longrightarrow> ledger_chain (if i = 0 then [] else p) (int i) es"
proof (induction es arbitrary: i p)
  case (Cons e es)
  then show ?case using Cons.IH [of "i + 1" "le_hash e"] ledger_sha256 [OF Cons.prems(1)]
    by (auto simp: Let_def ledger_linked_def add.commute split: if_splits)
qed simp

lemma verify_loop_complete:
  "evp_total evp \<Longrightarrow> ledger_chain (if i = 0 then [] else p) (int i) es \<Longrightarrow> verify_loop evp i p es = Inr ()"
proof (induction es arbitrary: i p)
  case (Cons e es)
  then show ?case using Cons.IH [of "i + 1" "le_hash e"]
    by (auto simp: Let_def ledger_linked_def ledger_sha256_total add.commute split: if_splits)
qed simp

section \<open>Runs of the ledger\<close>

text \<open>Appends with any outcome of the system calls, and restarts: a fresh object on the same file, loaded.
  A restart whose read fails does not go on to append, so it is not a step.  The list is of the
  entries some caller was given.\<close>

datatype ledger_op =
    LAppend "string \<Rightarrow> string option" append_io string provenance_context
  | LRestart

definition good_load :: load_io where
  "good_load = \<lparr>li_open_ok = True, li_read_ok = True\<rparr>"

fun ledger_step :: "json_lib \<Rightarrow> ledger_op \<Rightarrow> ledger_entry list \<times> ledger \<Rightarrow> ledger_entry list \<times> ledger" where
  "ledger_step lib (LAppend evp io payload provenance) (acked, lg) =
     (case ledger_append lib evp io lg payload provenance of
        (Inr e, lg') \<Rightarrow> (acked @ [e], lg')
      | (Inl _, lg') \<Rightarrow> (acked, lg'))"
| "ledger_step lib LRestart (acked, lg) = (acked, snd (ledger_load lib good_load (lg \<lparr>lg_poisoned := False\<rparr>)))"

definition ledger_run :: "json_lib \<Rightarrow> ledger_op list \<Rightarrow> ledger_entry list \<times> ledger \<Rightarrow> ledger_entry list \<times> ledger" where
  "ledger_run lib ops s = foldl (\<lambda>s op. ledger_step lib op s) s ops"

definition new_ledger :: ledger where
  "new_ledger = \<lparr>lg_entries = [], lg_poisoned = False, lg_file = None, lg_checkpoint = None\<rparr>"

definition op_ok :: "ledger_op \<Rightarrow> bool" where
  "op_ok op = (case op of LAppend evp io payload provenance \<Rightarrow> evp_ok evp | LRestart \<Rightarrow> True)"

text \<open>The file in terms of the entries: their lines; or their lines without the last terminator; or
  their lines and a part of one more record, after which nothing is written.\<close>

abbreviation chain_head :: "ledger_entry list \<Rightarrow> string" where
  "chain_head es \<equiv> head_of le_hash [] es"

definition file_shape :: "json_lib \<Rightarrow> ledger \<Rightarrow> bool" where
  "file_shape lib lg \<longleftrightarrow>
     file_bytes lg = ledger_text lib (lg_entries lg)
     \<or> (\<exists>es e. lg_entries lg = es @ [e] \<and> file_bytes lg = ledger_text lib es @ entry_to_line lib e)
     \<or> (\<exists>e p. wf_entry e \<and> ledger_linked (chain_head (lg_entries lg)) (int (length (lg_entries lg))) e
          \<and> prefix p (entry_to_line lib e @ [newline]) \<and> p \<noteq> [] \<and> file_bytes lg = ledger_text lib (lg_entries lg) @ p
          \<and> (lg_poisoned lg \<or> strict_prefix p (entry_to_line lib e)))"

definition ledger_inv :: "json_lib \<Rightarrow> ledger \<Rightarrow> bool" where
  "ledger_inv lib lg \<longleftrightarrow> (\<forall>e \<in> set (lg_entries lg). wf_entry e) \<and> ledger_chain [] 0 (lg_entries lg)
     \<and> (lg_file lg = None \<longrightarrow> lg_entries lg = []) \<and> file_shape lib lg"

lemma ledger_inv_new: "ledger_inv lib new_ledger"
  by (simp add: ledger_inv_def new_ledger_def file_shape_def file_bytes_def)

lemma restore_bytes:
  assumes "restore_to_size io (length f) (f @ x) = (ok, g)"
  shows "(\<exists>y. prefix y x \<and> g = f @ y) \<and> (ok \<longrightarrow> g = f)"
  using assms by (auto simp: restore_to_size_def Let_def split: if_splits)

text \<open>What one append does, on every path.\<close>

lemma append_cases:
  assumes "ledger_append lib evp io lg payload provenance = (res, lg')"
  obtains (sealed) err where "res = Inl err" "lg_poisoned lg" "lg' = lg"
  | (kept) err where "res = Inl err" "\<not> lg_poisoned lg" "lg_entries lg' = lg_entries lg"
      "file_bytes lg' = file_bytes lg" "lg_file lg' = None \<longrightarrow> lg_file lg = None"
  | (torn) err e p where "res = Inl err" "\<not> lg_poisoned lg" "e = next_entry evp lg payload provenance" "le_hash e \<noteq> []"
      "file_bytes lg = [] \<or> last (file_bytes lg) = newline" "prefix p (entry_to_line lib e @ [newline])"
      "lg_entries lg' = lg_entries lg" "lg_file lg' = Some (file_bytes lg @ p)" "lg_poisoned lg'"
  | (written) e where "res = Inr e" "\<not> lg_poisoned lg" "e = next_entry evp lg payload provenance" "le_hash e \<noteq> []"
      "file_bytes lg = [] \<or> last (file_bytes lg) = newline" "lg_entries lg' = lg_entries lg @ [e]"
      "lg_file lg' = Some (file_bytes lg @ entry_to_line lib e @ [newline])" "\<not> lg_poisoned lg'"
proof -
  define e where "e = next_entry evp lg payload provenance"
  define line where "line = entry_to_line lib e @ [newline]"
  define part where "part = (case ai_short_write io of None \<Rightarrow> line | Some n \<Rightarrow> take n line)"
  note a = assms [unfolded ledger_append_def Let_def, folded e_def, folded line_def, folded part_def]
  have part: "prefix part line" by (auto simp: part_def take_is_prefix split: option.split)
  let ?guard = "\<not> lg_poisoned lg \<and> le_hash e \<noteq> [] \<and> ai_measure_ok io
     \<and> (file_bytes lg = [] \<or> ends_on_record_boundary (ai_tail_readable io) (file_bytes lg)) \<and> ai_fopen_ok io"
  show thesis
  proof (cases ?guard)
    case False
    then show thesis using a sealed kept by (auto simp: file_bytes_def split: if_splits)
  next
    case True
    then have nl: "file_bytes lg = [] \<or> last (file_bytes lg) = newline"
      by (auto simp: ends_on_record_boundary_def split: if_splits)
    obtain ok g where r: "restore_to_size io (length (file_bytes lg)) (file_bytes lg @ part) = (ok, g)"
      by (metis surj_pair)
    note rb = restore_bytes [OF r]
    show thesis
    proof (cases "ai_short_write io \<noteq> None \<or> \<not> ai_sync_ok io \<or> \<not> ai_close_ok io")
      case True
      note fail = this
      show thesis
      proof (cases ok)
        case True
        then have "lg' = lg \<lparr>lg_file := Some (file_bytes lg)\<rparr>" "\<exists>err. res = Inl err"
          using a \<open>?guard\<close> fail r rb by (auto split: if_splits)
        then show thesis using kept \<open>?guard\<close> by (auto simp: file_bytes_def)
      next
        case False
        then have *: "lg' = lg \<lparr>lg_file := Some g, lg_poisoned := True\<rparr>" "\<exists>err. res = Inl err"
          using a \<open>?guard\<close> fail r by (auto split: if_splits)
        obtain y where "prefix y line" "g = file_bytes lg @ y" using rb part prefix_order.trans by blast
        then show thesis using torn [OF _ _ e_def _ nl, of _ y] * \<open>?guard\<close> by (auto simp: line_def)
      qed
    next
      case False
      then have "part = line" by (simp add: part_def)
      then have "res = Inr e" "lg' = lg \<lparr>lg_file := Some (file_bytes lg @ line), lg_entries := lg_entries lg @ [e]\<rparr>"
        using a \<open>?guard\<close> False by (auto split: if_splits)
      then show thesis using written [OF _ _ e_def _ nl] \<open>?guard\<close> by (simp add: line_def)
    qed
  qed
qed

lemma next_entry_link:
  assumes "ledger_inv lib lg" "evp_ok evp" "le_hash (next_entry evp lg payload provenance) \<noteq> []"
    and "int (length (lg_entries lg)) \<le> INT64_MAX"
  shows "wf_entry (next_entry evp lg payload provenance)"
    "ledger_linked (chain_head (lg_entries lg)) (int (length (lg_entries lg))) (next_entry evp lg payload provenance)"
proof -
  let ?e = "next_entry evp lg payload provenance"
  have h: "le_hash ?e = sha256_hex (le_prev_hash ?e @ le_payload ?e)"
    using ledger_sha256 [OF assms(2)] assms(3) by (simp add: next_entry_def Let_def)
  have prev: "le_prev_hash ?e = chain_head (lg_entries lg)" "le_seq ?e = int (length (lg_entries lg))"
    "le_payload ?e = canonical_text (scrub payload @ provenance_block provenance)"
    by (simp_all add: next_entry_def Let_def head_of_def)
  show "ledger_linked (chain_head (lg_entries lg)) (int (length (lg_entries lg))) ?e"
    using h prev by (simp add: ledger_linked_def)
  have "list_all is_ascii (chain_head (lg_entries lg))"
    using assms(1) last_in_set by (auto simp: head_of_def ledger_inv_def wf_entry_def)
  then show "wf_entry ?e" using h prev assms(4)
    by (simp add: wf_entry_def valid_canonical_text ascii_hex_hash i64_defs)
qed

lemma shape_at_boundary:
  assumes "json_ok lib" "ledger_inv lib lg" "\<not> lg_poisoned lg" "file_bytes lg = [] \<or> last (file_bytes lg) = newline"
  shows "file_bytes lg = ledger_text lib (lg_entries lg)"
proof -
  have no: False if "p \<noteq> []" "prefix p (entry_to_line lib e)" "wf_entry e" "file_bytes lg = x @ p" for e p x
  proof -
    have "last p = newline" using assms(4) that(1,4) by auto
    then have "newline \<in> set (entry_to_line lib e)"
      using that(1,2) last_in_set set_mono_prefix by fastforce
    then show False using line_text(2) [OF assms(1) that(3)] by blast
  qed
  have wf: "\<forall>e \<in> set (lg_entries lg). wf_entry e" using assms(2) by (simp add: ledger_inv_def)
  consider "file_bytes lg = ledger_text lib (lg_entries lg)"
    | es e where "lg_entries lg = es @ [e]" "file_bytes lg = ledger_text lib es @ entry_to_line lib e"
    | e p where "wf_entry e" "p \<noteq> []" "file_bytes lg = ledger_text lib (lg_entries lg) @ p" "strict_prefix p (entry_to_line lib e)"
    using assms(2,3) unfolding ledger_inv_def file_shape_def by blast
  then show ?thesis
  proof cases
    case 2
    then have "wf_entry e" using wf by simp
    then show ?thesis using no [of "entry_to_line lib e" e] 2 line_text(1) [OF assms(1)] by blast
  next
    case 3
    then show ?thesis using no [of p e] by (auto simp: strict_prefix_def)
  qed
qed

lemma append_preserves:
  assumes "json_ok lib" "ledger_inv lib lg" "evp_ok evp" "int (length (lg_entries lg)) < INT64_MAX"
    and "ledger_append lib evp io lg payload provenance = (res, lg')"
  shows "ledger_inv lib lg'"
  using assms(5)
proof (cases rule: append_cases)
  case sealed
  then show ?thesis using assms(2) by simp
next
  case kept
  then show ?thesis using assms(2) unfolding ledger_inv_def file_shape_def by auto
next
  case (torn err e p)
  note link = next_entry_link [OF assms(2,3), of payload provenance, folded torn(3), OF torn(4)]
  have f: "file_bytes lg = ledger_text lib (lg_entries lg)" by (rule shape_at_boundary [OF assms(1,2) torn(2,5)])
  have f': "file_bytes lg' = ledger_text lib (lg_entries lg') @ p" using torn(7,8) f by (simp add: file_bytes_def)
  have "file_shape lib lg'"
  proof (cases "p = []")
    case False
    then show ?thesis unfolding file_shape_def using link assms(4) torn(6,7,9) f' by auto
  qed (use f' in \<open>simp add: file_shape_def\<close>)
  then show ?thesis using assms(2) torn(7,8) by (simp add: ledger_inv_def)
next
  case (written e)
  note link = next_entry_link [OF assms(2,3), of payload provenance, folded written(3), OF written(4)]
  have f: "file_bytes lg = ledger_text lib (lg_entries lg)" by (rule shape_at_boundary [OF assms(1,2) written(2,5)])
  have "file_bytes lg' = ledger_text lib (lg_entries lg')" using written(6,7) f by (simp add: file_bytes_def)
  then have "file_shape lib lg'" by (simp add: file_shape_def)
  then show ?thesis using assms(2,4) written(6,7) link by (auto simp: ledger_inv_def chain_of_append)
qed

text \<open>A load never fails on such a file and returns the entries, or one more.\<close>

lemma load_shape:
  assumes "json_ok lib" "ledger_inv lib lg" "lg_file lg = Some f" "li_open_ok io" "li_read_ok io"
  obtains extra where "ledger_load lib io lg = (Inr (), lg \<lparr>lg_entries := lg_entries lg @ extra\<rparr>)" "length extra \<le> 1"
    "ledger_inv lib (lg \<lparr>lg_entries := lg_entries lg @ extra, lg_poisoned := False\<rparr>)"
proof -
  let ?es = "lg_entries lg"
  have wf: "\<forall>e \<in> set ?es. wf_entry e" and ch: "ledger_chain [] 0 ?es" using assms(2) by (simp_all add: ledger_inv_def)
  have fb: "file_bytes lg = f" using assms(3) by (simp add: file_bytes_def)
  consider (whole) "f = ledger_text lib ?es"
    | (bare) es e where "?es = es @ [e]" "f = ledger_text lib es @ entry_to_line lib e"
    | (part) e p where "wf_entry e" "ledger_linked (chain_head ?es) (int (length ?es)) e"
        "prefix p (entry_to_line lib e @ [newline])" "p \<noteq> []" "f = ledger_text lib ?es @ p"
    using assms(2) fb unfolding ledger_inv_def file_shape_def by blast
  then show thesis
  proof cases
    case whole
    then show thesis using that [of "[]"] load_text [OF assms(1) wf, of lg "[]" io] assms(3-5) wf ch
      by (simp add: ledger_inv_def file_shape_def file_bytes_def)
  next
    case bare
    then show thesis using that [of "[]"] load_unterminated [OF assms(1), of es e lg io] assms(3-5) wf ch
      by (simp add: ledger_inv_def file_shape_def file_bytes_def)
  next
    case (part e p)
    have ext: "\<forall>x \<in> set (?es @ [e]). wf_entry x" "ledger_chain [] 0 (?es @ [e])"
      using wf ch part(1,2) by (auto simp: chain_of_append)
    consider "p = entry_to_line lib e @ [newline]" | "p = entry_to_line lib e" | "strict_prefix p (entry_to_line lib e)"
      using part(3) by (auto simp: strict_prefix_def)
    then show thesis
    proof cases
      case 1
      then have "f = ledger_text lib (?es @ [e])" using part(5) by simp
      then show thesis using that [of "[e]"] load_text [OF assms(1) ext(1), of lg "[]" io] assms(3-5) ext
        by (simp add: ledger_inv_def file_shape_def file_bytes_def)
    next
      case 2
      then show thesis using that [of "[e]"] load_unterminated [OF assms(1) ext(1), of lg io] assms(3-5) ext part(5)
        by (simp add: ledger_inv_def file_shape_def file_bytes_def)
    next
      case 3
      have "ledger_load lib io lg = (Inr (), lg \<lparr>lg_entries := ?es\<rparr>)"
        using load_text [OF assms(1) wf, of lg p io] 3 part assms(3-5) by blast
      moreover have "file_shape lib (lg \<lparr>lg_poisoned := False\<rparr>)"
        unfolding file_shape_def using 3 part assms(3) by (auto simp: file_bytes_def)
      ultimately show thesis using that [of "[]"] wf ch assms(3) by (simp add: ledger_inv_def)
    qed
  qed
qed

lemma step_preserves:
  assumes "json_ok lib" "op_ok op" "ledger_inv lib lg" "subseq acked (lg_entries lg)"
    and "int (length (lg_entries lg)) < INT64_MAX" "ledger_step lib op (acked, lg) = (acked', lg')"
  shows "ledger_inv lib lg' \<and> subseq acked' (lg_entries lg') \<and> length (lg_entries lg') \<le> length (lg_entries lg) + 1"
proof (cases op)
  case (LAppend evp io payload provenance)
  obtain res lg1 where a: "ledger_append lib evp io lg payload provenance = (res, lg1)" by (metis surj_pair)
  have "evp_ok evp" using assms(2) LAppend by (simp add: op_ok_def)
  note inv = append_preserves [OF assms(1,3) this assms(5) a]
  from a show ?thesis
  proof (cases rule: append_cases)
    case (written e)
    then show ?thesis using inv assms(4,6) LAppend a by (auto intro: list_emb_append_mono)
  qed (use inv assms(4,6) LAppend a in auto)
next
  case LRestart
  show ?thesis
  proof (cases "lg_file lg")
    case None
    then show ?thesis using assms LRestart
      by (auto simp: ledger_load_def Let_def ledger_inv_def file_shape_def file_bytes_def)
  next
    case (Some f)
    let ?lg = "lg \<lparr>lg_poisoned := False\<rparr>"
    obtain extra where "ledger_load lib good_load lg = (Inr (), lg \<lparr>lg_entries := lg_entries lg @ extra\<rparr>)" "length extra \<le> 1"
      "ledger_inv lib (lg \<lparr>lg_entries := lg_entries lg @ extra, lg_poisoned := False\<rparr>)"
      using load_shape [OF assms(1,3) Some, of good_load] by (auto simp: good_load_def)
    moreover have "ledger_load lib good_load ?lg = (fst (ledger_load lib good_load lg), snd (ledger_load lib good_load lg) \<lparr>lg_poisoned := False\<rparr>)"
      using Some by (simp add: ledger_load_def Let_def good_load_def case_prod_unfold)
    ultimately show ?thesis using assms(4,6) LRestart by (auto intro: list_emb_prefix)
  qed
qed

lemma run_preserves:
  assumes "json_ok lib" "\<forall>op \<in> set ops. op_ok op" "ledger_inv lib lg" "subseq acked (lg_entries lg)"
    and "int (length (lg_entries lg) + length ops) \<le> INT64_MAX" "ledger_run lib ops (acked, lg) = (acked', lg')"
  shows "ledger_inv lib lg' \<and> subseq acked' (lg_entries lg')"
  using assms(2-6)
proof (induction ops arbitrary: acked lg)
  case (Cons op ops)
  obtain ac1 lg1 where st: "ledger_step lib op (acked, lg) = (ac1, lg1)" by (metis surj_pair)
  have "ledger_inv lib lg1 \<and> subseq ac1 (lg_entries lg1) \<and> length (lg_entries lg1) \<le> length (lg_entries lg) + 1"
    using step_preserves [OF assms(1) _ Cons.prems(2,3) _ st] Cons.prems(1,4) by simp
  then show ?case using Cons.IH [of lg1 ac1] Cons.prems st by (simp add: ledger_run_def)
qed (simp add: ledger_run_def)

text \<open>A digest that satisfies the contract.\<close>

definition sample_evp :: "string \<Rightarrow> string option" where
  "sample_evp s = from_hex (sha256_hex s)"

lemma to_hex_from_hex_loop:
  "set h \<subseteq> set kDigits \<Longrightarrow> even (length h) \<Longrightarrow> \<exists>d. from_hex_loop h = Some d \<and> to_hex d = h"
proof (induction h rule: from_hex_loop.induct)
  case (1 a b rest)
  have len: "length kDigits = 16" by (simp add: kDigits_def)
  obtain i j where ij: "i < 16" "a = kDigits ! i" "j < 16" "b = kDigits ! j"
    using "1.prems"(1) unfolding list.set insert_subset by (metis in_set_conv_nth len)
  then obtain d where d: "from_hex_loop rest = Some d" "to_hex d = rest"
    using "1.IH" [OF refl refl] "1.prems" kDigits_nth(1) by auto
  from ij have "from_hex_loop (a # b # rest) = Some (char_of (nat (int i * 16 + int j)) # d)"
    using d kDigits_nth(1) by (simp add: Let_def)
  moreover have "nat (int i * 16 + int j) = i * 16 + j" by (metis nat_int of_nat_add of_nat_mult of_nat_numeral)
  moreover have "to_hex (char_of (i * 16 + j) # d) = a # b # rest"
    using ij d by (simp add: to_hex_Cons of_char_of)
  ultimately show ?case by simp
qed (auto simp: to_hex_def)

lemma sample_evp_total: "evp_total sample_evp"
proof -
  have "\<exists>d. sample_evp s = Some d \<and> to_hex d = sha256_hex s" for s
    using to_hex_from_hex_loop [of "sha256_hex s"] sha256_hex_props [of s]
    by (simp add: sample_evp_def from_hex_def kDigits_def kHexDigits_def)
  then show ?thesis by (simp add: evp_total_def)
qed

lemma evp_total_ok: "evp_total evp \<Longrightarrow> evp_ok evp"
  unfolding evp_total_def evp_ok_def by (metis option.inject)

definition good_append :: append_io where
  "good_append = \<lparr>ai_measure_ok = True, ai_tail_readable = True, ai_fopen_ok = True, ai_short_write = None,
     ai_sync_ok = True, ai_close_ok = True, ai_remeasure_ok = True, ai_resize_ok = True, ai_reopen_ok = True,
     ai_resync_ok = True, ai_reclose_ok = True\<rparr>"

lemma append_good_new:
  assumes "evp_total evp"
  shows "\<exists>e f. ledger_step lib (LAppend evp good_append payload provenance) ([], new_ledger)
     = ([e], new_ledger \<lparr>lg_file := Some f, lg_entries := [e]\<rparr>)"
  using ledger_sha256_total [OF assms]
  by (simp add: ledger_append_def Let_def good_append_def new_ledger_def next_entry_def file_bytes_def)

lemma step_keeps_file: "lg_file lg \<noteq> None \<Longrightarrow> lg_file (snd (ledger_step lib op (acked, lg))) \<noteq> None"
proof (cases op)
  case (LAppend evp io payload provenance)
  obtain res lg1 where a: "ledger_append lib evp io lg payload provenance = (res, lg1)" by (metis surj_pair)
  assume "lg_file lg \<noteq> None"
  from a show ?thesis
    by (cases rule: append_cases) (use LAppend a \<open>lg_file lg \<noteq> None\<close> in auto)
next
  case LRestart
  assume "lg_file lg \<noteq> None"
  then show ?thesis using LRestart by (auto simp: ledger_load_def Let_def good_load_def split: prod.split)
qed

text \<open>C21. The ledger survives any sequence of appends and restarts, whatever the operating system does to
  each write: short writes, failed syncs, failed roll-backs.  The file can always be loaded, the
  loaded chain verifies, and every entry a caller was told is written is in it, in order.\<close>

theorem ledger_survives_crashes:
  assumes "json_ok lib" "\<forall>op \<in> set ops. op_ok op" "int (length ops) \<le> INT64_MAX"
    and "ledger_run lib ops ([], new_ledger) = (acked, lg)" "lg_file lg \<noteq> None" "evp_total evp"
  shows "\<exists>es. ledger_load lib good_load lg = (Inr (), lg \<lparr>lg_entries := es\<rparr>)
     \<and> verify_chain evp (lg \<lparr>lg_entries := es\<rparr>) = Inr () \<and> subseq acked es"
proof -
  have inv: "ledger_inv lib lg" "subseq acked (lg_entries lg)"
    using run_preserves [OF assms(1,2) ledger_inv_new _ _ assms(4)] assms(3) by (simp_all add: new_ledger_def)
  obtain f where "lg_file lg = Some f" using assms(5) by blast
  from load_shape [OF assms(1) inv(1) this, of good_load] obtain extra where
    l: "ledger_load lib good_load lg = (Inr (), lg \<lparr>lg_entries := lg_entries lg @ extra\<rparr>)"
       "ledger_inv lib (lg \<lparr>lg_entries := lg_entries lg @ extra, lg_poisoned := False\<rparr>)" by (auto simp: good_load_def)
  then have "ledger_chain [] 0 (lg_entries lg @ extra)" by (simp add: ledger_inv_def)
  then have "verify_chain evp (lg \<lparr>lg_entries := lg_entries lg @ extra\<rparr>) = Inr ()"
    using verify_loop_complete [OF assms(6), of 0 "[]"] by (simp add: verify_chain_def)
  then show ?thesis using l(1) inv(2) by (auto intro!: exI [of _ "lg_entries lg @ extra"] list_emb_prefix)
qed

theorem ledger_survives_crashes_witness:
  "let torn = good_append \<lparr>ai_short_write := Some 9, ai_resize_ok := False\<rparr>;
       ops = [LAppend sample_evp good_append ''first'' no_provenance,
              LAppend sample_evp torn ''second'' no_provenance, LRestart];
       (acked, lg) = ledger_run sample_json ops ([], new_ledger)
   in acked \<noteq> [] \<and> lg_file lg \<noteq> None
      \<and> (\<exists>es. ledger_load sample_json good_load lg = (Inr (), lg \<lparr>lg_entries := es\<rparr>)
           \<and> verify_chain sample_evp (lg \<lparr>lg_entries := es\<rparr>) = Inr () \<and> subseq acked es)"
proof -
  define torn where "torn = good_append \<lparr>ai_short_write := Some 9, ai_resize_ok := False\<rparr>"
  define op1 where "op1 = LAppend sample_evp good_append ''first'' no_provenance"
  define op2 where "op2 = LAppend sample_evp torn ''second'' no_provenance"
  obtain acked lg where run: "ledger_run sample_json [op1, op2, LRestart] ([], new_ledger) = (acked, lg)"
    by (metis surj_pair)
  obtain e f where s1: "ledger_step sample_json op1 ([], new_ledger) = ([e], new_ledger \<lparr>lg_file := Some f, lg_entries := [e]\<rparr>)"
    using append_good_new [OF sample_evp_total] unfolding op1_def by blast
  obtain ac2 lg2 where s2: "ledger_step sample_json op2 ([e], new_ledger \<lparr>lg_file := Some f, lg_entries := [e]\<rparr>) = (ac2, lg2)"
    by (metis surj_pair)
  have "lg_file lg2 \<noteq> None"
    using step_keeps_file [of "new_ledger \<lparr>lg_file := Some f, lg_entries := [e]\<rparr>" sample_json op2 "[e]"] s2 by simp
  moreover have "ac2 \<noteq> []" using s2 unfolding op2_def by (auto split: prod.splits sum.splits)
  moreover have "(acked, lg) = ledger_step sample_json LRestart (ac2, lg2)" using run s1 s2 by (simp add: ledger_run_def)
  ultimately have r: "lg_file lg \<noteq> None" "acked \<noteq> []"
    using step_keeps_file [of lg2 sample_json LRestart ac2] by (metis snd_conv, simp)
  have ok: "\<forall>op \<in> set [op1, op2, LRestart]. op_ok op"
    using evp_total_ok [OF sample_evp_total] by (simp add: op_ok_def op1_def op2_def)
  have "int (length [op1, op2, LRestart]) \<le> INT64_MAX" by (simp add: i64_defs)
  from ledger_survives_crashes [OF sample_json_ok ok this run r(1) sample_evp_total] r run show ?thesis
    unfolding torn_def [symmetric] Let_def op1_def [symmetric] op2_def [symmetric] by simp
qed

section \<open>What a checkpoint protects\<close>

lemma chain_ascii: "ledger_chain p n es \<Longrightarrow> e \<in> set es \<Longrightarrow> list_all is_ascii (le_hash e)"
  by (induction es arbitrary: p n) (auto simp: ledger_linked_def ascii_hex_hash)

lemma parse_own_checkpoint:
  assumes "json_ok lib" "in_i64 (eod_entry_count r)" "list_all is_ascii (eod_head_hash r)"
  shows "parse_checkpoint lib (eod_to_json lib r)
    = Some (eod_entry_count r, eod_head_hash r, eod_signature r, eod_public_key r)"
proof -
  have "flat_object (eod_fields r)"
    using assms(2) by (simp add: flat_object_def eod_fields_def json_scalar_def)
  moreover have "map_of (eod_fields r) k = Some v \<Longrightarrow> json_clean v" for k v
    by (drule map_of_SomeD) (auto simp: eod_fields_def json_clean_def assms(3) valid_utf8_ascii to_hex_facts)
  ultimately obtain gs where "jl_parse lib (eod_to_json lib r) = Some (JObj gs)" "map_of gs = map_of (eod_fields r)"
    unfolding eod_to_json_def using flat_roundtrip [OF assms(1)] by metis
  then show ?thesis using assms(2)
    by (simp add: parse_checkpoint_def eod_fields_def from_hex_to_hex cast_int64_def sint_word_of_int_i64)
qed

lemma checkpoint_accepts:
  assumes "verify_against_checkpoint lib ed io lg pinned = Inr ()" "lg_checkpoint lg = Some s"
    "parse_checkpoint lib s = Some (n, h, sg, pk)"
  shows "1 \<le> n \<and> n \<le> int (length (lg_entries lg)) \<and> le_hash (lg_entries lg ! nat (n - 1)) = h
    \<and> pinned = pk \<and> verify_head ed h sg pinned = Inr ()"
  using assms unfolding verify_against_checkpoint_def
  by (auto simp: ledger_size_def require_key_match_def split: if_splits sum.splits)

lemma written_checkpoint:
  assumes "write_checkpoint lib ed io lg prv pub = (Inr (), lg1)"
  obtains r where "lg_checkpoint lg1 = Some (eod_to_json lib r)" "lg_entries lg \<noteq> []"
    "eod_entry_count r = int (length (lg_entries lg))" "eod_head_hash r = le_hash (last (lg_entries lg))"
    "eod_public_key r = pub"
  using assms by (auto simp: write_checkpoint_def make_eod_report_def head_hash_def ledger_size_def Let_def
      split: if_splits sum.splits)

text \<open>C22. As long as the checkpoint file is the one the program wrote, a ledger that passes both checks starts
  with exactly the entries that were there when the checkpoint was written, so a truncated, rolled
  back, edited or substituted history is refused (unless SHA-256 collides on two of the records).\<close>

theorem checkpoint_detects_rewrites:
  assumes "json_ok lib" "evp_ok evp" "evp_ok evp'" "int (length (lg_entries lg)) \<le> INT64_MAX"
    and "verify_chain evp lg = Inr ()" "write_checkpoint lib ed io lg prv pub = (Inr (), lg1)"
    and "lg_checkpoint lg2 = lg_checkpoint lg1" "verify_chain evp' lg2 = Inr ()"
    and "verify_against_checkpoint lib ed io' lg2 pinned = Inr ()"
  shows "take (length (lg_entries lg)) (lg_entries lg2) = lg_entries lg
    \<or> (\<exists>a \<in> set (lg_entries lg2). \<exists>b \<in> set (lg_entries lg). collision entry_preimage a b)"
proof -
  let ?n = "length (lg_entries lg)" and ?t = "take (length (lg_entries lg)) (lg_entries lg2)"
  have ch: "ledger_chain [] 0 (lg_entries lg)" "ledger_chain [] 0 (lg_entries lg2)"
    using verify_loop_sound [OF assms(2), of 0 "[]" "lg_entries lg"] assms(5)
      verify_loop_sound [OF assms(3), of 0 "[]" "lg_entries lg2"] assms(8) by (simp_all add: verify_chain_def)
  obtain r where r: "lg_checkpoint lg1 = Some (eod_to_json lib r)" "lg_entries lg \<noteq> []"
    "eod_entry_count r = int ?n" "eod_head_hash r = le_hash (last (lg_entries lg))"
    using written_checkpoint [OF assms(6)] by metis
  have "list_all is_ascii (eod_head_hash r)" using r(2,4) chain_ascii [OF ch(1)] by simp
  then have p: "parse_checkpoint lib (eod_to_json lib r)
      = Some (int ?n, le_hash (last (lg_entries lg)), eod_signature r, eod_public_key r)"
    using parse_own_checkpoint [OF assms(1), of r] r assms(4) by (simp add: i64_defs)
  note acc = checkpoint_accepts [OF assms(9) assms(7) [unfolded r(1)] p]
  then have len: "?n \<le> length (lg_entries lg2)" "0 < ?n" using r(2) by simp_all
  have "ledger_chain [] 0 ?t" using ch(2) chain_of_append [of ledger_linked le_hash "[]" 0 ?t "drop ?n (lg_entries lg2)"] by simp
  moreover have tl: "length ?t = ?n" "?t \<noteq> []" using len by auto
  moreover have "le_hash (last ?t) = le_hash (last (lg_entries lg))"
    using acc len tl by (simp add: last_conv_nth nat_diff_distrib)
  ultimately have "?t = lg_entries lg \<or> (\<exists>a \<in> set ?t. \<exists>b \<in> set (lg_entries lg). collision entry_preimage a b)"
    using lchain.chain_agree [of "[]" 0 ?t "[]" "lg_entries lg"] ch(1) r(2) by (simp add: head_of_def)
  then show ?thesis using in_set_takeD by fast
qed

text \<open>The forgery: the last record folded into a first one.\<close>

definition folded_entry :: "ledger_entry \<Rightarrow> ledger_entry" where
  "folded_entry e = \<lparr>le_seq = 0, le_prev_hash = [], le_payload = le_prev_hash e @ le_payload e, le_hash = le_hash e\<rparr>"

definition forged_ledger :: "json_lib \<Rightarrow> string \<Rightarrow> string \<Rightarrow> ledger \<Rightarrow> ledger" where
  "forged_ledger lib sg pub lg =
     (let e = folded_entry (last (lg_entries lg)) in
      \<lparr>lg_entries = [e], lg_poisoned = False, lg_file = Some (ledger_text lib [e]),
       lg_checkpoint = Some (eod_to_json lib
         \<lparr>eod_entry_count = 1, eod_head_hash = head_hash lg, eod_signature = sg, eod_public_key = pub\<rparr>)\<rparr>)"

text \<open>A history that is not protected.  The signature of a checkpoint covers the head hash and not the
  entry count, and the hashed text of an entry is the previous hash and the payload without a
  separator.  So for any ledger of two or more entries, one file whose only entry has the last
  previous hash and payload, joined, as its payload, with a checkpoint of count one that carries the
  published signature, loads, verifies as a chain and passes the checkpoint: the whole history but
  that entry is gone, and no private key was needed.\<close>

theorem checkpoint_accepts_folded_history:
  assumes "json_ok lib" "evp_total evp" "verify_chain evp lg = Inr ()" "\<forall>e \<in> set (lg_entries lg). wf_entry e"
    and "2 \<le> length (lg_entries lg)" "length pub = kEd25519KeyBytes" "ed_verify ed pub (head_hash lg) sg = Inr 1"
    and "ci_stat_ok io" "ci_open_ok io" "ci_read_ok io"
  defines "bad \<equiv> forged_ledger lib sg pub lg"
  shows "ledger_load lib good_load bad = (Inr (), bad) \<and> verify_chain evp bad = Inr ()
    \<and> verify_against_checkpoint lib ed io bad pub = Inr () \<and> ledger_size bad < ledger_size lg"
proof -
  let ?l = "last (lg_entries lg)" and ?e = "folded_entry (last (lg_entries lg))"
  have ne: "lg_entries lg \<noteq> []" using assms(5) by auto
  have ch: "ledger_chain [] 0 (lg_entries lg)"
    using verify_loop_sound [OF evp_total_ok [OF assms(2)], of 0 "[]" "lg_entries lg"] assms(3) by (simp add: verify_chain_def)
  have "le_hash ?l = sha256_hex (le_prev_hash ?l @ le_payload ?l)"
    using ch ne by (cases "lg_entries lg" rule: rev_cases) (auto simp: chain_of_append ledger_linked_def)
  then have link: "ledger_chain [] 0 [?e]" by (simp add: ledger_linked_def folded_entry_def)
  have "wf_entry ?l" using assms(4) ne by simp
  then have wf: "wf_entry ?e" by (auto simp: wf_entry_def folded_entry_def valid_utf8_append valid_utf8_ascii i64_defs)
  have load: "ledger_load lib good_load bad = (Inr (), bad)"
    using load_text [OF assms(1), of "[?e]" bad "[]" good_load] wf
    by (simp add: bad_def forged_ledger_def Let_def good_load_def)
  have chain: "verify_chain evp bad = Inr ()"
    using verify_loop_complete [OF assms(2), of 0 "[]" "[?e]"] link by (simp add: verify_chain_def bad_def forged_ledger_def Let_def)
  have head: "head_hash lg = le_hash ?l" using ne by (simp add: head_hash_def)
  then have "list_all is_ascii (head_hash lg)" using chain_ascii [OF ch] ne by simp
  then have "parse_checkpoint lib (eod_to_json lib \<lparr>eod_entry_count = 1, eod_head_hash = head_hash lg,
      eod_signature = sg, eod_public_key = pub\<rparr>) = Some (1, head_hash lg, sg, pub)"
    using parse_own_checkpoint [OF assms(1)] by (simp add: i64_defs)
  then have "verify_against_checkpoint lib ed io bad pub = Inr ()"
    using assms(6-10) head by (simp add: verify_against_checkpoint_def bad_def forged_ledger_def Let_def
        require_key_match_def verify_head_def ledger_size_def folded_entry_def)
  then show ?thesis using load chain assms(5) by (simp add: bad_def forged_ledger_def ledger_size_def Let_def)
qed

text \<open>A ledger of two entries and a signature scheme, for the witnesses.\<close>

definition sample_entries :: "ledger_entry list" where
  "sample_entries =
     (let a = \<lparr>le_seq = 0, le_prev_hash = [], le_payload = ''a'', le_hash = sha256_hex ''a''\<rparr>
      in [a, \<lparr>le_seq = 1, le_prev_hash = le_hash a, le_payload = ''b'', le_hash = sha256_hex (le_hash a @ ''b'')\<rparr>])"

definition sample_ledger :: ledger where
  "sample_ledger = \<lparr>lg_entries = sample_entries, lg_poisoned = False,
     lg_file = Some (ledger_text sample_json sample_entries), lg_checkpoint = None\<rparr>"

definition sample_ed :: ed25519 where
  "sample_ed = \<lparr>ed_keygen = Inl ''unavailable'', ed_sign = (\<lambda>key m. Inr m),
     ed_verify = (\<lambda>key m sg. Inr (if sg = m then 1 else 0))\<rparr>"

definition sample_key :: string where
  "sample_key = replicate 32 (CHR ''k'')"

definition sample_ci :: checkpoint_io where
  "sample_ci = \<lparr>ci_fopen_ok = True, ci_write_ok = True, ci_sync_ok = True, ci_close_ok = True,
     ci_rename_ok = True, ci_stat_ok = True, ci_open_ok = True, ci_read_ok = True\<rparr>"

lemma sample_ledger_facts:
  "verify_chain sample_evp sample_ledger = Inr ()" "\<forall>e \<in> set (lg_entries sample_ledger). wf_entry e"
  "length (lg_entries sample_ledger) = 2" "lg_entries sample_ledger \<noteq> []"
proof -
  have "ledger_chain [] 0 sample_entries" by (simp add: sample_entries_def Let_def ledger_linked_def)
  then show "verify_chain sample_evp sample_ledger = Inr ()"
    using verify_loop_complete [OF sample_evp_total, of 0 "[]" sample_entries] by (simp add: verify_chain_def sample_ledger_def)
  have "valid_utf8 ''a''" "valid_utf8 ''b''" by (simp_all add: valid_utf8_ascii)
  then show "\<forall>e \<in> set (lg_entries sample_ledger). wf_entry e"
    by (simp add: sample_ledger_def sample_entries_def Let_def wf_entry_def i64_defs ascii_hex_hash)
  show "length (lg_entries sample_ledger) = 2" "lg_entries sample_ledger \<noteq> []"
    by (simp_all add: sample_ledger_def sample_entries_def Let_def)
qed

lemma sample_head: "head_hash sample_ledger \<noteq> []"
  by (simp add: head_hash_def sample_ledger_def sample_entries_def Let_def)

theorem checkpoint_detects_rewrites_witness:
  "let (res, lg1) = write_checkpoint sample_json sample_ed sample_ci sample_ledger sample_key sample_key in
     res = Inr () \<and> verify_against_checkpoint sample_json sample_ed sample_ci lg1 sample_key = Inr ()
     \<and> (take 2 (lg_entries lg1) = sample_entries
        \<or> (\<exists>a \<in> set (lg_entries lg1). \<exists>b \<in> set sample_entries. collision entry_preimage a b))"
proof -
  define r where "r = \<lparr>eod_entry_count = 2, eod_head_hash = head_hash sample_ledger,
    eod_signature = head_hash sample_ledger, eod_public_key = sample_key\<rparr>"
  define lg1 where "lg1 = sample_ledger \<lparr>lg_checkpoint := Some (eod_to_json sample_json r)\<rparr>"
  have w: "write_checkpoint sample_json sample_ed sample_ci sample_ledger sample_key sample_key = (Inr (), lg1)"
    using sample_head sample_ledger_facts(3)
    by (simp add: write_checkpoint_def make_eod_report_def sign_head_def sample_ed_def sample_key_def
        kEd25519KeyBytes_def sample_ci_def r_def lg1_def ledger_size_def Let_def)
  have "list_all is_ascii (head_hash sample_ledger)"
    by (simp add: head_hash_def sample_ledger_def sample_entries_def Let_def ascii_hex_hash)
  then have p: "parse_checkpoint sample_json (eod_to_json sample_json r)
      = Some (2, head_hash sample_ledger, head_hash sample_ledger, sample_key)"
    using parse_own_checkpoint [OF sample_json_ok, of r] by (simp add: r_def i64_defs)
  have v: "verify_against_checkpoint sample_json sample_ed sample_ci lg1 sample_key = Inr ()"
    by (simp add: verify_against_checkpoint_def lg1_def p sample_ci_def require_key_match_def verify_head_def
        sample_key_def kEd25519KeyBytes_def sample_ed_def ledger_size_def sample_ledger_def sample_entries_def
        head_hash_def Let_def)
  have c: "verify_chain sample_evp lg1 = Inr ()"
    using sample_ledger_facts(1) by (simp add: verify_chain_def lg1_def)
  have n: "int (length (lg_entries sample_ledger)) \<le> INT64_MAX" using sample_ledger_facts(3) by (simp add: i64_defs)
  note ok = evp_total_ok [OF sample_evp_total]
  from checkpoint_detects_rewrites [OF sample_json_ok ok ok n sample_ledger_facts(1) w refl c v] w v
  show ?thesis using sample_ledger_facts(3) by (simp add: sample_ledger_def)
qed

theorem checkpoint_accepts_folded_history_witness:
  "let bad = forged_ledger sample_json (head_hash sample_ledger) sample_key sample_ledger in
     ledger_load sample_json good_load bad = (Inr (), bad) \<and> verify_chain sample_evp bad = Inr ()
     \<and> verify_against_checkpoint sample_json sample_ed sample_ci bad sample_key = Inr ()
     \<and> ledger_size bad < ledger_size sample_ledger"
  using checkpoint_accepts_folded_history [OF sample_json_ok sample_evp_total sample_ledger_facts(1,2),
      of sample_key sample_ed "head_hash sample_ledger" sample_ci] sample_ledger_facts(3)
  by (simp add: sample_key_def kEd25519KeyBytes_def sample_ed_def sample_ci_def Let_def)

end
