(* ===== verification/Rate_Limit.thy ===== *)
theory Rate_Limit
  imports Errors
begin

text \<open>
  \<^verbatim>\<open>ratelimit/rate_limiter.cpp\<close> and \<^verbatim>\<open>ratelimit/endpoint_limiter.cpp\<close>: the token bucket with its reserved
  exit lane, the circuit breaker, and the limiter with one of each per endpoint class.

  An instant of the monotonic clock is a number of nanoseconds and is an argument of every
  operation that reads the clock; a refill period is a number of milliseconds, as in the source.
\<close>

section \<open>The token bucket\<close>

record rate_limiter =
  rl_capacity :: int
  rl_reserved_exit :: int
  rl_refill_period :: int
  rl_tokens :: int
  rl_last_refill :: int

definition clamp_reserved :: "int \<Rightarrow> int \<Rightarrow> int" where
  "clamp_reserved reserved_exit capacity =
     (if reserved_exit < 0 then 0 else if reserved_exit > capacity then capacity else reserved_exit)"

definition make_rate_limiter :: "int \<Rightarrow> int \<Rightarrow> int \<Rightarrow> int \<Rightarrow> rate_limiter" where
  "make_rate_limiter now capacity refill_period reserved_exit =
     (let cap = (if capacity < 0 then 0 else capacity) in
      \<lparr>rl_capacity = cap, rl_reserved_exit = clamp_reserved reserved_exit cap,
       rl_refill_period = (if refill_period > 0 then refill_period else 0),
       rl_tokens = cap, rl_last_refill = now\<rparr>)"

definition period_ns :: "rate_limiter \<Rightarrow> int" where
  "period_ns rl = rl_refill_period rl * 1000000"

definition refill :: "int \<Rightarrow> rate_limiter \<Rightarrow> rate_limiter" where
  "refill now rl =
     (if rl_refill_period rl \<le> 0 then rl
      else
        let elapsed = now - rl_last_refill rl in
        if elapsed \<le> 0 then rl
        else
          let whole_periods = elapsed div period_ns rl in
          if whole_periods \<le> 0 then rl
          else
            let headroom = rl_capacity rl - rl_tokens rl;
                gain = (if whole_periods < headroom then whole_periods else headroom)
            in rl \<lparr>rl_tokens := (if headroom > 0 then rl_tokens rl + gain else rl_tokens rl),
                   rl_last_refill := rl_last_refill rl + whole_periods * period_ns rl\<rparr>)"

definition try_acquire :: "int \<Rightarrow> bool \<Rightarrow> rate_limiter \<Rightarrow> bool \<times> rate_limiter" where
  "try_acquire now is_exit rl =
     (let rl = refill now rl;
          floor = (if is_exit then 0 else rl_reserved_exit rl)
      in if rl_tokens rl > floor then (True, rl \<lparr>rl_tokens := rl_tokens rl - 1\<rparr>) else (False, rl))"

definition acquire :: "int \<Rightarrow> bool \<Rightarrow> rate_limiter \<Rightarrow> unit result \<times> rate_limiter" where
  "acquire now is_exit rl =
     (case try_acquire now is_exit rl of
        (True, rl) \<Rightarrow> (Inr (), rl)
      | (False, rl) \<Rightarrow>
          (Inl ((make_error RateLimited (if is_exit then ''rate limiter: throttled (exit lane)''
                                         else ''rate limiter: throttled (entry lane)'') [])
                 \<lparr>err_action := RetrySafe\<rparr>), rl))"

definition available :: "bool \<Rightarrow> rate_limiter \<Rightarrow> int" where
  "available is_exit rl =
     (let avail = rl_tokens rl - (if is_exit then 0 else rl_reserved_exit rl)
      in if avail > 0 then avail else 0)"

definition peek :: "int \<Rightarrow> bool \<Rightarrow> rate_limiter \<Rightarrow> int \<times> rate_limiter" where
  "peek now is_exit rl = (let rl = refill now rl in (available is_exit rl, rl))"

section \<open>The circuit breaker\<close>

definition INT_MAX32 :: int where
  "INT_MAX32 = 2147483647"

record breaker_config =
  bc_trip_after :: int
  bc_base_cooldown :: int
  bc_max_cooldown :: int

record circuit_breaker =
  cb_cfg :: breaker_config
  cb_consecutive :: int
  cb_trips :: int
  cb_open_until :: int

definition make_breaker :: "int \<Rightarrow> breaker_config \<Rightarrow> circuit_breaker" where
  "make_breaker now cfg = \<lparr>cb_cfg = cfg, cb_consecutive = 0, cb_trips = 0, cb_open_until = now\<rparr>"

text \<open>The doubling loop; its argument counts the iterations left.\<close>

fun cooldown_loop :: "nat \<Rightarrow> int \<Rightarrow> int \<Rightarrow> int" where
  "cooldown_loop 0 cap v = v"
| "cooldown_loop (Suc n) cap v =
     (if v > cap div 2 then cap
      else let v = v * 2 in if v \<ge> cap then cap else cooldown_loop n cap v)"

definition cooldown_seconds_for :: "breaker_config \<Rightarrow> int \<Rightarrow> int" where
  "cooldown_seconds_for cfg trips =
     (let base = (if bc_base_cooldown cfg > 0 then bc_base_cooldown cfg else 1);
          cap = (if bc_max_cooldown cfg \<ge> base then bc_max_cooldown cfg else base)
      in if trips \<le> 1 then base else cooldown_loop (nat (trips - 1)) cap base)"

definition cb_record_429 :: "int \<Rightarrow> circuit_breaker \<Rightarrow> circuit_breaker" where
  "cb_record_429 now cb =
     (let threshold = (if bc_trip_after (cb_cfg cb) > 0 then bc_trip_after (cb_cfg cb) else 1);
          cb = (if cb_consecutive cb < INT_MAX32 then cb \<lparr>cb_consecutive := cb_consecutive cb + 1\<rparr> else cb)
      in if cb_consecutive cb \<ge> threshold
         then let cb = (if cb_trips cb < INT_MAX32 then cb \<lparr>cb_trips := cb_trips cb + 1\<rparr> else cb)
              in cb \<lparr>cb_open_until := now + cooldown_seconds_for (cb_cfg cb) (cb_trips cb) * 1000000000\<rparr>
         else cb)"

definition cb_record_success :: "int \<Rightarrow> circuit_breaker \<Rightarrow> circuit_breaker" where
  "cb_record_success now cb = cb \<lparr>cb_consecutive := 0, cb_trips := 0, cb_open_until := now\<rparr>"

definition cb_is_open :: "int \<Rightarrow> circuit_breaker \<Rightarrow> bool" where
  "cb_is_open now cb \<longleftrightarrow> now < cb_open_until cb"

section \<open>One bucket and one breaker per endpoint class\<close>

datatype endpoint_class = OrderEp | QuoteEp | HistoricalEp | OtherEp

fun endpoint_to_string :: "endpoint_class \<Rightarrow> string" where
  "endpoint_to_string OrderEp = ''order''"
| "endpoint_to_string QuoteEp = ''quote''"
| "endpoint_to_string HistoricalEp = ''historical''"
| "endpoint_to_string OtherEp = ''other''"

record endpoint_limits =
  el_order_per_sec :: int
  el_quote_per_sec :: int
  el_historical_per_sec :: int
  el_other_per_sec :: int
  el_reserved_exit_order :: int

definition refill_period_for :: "int \<Rightarrow> int" where
  "refill_period_for per_sec = (if per_sec \<le> 0 then 0 else 1000 div per_sec)"

definition order_capacity :: "endpoint_limits \<Rightarrow> int" where
  "order_capacity l =
     (let reserved_floor = (if el_reserved_exit_order l > 0 then el_reserved_exit_order l else 0);
          cap = (if el_order_per_sec l > reserved_floor then el_order_per_sec l else reserved_floor)
      in if cap > 0 then cap else 1)"

text \<open>The four buckets and the four breakers, by class.\<close>

record endpoint_limiter =
  ep_bucket :: "endpoint_class \<Rightarrow> rate_limiter"
  ep_breaker :: "endpoint_class \<Rightarrow> circuit_breaker"

definition make_endpoint_limiter :: "int \<Rightarrow> endpoint_limits \<Rightarrow> breaker_config \<Rightarrow> endpoint_limiter" where
  "make_endpoint_limiter now l cfg =
     \<lparr>ep_bucket = (\<lambda>ep. case ep of
         OrderEp \<Rightarrow> make_rate_limiter now (order_capacity l) (refill_period_for (order_capacity l)) (el_reserved_exit_order l)
       | QuoteEp \<Rightarrow> make_rate_limiter now (el_quote_per_sec l) (refill_period_for (el_quote_per_sec l)) 0
       | HistoricalEp \<Rightarrow> make_rate_limiter now (el_historical_per_sec l) (refill_period_for (el_historical_per_sec l)) 0
       | OtherEp \<Rightarrow> make_rate_limiter now (el_other_per_sec l) (refill_period_for (el_other_per_sec l)) 0),
      ep_breaker = (\<lambda>ep. make_breaker now cfg)\<rparr>"

definition ep_acquire :: "int \<Rightarrow> endpoint_class \<Rightarrow> bool \<Rightarrow> endpoint_limiter \<Rightarrow> unit result \<times> endpoint_limiter" where
  "ep_acquire now ep is_exit lim =
     (if \<not> is_exit \<and> cb_is_open now (ep_breaker lim ep)
      then (Inl ((make_error RiskRejected (''endpoint rate limiter: circuit breaker open for endpoint ''
               @ [CHR 0x27] @ endpoint_to_string ep @ [CHR 0x27] @ '' - entry blocked'') [])
               \<lparr>err_action := DoNotRetry\<rparr>), lim)
      else case acquire now is_exit (ep_bucket lim ep) of
             (res, rl) \<Rightarrow> (res, lim \<lparr>ep_bucket := (ep_bucket lim)(ep := rl)\<rparr>))"

definition ep_record_429 :: "int \<Rightarrow> endpoint_class \<Rightarrow> endpoint_limiter \<Rightarrow> endpoint_limiter" where
  "ep_record_429 now ep lim =
     lim \<lparr>ep_breaker := (ep_breaker lim)(ep := cb_record_429 now (ep_breaker lim ep))\<rparr>"

definition ep_record_success :: "int \<Rightarrow> endpoint_class \<Rightarrow> endpoint_limiter \<Rightarrow> endpoint_limiter" where
  "ep_record_success now ep lim =
     lim \<lparr>ep_breaker := (ep_breaker lim)(ep := cb_record_success now (ep_breaker lim ep))\<rparr>"

definition breaker_open :: "int \<Rightarrow> endpoint_class \<Rightarrow> endpoint_limiter \<Rightarrow> bool" where
  "breaker_open now ep lim = cb_is_open now (ep_breaker lim ep)"

section \<open>Every step of a bucket\<close>

definition rl_ok :: "rate_limiter \<Rightarrow> bool" where
  "rl_ok rl \<longleftrightarrow> 0 \<le> rl_reserved_exit rl \<and> rl_reserved_exit rl \<le> rl_capacity rl
     \<and> 0 \<le> rl_tokens rl \<and> rl_tokens rl \<le> rl_capacity rl \<and> 0 \<le> rl_refill_period rl"

lemma rl_ok_make: "rl_ok (make_rate_limiter now c p r)"
  by (simp add: rl_ok_def make_rate_limiter_def clamp_reserved_def Let_def)

text \<open>A refill credits at most the whole periods by which it moves the stamp, and leaves less than a
  period behind.\<close>

lemma refill_facts:
  assumes "rl_ok rl"
  shows "rl_ok (refill now rl)" "rl_capacity (refill now rl) = rl_capacity rl"
    "rl_reserved_exit (refill now rl) = rl_reserved_exit rl" "rl_refill_period (refill now rl) = rl_refill_period rl"
    "rl_tokens rl \<le> rl_tokens (refill now rl)"
    and "\<exists>k \<ge> 0. rl_last_refill (refill now rl) = rl_last_refill rl + k * period_ns rl
      \<and> rl_tokens (refill now rl) \<le> rl_tokens rl + k"
    and "rl_last_refill (refill now rl) \<le> max now (rl_last_refill rl)"
    and "0 < rl_refill_period rl \<Longrightarrow> now - rl_last_refill (refill now rl) < period_ns rl"
    and "rl_refill_period rl = 0 \<Longrightarrow> refill now rl = rl"
proof -
  define e where "e = now - rl_last_refill rl"
  define w where "w = e div period_ns rl"
  have P: "0 < rl_refill_period rl \<Longrightarrow> 0 < period_ns rl" by (simp add: period_ns_def)
  show "rl_ok (refill now rl)" "rl_capacity (refill now rl) = rl_capacity rl"
    "rl_reserved_exit (refill now rl) = rl_reserved_exit rl" "rl_refill_period (refill now rl) = rl_refill_period rl"
    "rl_tokens rl \<le> rl_tokens (refill now rl)"
    "rl_refill_period rl = 0 \<Longrightarrow> refill now rl = rl"
    using assms by (auto simp: refill_def rl_ok_def Let_def)
  show "\<exists>k \<ge> 0. rl_last_refill (refill now rl) = rl_last_refill rl + k * period_ns rl
      \<and> rl_tokens (refill now rl) \<le> rl_tokens rl + k"
  proof (cases "rl_refill_period rl \<le> 0 \<or> e \<le> 0 \<or> w \<le> 0")
    case True
    then have "refill now rl = rl" by (auto simp: refill_def Let_def e_def w_def)
    then show ?thesis by (intro exI [of _ 0]) simp
  next
    case False
    then show ?thesis by (intro exI [of _ w]) (auto simp: refill_def Let_def e_def w_def)
  qed
  show "rl_last_refill (refill now rl) \<le> max now (rl_last_refill rl)"
  proof (cases "rl_refill_period rl \<le> 0 \<or> e \<le> 0 \<or> w \<le> 0")
    case True
    then have "refill now rl = rl" by (auto simp: refill_def Let_def e_def w_def)
    then show ?thesis by simp
  next
    case False
    then have "w * period_ns rl \<le> e" unfolding w_def
      using P by (metis linorder_not_le minus_mod_eq_div_mult pos_mod_sign diff_le_eq le_add_same_cancel1)
    then show ?thesis using False by (auto simp: refill_def Let_def e_def w_def)
  qed
  show "now - rl_last_refill (refill now rl) < period_ns rl" if "0 < rl_refill_period rl"
  proof -
    have "e - e div period_ns rl * period_ns rl < period_ns rl"
      using P [OF that] by (metis minus_div_mult_eq_mod pos_mod_bound)
    moreover have "w \<le> 0 \<Longrightarrow> 0 < e \<Longrightarrow> w = 0" using P [OF that] pos_imp_zdiv_nonneg_iff [of "period_ns rl" e]
      unfolding w_def by linarith
    ultimately show ?thesis using that P [OF that] by (auto simp: refill_def Let_def e_def w_def)
  qed
qed

lemma try_acquire_facts:
  assumes "rl_ok rl" "try_acquire now is_exit rl = (ok, rl')"
  shows "rl_ok rl'" "rl_capacity rl' = rl_capacity rl" "rl_reserved_exit rl' = rl_reserved_exit rl"
    "rl_refill_period rl' = rl_refill_period rl" "rl_last_refill rl' = rl_last_refill (refill now rl)"
    "rl_tokens rl' = rl_tokens (refill now rl) - (if ok then 1 else 0)"
    "ok \<longleftrightarrow> rl_tokens (refill now rl) > (if is_exit then 0 else rl_reserved_exit rl)"
  using refill_facts(1-4) [OF assms(1), of now] assms(2)
  by (auto simp: try_acquire_def Let_def rl_ok_def split: if_splits)

section \<open>The rate a bucket lets through\<close>

text \<open>A sequence of timed requests and the number of them that are granted.\<close>

fun rl_run :: "(int \<times> bool) list \<Rightarrow> rate_limiter \<Rightarrow> nat \<times> rate_limiter" where
  "rl_run [] rl = (0, rl)"
| "rl_run ((now, is_exit) # rs) rl =
     (case try_acquire now is_exit rl of (ok, rl1) \<Rightarrow>
      case rl_run rs rl1 of (n, rl2) \<Rightarrow> (if ok then Suc n else n, rl2))"

lemma rl_run_conserves:
  assumes "rl_ok rl" "rl_run rs rl = (n, rl')"
  shows "\<exists>k \<ge> 0. rl_last_refill rl' = rl_last_refill rl + k * period_ns rl
    \<and> rl_tokens rl' + int n \<le> rl_tokens rl + k \<and> rl_ok rl'"
  using assms
proof (induction rs arbitrary: rl n)
  case (Cons r rs)
  obtain now is_exit where r: "r = (now, is_exit)" by fastforce
  obtain ok rl1 where T: "try_acquire now is_exit rl = (ok, rl1)" by fastforce
  obtain m where R: "rl_run rs rl1 = (m, rl')" and n: "n = (if ok then Suc m else m)"
    using Cons.prems(2) r T by (cases "rl_run rs rl1") auto
  note F = try_acquire_facts [OF Cons.prems(1) T]
  obtain k1 where k1: "k1 \<ge> 0" "rl_last_refill (refill now rl) = rl_last_refill rl + k1 * period_ns rl"
    "rl_tokens (refill now rl) \<le> rl_tokens rl + k1"
    using refill_facts(6) [OF Cons.prems(1), of now] by blast
  obtain k2 where k2: "k2 \<ge> 0" "rl_last_refill rl' = rl_last_refill rl1 + k2 * period_ns rl1"
    "rl_tokens rl' + int m \<le> rl_tokens rl1 + k2" "rl_ok rl'"
    using Cons.IH [OF F(1) R] by blast
  have "period_ns rl1 = period_ns rl" using F(4) by (simp add: period_ns_def)
  then show ?case using k1 k2 F(5,6) n
    by (intro exI [of _ "k1 + k2"]) (auto simp: algebra_simps)
qed (auto intro!: exI [of _ 0])

lemma rl_run_stamp:
  assumes "rl_ok rl" "rl_run rs rl = (n, rl')" "rl_last_refill rl \<le> b" "\<forall>r \<in> set rs. fst r \<le> b"
  shows "rl_last_refill rl' \<le> b"
  using assms
proof (induction rs arbitrary: rl n)
  case (Cons r rs)
  obtain now is_exit where r: "r = (now, is_exit)" by fastforce
  obtain ok rl1 where T: "try_acquire now is_exit rl = (ok, rl1)" by fastforce
  obtain m where R: "rl_run rs rl1 = (m, rl')"
    using Cons.prems(2) r T by (cases "rl_run rs rl1") auto
  note F = try_acquire_facts [OF Cons.prems(1) T]
  have "rl_last_refill rl1 \<le> b"
    using F(5) refill_facts(7) [OF Cons.prems(1), of now] Cons.prems(3,4) r by auto
  then show ?case using Cons.IH [OF F(1) R] Cons.prems(4) by simp
qed auto

text \<open>Over any window of \<open>w\<close> nanoseconds a bucket with a positive refill period grants at most its
  capacity, one token per whole period of the window, and one for a period that began before the
  window: the requests may come at any instants of the window and in any mix of lanes, and the bucket
  may have been in use before.\<close>

theorem grants_in_window:
  assumes "rl_ok rl" "0 < rl_refill_period rl" "rl_last_refill rl \<le> t" "0 \<le> w"
    and "\<forall>r \<in> set rs. t \<le> fst r \<and> fst r \<le> t + w"
  shows "int (fst (rl_run rs rl)) \<le> rl_capacity rl + w div period_ns rl + 1"
proof (cases rs)
  case Nil
  then show ?thesis using assms(1,2,4)
    by (simp add: rl_ok_def period_ns_def pos_imp_zdiv_nonneg_iff add_nonneg_nonneg)
next
  case (Cons r rs')
  obtain n rl' where R: "rl_run rs rl = (n, rl')" by fastforce
  have P: "0 < period_ns rl" using assms(2) by (simp add: period_ns_def)
  obtain now is_exit where r: "r = (now, is_exit)" by fastforce
  obtain ok rl1 where T: "try_acquire now is_exit rl = (ok, rl1)" by fastforce
  obtain m where R1: "rl_run rs' rl1 = (m, rl')" and n: "n = (if ok then Suc m else m)"
    using R Cons r T by (cases "rl_run rs' rl1") auto
  note F = try_acquire_facts [OF assms(1) T]
  note G = refill_facts(1,2,7,8) [OF assms(1), of now]
  obtain k where k: "k \<ge> 0" "rl_last_refill rl' = rl_last_refill rl1 + k * period_ns rl1"
    "rl_tokens rl' + int m \<le> rl_tokens rl1 + k" "rl_ok rl'"
    using rl_run_conserves [OF F(1) R1] by blast
  have p1: "period_ns rl1 = period_ns rl" using F(4) by (simp add: period_ns_def)
  have tn: "t \<le> now" "now \<le> t + w" using assms(5) Cons r by auto
  have "rl_last_refill rl1 \<le> t + w" using F(5) G(3) tn assms(3) by (simp add: max_def split: if_splits)
  then have "rl_last_refill rl' \<le> t + w" using rl_run_stamp [OF F(1) R1] assms(5) Cons by simp
  moreover have "t - rl_last_refill rl1 < period_ns rl" using F(5) G(4) [OF assms(2)] tn by simp
  ultimately have "k * period_ns rl < w + period_ns rl" using k(2) p1 by simp
  then have "(k - 1) * period_ns rl \<le> w" by (simp add: algebra_simps)
  then have "k - 1 \<le> w div period_ns rl" using P by (metis zdiv_mono1 nonzero_mult_div_cancel_right less_irrefl)
  moreover have "rl_tokens rl1 + (if ok then 1 else 0) \<le> rl_capacity rl" using F(6) G(1,2) by (simp add: rl_ok_def)
  ultimately show ?thesis using R n k(3,4) by (simp add: rl_ok_def split: if_splits)
qed

theorem grants_in_window_witness:
  "int (fst (rl_run [(100, False), (200, True), (600000000, False)] (make_rate_limiter 0 2 500 1)))
     \<le> 2 + 1000000000 div 500000000 + 1"
proof -
  let ?rl = "make_rate_limiter 0 2 500 1"
  have f: "rl_refill_period ?rl = 500" "rl_last_refill ?rl = 0" "rl_capacity ?rl = 2" "period_ns ?rl = 500000000"
    by (simp_all add: make_rate_limiter_def period_ns_def Let_def)
  show ?thesis
    using grants_in_window [of ?rl 0 1000000000 "[(100, False), (200, True), (600000000, False)]"] rl_ok_make
    by (simp add: f)
qed

section \<open>The exit lane\<close>

text \<open>The calls a client makes on the limiter, each at an instant of the clock.\<close>

datatype ep_call = EpAcquire endpoint_class bool | Ep429 endpoint_class | EpSuccess endpoint_class

fun ep_step :: "int \<times> ep_call \<Rightarrow> endpoint_limiter \<Rightarrow> unit result \<times> endpoint_limiter" where
  "ep_step (now, EpAcquire ep is_exit) lim = ep_acquire now ep is_exit lim"
| "ep_step (now, Ep429 ep) lim = (Inr (), ep_record_429 now ep lim)"
| "ep_step (now, EpSuccess ep) lim = (Inr (), ep_record_success now ep lim)"

fun ep_run :: "(int \<times> ep_call) list \<Rightarrow> endpoint_limiter \<Rightarrow> unit result list \<times> endpoint_limiter" where
  "ep_run [] lim = ([], lim)"
| "ep_run (c # cs) lim =
     (case ep_step c lim of (r, lim1) \<Rightarrow> case ep_run cs lim1 of (rs, lim2) \<Rightarrow> (r # rs, lim2))"

definition order_exit :: "int \<times> ep_call \<Rightarrow> bool" where
  "order_exit c \<longleftrightarrow> snd c = EpAcquire OrderEp True"

text \<open>What a call does to the order bucket: only an exit takes from the reserved tokens.\<close>

lemma ep_step_order_bucket:
  assumes "rl_ok (ep_bucket lim OrderEp)" "ep_step c lim = (r, lim')"
  shows "rl_ok (ep_bucket lim' OrderEp)"
    and "rl_reserved_exit (ep_bucket lim' OrderEp) = rl_reserved_exit (ep_bucket lim OrderEp)"
    and "k \<le> rl_reserved_exit (ep_bucket lim OrderEp) \<Longrightarrow> k \<le> rl_tokens (ep_bucket lim OrderEp) \<Longrightarrow>
      (if order_exit c then k - 1 else k) \<le> rl_tokens (ep_bucket lim' OrderEp)"
    and "order_exit c \<Longrightarrow> 0 < rl_tokens (ep_bucket lim OrderEp) \<Longrightarrow> r = Inr ()"
proof -
  let ?b = "ep_bucket lim OrderEp" and ?b' = "ep_bucket lim' OrderEp"
  have "(?b' = ?b \<and> \<not> order_exit c)
    \<or> (\<exists>now is_exit ok. c = (now, EpAcquire OrderEp is_exit) \<and> try_acquire now is_exit ?b = (ok, ?b') \<and> (ok \<longrightarrow> r = Inr ()))"
    using assms(2)
    by (cases "(c, lim)" rule: ep_step.cases)
       (auto simp: order_exit_def ep_acquire_def acquire_def ep_record_429_def ep_record_success_def
             split: if_splits prod.splits bool.splits)
  then consider (same) "?b' = ?b" "\<not> order_exit c"
    | (take) now is_exit ok where "c = (now, EpAcquire OrderEp is_exit)" "try_acquire now is_exit ?b = (ok, ?b')"
        "ok \<longrightarrow> r = Inr ()"
    by blast
  then have "rl_ok ?b' \<and> rl_reserved_exit ?b' = rl_reserved_exit ?b
    \<and> (k \<le> rl_reserved_exit ?b \<longrightarrow> k \<le> rl_tokens ?b \<longrightarrow> (if order_exit c then k - 1 else k) \<le> rl_tokens ?b')
    \<and> (order_exit c \<longrightarrow> 0 < rl_tokens ?b \<longrightarrow> r = Inr ())"
  proof cases
    case same
    then show ?thesis using assms(1) by simp
  next
    case take
    note F = try_acquire_facts [OF assms(1) take(2)] and G = refill_facts(3,5) [OF assms(1), of now]
    show ?thesis using F G take(1,3) by (auto simp: order_exit_def split: if_splits)
  qed
  then show "rl_ok ?b'" "rl_reserved_exit ?b' = rl_reserved_exit ?b"
    "k \<le> rl_reserved_exit ?b \<Longrightarrow> k \<le> rl_tokens ?b \<Longrightarrow> (if order_exit c then k - 1 else k) \<le> rl_tokens ?b'"
    "order_exit c \<Longrightarrow> 0 < rl_tokens ?b \<Longrightarrow> r = Inr ()" by blast+
qed

lemma ep_run_length: "length (fst (ep_run cs lim)) = length cs"
  by (induction cs arbitrary: lim) (auto split: prod.splits, metis fst_conv)

lemma ep_run_exits:
  assumes "rl_ok (ep_bucket lim OrderEp)" "int (length (filter order_exit cs)) \<le> rl_reserved_exit (ep_bucket lim OrderEp)"
    "int (length (filter order_exit cs)) \<le> rl_tokens (ep_bucket lim OrderEp)" "(c, r) \<in> set (zip cs (fst (ep_run cs lim)))"
    "order_exit c"
  shows "r = Inr ()"
  using assms
proof (induction cs arbitrary: lim)
  case (Cons a cs)
  obtain ra lim1 where A: "ep_step a lim = (ra, lim1)" by fastforce
  obtain rs lim2 where R: "ep_run cs lim1 = (rs, lim2)" by fastforce
  note S = ep_step_order_bucket [OF Cons.prems(1) A]
  have IH: "(c, r) \<in> set (zip cs rs) \<Longrightarrow> r = Inr ()"
    using Cons.IH [OF S(1)] S(2) S(3) [OF Cons.prems(2,3)] Cons.prems(2,5) R by (simp split: if_splits)
  have "r = Inr ()" if "c = a" "r = ra" using S(4) Cons.prems(3,5) that by (simp split: if_splits)
  then show ?case using IH Cons.prems(4) A R by auto
qed simp

text \<open>C23. A limiter built from any configured limits (out-of-range ones included) reserves exits that nothing
  can take: in every sequence of requests on any endpoint, reported 429s and successes, at any instants,
  that holds no more exits on the order endpoint than the configured reserve, each of those exits is
  granted, however many entries came before it and whether or not the breaker is open.\<close>

theorem reserved_exits_granted:
  assumes "int (length (filter order_exit cs)) \<le> el_reserved_exit_order l"
    and "(c, r) \<in> set (zip cs (fst (ep_run cs (make_endpoint_limiter now l cfg))))" "order_exit c"
  shows "r = Inr ()"
proof -
  let ?b = "ep_bucket (make_endpoint_limiter now l cfg) OrderEp"
  have "rl_tokens ?b = order_capacity l" "rl_reserved_exit ?b = clamp_reserved (el_reserved_exit_order l) (order_capacity l)"
    by (simp_all add: make_endpoint_limiter_def make_rate_limiter_def order_capacity_def Let_def)
  moreover have "el_reserved_exit_order l \<le> order_capacity l" by (simp add: order_capacity_def Let_def)
  moreover have "rl_ok ?b" by (simp add: make_endpoint_limiter_def rl_ok_make)
  ultimately show ?thesis
    using ep_run_exits [of "make_endpoint_limiter now l cfg" cs c r] assms by (simp add: clamp_reserved_def)
qed

theorem reserved_exits_granted_witness:
  "fst (ep_run [(0, EpAcquire OrderEp False), (1, Ep429 OrderEp), (2, EpAcquire OrderEp False), (3, EpAcquire OrderEp True)]
      (make_endpoint_limiter 0 \<lparr>el_order_per_sec = 0, el_quote_per_sec = 1, el_historical_per_sec = 1, el_other_per_sec = 1,
         el_reserved_exit_order = 1\<rparr> \<lparr>bc_trip_after = 1, bc_base_cooldown = 30, bc_max_cooldown = 300\<rparr>)) ! 3 = Inr ()"
proof -
  let ?cs = "[(0, EpAcquire OrderEp False), (1, Ep429 OrderEp), (2, EpAcquire OrderEp False), (3, EpAcquire OrderEp True)]"
  let ?l = "\<lparr>el_order_per_sec = 0, el_quote_per_sec = 1, el_historical_per_sec = 1, el_other_per_sec = 1,
         el_reserved_exit_order = 1\<rparr>"
  let ?cfg = "\<lparr>bc_trip_after = 1, bc_base_cooldown = 30, bc_max_cooldown = 300\<rparr>"
  let ?lim = "make_endpoint_limiter 0 ?l ?cfg"
  have "length (fst (ep_run ?cs ?lim)) = 4" by (simp add: ep_run_length del: ep_run.simps)
  then obtain r0 r1 r2 r3 where R: "fst (ep_run ?cs ?lim) = [r0, r1, r2, r3]"
    by (auto simp: length_Suc_conv eval_nat_numeral simp del: ep_run.simps)
  have "int (length (filter order_exit ?cs)) \<le> el_reserved_exit_order ?l" by (simp add: order_exit_def)
  moreover have "((3, EpAcquire OrderEp True), r3) \<in> set (zip ?cs (fst (ep_run ?cs ?lim)))" using R by simp
  moreover have "order_exit (3, EpAcquire OrderEp True)" by (simp add: order_exit_def)
  ultimately have "r3 = Inr ()" by (rule reserved_exits_granted)
  then show ?thesis using R by simp
qed

section \<open>The breaker's cooldown\<close>

lemma cooldown_loop_eq: "0 < v \<Longrightarrow> v \<le> cap \<Longrightarrow> cooldown_loop n cap v = min cap (v * 2 ^ n)"
proof (induction n arbitrary: v)
  case (Suc n)
  have one: "1 * 1 \<le> (2 :: int) ^ n" by simp
  show ?case
  proof (cases "v > cap div 2 \<or> v * 2 \<ge> cap")
    case True
    then have "cap \<le> v * 2 * 1" by linarith
    also have "\<dots> \<le> v * 2 * 2 ^ n" using Suc.prems(1) one by (intro mult_left_mono) auto
    finally show ?thesis using True by (auto simp: Let_def algebra_simps)
  next
    case False
    then show ?thesis using Suc.IH [of "v * 2"] Suc.prems by (simp add: Let_def algebra_simps)
  qed
qed simp

text \<open>The cooldown of the \<open>n\<close>-th trip is the base doubled for every earlier trip, cut at the cap; a base
  that is not positive counts as one second and a cap below the base as the base.\<close>

theorem cooldown_is_capped_doubling:
  "cooldown_seconds_for cfg trips =
     (let base = max 1 (bc_base_cooldown cfg) in min (max base (bc_max_cooldown cfg)) (base * 2 ^ nat (trips - 1)))"
proof -
  have "0 < max 1 (bc_base_cooldown cfg)" by simp
  then show ?thesis
    by (auto simp: cooldown_seconds_for_def Let_def cooldown_loop_eq max_def)
qed

section \<open>A configured rate above one thousand a second\<close>

lemma rl_run_never_refills:
  assumes "rl_ok rl" "rl_refill_period rl = 0"
  shows "int (fst (rl_run rs rl)) \<le> rl_tokens rl"
  using assms
proof (induction rs arbitrary: rl)
  case (Cons r rs)
  obtain now is_exit where r: "r = (now, is_exit)" by fastforce
  obtain ok rl1 where T: "try_acquire now is_exit rl = (ok, rl1)" by fastforce
  note F = try_acquire_facts [OF Cons.prems(1) T] and G = refill_facts(9) [OF Cons.prems]
  show ?case using Cons.IH [OF F(1)] F(4,6) G Cons.prems(2) r T by (auto split: prod.splits if_splits)
qed (simp add: rl_ok_def)

text \<open>The refill period of the order bucket is a number of whole milliseconds, so a configured rate above
  one thousand a second has the period zero, which the bucket takes as \<^emph>\<open>never refill\<close>: over the whole
  life of the process it grants at most its first capacity of requests, exits included, whatever the
  instants they come at.\<close>

theorem fast_order_bucket_runs_dry:
  assumes "1000 < order_capacity l"
  shows "int (fst (rl_run rs (ep_bucket (make_endpoint_limiter now l cfg) OrderEp))) \<le> order_capacity l"
proof -
  let ?b = "ep_bucket (make_endpoint_limiter now l cfg) OrderEp"
  have "rl_ok ?b" by (simp add: make_endpoint_limiter_def rl_ok_make)
  moreover have "rl_refill_period ?b = 0" "rl_tokens ?b = order_capacity l" using assms
    by (simp_all add: make_endpoint_limiter_def make_rate_limiter_def refill_period_for_def Let_def)
  ultimately show ?thesis using rl_run_never_refills by metis
qed

theorem fast_order_bucket_runs_dry_witness:
  "\<forall>rs. int (fst (rl_run rs (ep_bucket (make_endpoint_limiter 0 \<lparr>el_order_per_sec = 2000, el_quote_per_sec = 1,
      el_historical_per_sec = 1, el_other_per_sec = 1, el_reserved_exit_order = 2\<rparr>
      \<lparr>bc_trip_after = 3, bc_base_cooldown = 30, bc_max_cooldown = 300\<rparr>) OrderEp))) \<le> 2000"
proof
  fix rs
  let ?l = "\<lparr>el_order_per_sec = 2000, el_quote_per_sec = 1, el_historical_per_sec = 1, el_other_per_sec = 1, el_reserved_exit_order = 2\<rparr>"
  have "order_capacity ?l = 2000" by (simp add: order_capacity_def)
  then show "int (fst (rl_run rs (ep_bucket (make_endpoint_limiter 0 ?l
      \<lparr>bc_trip_after = 3, bc_base_cooldown = 30, bc_max_cooldown = 300\<rparr>) OrderEp))) \<le> 2000"
    using fast_order_bucket_runs_dry [of ?l rs 0 "\<lparr>bc_trip_after = 3, bc_base_cooldown = 30, bc_max_cooldown = 300\<rparr>"] by simp
qed

end
