(* ===== verification/Modes.thy ===== *)
theory Modes
  imports Ports
begin

text \<open>
  \<^verbatim>\<open>modes/\<close>: the degradation posture (\<^verbatim>\<open>posture.cpp\<close>), the operator's kill switch and its control plane
  (\<^verbatim>\<open>killswitch.cpp\<close>), and the table of trading modes (\<^verbatim>\<open>trading_mode.cpp\<close>).

  Postures are ordered by severity, as an instance of the class of linear orders.  The two functions
  injected into the control plane (authentication and the durable journal) are arguments; the threads
  of the control plane and of the main loop are the steps of the relation \<open>kill_step\<close>.
\<close>

section \<open>Postures\<close>

datatype posture = NormalPosture | BlockEntries | ExitOnly | SoftKill | Panic

fun severity :: "posture \<Rightarrow> int" where
  "severity NormalPosture = 0"
| "severity BlockEntries = 1"
| "severity ExitOnly = 2"
| "severity SoftKill = 3"
| "severity Panic = 4"

lemma severity_inject [simp]: "severity p = severity q \<longleftrightarrow> p = q"
  by (cases p; cases q) auto

instantiation posture :: linorder
begin

definition less_eq_posture :: "posture \<Rightarrow> posture \<Rightarrow> bool" where
  "less_eq_posture p q \<longleftrightarrow> severity p \<le> severity q"

definition less_posture :: "posture \<Rightarrow> posture \<Rightarrow> bool" where
  "less_posture p q \<longleftrightarrow> severity p < severity q"

instance
  by standard (auto simp: less_eq_posture_def less_posture_def)

end

datatype detector_signal = StaleData | MuteFeed | UnknownOrder | Mismatch | SessionExpiry | BrokerDown
  | ClockSkew | ClockStall | ResourcePressure | RiskBreach

datatype health_signal = HMuteFeed | HDiskPressure | HMemoryPressure | HHandlePressure | HClockSkew | HClockStall

fun posture_to_string :: "posture \<Rightarrow> string" where
  "posture_to_string NormalPosture = ''Normal''"
| "posture_to_string BlockEntries = ''BlockEntries''"
| "posture_to_string ExitOnly = ''ExitOnly''"
| "posture_to_string SoftKill = ''SoftKill''"
| "posture_to_string Panic = ''Panic''"

fun detector_to_string :: "detector_signal \<Rightarrow> string" where
  "detector_to_string StaleData = ''StaleData''"
| "detector_to_string MuteFeed = ''MuteFeed''"
| "detector_to_string UnknownOrder = ''Unknown''"
| "detector_to_string Mismatch = ''Mismatch''"
| "detector_to_string SessionExpiry = ''SessionExpiry''"
| "detector_to_string BrokerDown = ''BrokerDown''"
| "detector_to_string ClockSkew = ''ClockSkew''"
| "detector_to_string ClockStall = ''ClockStall''"
| "detector_to_string ResourcePressure = ''ResourcePressure''"
| "detector_to_string RiskBreach = ''RiskBreach''"

fun posture_level :: "posture \<Rightarrow> alert_level" where
  "posture_level BlockEntries = AlertWarning"
| "posture_level ExitOnly = AlertError"
| "posture_level SoftKill = AlertError"
| "posture_level Panic = AlertCritical"
| "posture_level NormalPosture = AlertWarning"

fun posture_for :: "detector_signal \<Rightarrow> posture" where
  "posture_for StaleData = BlockEntries"
| "posture_for MuteFeed = BlockEntries"
| "posture_for UnknownOrder = BlockEntries"
| "posture_for Mismatch = BlockEntries"
| "posture_for SessionExpiry = BlockEntries"
| "posture_for BrokerDown = ExitOnly"
| "posture_for ClockSkew = ExitOnly"
| "posture_for ClockStall = ExitOnly"
| "posture_for ResourcePressure = ExitOnly"
| "posture_for RiskBreach = SoftKill"

fun evaluate_loop :: "posture \<Rightarrow> detector_signal list \<Rightarrow> posture" where
  "evaluate_loop result [] = result"
| "evaluate_loop result (s # active) =
     (let candidate = posture_for s
      in evaluate_loop (if severity candidate > severity result then candidate else result) active)"

definition evaluate_posture :: "detector_signal list \<Rightarrow> posture \<Rightarrow> posture" where
  "evaluate_posture active operator_floor = evaluate_loop operator_floor active"

definition allows_entries :: "posture \<Rightarrow> bool" where
  "allows_entries p \<longleftrightarrow> p = NormalPosture"

definition allows_risk_reducing_exits :: "posture \<Rightarrow> bool" where
  "allows_risk_reducing_exits p \<longleftrightarrow> p \<noteq> Panic"

definition require_entry_allowed :: "posture \<Rightarrow> unit result" where
  "require_entry_allowed p =
     (if p = NormalPosture then Inr ()
      else Inl ((make_error RiskRejected (''posture '' @ posture_to_string p @ '' blocks new entries'') [])
                \<lparr>err_action := BlockStrategy\<rparr>))"

fun from_health :: "health_signal \<Rightarrow> detector_signal" where
  "from_health HMuteFeed = MuteFeed"
| "from_health HClockSkew = ClockSkew"
| "from_health HClockStall = ClockStall"
| "from_health HDiskPressure = ResourcePressure"
| "from_health HMemoryPressure = ResourcePressure"
| "from_health HHandlePressure = ResourcePressure"

text \<open>The posture and the alerts sent.\<close>

definition evaluate_and_alert :: "detector_signal list \<Rightarrow> posture \<Rightarrow> posture \<times> alert list" where
  "evaluate_and_alert active operator_floor =
     (let p = evaluate_posture active operator_floor
      in (p, if p \<noteq> NormalPosture
             then [\<lparr>al_level = posture_level p, al_message = ''degradation posture: '' @ posture_to_string p,
                    al_context = no_context\<rparr>]
             else []))"

lemma evaluate_loop_max: "evaluate_loop p active = Max (insert p (posture_for ` set active))"
proof (induction active arbitrary: p)
  case (Cons s active)
  have "(if severity (posture_for s) > severity p then posture_for s else p) = max p (posture_for s)"
    by (auto simp: max_def less_eq_posture_def)
  then have "evaluate_loop p (s # active) = Max (insert (max p (posture_for s)) (posture_for ` set active))"
    using Cons.IH by (simp add: Let_def)
  also have "\<dots> = Max (insert p (posture_for ` set (s # active)))"
    by (cases "set active = {}") (auto simp: max.assoc max.left_commute)
  finally show ?case .
qed simp

lemma evaluate_posture_ge: "p \<le> evaluate_posture active p" "s \<in> set active \<Longrightarrow> posture_for s \<le> evaluate_posture active p"
  by (simp_all add: evaluate_posture_def evaluate_loop_max)

lemma evaluate_posture_attained: "evaluate_posture active p \<in> insert p (posture_for ` set active)"
  unfolding evaluate_posture_def evaluate_loop_max by (rule Max_in) auto

lemma posture_for_not_Panic [simp]: "posture_for s \<noteq> Panic" "posture_for s \<noteq> NormalPosture"
  by (cases s; simp)+

lemma Panic_top [simp]: "p \<le> Panic" "Panic \<le> p \<longleftrightarrow> p = Panic"
  and Normal_bot [simp]: "NormalPosture \<le> p" "p \<le> NormalPosture \<longleftrightarrow> p = NormalPosture"
  by (cases p; simp add: less_eq_posture_def)+

lemma evaluate_posture_Normal: "evaluate_posture active p = NormalPosture \<longleftrightarrow> active = [] \<and> p = NormalPosture"
proof
  assume N: "evaluate_posture active p = NormalPosture"
  then have "p = NormalPosture" using evaluate_posture_ge(1) [of p active] by simp
  moreover have "active = []"
  proof (rule ccontr)
    assume "active \<noteq> []"
    then obtain s where "s \<in> set active" by (cases active) auto
    then show False using evaluate_posture_ge(2) [of s active p] N by simp
  qed
  ultimately show "active = [] \<and> p = NormalPosture" by simp
qed (simp add: evaluate_posture_def)

lemma evaluate_posture_Panic: "evaluate_posture active p = Panic \<longleftrightarrow> p = Panic"
  using evaluate_posture_attained [of active p] evaluate_posture_ge(1) [of p active]
  by (auto simp: image_iff) (metis posture_for_not_Panic(1))

text \<open>The coordinator resolves any mix of detector signals and operator floor to the most severe posture
  asked for, whatever their order; entries are open exactly when nothing is asked for at all; the exit
  gate closes only when the operator says so, however many detectors fire.\<close>

theorem severest_posture_wins:
  "evaluate_posture active p = Max (insert p (posture_for ` set active))
   \<and> (allows_entries (evaluate_posture active p) \<longleftrightarrow> active = [] \<and> p = NormalPosture)
   \<and> (allows_risk_reducing_exits (evaluate_posture active p) \<longleftrightarrow> p \<noteq> Panic)
   \<and> (require_entry_allowed (evaluate_posture active p) = Inr () \<longleftrightarrow> active = [] \<and> p = NormalPosture)"
proof -
  have "require_entry_allowed q = Inr () \<longleftrightarrow> q = NormalPosture" for q by (simp add: require_entry_allowed_def)
  moreover have "evaluate_posture active p = Max (insert p (posture_for ` set active))"
    by (simp add: evaluate_posture_def evaluate_loop_max)
  ultimately show ?thesis
    by (simp add: allows_entries_def allows_risk_reducing_exits_def evaluate_posture_Normal evaluate_posture_Panic
        flip: evaluate_loop_max evaluate_posture_def)
qed

section \<open>The kill switch\<close>

datatype kill_type = KillSoft | KillStrategy | KillBroker | KillAccount | KillPanic

record kill_command =
  kc_type :: kill_type
  kc_scope :: string

type_synonym kill_state = "kill_command list"

definition is_broad :: "kill_type \<Rightarrow> bool" where
  "is_broad t \<longleftrightarrow> t \<noteq> KillStrategy"

fun kill_type_to_string :: "kill_type \<Rightarrow> string" where
  "kill_type_to_string KillSoft = ''Soft''"
| "kill_type_to_string KillStrategy = ''Strategy''"
| "kill_type_to_string KillBroker = ''Broker''"
| "kill_type_to_string KillAccount = ''Account''"
| "kill_type_to_string KillPanic = ''Panic''"

definition kill_validate :: "kill_command \<Rightarrow> unit result" where
  "kill_validate cmd =
     (if kc_type cmd = KillStrategy \<and> kc_scope cmd = []
      then Inl (make_error Validation ''kill rejected: Strategy kill requires a scope'' [])
      else if (kc_type cmd = KillSoft \<or> kc_type cmd = KillPanic) \<and> kc_scope cmd \<noteq> []
      then Inl (make_error Validation (''kill rejected: '' @ kill_type_to_string (kc_type cmd)
                  @ '' kill must not carry a scope'') [])
      else Inr ())"

definition kill_apply :: "kill_command \<Rightarrow> kill_state \<Rightarrow> kill_state" where
  "kill_apply cmd active = (if cmd \<in> set active then active else active @ [cmd])"

definition panic_active :: "kill_state \<Rightarrow> bool" where
  "panic_active active \<longleftrightarrow> (\<exists>c \<in> set active. kc_type c = KillPanic)"

definition any_active :: "kill_state \<Rightarrow> bool" where
  "any_active active \<longleftrightarrow> active \<noteq> []"

definition blocks_entries :: "kill_state \<Rightarrow> bool" where
  "blocks_entries active = any_active active"

definition blocks_strategy :: "string \<Rightarrow> kill_state \<Rightarrow> bool" where
  "blocks_strategy strategy active \<longleftrightarrow> (\<exists>c \<in> set active. is_broad (kc_type c) \<or> kc_scope c = strategy)"

definition kill_allows_exits :: "kill_state \<Rightarrow> bool" where
  "kill_allows_exits active \<longleftrightarrow> \<not> panic_active active"

definition kill_posture :: "kill_state \<Rightarrow> posture" where
  "kill_posture active =
     (if panic_active active then Panic else if any_active active then SoftKill else NormalPosture)"

text \<open>\<open>authenticate\<close> and \<open>persist\<close> are the functions the controller is built with.\<close>

definition submit ::
    "(string \<Rightarrow> bool) \<Rightarrow> (kill_command \<Rightarrow> unit result) \<Rightarrow> kill_command \<Rightarrow> string \<Rightarrow> kill_command list
     \<Rightarrow> unit result \<times> kill_command list" where
  "submit authenticate persist cmd auth_token queue =
     (case kill_validate cmd of Inl e \<Rightarrow> (Inl e, queue) | Inr _ \<Rightarrow>
      if \<not> authenticate auth_token
      then (Inl (make_error Auth ''kill rejected: unauthenticated control command'' []), queue)
      else case persist cmd of Inl e \<Rightarrow> (Inl e, queue) | Inr _ \<Rightarrow> (Inr (), queue @ [cmd]))"

lemma submit_ok:
  "fst (submit authenticate persist cmd token q) = Inr () \<longleftrightarrow>
     kill_validate cmd = Inr () \<and> authenticate token \<and> persist cmd = Inr ()"
  by (auto simp: submit_def split: sum.splits)

lemma submit_queue:
  "snd (submit authenticate persist cmd token q) =
     (if fst (submit authenticate persist cmd token q) = Inr () then q @ [cmd] else q)"
  by (auto simp: submit_def split: sum.splits)

text \<open>The batch and the emptied queue.\<close>

definition drain :: "kill_command list \<Rightarrow> kill_command list \<times> kill_command list" where
  "drain queue = (queue, [])"

definition kill_replay :: "kill_command list result \<Rightarrow> kill_state \<Rightarrow> unit result \<times> kill_state" where
  "kill_replay loaded st =
     (case loaded of Inl e \<Rightarrow> (Inl e, st) | Inr cs \<Rightarrow> (Inr (), fold kill_apply cs st))"

lemma set_kill_apply [simp]: "set (kill_apply c active) = insert c (set active)"
  by (auto simp: kill_apply_def)

lemma set_fold_kill_apply: "set (fold kill_apply cs active) = set cs \<union> set active"
  by (induction cs arbitrary: active) auto

lemma distinct_fold_kill_apply: "distinct active \<Longrightarrow> distinct (fold kill_apply cs active)"
  by (induction cs arbitrary: active) (auto simp: kill_apply_def)

lemma kill_posture_active:
  "c \<in> set active \<Longrightarrow> kill_posture active = (if panic_active active then Panic else SoftKill)"
  by (auto simp: kill_posture_def any_active_def)

section \<open>The control plane and the main loop\<close>

text \<open>The process and what survives it: the flags, the hand-off queue, the journal, and the commands that
  were answered with success.\<close>

record kill_plane =
  kp_active :: kill_state
  kp_queue :: "kill_command list"
  kp_journal :: "kill_command list"
  kp_acked :: "kill_command set"

definition kill_boot :: kill_plane where
  "kill_boot = \<lparr>kp_active = [], kp_queue = [], kp_journal = [], kp_acked = {}\<rparr>"

text \<open>A step is a command submitted by the control thread, the loop draining the queue and applying the
  batch, or a crash at any point followed by a restart that replays the journal.  A journal write that
  reports success is durable; one that fails may or may not have reached the disk.\<close>

inductive kill_step :: "(string \<Rightarrow> bool) \<Rightarrow> kill_plane \<Rightarrow> kill_plane \<Rightarrow> bool" for authenticate where
  step_submit:
    "submit authenticate (\<lambda>_. written) cmd token (kp_queue s) = (r, q) \<Longrightarrow>
     j = (if kill_validate cmd = Inr () \<and> authenticate token \<and> (written = Inr () \<or> torn)
          then kp_journal s @ [cmd] else kp_journal s) \<Longrightarrow>
     kill_step authenticate s
       (s \<lparr>kp_queue := q, kp_journal := j, kp_acked := (if r = Inr () then insert cmd (kp_acked s) else kp_acked s)\<rparr>)"
| step_loop:
    "drain (kp_queue s) = (batch, q) \<Longrightarrow>
     kill_step authenticate s (s \<lparr>kp_active := fold kill_apply batch (kp_active s), kp_queue := q\<rparr>)"
| step_restart:
    "kill_replay (Inr (kp_journal s)) [] = (r, active) \<Longrightarrow>
     kill_step authenticate s (s \<lparr>kp_active := active, kp_queue := []\<rparr>)"

definition kill_inv :: "kill_plane \<Rightarrow> bool" where
  "kill_inv s \<longleftrightarrow> kp_acked s \<subseteq> set (kp_journal s) \<and> kp_acked s \<subseteq> set (kp_active s) \<union> set (kp_queue s)"

lemma kill_step_inv: "kill_step authenticate s t \<Longrightarrow> kill_inv s \<Longrightarrow> kill_inv t"
proof (induction rule: kill_step.induct)
  case (step_submit written cmd token s r q j torn)
  have "r = fst (submit authenticate (\<lambda>_. written) cmd token (kp_queue s))"
    "q = snd (submit authenticate (\<lambda>_. written) cmd token (kp_queue s))"
    using step_submit(1) by simp_all
  then have "r = Inr () \<longleftrightarrow> kill_validate cmd = Inr () \<and> authenticate token \<and> written = Inr ()"
    "q = (if r = Inr () then kp_queue s @ [cmd] else kp_queue s)"
    by (simp_all only: submit_ok submit_queue)
  then show ?case using step_submit(2,3) by (cases "r = Inr ()") (auto simp: kill_inv_def)
next
  case (step_loop s batch q)
  then show ?case by (auto simp: kill_inv_def drain_def set_fold_kill_apply)
next
  case (step_restart s r active)
  then show ?case by (auto simp: kill_inv_def kill_replay_def set_fold_kill_apply)
qed

lemma kill_reach_inv: "(kill_step authenticate)\<^sup>*\<^sup>* kill_boot s \<Longrightarrow> kill_inv s"
  by (induction rule: rtranclp_induct) (auto simp: kill_step_inv, simp add: kill_inv_def kill_boot_def)

text \<open>C24. A kill that was acknowledged stays in force.  Whatever commands are submitted, however the loop and
  the control thread interleave, and whenever the process crashes and restarts: once the loop has next
  drained the queue, every acknowledged kill blocks the strategies it names (all of them, unless it is
  a kill of one strategy), the coordinator blocks entries whatever the detectors say, and a panic kill
  closes the exit gate as well.\<close>

theorem acknowledged_kill_stays_in_force:
  assumes "(kill_step authenticate)\<^sup>*\<^sup>* kill_boot s" "c \<in> kp_acked s"
    and "active = fold kill_apply (fst (drain (kp_queue s))) (kp_active s)"
  shows "blocks_entries active
    \<and> (is_broad (kc_type c) \<or> kc_scope c = strategy \<longrightarrow> blocks_strategy strategy active)
    \<and> \<not> allows_entries (evaluate_posture signals (kill_posture active))
    \<and> (kc_type c = KillPanic \<longrightarrow> \<not> allows_risk_reducing_exits (evaluate_posture signals (kill_posture active)))"
proof (intro conjI impI)
  have c: "c \<in> set active" using kill_reach_inv [OF assms(1)] assms(2,3)
    by (auto simp: kill_inv_def drain_def set_fold_kill_apply)
  then show "blocks_entries active" by (auto simp: blocks_entries_def any_active_def)
  show "blocks_strategy strategy active" if "is_broad (kc_type c) \<or> kc_scope c = strategy"
    using c that by (auto simp: blocks_strategy_def)
  show "\<not> allows_entries (evaluate_posture signals (kill_posture active))"
    by (simp add: allows_entries_def evaluate_posture_Normal kill_posture_active [OF c])
  show "\<not> allows_risk_reducing_exits (evaluate_posture signals (kill_posture active))" if "kc_type c = KillPanic"
  proof -
    have "panic_active active" using c that by (auto simp: panic_active_def)
    then show ?thesis by (simp add: allows_risk_reducing_exits_def evaluate_posture_Panic kill_posture_def)
  qed
qed

theorem acknowledged_kill_stays_in_force_witness:
  "\<exists>s c. (kill_step (\<lambda>t. t = ''key''))\<^sup>*\<^sup>* kill_boot s \<and> c \<in> kp_acked s \<and> kc_type c = KillPanic
     \<and> \<not> allows_risk_reducing_exits (evaluate_posture [StaleData]
           (kill_posture (fold kill_apply (fst (drain (kp_queue s))) (kp_active s))))"
proof -
  let ?auth = "\<lambda>t. t = ''key''" and ?c = "\<lparr>kc_type = KillPanic, kc_scope = []\<rparr>"
  let ?s1 = "\<lparr>kp_active = [], kp_queue = [?c], kp_journal = [?c], kp_acked = {?c}\<rparr>"
  let ?s2 = "\<lparr>kp_active = [?c], kp_queue = [], kp_journal = [?c], kp_acked = {?c}\<rparr>"
  have "kill_step ?auth kill_boot
      (kill_boot \<lparr>kp_queue := [?c], kp_journal := [?c], kp_acked := (if Inr () = (Inr () :: unit result) then insert ?c (kp_acked kill_boot) else kp_acked kill_boot)\<rparr>)"
    by (rule step_submit [where written = "Inr ()" and token = "''key''" and torn = False])
       (simp_all add: submit_def kill_validate_def kill_boot_def)
  moreover have "kill_step ?auth ?s1 (?s1 \<lparr>kp_active := [?c], kp_queue := []\<rparr>)"
    by (rule step_restart [where r = "Inr ()"]) (simp add: kill_replay_def kill_apply_def)
  ultimately have R: "(kill_step ?auth)\<^sup>*\<^sup>* kill_boot ?s2"
    by (simp add: kill_boot_def)
  have "\<not> allows_risk_reducing_exits (evaluate_posture [StaleData]
           (kill_posture (fold kill_apply (fst (drain (kp_queue ?s2))) (kp_active ?s2))))"
    using acknowledged_kill_stays_in_force [OF R, of ?c _ "[]" "[StaleData]"] by simp
  then show ?thesis using R by (intro exI [of _ ?s2] exI [of _ ?c]) simp
qed

section \<open>Trading modes\<close>

datatype trading_mode = LiveMode | PaperMode | DryRunMode | ReplayMode | MonitorOnlyMode | ExitOnlyMode | EmergencyMode

datatype order_op = EntryOp | ExitOp | CancelOp | SquareOffOp

record mode_policy =
  mp_allows_entry :: bool
  mp_allows_exit :: bool
  mp_live_execution :: bool
  mp_read_only :: bool
  mp_replay_clock :: bool

definition make_policy :: "bool \<Rightarrow> bool \<Rightarrow> bool \<Rightarrow> bool \<Rightarrow> bool \<Rightarrow> mode_policy" where
  "make_policy entry exit live read_only replay =
     \<lparr>mp_allows_entry = entry, mp_allows_exit = exit, mp_live_execution = live,
      mp_read_only = read_only, mp_replay_clock = replay\<rparr>"

fun trading_mode_to_string :: "trading_mode \<Rightarrow> string" where
  "trading_mode_to_string LiveMode = ''live''"
| "trading_mode_to_string PaperMode = ''paper''"
| "trading_mode_to_string DryRunMode = ''dry_run''"
| "trading_mode_to_string ReplayMode = ''replay''"
| "trading_mode_to_string MonitorOnlyMode = ''monitor_only''"
| "trading_mode_to_string ExitOnlyMode = ''exit_only''"
| "trading_mode_to_string EmergencyMode = ''emergency''"

fun order_op_to_string :: "order_op \<Rightarrow> string" where
  "order_op_to_string EntryOp = ''entry''"
| "order_op_to_string ExitOp = ''exit''"
| "order_op_to_string CancelOp = ''cancel''"
| "order_op_to_string SquareOffOp = ''square_off''"

fun policy_for :: "trading_mode \<Rightarrow> mode_policy" where
  "policy_for LiveMode = make_policy True True True False False"
| "policy_for PaperMode = make_policy True True False False False"
| "policy_for DryRunMode = make_policy True True False False False"
| "policy_for ReplayMode = make_policy False False False True True"
| "policy_for MonitorOnlyMode = make_policy False False False True False"
| "policy_for ExitOnlyMode = make_policy False True True False False"
| "policy_for EmergencyMode = make_policy False True True False False"

definition can_place_entry :: "trading_mode \<Rightarrow> bool" where
  "can_place_entry m = mp_allows_entry (policy_for m)"

definition can_place_exit :: "trading_mode \<Rightarrow> bool" where
  "can_place_exit m = mp_allows_exit (policy_for m)"

definition will_execute_live :: "trading_mode \<Rightarrow> bool" where
  "will_execute_live m = mp_live_execution (policy_for m)"

definition uses_recorded_clock :: "trading_mode \<Rightarrow> bool" where
  "uses_recorded_clock m = mp_replay_clock (policy_for m)"

definition mode_blocked :: "error_category \<Rightarrow> trading_mode \<Rightarrow> order_op \<Rightarrow> string \<Rightarrow> error" where
  "mode_blocked category m op reason =
     (make_error category (''mode '' @ trading_mode_to_string m @ '': '' @ reason @ '' (''
        @ order_op_to_string op @ '' not allowed)'') []) \<lparr>err_action := DoNotRetry\<rparr>"

definition require_mode_op_allowed :: "trading_mode \<Rightarrow> order_op \<Rightarrow> unit result" where
  "require_mode_op_allowed m op =
     (if mp_read_only (policy_for m) then Inl (mode_blocked NotSupported m op ''is read-only'')
      else if m = EmergencyMode
      then (if op = CancelOp \<or> op = SquareOffOp then Inr ()
            else Inl (mode_blocked RiskRejected m op ''permits only cancel/square-off''))
      else if op = EntryOp \<and> \<not> mp_allows_entry (policy_for m)
      then Inl (mode_blocked NotSupported m op ''does not allow entries'')
      else Inr ())"

text \<open>What reaches a real broker: in every mode, an operation that is both allowed and executed live is
  one that removes risk, except in live trading.\<close>

lemma live_ops:
  "will_execute_live m \<and> require_mode_op_allowed m op = Inr () \<longleftrightarrow>
     m = LiveMode \<or> m = ExitOnlyMode \<and> op \<noteq> EntryOp \<or> m = EmergencyMode \<and> op \<in> {CancelOp, SquareOffOp}"
  by (cases m; cases op) (simp_all add: will_execute_live_def require_mode_op_allowed_def make_policy_def)

end
