(* ===== verification/Broker_Reason.thy ===== *)
theory Broker_Reason
  imports Errors Redaction
begin

text \<open>
  \<^verbatim>\<open>brokerreason/rejection_classifier.cpp\<close>, the versioned table that turns a broker's rejection text and
  order status into a reason and a retry posture, and \<^verbatim>\<open>sessionguard/session_guard.cpp\<close>, which asks that
  table whether the session died while the program was running.
\<close>

section \<open>Reasons and postures\<close>

definition kClassifierVersion :: int where
  "kClassifierVersion = 1"

datatype reject_reason = RMargin | RCircuitLimit | RFreezeQuantity | RIlliquid | RRmsBlock | RSessionExpired
  | RRateLimited | ROrderNotFound | RAlreadyComplete | RIndeterminate | RUnknown

datatype retry_posture = NeverRetry | ReconcileBeforeRetry | SafeToRetryReadOnly

record classification =
  cl_reason :: reject_reason
  cl_posture :: retry_posture
  cl_should_alert :: bool
  cl_canonical_detail :: string

fun reason_to_string :: "reject_reason \<Rightarrow> string" where
  "reason_to_string RMargin = ''margin''"
| "reason_to_string RCircuitLimit = ''circuit_limit''"
| "reason_to_string RFreezeQuantity = ''freeze_quantity''"
| "reason_to_string RIlliquid = ''illiquid''"
| "reason_to_string RRmsBlock = ''rms_block''"
| "reason_to_string RSessionExpired = ''session_expired''"
| "reason_to_string RRateLimited = ''rate_limited''"
| "reason_to_string ROrderNotFound = ''order_not_found''"
| "reason_to_string RAlreadyComplete = ''already_complete''"
| "reason_to_string RIndeterminate = ''indeterminate''"
| "reason_to_string RUnknown = ''unknown''"

fun retry_posture_to_string :: "retry_posture \<Rightarrow> string" where
  "retry_posture_to_string NeverRetry = ''do_not_retry''"
| "retry_posture_to_string ReconcileBeforeRetry = ''reconcile_first''"
| "retry_posture_to_string SafeToRetryReadOnly = ''safe_to_retry_read_only''"

fun to_suggested_action :: "retry_posture \<Rightarrow> suggested_action" where
  "to_suggested_action NeverRetry = DoNotRetry"
| "to_suggested_action ReconcileBeforeRetry = ReconcileFirst"
| "to_suggested_action SafeToRetryReadOnly = RetrySafe"

fun rule_for :: "reject_reason \<Rightarrow> retry_posture \<times> bool" where
  "rule_for RMargin = (NeverRetry, True)"
| "rule_for RCircuitLimit = (NeverRetry, True)"
| "rule_for RFreezeQuantity = (NeverRetry, True)"
| "rule_for RIlliquid = (NeverRetry, True)"
| "rule_for RRmsBlock = (NeverRetry, True)"
| "rule_for RSessionExpired = (ReconcileBeforeRetry, True)"
| "rule_for RRateLimited = (SafeToRetryReadOnly, False)"
| "rule_for ROrderNotFound = (ReconcileBeforeRetry, True)"
| "rule_for RAlreadyComplete = (ReconcileBeforeRetry, False)"
| "rule_for RIndeterminate = (ReconcileBeforeRetry, True)"
| "rule_for RUnknown = (NeverRetry, True)"

definition classifier_detail :: "reject_reason \<Rightarrow> retry_posture \<Rightarrow> string" where
  "classifier_detail reason posture =
     scrub (''rejection classified as '' @ [CHR 0x27] @ reason_to_string reason @ [CHR 0x27]
            @ ''; retry posture '' @ [CHR 0x27] @ retry_posture_to_string posture @ [CHR 0x27]
            @ '' (classifier v'' @ show_int kClassifierVersion @ '')'')"

definition make_classification :: "reject_reason \<Rightarrow> retry_posture \<Rightarrow> bool \<Rightarrow> classification" where
  "make_classification reason posture should_alert =
     \<lparr>cl_reason = reason, cl_posture = posture, cl_should_alert = should_alert,
      cl_canonical_detail = classifier_detail reason posture\<rparr>"

definition classified :: "reject_reason \<Rightarrow> classification" where
  "classified reason = (case rule_for reason of (posture, should_alert) \<Rightarrow> make_classification reason posture should_alert)"

section \<open>The table\<close>

definition lower_ascii :: "string \<Rightarrow> string" where
  "lower_ascii s = map to_lower_ascii s"

definition trim_ws :: "string \<Rightarrow> string" where
  "trim_ws s = rev (dropWhile is_space_char (rev (dropWhile is_space_char s)))"

definition contains_any :: "string \<Rightarrow> string list \<Rightarrow> bool" where
  "contains_any m needles = list_ex (\<lambda>n. contains_text n m) needles"

definition classify_rejection :: "string \<Rightarrow> classification" where
  "classify_rejection raw_message =
     (if trim_ws raw_message = [] then classified RUnknown
      else
        let m = lower_ascii raw_message in
        if contains_any m [''margin'', ''insufficient funds'', ''insufficient balance'', ''rms:margin'']
        then classified RMargin
        else if contains_any m [''circuit'', ''price out of'', ''lpp'', ''dpr'', ''out of range'', ''outside the daily price'']
        then classified RCircuitLimit
        else if contains_any m [''freeze'', ''quantity higher than maximum'', ''max allowed qty'', ''maximum allowed'', ''exceeds the maximum'']
        then classified RFreezeQuantity
        else if contains_any m [''no trades in this instrument'', ''illiquid'', ''no liquidity'', ''no trades'']
        then classified RIlliquid
        else if contains_any m [''access_token'', ''api_key'', ''token'', ''session'', ''unauthorized'', ''401'']
        then classified RSessionExpired
        else if contains_any m [''too many requests'', ''rate limit'', ''rate-limit'', ''ratelimit'', ''throttle'',
            ''429 too many'', ''http 429'', ''status 429'', ''error 429'', ''code 429'', ''(429)'']
        then classified RRateLimited
        else if contains_text ''already'' m
              \<and> contains_any m [''complete'', ''executed'', ''cancelled'', ''canceled'', ''filled'', ''traded'']
        then classified RAlreadyComplete
        else if contains_any m [''order not found'', ''invalid order'', ''unknown order'', ''order does not exist'', ''no such order'']
        then classified ROrderNotFound
        else if contains_any m [''timeout'', ''timed out'', ''no response from oms'', ''no response'', ''kt-oms'', ''gateway timeout'', ''502'', ''503'', ''504'']
        then classified RIndeterminate
        else if contains_any m [''rms'', ''blocked'', ''block'', ''not allowed to trade'']
        then classified RRmsBlock
        else classified RUnknown)"

definition classify_status :: "string \<Rightarrow> classification" where
  "classify_status raw_status =
     (let s = lower_ascii (trim_ws raw_status) in
      if s = ''complete'' \<or> s = ''completed'' then make_classification RAlreadyComplete ReconcileBeforeRetry False
      else if s = ''cancelled'' \<or> s = ''canceled'' then make_classification RAlreadyComplete ReconcileBeforeRetry False
      else if s = ''rejected'' then make_classification RUnknown NeverRetry True
      else if s \<in> set [''open'', ''open pending'', ''trigger pending'', ''update'', ''modify pending'',
                  ''validation pending'', ''put order req received'', ''amo req received'',
                  ''after market order req received'']
      then make_classification RIndeterminate ReconcileBeforeRetry False
      else make_classification RIndeterminate ReconcileBeforeRetry True)"

section \<open>What a classification may say\<close>

lemma classified_sel [simp]:
  "cl_reason (classified r) = r" "cl_posture (classified r) = fst (rule_for r)"
  "cl_should_alert (classified r) = snd (rule_for r)"
  "cl_canonical_detail (classified r) = classifier_detail r (fst (rule_for r))"
  by (simp_all add: classified_def make_classification_def split: prod.splits)

lemma rule_for_safe: "fst (rule_for r) = SafeToRetryReadOnly \<longleftrightarrow> r = RRateLimited"
  by (cases r) auto

lemma classified_if:
  "\<exists>r. x = classified r \<Longrightarrow> \<exists>r. y = classified r \<Longrightarrow> \<exists>r. (if c then x else y) = classified r"
  by simp

lemma classify_rejection_classified: "classify_rejection raw = classified (cl_reason (classify_rejection raw))"
proof -
  have "\<exists>r. classify_rejection raw = classified r" unfolding classify_rejection_def Let_def
    by (intro classified_if) (rule exI, rule refl)+
  then show ?thesis by auto
qed

text \<open>A text says a phrase when the phrase occurs in it, whatever the case of the text's letters.\<close>

definition says :: "string \<Rightarrow> string list \<Rightarrow> bool" where
  "says raw phrases \<longleftrightarrow> (\<exists>p \<in> set phrases. \<exists>before after. map to_lower_ascii raw = before @ p @ after)"

lemma says_contains: "says raw ps \<longleftrightarrow> contains_any (lower_ascii raw) ps"
  by (simp add: says_def contains_any_def list_ex_iff contains_text_iff lower_ascii_def)

lemma blank_spaces: "trim_ws raw = [] \<Longrightarrow> list_all is_space_char raw"
proof -
  assume "trim_ws raw = []"
  then have "\<forall>c \<in> set (dropWhile is_space_char raw). is_space_char c"
    by (simp add: trim_ws_def dropWhile_eq_Nil_conv)
  then have "dropWhile is_space_char raw = []" using hd_dropWhile [of is_space_char raw] list.set_sel(1) by blast
  then show ?thesis by (simp add: dropWhile_eq_Nil_conv list_all_iff)
qed

lemma lower_space: "is_space_char c \<Longrightarrow> to_lower_ascii c = c"
  by (auto simp: is_space_char_def to_lower_ascii_def)

text \<open>A blank text says nothing.\<close>

lemma blank_says:
  assumes "trim_ws raw = []" "list_all (\<lambda>p. p \<noteq> [] \<and> \<not> is_space_char (hd p)) ps" shows "\<not> says raw ps"
proof
  assume "says raw ps"
  then obtain p x y where p: "p \<in> set ps" "map to_lower_ascii raw = x @ p @ y" unfolding says_def by blast
  have "map to_lower_ascii raw = raw" using blank_spaces [OF assms(1)] lower_space
    by (auto simp: list_all_iff intro: map_idI)
  then have "hd p \<in> set raw" using p assms(2) by (cases p) (auto simp: list_all_iff)
  then show False using p(1) assms(2) blank_spaces [OF assms(1)] by (auto simp: list_all_iff)
qed

lemma classify_rejection_says:
  "trim_ws raw \<noteq> [] \<Longrightarrow> cl_reason (classify_rejection raw) =
     (if says raw [''margin'', ''insufficient funds'', ''insufficient balance'', ''rms:margin''] then RMargin
      else if says raw [''circuit'', ''price out of'', ''lpp'', ''dpr'', ''out of range'', ''outside the daily price''] then RCircuitLimit
      else if says raw [''freeze'', ''quantity higher than maximum'', ''max allowed qty'', ''maximum allowed'', ''exceeds the maximum''] then RFreezeQuantity
      else if says raw [''no trades in this instrument'', ''illiquid'', ''no liquidity'', ''no trades''] then RIlliquid
      else if says raw [''access_token'', ''api_key'', ''token'', ''session'', ''unauthorized'', ''401''] then RSessionExpired
      else if says raw [''too many requests'', ''rate limit'', ''rate-limit'', ''ratelimit'', ''throttle'',
        ''429 too many'', ''http 429'', ''status 429'', ''error 429'', ''code 429'', ''(429)''] then RRateLimited
      else if says raw [''already''] \<and> says raw [''complete'', ''executed'', ''cancelled'', ''canceled'', ''filled'', ''traded''] then RAlreadyComplete
      else if says raw [''order not found'', ''invalid order'', ''unknown order'', ''order does not exist'', ''no such order''] then ROrderNotFound
      else if says raw [''timeout'', ''timed out'', ''no response from oms'', ''no response'', ''kt-oms'',
        ''gateway timeout'', ''502'', ''503'', ''504''] then RIndeterminate
      else if says raw [''rms'', ''blocked'', ''block'', ''not allowed to trade''] then RRmsBlock
      else RUnknown)"
proof -
  have "contains_text ''already'' m \<longleftrightarrow> contains_any m [''already'']" for m by (simp add: contains_any_def)
  then show "trim_ws raw \<noteq> [] \<Longrightarrow> ?thesis"
    by (simp only: says_contains classify_rejection_def Let_def if_False classified_sel(1) if_distrib [of cl_reason])
qed

lemma posture_of_reason:
  "cl_posture (classify_rejection raw) = fst (rule_for (cl_reason (classify_rejection raw)))"
  "cl_should_alert (classify_rejection raw) = snd (rule_for (cl_reason (classify_rejection raw)))"
  by (metis classify_rejection_classified classified_sel(2), metis classify_rejection_classified classified_sel(3))

lemma rule_for_quiet: "snd (rule_for r) \<longleftrightarrow> r \<noteq> RRateLimited \<and> r \<noteq> RAlreadyComplete"
  by (cases r) auto

lemma blank_reason: "trim_ws raw = [] \<Longrightarrow> cl_reason (classify_rejection raw) = RUnknown"
  by (simp add: classify_rejection_def)

text \<open>The rules in their order, over any ten tests.\<close>

lemma first_rule:
  assumes "r = (if m then RMargin else if c then RCircuitLimit else if f then RFreezeQuantity else if i then RIlliquid
     else if s then RSessionExpired else if l then RRateLimited else if a \<and> d then RAlreadyComplete
     else if n then ROrderNotFound else if t then RIndeterminate else if b then RRmsBlock else RUnknown)"
  shows "(r = RRateLimited \<longleftrightarrow> l \<and> \<not> m \<and> \<not> c \<and> \<not> f \<and> \<not> i \<and> \<not> s)"
    "\<not> m \<and> \<not> c \<and> \<not> f \<and> \<not> i \<and> \<not> s \<and> \<not> l \<and> \<not> (a \<and> d) \<and> \<not> n \<and> \<not> t \<and> \<not> b \<Longrightarrow> r = RUnknown"
    "r = RRateLimited \<or> r = RAlreadyComplete \<Longrightarrow> l \<or> (a \<and> d)"
  using assms by (simp_all split: if_splits)

text \<open>C25. The classifier is fail-closed, with its phrases spelled out.  A rejection is called safe to retry
  exactly when it says one of eleven anchored rate-limit phrases (a bare 429 is none of them) and
  none of the margin, circuit, freeze, illiquid and session phrases that are tested before; a text
  that says none of the phrases of any rule, and so an empty or blank one, is answered do-not-retry
  with an alert; the alert is left out only for a rate limit or an order that is already done.  A status
  is never answered with a retry, and one that is not among the fourteen known ones is answered
  reconcile-first with an alert.  And whatever the broker wrote, the detail that is logged is one
  of eleven fixed sentences: nothing of the broker's text is in it.\<close>

theorem rejection_classifier_fail_closed:
  "(cl_posture (classify_rejection raw) = SafeToRetryReadOnly \<longleftrightarrow>
      says raw [''too many requests'', ''rate limit'', ''rate-limit'', ''ratelimit'', ''throttle'',
        ''429 too many'', ''http 429'', ''status 429'', ''error 429'', ''code 429'', ''(429)'']
       \<and> \<not> says raw [''margin'', ''insufficient funds'', ''insufficient balance'', ''rms:margin'']
       \<and> \<not> says raw [''circuit'', ''price out of'', ''lpp'', ''dpr'', ''out of range'', ''outside the daily price'']
       \<and> \<not> says raw [''freeze'', ''quantity higher than maximum'', ''max allowed qty'', ''maximum allowed'', ''exceeds the maximum'']
       \<and> \<not> says raw [''no trades in this instrument'', ''illiquid'', ''no liquidity'', ''no trades'']
       \<and> \<not> says raw [''access_token'', ''api_key'', ''token'', ''session'', ''unauthorized'', ''401''])
   \<and> (\<not> says raw [''margin'', ''insufficient funds'', ''insufficient balance'', ''rms:margin'']
       \<and> \<not> says raw [''circuit'', ''price out of'', ''lpp'', ''dpr'', ''out of range'', ''outside the daily price'']
       \<and> \<not> says raw [''freeze'', ''quantity higher than maximum'', ''max allowed qty'', ''maximum allowed'', ''exceeds the maximum'']
       \<and> \<not> says raw [''no trades in this instrument'', ''illiquid'', ''no liquidity'', ''no trades'']
       \<and> \<not> says raw [''access_token'', ''api_key'', ''token'', ''session'', ''unauthorized'', ''401'']
       \<and> \<not> says raw [''too many requests'', ''rate limit'', ''rate-limit'', ''ratelimit'', ''throttle'',
        ''429 too many'', ''http 429'', ''status 429'', ''error 429'', ''code 429'', ''(429)'']
       \<and> \<not> (says raw [''already''] \<and> says raw [''complete'', ''executed'', ''cancelled'', ''canceled'', ''filled'', ''traded''])
       \<and> \<not> says raw [''order not found'', ''invalid order'', ''unknown order'', ''order does not exist'', ''no such order'']
       \<and> \<not> says raw [''timeout'', ''timed out'', ''no response from oms'', ''no response'', ''kt-oms'',
        ''gateway timeout'', ''502'', ''503'', ''504'']
       \<and> \<not> says raw [''rms'', ''blocked'', ''block'', ''not allowed to trade'']
      \<or> trim_ws raw = []
      \<longrightarrow> cl_reason (classify_rejection raw) = RUnknown \<and> cl_posture (classify_rejection raw) = NeverRetry
        \<and> cl_should_alert (classify_rejection raw))
   \<and> (\<not> cl_should_alert (classify_rejection raw) \<longrightarrow>
      says raw [''too many requests'', ''rate limit'', ''rate-limit'', ''ratelimit'', ''throttle'',
        ''429 too many'', ''http 429'', ''status 429'', ''error 429'', ''code 429'', ''(429)'']
       \<or> (says raw [''already''] \<and> says raw [''complete'', ''executed'', ''cancelled'', ''canceled'', ''filled'', ''traded'']))
   \<and> cl_posture (classify_status raw) \<noteq> SafeToRetryReadOnly
   \<and> (map to_lower_ascii (trim_ws raw) \<notin> set [''complete'', ''completed'', ''cancelled'', ''canceled'', ''rejected'', ''open'', ''open pending'',
        ''trigger pending'', ''update'', ''modify pending'', ''validation pending'', ''put order req received'',
        ''amo req received'', ''after market order req received'']
      \<longrightarrow> cl_reason (classify_status raw) = RIndeterminate \<and> cl_posture (classify_status raw) = ReconcileBeforeRetry
        \<and> cl_should_alert (classify_status raw))
   \<and> (\<exists>r. cl_canonical_detail (classify_rejection raw) = classifier_detail r (fst (rule_for r)))"
  (is "(?posture = _ \<longleftrightarrow> ?anchored) \<and> (?nothing \<longrightarrow> ?known) \<and> (_ \<longrightarrow> ?silent) \<and> ?never \<and> ?status \<and> ?detail")
proof -
  note rules = posture_of_reason rule_for_safe rule_for_quiet
  have blank: "\<not> says raw [''too many requests'', ''rate limit'', ''rate-limit'', ''ratelimit'', ''throttle'',
        ''429 too many'', ''http 429'', ''status 429'', ''error 429'', ''code 429'', ''(429)'']" if "trim_ws raw = []"
    using blank_says [OF that] by (simp add: is_space_char_def)
  have never: ?never by (simp add: classify_status_def Let_def make_classification_def)
  have status: ?status by (simp add: classify_status_def lower_ascii_def Let_def make_classification_def)
  have detail: ?detail by (metis classified_sel(4) classify_rejection_classified)
  let ?r = "cl_reason (classify_rejection raw)"
  note first = first_rule [OF classify_rejection_says]
  have "(?r = RRateLimited) = ?anchored"
  proof (cases "trim_ws raw = []")
    case True
    then have "?r \<noteq> RRateLimited" using blank_reason by simp
    then show ?thesis using blank [OF True] by blast
  next
    case False
    then show ?thesis by (rule first(1))
  qed
  then have safe: "?posture = SafeToRetryReadOnly \<longleftrightarrow> ?anchored" unfolding rules .
  have known: "?r = RUnknown" if ?nothing
  proof (cases "trim_ws raw = []")
    case True
    then show ?thesis by (rule blank_reason)
  next
    case False
    then show ?thesis using first(2) [OF False] that by blast
  qed
  have unknown: "?nothing \<longrightarrow> ?known"
    unfolding posture_of_reason by (rule impI, drule known, simp only: rule_for.simps fst_conv snd_conv simp_thms)
  have quiet: "\<not> cl_should_alert (classify_rejection raw) \<longrightarrow> ?silent"
  proof (rule impI)
    assume "\<not> cl_should_alert (classify_rejection raw)"
    then have r: "?r = RRateLimited \<or> ?r = RAlreadyComplete" unfolding rules by blast
    show ?silent
    proof (cases "trim_ws raw = []")
      case True
      then show ?thesis using r blank_reason by fastforce
    next
      case False
      then show ?thesis by (rule first(3) [OF _ r])
    qed
  qed
  show ?thesis using safe unknown quiet never status detail by (intro conjI)
qed

text \<open>The witness: an anchored 429 is safe to retry, the same digits inside a reference are not and alert.\<close>

theorem rejection_classifier_fail_closed_witness:
  "cl_posture (classify_rejection ''HTTP 429'') = SafeToRetryReadOnly
   \<and> cl_posture (classify_rejection ''order rejected, ref 980429117'') = NeverRetry
   \<and> cl_should_alert (classify_rejection ''order rejected, ref 980429117'')
   \<and> cl_reason (classify_status ''LOST'') = RIndeterminate \<and> cl_should_alert (classify_status ''LOST'')"
proof -
  have a: "cl_posture (classify_rejection ''HTTP 429'') = SafeToRetryReadOnly" by code_simp
  have b: "cl_reason (classify_rejection ''order rejected, ref 980429117'') = RUnknown" by code_simp
  have c: "map to_lower_ascii (trim_ws ''LOST'') \<notin> set [''complete'', ''completed'', ''cancelled'', ''canceled'', ''rejected'', ''open'', ''open pending'',
        ''trigger pending'', ''update'', ''modify pending'', ''validation pending'', ''put order req received'',
        ''amo req received'', ''after market order req received'']"
    by code_simp
  have d: "cl_reason (classify_status ''LOST'') = RIndeterminate \<and> cl_should_alert (classify_status ''LOST'')"
    using rejection_classifier_fail_closed [of "''LOST''"] c by (elim conjE) blast
  show ?thesis using a d by (simp add: posture_of_reason b)
qed

section \<open>The session guard\<close>

datatype session_state = Healthy | NeedsReauth | SessionFailed

datatype op_class = EntryClass | ExitClass | ReconcileRead

record session_posture =
  sp_state :: session_state
  sp_freeze_entries :: bool
  sp_allow_exits :: bool
  sp_allow_reconcile_reads :: bool
  sp_alert :: bool
  sp_detail :: string

fun session_state_to_string :: "session_state \<Rightarrow> string" where
  "session_state_to_string Healthy = ''Healthy''"
| "session_state_to_string NeedsReauth = ''NeedsReauth''"
| "session_state_to_string SessionFailed = ''Failed''"

fun op_class_to_string :: "op_class \<Rightarrow> string" where
  "op_class_to_string EntryClass = ''entry''"
| "op_class_to_string ExitClass = ''exit''"
| "op_class_to_string ReconcileRead = ''reconcile_read''"

definition session_detail :: "session_state \<Rightarrow> string" where
  "session_detail st = scrub (''session posture '' @ [CHR 0x27] @ session_state_to_string st @ [CHR 0x27])"

fun session_posture_for :: "session_state \<Rightarrow> session_posture" where
  "session_posture_for Healthy = \<lparr>sp_state = Healthy, sp_freeze_entries = False, sp_allow_exits = True,
     sp_allow_reconcile_reads = True, sp_alert = False, sp_detail = session_detail Healthy\<rparr>"
| "session_posture_for NeedsReauth = \<lparr>sp_state = NeedsReauth, sp_freeze_entries = True, sp_allow_exits = True,
     sp_allow_reconcile_reads = True, sp_alert = True, sp_detail = session_detail NeedsReauth\<rparr>"
| "session_posture_for SessionFailed = \<lparr>sp_state = SessionFailed, sp_freeze_entries = True, sp_allow_exits = True,
     sp_allow_reconcile_reads = True, sp_alert = True, sp_detail = session_detail SessionFailed\<rparr>"

definition frozen_entry_error :: "op_class \<Rightarrow> error" where
  "frozen_entry_error op =
     (make_error SessionExpired (''sessionguard: entries frozen; operator must re-establish session (''
        @ op_class_to_string op @ '' not allowed)'') []) \<lparr>err_action := ReEstablishSession\<rparr>"

definition assess_session :: "session_state \<Rightarrow> string \<Rightarrow> session_posture" where
  "assess_session current broker_error_text =
     (let c = classify_rejection broker_error_text;
          effective = (if cl_reason c = RSessionExpired then NeedsReauth else current)
      in session_posture_for effective)"

definition require_session_op_allowed :: "session_posture \<Rightarrow> op_class \<Rightarrow> unit result" where
  "require_session_op_allowed posture op =
     (if op = ExitClass \<or> op = ReconcileRead then Inr ()
      else if sp_freeze_entries posture \<or> sp_state posture \<noteq> Healthy then Inl (frozen_entry_error op)
      else Inr ())"

definition is_reauth_needed :: "session_posture \<Rightarrow> bool" where
  "is_reauth_needed posture \<longleftrightarrow> sp_state posture = NeedsReauth"

lemma session_posture_for_sel [simp]:
  "sp_state (session_posture_for st) = st" "sp_freeze_entries (session_posture_for st) = (st \<noteq> Healthy)"
  "sp_alert (session_posture_for st) = (st \<noteq> Healthy)"
  by (cases st; simp)+

lemma session_entry_allowed:
  "require_session_op_allowed (assess_session st err) EntryClass = Inr () \<longleftrightarrow>
     st = Healthy \<and> cl_reason (classify_rejection err) \<noteq> RSessionExpired"
  by (auto simp: require_session_op_allowed_def assess_session_def Let_def)

lemma session_exit_allowed [simp]:
  "require_session_op_allowed p ExitClass = Inr ()" "require_session_op_allowed p ReconcileRead = Inr ()"
  by (simp_all add: require_session_op_allowed_def)

text \<open>The table anchors the code 429, because digits of an order number may contain it, but not 401: a
  hard rejection whose reference holds those digits is read as an expired session, and the guard then
  freezes entries of a healthy session until the operator re-establishes it.\<close>

theorem bare_401_freezes_entries:
  "cl_reason (classify_rejection ''order rejected, ref 980429117'') = RUnknown
   \<and> cl_reason (classify_rejection ''order rejected, ref 980401117'') = RSessionExpired
   \<and> require_session_op_allowed (assess_session Healthy ''order rejected, ref 980401117'') EntryClass
       = Inl (frozen_entry_error EntryClass)"
proof -
  have a: "cl_reason (classify_rejection ''order rejected, ref 980429117'') = RUnknown" by code_simp
  have b: "cl_reason (classify_rejection ''order rejected, ref 980401117'') = RSessionExpired" by code_simp
  show ?thesis using a b by (simp add: require_session_op_allowed_def assess_session_def Let_def)
qed

end
