(* ===== verification/Price_Band.thy ===== *)
theory Price_Band
  imports Ports
begin

text \<open>
  The circuit band, where it meets an order: \<^verbatim>\<open>priceband/band_check.cpp\<close>, which blocks an entry priced
  outside the band and clamps an exit, and \<^verbatim>\<open>protection/stop_supervisor.cpp\<close>, which re-arms a protective
  exit whose trigger was crossed while the position is still open.  The two structures \<^verbatim>\<open>PriceBand\<close> of the
  source have the same members (a lower and an upper edge and whether they are known); one record
  stands for both.
\<close>

section \<open>The band check\<close>

datatype band_verdict = WithinBand | OutsideBandBlocked | OutsideBandExitClamped | MarketUnchecked | BandUnknown

record price_band =
  pb_lower :: money
  pb_upper :: money
  pb_known :: bool

record band_check_result =
  br_verdict :: band_verdict
  br_blocked :: bool
  br_suggested_limit :: money
  br_has_suggestion :: bool
  br_suggested_trigger :: money
  br_has_trigger_suggestion :: bool
  br_detail :: string

fun band_verdict_to_string :: "band_verdict \<Rightarrow> string" where
  "band_verdict_to_string WithinBand = ''within_band''"
| "band_verdict_to_string OutsideBandBlocked = ''outside_band_blocked''"
| "band_verdict_to_string OutsideBandExitClamped = ''outside_band_exit_clamped''"
| "band_verdict_to_string MarketUnchecked = ''market_unchecked''"
| "band_verdict_to_string BandUnknown = ''band_unknown''"

definition clamp :: "money \<Rightarrow> money \<Rightarrow> money \<Rightarrow> money" where
  "clamp p lower upper = (if p < lower then lower else if p > upper then upper else p)"

definition in_band :: "money \<Rightarrow> price_band \<Rightarrow> bool" where
  "in_band p band \<longleftrightarrow> pb_lower band \<le> p \<and> p \<le> pb_upper band"

definition has_limit_to_check :: "order_type \<Rightarrow> bool" where
  "has_limit_to_check t \<longleftrightarrow> t = Limit \<or> t = StopLoss"

definition has_trigger_to_check :: "order_type \<Rightarrow> bool" where
  "has_trigger_to_check t \<longleftrightarrow> t = StopLoss \<or> t = StopLossMarket"

definition band_result :: "band_verdict \<Rightarrow> bool \<Rightarrow> string \<Rightarrow> band_check_result" where
  "band_result v blocked detail =
     \<lparr>br_verdict = v, br_blocked = blocked, br_suggested_limit = Money 0, br_has_suggestion = False,
      br_suggested_trigger = Money 0, br_has_trigger_suggestion = False, br_detail = detail\<rparr>"

definition band_usable :: "price_band \<Rightarrow> bool" where
  "band_usable band \<longleftrightarrow> pb_known band \<and> pb_lower band \<le> pb_upper band"

definition check_price_band_at ::
    "order_type \<Rightarrow> money \<Rightarrow> money \<Rightarrow> price_band \<Rightarrow> bool \<Rightarrow> band_check_result" where
  "check_price_band_at t limit_price trigger_price band is_exit =
     (if \<not> band_usable band
      then band_result BandUnknown False (''band unavailable '' @ em_dash @ '' price not validated'')
      else
        let check_limit = has_limit_to_check t; check_trigger = has_trigger_to_check t in
        if \<not> check_limit \<and> \<not> check_trigger
        then band_result MarketUnchecked False (''market order '' @ em_dash @ '' band not price-enforceable'')
        else
          let limit_in = (\<not> check_limit \<or> in_band limit_price band);
              trigger_in = (\<not> check_trigger \<or> in_band trigger_price band)
          in if limit_in \<and> trigger_in
             then band_result WithinBand False ''within circuit/LPP band''
             else
               let r = (if is_exit
                        then band_result OutsideBandExitClamped False (''exit priced outside band '' @ em_dash
                               @ '' clamped to band edge so it is not rejected'')
                        else band_result OutsideBandBlocked True (''entry priced outside circuit/LPP band '' @ em_dash
                               @ '' blocked pre-submission (would be exchange-rejected)''));
                   r = (if check_limit
                        then r \<lparr>br_suggested_limit := clamp limit_price (pb_lower band) (pb_upper band), br_has_suggestion := True\<rparr>
                        else r)
               in (if check_trigger
                   then r \<lparr>br_suggested_trigger := clamp trigger_price (pb_lower band) (pb_upper band), br_has_trigger_suggestion := True\<rparr>
                   else r))"

definition as_money :: "price \<Rightarrow> money" where
  "as_money p = Money (price_paise p)"

definition intent_trigger :: "order_intent \<Rightarrow> price" where
  "intent_trigger i = (case oi_trigger_price i of Some p \<Rightarrow> p | None \<Rightarrow> Price 0)"

definition check_price_band :: "order_intent \<Rightarrow> price_band \<Rightarrow> bool \<Rightarrow> band_check_result" where
  "check_price_band i band is_exit =
     check_price_band_at (oi_order_type i) (as_money (oi_price i)) (as_money (intent_trigger i)) band is_exit"

definition require_band_ok_at ::
    "side \<Rightarrow> order_type \<Rightarrow> money \<Rightarrow> money \<Rightarrow> price_band \<Rightarrow> bool \<Rightarrow> unit result" where
  "require_band_ok_at s t limit_price trigger_price band is_exit =
     (let r = check_price_band_at t limit_price trigger_price band is_exit
      in if \<not> br_blocked r then Inr ()
         else Inl ((make_error Validation (''price band: '' @ band_verdict_to_string (br_verdict r) @ '' (''
                      @ side_to_string s @ '') '' @ em_dash @ '' entry outside circuit/LPP band'') [])
                   \<lparr>err_action := BlockStrategy\<rparr>))"

definition require_band_ok :: "order_intent \<Rightarrow> price_band \<Rightarrow> bool \<Rightarrow> unit result" where
  "require_band_ok i band is_exit =
     require_band_ok_at (oi_side i) (oi_order_type i) (as_money (oi_price i)) (as_money (intent_trigger i)) band is_exit"

section \<open>Blocking and clamping\<close>

text \<open>Every price the order's type uses lies in the band.\<close>

definition prices_in_band :: "order_intent \<Rightarrow> price_band \<Rightarrow> bool" where
  "prices_in_band i band \<longleftrightarrow>
     (has_limit_to_check (oi_order_type i) \<longrightarrow> in_band (as_money (oi_price i)) band)
     \<and> (has_trigger_to_check (oi_order_type i) \<longrightarrow> in_band (as_money (intent_trigger i)) band)"

lemma clamp_in_band: "band_usable band \<Longrightarrow> in_band (clamp p (pb_lower band) (pb_upper band)) band"
  by (auto simp: clamp_def in_band_def band_usable_def)

lemma clamp_mono: "lower \<le> upper \<Longrightarrow> p \<le> q \<Longrightarrow> clamp p lower upper \<le> clamp q lower upper"
  by (auto simp: clamp_def)

lemma clamp_id: "in_band p band \<Longrightarrow> clamp p (pb_lower band) (pb_upper band) = p"
  by (auto simp: clamp_def in_band_def)

lemma band_result_sel [simp]:
  "br_verdict (band_result v b d) = v" "br_blocked (band_result v b d) = b" "br_detail (band_result v b d) = d"
  "br_has_suggestion (band_result v b d) = False" "br_has_trigger_suggestion (band_result v b d) = False"
  by (simp_all add: band_result_def)

lemma band_blocked_iff:
  "br_blocked (check_price_band i band is_exit) \<longleftrightarrow> \<not> is_exit \<and> band_usable band \<and> \<not> prices_in_band i band"
  by (auto simp: check_price_band_def check_price_band_at_def prices_in_band_def Let_def)

lemma band_unknown_iff: "br_verdict (check_price_band i band is_exit) = BandUnknown \<longleftrightarrow> \<not> band_usable band"
  by (auto simp: check_price_band_def check_price_band_at_def Let_def)

lemma require_band_ok_iff: "require_band_ok i band is_exit = Inr () \<longleftrightarrow> \<not> br_blocked (check_price_band i band is_exit)"
  by (simp add: require_band_ok_def require_band_ok_at_def check_price_band_def Let_def)

lemma band_suggestions:
  "br_has_suggestion (check_price_band i band is_exit) \<longleftrightarrow>
     band_usable band \<and> \<not> prices_in_band i band \<and> has_limit_to_check (oi_order_type i)"
  "br_has_trigger_suggestion (check_price_band i band is_exit) \<longleftrightarrow>
     band_usable band \<and> \<not> prices_in_band i band \<and> has_trigger_to_check (oi_order_type i)"
  "br_has_suggestion (check_price_band i band is_exit) \<Longrightarrow>
     br_suggested_limit (check_price_band i band is_exit) = clamp (as_money (oi_price i)) (pb_lower band) (pb_upper band)"
  "br_has_trigger_suggestion (check_price_band i band is_exit) \<Longrightarrow>
     br_suggested_trigger (check_price_band i band is_exit) = clamp (as_money (intent_trigger i)) (pb_lower band) (pb_upper band)"
  by (auto simp: check_price_band_def check_price_band_at_def prices_in_band_def Let_def split: if_splits)

section \<open>The stop supervisor\<close>

record protective_stop =
  ps_position_id :: string
  ps_symbol :: string
  ps_position_qty :: int64
  ps_stop_trigger :: money
  ps_protective_limit :: money

datatype protection_state = Armed | ClosedState | ReArmNeeded | Unprotected

record exit_order =
  xo_symbol :: string
  xo_side :: side
  xo_qty :: int64
  xo_limit_price :: money

record protection_decision =
  pd_state :: protection_state
  pd_emit_exit :: bool
  pd_exit :: exit_order
  pd_alert :: bool
  pd_detail :: string

record stop_inputs =
  si_last_price :: money
  si_trigger_crossed :: bool
  si_protective_order_state :: order_state
  si_protective_order_known :: bool
  si_band :: price_band

fun protection_state_to_string :: "protection_state \<Rightarrow> string" where
  "protection_state_to_string Armed = ''Armed''"
| "protection_state_to_string ClosedState = ''Closed''"
| "protection_state_to_string ReArmNeeded = ''ReArmNeeded''"
| "protection_state_to_string Unprotected = ''Unprotected''"

definition clamp_into_band :: "side \<Rightarrow> money \<Rightarrow> price_band \<Rightarrow> money" where
  "clamp_into_band s limit band =
     (if s = Sell
      then let out = (if limit < pb_lower band then pb_lower band else limit)
           in if out > pb_upper band then pb_upper band else out
      else let out = (if limit > pb_upper band then pb_upper band else limit)
           in if out < pb_lower band then pb_lower band else out)"

definition protection_alert :: "string \<Rightarrow> string \<Rightarrow> alert" where
  "protection_alert message symbol =
     \<lparr>al_level = AlertCritical, al_message = message, al_context = no_context \<lparr>ac_symbol := symbol\<rparr>\<rparr>"

definition no_exit :: exit_order where
  "no_exit = \<lparr>xo_symbol = [], xo_side = Sell, xo_qty = 0, xo_limit_price = Money 0\<rparr>"

text \<open>The size of the exit: the position's magnitude, negated in unsigned arithmetic.\<close>

definition exit_qty_of :: "int64 \<Rightarrow> int64" where
  "exit_qty_of q = (if q > 0 then q else sint (0 - word_of_int q :: uint64))"

text \<open>The decision and the alerts sent.\<close>

definition evaluate_protection :: "protective_stop \<Rightarrow> stop_inputs \<Rightarrow> protection_decision \<times> alert list" where
  "evaluate_protection stop inp =
     (let qty = ps_position_qty stop; sym = ps_symbol stop in
      if qty = 0
      then (\<lparr>pd_state = ClosedState, pd_emit_exit = False, pd_exit = no_exit, pd_alert = False,
             pd_detail = ''flat position ('' @ sym @ ''): nothing to protect''\<rparr>, [])
      else
        let exit_side = (if qty > 0 then Sell else Buy); exit_qty = exit_qty_of qty in
        if exit_qty \<le> 0
        then (\<lparr>pd_state = Unprotected, pd_emit_exit = False, pd_exit = no_exit, pd_alert = True,
               pd_detail = ''non-positive exit qty for '' @ sym @ '': cannot form protective exit''\<rparr>,
              [protection_alert (''PROTECTION: non-positive exit quantity; cannot arm a protective exit ''
                 @ em_dash @ '' manual intervention required'') sym])
        else if \<not> si_trigger_crossed inp
        then (\<lparr>pd_state = Armed, pd_emit_exit = False, pd_exit = no_exit, pd_alert = False,
               pd_detail = ''armed for '' @ sym @ '': trigger not crossed''\<rparr>, [])
        else
          let side_tag = side_to_string exit_side; band = si_band inp in
          if band_usable band
          then (\<lparr>pd_state = ReArmNeeded, pd_emit_exit = True,
                 pd_exit = \<lparr>xo_symbol = sym, xo_side = exit_side, xo_qty = exit_qty,
                            xo_limit_price = clamp_into_band exit_side (ps_protective_limit stop) band\<rparr>,
                 pd_alert = True,
                 pd_detail = ''re-arm protective '' @ side_tag @ '' for '' @ sym
                   @ '': stop fired-but-unfilled; limit clamped into band''\<rparr>,
                [protection_alert (''PROTECTION: re-arming protective '' @ side_tag @ '' exit '' @ em_dash
                   @ '' stop trigger crossed but protective order did NOT fill'') sym])
          else (\<lparr>pd_state = ReArmNeeded, pd_emit_exit = True,
                 pd_exit = \<lparr>xo_symbol = sym, xo_side = exit_side, xo_qty = exit_qty,
                            xo_limit_price = ps_protective_limit stop\<rparr>,
                 pd_alert = True,
                 pd_detail = ''re-arm protective '' @ side_tag @ '' for '' @ sym
                   @ '': stop fired-but-unfilled; band unknown '' @ em_dash @ '' protective limit unclamped''\<rparr>,
                [protection_alert (''PROTECTION: re-arming protective '' @ side_tag @ '' exit '' @ em_dash
                   @ '' band unknown; protective limit UNCLAMPED (price not made safe)'') sym]))"

lemma clamp_into_band_clamp: "band_usable band \<Longrightarrow> clamp_into_band s p band = clamp p (pb_lower band) (pb_upper band)"
  by (auto simp: clamp_into_band_def clamp_def band_usable_def Let_def)

lemma exit_qty_of_eq:
  assumes "in_i64 q"
  shows "exit_qty_of q = (if q = INT64_MIN then INT64_MIN else \<bar>q\<bar>)"
proof (cases "q = INT64_MIN \<or> q > 0")
  case True
  then show ?thesis
    by (auto simp: exit_qty_of_def INT64_MIN_def)
next
  case False
  have "in_i64 (- q)" using assms False by (auto simp: in_i64_def INT64_MIN_def INT64_MAX_def)
  then have "sint (word_of_int (- q) :: uint64) = - q" by (rule sint_word_of_int_i64)
  moreover have "(0 - word_of_int q :: uint64) = word_of_int (- q)" by (simp only: diff_0 of_int_minus)
  ultimately have "sint (0 - word_of_int q :: uint64) = - q" by (simp only:)
  then show ?thesis using False by (simp only: exit_qty_of_def) simp
qed

text \<open>The header \<^verbatim>\<open>stop_supervisor.hpp\<close> describes the state Closed as "flat or the protective exit is
  confirmed Filled: no emit, no alert".  The code has no such shortcut, and says so: a known Filled exit
  on a position that is still open answers a crossed trigger with a new exit and an alert.\<close>

lemma filled_exit_is_rearmed:
  assumes "in_i64 (ps_position_qty stop)" "ps_position_qty stop \<notin> {0, INT64_MIN}" "si_trigger_crossed inp"
    "si_protective_order_known inp" "si_protective_order_state inp = Filled"
  shows "pd_state (fst (evaluate_protection stop inp)) = ReArmNeeded"
    "pd_emit_exit (fst (evaluate_protection stop inp))" "pd_alert (fst (evaluate_protection stop inp))"
  using assms exit_qty_of_eq [OF assms(1)] by (auto simp: evaluate_protection_def Let_def)

text \<open>C26. The supervisor never leaves a crossed stop of an open position unanswered.  On every tick,
  whatever the broker reports of the protective order (a confirmed fill included, against the header's
  description of the state Closed): a position that is neither flat nor INT64_MIN and whose trigger was
  crossed gets an exit of the opposite side, for the whole position, priced inside the band whenever
  the band is usable, together with a critical alert.  No exit is sent for a flat position, nor before
  the trigger is crossed, nor for a position of INT64_MIN, whose size cannot be expressed: that one is
  reported unprotected with a critical alert on every tick, crossed or not.  No other tick alerts.\<close>

theorem crossed_stop_is_rearmed:
  fixes stop :: protective_stop and inp :: stop_inputs
  assumes "in_i64 (ps_position_qty stop)"
  defines "d \<equiv> fst (evaluate_protection stop inp)" and "al \<equiv> snd (evaluate_protection stop inp)"
  shows "(pd_emit_exit d \<longleftrightarrow> ps_position_qty stop \<notin> {0, INT64_MIN} \<and> si_trigger_crossed inp)
    \<and> (pd_emit_exit d \<longrightarrow>
         xo_symbol (pd_exit d) = ps_symbol stop
         \<and> (if xo_side (pd_exit d) = Sell then xo_qty (pd_exit d) else - xo_qty (pd_exit d)) = ps_position_qty stop
         \<and> 0 < xo_qty (pd_exit d)
         \<and> (if band_usable (si_band inp) then in_band (xo_limit_price (pd_exit d)) (si_band inp)
            else xo_limit_price (pd_exit d) = ps_protective_limit stop))
    \<and> (pd_state d = Unprotected \<longleftrightarrow> ps_position_qty stop = INT64_MIN)
    \<and> (pd_alert d \<longleftrightarrow> pd_emit_exit d \<or> pd_state d = Unprotected)
    \<and> map al_level al = (if pd_alert d then [AlertCritical] else [])"
proof -
  consider (flat) "ps_position_qty stop = 0" | (min) "ps_position_qty stop = INT64_MIN"
    | (long) "ps_position_qty stop > 0" | (short) "ps_position_qty stop < 0" "ps_position_qty stop \<noteq> INT64_MIN"
    by linarith
  then show ?thesis
    using exit_qty_of_eq [OF assms(1)] clamp_in_band [of "si_band inp" "ps_protective_limit stop"]
    by cases (auto simp: d_def al_def evaluate_protection_def Let_def protection_alert_def INT64_MIN_def clamp_into_band_clamp)
qed

theorem crossed_stop_is_rearmed_witness:
  "pd_emit_exit (fst (evaluate_protection
      \<lparr>ps_position_id = ''p'', ps_symbol = ''NIFTY'', ps_position_qty = - 50, ps_stop_trigger = Money 100, ps_protective_limit = Money 900\<rparr>
      \<lparr>si_last_price = Money 120, si_trigger_crossed = True, si_protective_order_state = Filled, si_protective_order_known = True,
       si_band = \<lparr>pb_lower = Money 10, pb_upper = Money 500, pb_known = True\<rparr>\<rparr>))"
proof -
  let ?stop = "\<lparr>ps_position_id = ''p'', ps_symbol = ''NIFTY'', ps_position_qty = - 50, ps_stop_trigger = Money 100, ps_protective_limit = Money 900\<rparr>"
  have "in_i64 (ps_position_qty ?stop)" by (simp add: in_i64_def INT64_MIN_def INT64_MAX_def)
  from crossed_stop_is_rearmed [OF this] show ?thesis by (simp add: INT64_MIN_def)
qed

end
