(* ===== verification/Margin_Safety.thy ===== *)
theory Margin_Safety
  imports Ports
begin

text \<open>
  \<^verbatim>\<open>marginsafety/margin_buffer.cpp\<close>, the buffered margin requirement, and \<^verbatim>\<open>modifyguard/modify_guard.cpp\<close>, the
  rules under which a working order may be modified.
\<close>

section \<open>The margin buffer\<close>

record margin_safety_config =
  mc_buffer_bps :: int
  mc_flat_buffer :: money

record margin_inputs =
  mi_api_required :: money
  mi_summed_leg_margin :: money
  mi_available :: money
  mi_is_multi_leg :: bool
  mi_benefit_trusted :: bool

datatype margin_verdict = Sufficient | InsufficientBlocked

fun margin_verdict_to_string :: "margin_verdict \<Rightarrow> string" where
  "margin_verdict_to_string Sufficient = ''Sufficient''"
| "margin_verdict_to_string InsufficientBlocked = ''InsufficientBlocked''"

record margin_safety_result =
  mr_verdict :: margin_verdict
  mr_blocked :: bool
  mr_base_required :: money
  mr_effective_required :: money
  mr_used_worst_case :: bool
  mr_boundary_flagged :: bool
  mr_detail :: string

definition is_blocking :: "margin_verdict \<Rightarrow> bool" where
  "is_blocking v \<longleftrightarrow> v = InsufficientBlocked"

definition max_money :: "money \<Rightarrow> money \<Rightarrow> money" where
  "max_money a b = (if a \<ge> b then a else b)"

definition sat_add :: "int64 \<Rightarrow> int64 \<Rightarrow> int64" where
  "sat_add a b = (if b > 0 \<and> a > INT64_MAX - b then INT64_MAX else wrap64 (a + b))"

definition bps_cushion :: "int64 \<Rightarrow> int64 \<Rightarrow> int64" where
  "bps_cushion base_paise bps =
     (if base_paise \<le> 0 \<or> bps \<le> 0 then 0
      else if base_paise > (INT64_MAX - 9999) div bps then INT64_MAX
      else wrap64 (wrap64 (base_paise * bps) + 9999) div 10000)"

definition bool_text :: "bool \<Rightarrow> string" where
  "bool_text b = (if b then ''true'' else ''false'')"

definition evaluate_margin :: "margin_inputs \<Rightarrow> margin_safety_config \<Rightarrow> margin_safety_result" where
  "evaluate_margin inp cfg =
     (let worst = (mi_is_multi_leg inp \<and> \<not> mi_benefit_trusted inp);
          base = (if worst then max_money (mi_summed_leg_margin inp) (mi_api_required inp) else mi_api_required inp);
          base = max_money base (mi_api_required inp);
          bps = (if mc_buffer_bps cfg > 0 then mc_buffer_bps cfg else 0);
          flat = (if money_paise (mc_flat_buffer cfg) > 0 then money_paise (mc_flat_buffer cfg) else 0);
          cushion = bps_cushion (money_paise base) bps;
          effective = sat_add (sat_add (money_paise base) flat) cushion;
          required = Money effective;
          verdict = (if mi_available inp \<ge> required then Sufficient else InsufficientBlocked);
          flagged = (\<not> mi_benefit_trusted inp)
      in \<lparr>mr_verdict = verdict, mr_blocked = is_blocking verdict, mr_base_required = base,
          mr_effective_required = required, mr_used_worst_case = worst, mr_boundary_flagged = flagged,
          mr_detail = margin_verdict_to_string verdict @ '': effective_required '' @ money_to_string required
            @ '' (base '' @ money_to_string base @ '') vs available '' @ money_to_string (mi_available inp)
            @ '' [worst_case='' @ bool_text worst @ '', boundary_flagged='' @ bool_text flagged @ '']''\<rparr>)"

definition require_margin_ok :: "margin_safety_result \<Rightarrow> unit result" where
  "require_margin_ok r =
     (if \<not> mr_blocked r then Inr ()
      else Inl ((make_error RiskRejected (''margin safety: '' @ margin_verdict_to_string (mr_verdict r)
                  @ '' - effective_required '' @ money_to_string (mr_effective_required r)
                  @ '' exceeds available funds (buffered requirement)'') []) \<lparr>err_action := BlockStrategy\<rparr>))"

section \<open>The buffer over the integers\<close>

text \<open>The requirement without machine arithmetic: the broker's figure (or the sum of the legs, when the
  basket's benefit is not to be relied on and the sum is larger), the flat cushion, and the share in
  basis points rounded up.\<close>

definition base_margin :: "margin_inputs \<Rightarrow> int" where
  "base_margin inp =
     (if mi_is_multi_leg inp \<and> \<not> mi_benefit_trusted inp
      then max (money_paise (mi_summed_leg_margin inp)) (money_paise (mi_api_required inp))
      else money_paise (mi_api_required inp))"

definition ideal_requirement :: "margin_inputs \<Rightarrow> margin_safety_config \<Rightarrow> int" where
  "ideal_requirement inp cfg =
     base_margin inp + max 0 (money_paise (mc_flat_buffer cfg))
     + (max 0 (base_margin inp) * max 0 (mc_buffer_bps cfg) + 9999) div 10000"

lemma sat_add_eq: "in_i64 a \<Longrightarrow> 0 \<le> b \<Longrightarrow> in_i64 b \<Longrightarrow> sat_add a b = min INT64_MAX (a + b)"
proof -
  assume A: "in_i64 a" "0 \<le> b" "in_i64 b"
  show ?thesis
  proof (cases "a + b \<le> INT64_MAX")
    case True
    then have "in_i64 (a + b)" using A by (simp add: in_i64_def)
    then show ?thesis using True by (auto simp: sat_add_def wrap64_id)
  next
    case False
    then have "b > 0" using A(1) by (cases "b = 0") (use A(2) in \<open>auto simp: in_i64_def\<close>)
    then show ?thesis using False by (auto simp: sat_add_def)
  qed
qed

lemma le_div_iff_mult_le: "0 < b \<Longrightarrow> y \<le> x div b \<longleftrightarrow> y * b \<le> (x :: int)"
proof
  assume b: "0 < b"
  { assume "y \<le> x div b"
    then have "y * b \<le> x div b * b" using b by simp
    also have "\<dots> \<le> x" using b by (simp add: minus_mod_eq_div_mult [symmetric])
    finally show "y * b \<le> x" . }
  { assume "y * b \<le> x"
    then have "y * b div b \<le> x div b" using b by (rule zdiv_mono1)
    then show "y \<le> x div b" using b by simp }
qed

lemma bps_cushion_eq:
  assumes "in_i64 base" "0 \<le> bps" "in_i32 bps"
  defines "exact \<equiv> (max 0 base * bps + 9999) div 10000"
  shows "bps_cushion base bps = exact \<or> bps_cushion base bps = INT64_MAX \<and> INT64_MAX < base * bps + 9999"
    and "0 \<le> bps_cushion base bps" "in_i64 (bps_cushion base bps)"
proof -
  have "(bps_cushion base bps = exact \<or> bps_cushion base bps = INT64_MAX \<and> INT64_MAX < base * bps + 9999)
    \<and> 0 \<le> bps_cushion base bps \<and> in_i64 (bps_cushion base bps)"
  proof (cases "base \<le> 0 \<or> bps \<le> 0")
    case True
    then show ?thesis using assms(2) by (auto simp: bps_cushion_def exact_def in_i64_def INT64_MIN_def INT64_MAX_def)
  next
    case F: False
    then have pos: "0 < base" "0 < bps" by auto
    show ?thesis
    proof (cases "base > (INT64_MAX - 9999) div bps")
      case True
      then have "(INT64_MAX - 9999) < base * bps" using le_div_iff_mult_le [OF pos(2)] by (metis not_le)
      then show ?thesis using True F by (auto simp: bps_cushion_def in_i64_def INT64_MIN_def INT64_MAX_def)
    next
      case False
      then have "base \<le> (INT64_MAX - 9999) div bps" by simp
      then have le: "base * bps \<le> INT64_MAX - 9999" using le_div_iff_mult_le [OF pos(2)] by simp
      have "0 \<le> base * bps" using pos by simp
      then have "in_i64 (base * bps)" "in_i64 (base * bps + 9999)" using le by (simp_all add: in_i64_def INT64_MIN_def)
      then have "bps_cushion base bps = exact"
        using F False pos(1) by (simp add: bps_cushion_def wrap64_id exact_def)
      moreover have "exact = (base * bps + 9999) div 10000" using pos(1) by (simp add: exact_def)
      then have "0 \<le> exact" "exact \<le> base * bps + 9999" using \<open>0 \<le> base * bps\<close> by linarith+
      then have "0 \<le> exact" "exact \<le> INT64_MAX" using le by linarith+
      ultimately show ?thesis by (simp add: in_i64_def INT64_MIN_def)
    qed
  qed
  then show "bps_cushion base bps = exact \<or> bps_cushion base bps = INT64_MAX \<and> INT64_MAX < base * bps + 9999"
    "0 \<le> bps_cushion base bps" "in_i64 (bps_cushion base bps)" by blast+
qed

definition margin_in_range :: "margin_inputs \<Rightarrow> margin_safety_config \<Rightarrow> bool" where
  "margin_in_range inp cfg \<longleftrightarrow> in_i64 (money_paise (mi_api_required inp)) \<and> in_i64 (money_paise (mi_summed_leg_margin inp))
     \<and> in_i64 (money_paise (mi_available inp)) \<and> in_i64 (money_paise (mc_flat_buffer cfg)) \<and> in_i32 (mc_buffer_bps cfg)"

lemma cut_sum: "0 \<le> x \<Longrightarrow> min m (min m a + x) = min m (a + x :: int)"
  by simp

lemma cut_big: "0 < a \<Longrightarrow> 0 \<le> b \<Longrightarrow> 0 \<le> m \<Longrightarrow> min m (min m (a + b) + m) = (m :: int)"
  by simp

lemma evaluate_margin_required:
  "money_paise (mr_effective_required (evaluate_margin inp cfg)) =
     sat_add (sat_add (base_margin inp) (max 0 (money_paise (mc_flat_buffer cfg))))
       (bps_cushion (base_margin inp) (max 0 (mc_buffer_bps cfg)))"
proof -
  have m: "money_paise (max_money a b) = max (money_paise a) (money_paise b)" for a b
    by (auto simp: max_money_def less_eq_money_def)
  have f: "(if 0 < x then x else 0) = max 0 x" for x :: int by simp
  show ?thesis
    by (simp add: evaluate_margin_def Let_def m f base_margin_def max.absorb1 max.commute max.left_commute)
qed

lemma require_margin_ok_iff:
  "require_margin_ok (evaluate_margin inp cfg) = Inr () \<longleftrightarrow>
     money_paise (mr_effective_required (evaluate_margin inp cfg)) \<le> money_paise (mi_available inp)"
  by (simp add: require_margin_ok_def evaluate_margin_def Let_def is_blocking_def less_eq_money_def)

text \<open>C27. The buffered requirement, on the whole range of the machine integers: it is never below the exact
  requirement over the integers (cut at the largest amount there is), and equals it unless the product
  of the margin and the basis points leaves the 64-bit range; it is never below the broker's own figure;
  and the stage passes exactly when the funds cover it.  No input makes the sum wrap around.\<close>

theorem margin_buffer_fail_closed:
  fixes inp :: margin_inputs and cfg :: margin_safety_config
  assumes "margin_in_range inp cfg"
  defines "eff \<equiv> money_paise (mr_effective_required (evaluate_margin inp cfg))"
  shows "min INT64_MAX (ideal_requirement inp cfg) \<le> eff
    \<and> (base_margin inp * max 0 (mc_buffer_bps cfg) + 9999 \<le> INT64_MAX \<longrightarrow> eff = min INT64_MAX (ideal_requirement inp cfg))
    \<and> money_paise (mi_api_required inp) \<le> eff
    \<and> (require_margin_ok (evaluate_margin inp cfg) = Inr () \<longleftrightarrow> eff \<le> money_paise (mi_available inp))"
proof -
  let ?base = "base_margin inp" and ?bps = "max 0 (mc_buffer_bps cfg)" and ?flat = "max 0 (money_paise (mc_flat_buffer cfg))"
  let ?exact = "(max 0 ?base * ?bps + 9999) div 10000" and ?c = "bps_cushion ?base ?bps"
  have r: "in_i64 ?base" "in_i64 ?flat" "in_i32 ?bps" using assms(1)
    by (auto simp: margin_in_range_def base_margin_def in_i64_def in_i32_def INT64_MIN_def INT64_MAX_def max_def)
  note C = bps_cushion_eq [OF r(1) _ r(3)]
  have c: "?c = ?exact \<or> ?c = INT64_MAX \<and> INT64_MAX < ?base * ?bps + 9999" "0 \<le> ?c" "in_i64 ?c"
    using C by simp_all
  have s: "sat_add ?base ?flat = min INT64_MAX (?base + ?flat)" "in_i64 (sat_add ?base ?flat)"
    using r by (simp_all add: sat_add_eq, simp add: in_i64_def min_def max_def)
  have e: "eff = min INT64_MAX (min INT64_MAX (?base + ?flat) + ?c)"
    using s c(2,3) by (simp add: eff_def evaluate_margin_required sat_add_eq)
  have ideal: "ideal_requirement inp cfg = ?base + ?flat + ?exact" by (simp add: ideal_requirement_def)
  have ex: "0 \<le> ?exact" by (simp add: pos_imp_zdiv_nonneg_iff)
  have "?c = INT64_MAX \<and> INT64_MAX < ?base * ?bps + 9999 \<Longrightarrow> 0 < ?base"
    using mult_nonpos_nonneg [of ?base ?bps] by (simp add: INT64_MAX_def) (metis not_le)
  then have big: "eff = INT64_MAX" if "?c = INT64_MAX \<and> INT64_MAX < ?base * ?bps + 9999"
    using that e cut_big [of ?base ?flat INT64_MAX] by (simp add: INT64_MAX_def)
  have eq: "eff = min INT64_MAX (?base + ?flat + ?exact)" if "?c = ?exact"
    using e cut_sum [OF ex] unfolding that by (simp only:)
  have "money_paise (mi_api_required inp) \<le> ?base" by (simp add: base_margin_def)
  moreover have "?base \<le> INT64_MAX" using r(1) by (simp add: in_i64_def)
  moreover have "0 \<le> ?flat" by simp
  ultimately have "money_paise (mi_api_required inp) \<le> eff" using e c(2) by linarith
  moreover have "min INT64_MAX (ideal_requirement inp cfg) \<le> eff" using c(1)
  proof
    assume "?c = ?exact"
    then show ?thesis using eq ideal by (simp only: order.refl)
  next
    assume "?c = INT64_MAX \<and> INT64_MAX < ?base * ?bps + 9999"
    then have "eff = INT64_MAX" by (rule big)
    then show ?thesis by (simp only: min.cobounded1)
  qed
  moreover have "eff = min INT64_MAX (ideal_requirement inp cfg)" if "?base * ?bps + 9999 \<le> INT64_MAX"
  proof -
    have "?c = ?exact" using c(1) that by linarith
    then show ?thesis using eq ideal by (simp only:)
  qed
  ultimately show ?thesis using require_margin_ok_iff [of inp cfg, folded eff_def] by blast
qed

theorem margin_buffer_fail_closed_witness:
  "let inp = \<lparr>mi_api_required = Money 1000001, mi_summed_leg_margin = Money 0, mi_available = Money 1050001,
              mi_is_multi_leg = False, mi_benefit_trusted = True\<rparr>;
       cfg = \<lparr>mc_buffer_bps = 500, mc_flat_buffer = Money 0\<rparr>
   in require_margin_ok (evaluate_margin inp cfg) \<noteq> Inr () \<and> ideal_requirement inp cfg = 1050002"
proof -
  let ?inp = "\<lparr>mi_api_required = Money 1000001, mi_summed_leg_margin = Money 0, mi_available = Money 1050001,
              mi_is_multi_leg = False, mi_benefit_trusted = True\<rparr>"
  let ?cfg = "\<lparr>mc_buffer_bps = 500, mc_flat_buffer = Money 0\<rparr>"
  have "margin_in_range ?inp ?cfg"
    by (simp add: margin_in_range_def in_i64_def in_i32_def INT64_MIN_def INT64_MAX_def)
  moreover have "ideal_requirement ?inp ?cfg = 1050002" by (simp add: ideal_requirement_def base_margin_def)
  ultimately show ?thesis using margin_buffer_fail_closed [of ?inp ?cfg]
    by (simp add: base_margin_def INT64_MAX_def)
qed

section \<open>Modifying a working order\<close>

datatype modify_verdict = AllowModify | RejectQtyOnPartial | RejectShrinkBelowFilled | RejectRacedFill
  | RejectTerminal | RejectNotModifiable

fun modify_verdict_to_string :: "modify_verdict \<Rightarrow> string" where
  "modify_verdict_to_string AllowModify = ''allow''"
| "modify_verdict_to_string RejectQtyOnPartial = ''reject_qty_on_partial''"
| "modify_verdict_to_string RejectShrinkBelowFilled = ''reject_shrink_below_filled''"
| "modify_verdict_to_string RejectRacedFill = ''reject_raced_fill''"
| "modify_verdict_to_string RejectTerminal = ''reject_terminal''"
| "modify_verdict_to_string RejectNotModifiable = ''reject_not_modifiable''"

record order_modify_state =
  oms_state :: order_state
  oms_filled_qty :: int64
  oms_total_qty :: int64

record modify_request =
  mq_changes_quantity :: bool
  mq_changes_price :: bool
  mq_new_total_qty :: int64

record modify_result =
  mo_verdict :: modify_verdict
  mo_allowed :: bool
  mo_detail :: string

definition make_modify_request :: "order_intent \<Rightarrow> order_intent \<Rightarrow> modify_request" where
  "make_modify_request current amended =
     \<lparr>mq_changes_quantity = (oi_quantity current \<noteq> oi_quantity amended),
      mq_changes_price = (oi_price current \<noteq> oi_price amended \<or> oi_trigger_price current \<noteq> oi_trigger_price amended
                          \<or> oi_order_type current \<noteq> oi_order_type amended),
      mq_new_total_qty = qty_value (oi_quantity amended)\<rparr>"

definition modify_detail_for :: "modify_verdict \<Rightarrow> order_state \<Rightarrow> string" where
  "modify_detail_for v st = modify_verdict_to_string v @ '' [state='' @ order_state_to_string st @ '']''"

definition make_modify_result :: "modify_verdict \<Rightarrow> order_state \<Rightarrow> modify_result" where
  "make_modify_result v st = \<lparr>mo_verdict = v, mo_allowed = (v = AllowModify), mo_detail = modify_detail_for v st\<rparr>"

definition modify_is_terminal :: "order_state \<Rightarrow> bool" where
  "modify_is_terminal st \<longleftrightarrow> st = Filled \<or> st = Cancelled \<or> st = Rejected"

definition is_not_modifiable_base :: "order_state \<Rightarrow> bool" where
  "is_not_modifiable_base st \<longleftrightarrow> st \<in> {Created, Validated, PendingSend, Sent, Unknown, ManualInterventionRequired,
     Reconciled, PartiallyPlaced}"

definition evaluate_modify :: "order_modify_state \<Rightarrow> modify_request \<Rightarrow> int64 \<Rightarrow> modify_result" where
  "evaluate_modify cur req observed_filled_qty =
     (let st = oms_state cur in
      if modify_is_terminal st then make_modify_result RejectTerminal st
      else if is_not_modifiable_base st then make_modify_result RejectNotModifiable st
      else if oms_filled_qty cur > observed_filled_qty then make_modify_result RejectRacedFill st
      else if mq_changes_quantity req \<and> st = PartiallyFilled then make_modify_result RejectQtyOnPartial st
      else if mq_changes_quantity req \<and> mq_new_total_qty req \<le> oms_filled_qty cur
      then make_modify_result RejectShrinkBelowFilled st
      else make_modify_result AllowModify st)"

text \<open>A modify is let through exactly on a confirmed working order with no fill since the decision, and it
  either leaves the quantity alone or raises the total of an order without fills above what is filled.\<close>

lemma evaluate_modify_allowed:
  "mo_allowed (evaluate_modify cur req observed) \<longleftrightarrow>
     oms_state cur \<in> {Acknowledged, PartiallyFilled} \<and> oms_filled_qty cur \<le> observed
     \<and> (mq_changes_quantity req \<longrightarrow> oms_state cur = Acknowledged \<and> oms_filled_qty cur < mq_new_total_qty req)"
  by (cases "oms_state cur")
     (auto simp: evaluate_modify_def Let_def make_modify_result_def modify_is_terminal_def is_not_modifiable_base_def)

end
