(* ===== verification/Trading_Calendar.thy ===== *)
theory Trading_Calendar
  imports Errors Json Civil_Date
begin

text \<open>
  \<^verbatim>\<open>refdata/trading_calendar.cpp\<close>: the exchange calendar that says whether an entry may be sent now.  An
  instant of the wall clock is a number of nanoseconds since the epoch and an argument of every
  operation that reads the clock; the cache directory is a map from dates to file contents, and the
  outcomes of the file operations are arguments.
\<close>

section \<open>Dates and times of day as text\<close>

definition parse_iso_date :: "string \<Rightarrow> int option" where
  "parse_iso_date s =
     (if length s \<noteq> 10 \<or> s ! 4 \<noteq> CHR ''-'' \<or> s ! 7 \<noteq> CHR ''-'' then None
      else if \<not> list_all (\<lambda>i. is_ascii_digit (s ! i)) [0, 1, 2, 3, 5, 6, 8, 9] then None
      else
        let v = (\<lambda>i. int (digit_val (s ! i)));
            c = \<lparr>cd_year = v 0 * 1000 + v 1 * 100 + v 2 * 10 + v 3, cd_month = v 5 * 10 + v 6, cd_day = v 8 * 10 + v 9\<rparr>
        in if \<not> civil_ok c then None else Some (days_of_civil c))"

definition parse_hhmm :: "string \<Rightarrow> int option" where
  "parse_hhmm s =
     (if length s \<noteq> 5 \<or> s ! 2 \<noteq> CHR '':'' then None
      else if \<not> is_ascii_digit (s ! 0) \<or> \<not> is_ascii_digit (s ! 1) \<or> \<not> is_ascii_digit (s ! 3) \<or> \<not> is_ascii_digit (s ! 4) then None
      else
        let v = (\<lambda>i. int (digit_val (s ! i))); hh = v 0 * 10 + v 1; mm = v 3 * 10 + v 4
        in if hh > 23 \<or> mm > 59 then None else Some (hh * 60 + mm))"

section \<open>The document\<close>

record calendar_data =
  cal_holidays :: "string set"
  cal_special_sessions :: "string set"
  cal_open_min :: int
  cal_entry_cutoff_min :: int
  cal_square_off_min :: int
  cal_close_min :: int

definition calendar_error :: "string \<Rightarrow> error" where
  "calendar_error message = make_error Validation (''calendar: '' @ message) []"

fun load_date_entries :: "string \<Rightarrow> json list \<Rightarrow> string set \<Rightarrow> string set result" where
  "load_date_entries key [] out = Inr out"
| "load_date_entries key (JStr entry # vs) out =
     (if parse_iso_date entry = None
      then Inl (calendar_error ([CHR 0x27] @ key @ [CHR 0x27] @ '' has invalid ISO date '' @ [CHR 0x22] @ entry @ [CHR 0x22]))
      else load_date_entries key vs (insert entry out))"
| "load_date_entries key (_ # vs) out =
     Inl (calendar_error ([CHR 0x27] @ key @ [CHR 0x27] @ '' entries must be ISO date strings''))"

definition load_dates :: "(string \<times> json) list \<Rightarrow> string \<Rightarrow> string set result" where
  "load_dates parsed key =
     (case map_of parsed key of
        None \<Rightarrow> Inr {}
      | Some (JArr vs) \<Rightarrow> load_date_entries key vs {}
      | Some _ \<Rightarrow> Inl (calendar_error ([CHR 0x27] @ key @ [CHR 0x27] @ '' must be an array'')))"

definition get_window :: "(string \<times> json) list \<Rightarrow> string \<Rightarrow> int option" where
  "get_window windows key = (case map_of windows key of Some (JStr s) \<Rightarrow> parse_hhmm s | _ \<Rightarrow> None)"

definition parse_calendar_json :: "json_lib \<Rightarrow> string \<Rightarrow> calendar_data result" where
  "parse_calendar_json lib doc =
     (case jl_parse lib doc of
        Some (JObj parsed) \<Rightarrow>
          (case load_dates parsed ''holidays'' of Inl e \<Rightarrow> Inl e | Inr holidays \<Rightarrow>
           case load_dates parsed ''special_sessions'' of Inl e \<Rightarrow> Inl e | Inr special \<Rightarrow>
           case map_of parsed ''windows'' of
             Some (JObj windows) \<Rightarrow>
               (case (get_window windows ''open'', get_window windows ''entry_cutoff'',
                      get_window windows ''square_off'', get_window windows ''close'') of
                  (Some o', Some c, Some q, Some cl) \<Rightarrow>
                    Inr \<lparr>cal_holidays = holidays, cal_special_sessions = special, cal_open_min = o',
                         cal_entry_cutoff_min = c, cal_square_off_min = q, cal_close_min = cl\<rparr>
                | _ \<Rightarrow> Inl (calendar_error (''invalid window time (expected '' @ [CHR 0x22] @ ''HH:MM'' @ [CHR 0x22] @ '', 00-23:00-59)'')))
           | _ \<Rightarrow> Inl (calendar_error (''missing or invalid '' @ [CHR 0x27] @ ''windows'' @ [CHR 0x27])))
      | _ \<Rightarrow> Inl (calendar_error ''malformed JSON document''))"

section \<open>The calendar\<close>

record trading_calendar =
  tc_tz_offset_minutes :: int
  tc_calendar :: calendar_data
  tc_cache_date :: string
  tc_loaded :: bool

definition new_calendar :: "int \<Rightarrow> trading_calendar" where
  "new_calendar tz =
     \<lparr>tc_tz_offset_minutes = tz,
      tc_calendar = \<lparr>cal_holidays = {}, cal_special_sessions = {}, cal_open_min = 0, cal_entry_cutoff_min = 0,
                     cal_square_off_min = 0, cal_close_min = 0\<rparr>,
      tc_cache_date = [], tc_loaded = False\<rparr>"

definition ns_per_minute :: int where
  "ns_per_minute = 60000000000"

definition local_now :: "int \<Rightarrow> trading_calendar \<Rightarrow> string \<times> int" where
  "local_now now_wall tc =
     (let local_ns = now_wall + tc_tz_offset_minutes tc * ns_per_minute;
          day = local_ns div ns_per_day;
          since_midnight = local_ns - day * ns_per_day
      in (to_iso (civil_of_days day), since_midnight div ns_per_minute))"

definition today_local :: "int \<Rightarrow> trading_calendar \<Rightarrow> string" where
  "today_local now_wall tc = fst (local_now now_wall tc)"

definition calendar_ingest :: "json_lib \<Rightarrow> string \<Rightarrow> string \<Rightarrow> trading_calendar \<Rightarrow> unit result \<times> trading_calendar" where
  "calendar_ingest lib doc iso_date tc =
     (case parse_calendar_json lib doc of
        Inl e \<Rightarrow> (Inl e, tc)
      | Inr data \<Rightarrow> (Inr (), tc \<lparr>tc_calendar := data, tc_cache_date := iso_date, tc_loaded := True\<rparr>))"

text \<open>The outcomes of the three file operations of a refresh; a failed write leaves a prefix of the
  document behind.\<close>

record cache_io =
  ci_mkdir_ok :: bool
  ci_open_ok :: bool
  ci_written :: "nat option"

definition calendar_refresh ::
    "json_lib \<Rightarrow> string result \<Rightarrow> cache_io \<Rightarrow> int \<Rightarrow> (string \<rightharpoonup> string) \<Rightarrow> trading_calendar
     \<Rightarrow> unit result \<times> (string \<rightharpoonup> string) \<times> trading_calendar" where
  "calendar_refresh lib fetched cio now_wall cache tc =
     (case fetched of Inl e \<Rightarrow> (Inl e, cache, tc) | Inr doc \<Rightarrow>
      let today = today_local now_wall tc in
      case parse_calendar_json lib doc of Inl e \<Rightarrow> (Inl e, cache, tc) | Inr data \<Rightarrow>
      if \<not> ci_mkdir_ok cio then (Inl (make_error Internal ''calendar: cannot create cache dir'' []), cache, tc)
      else if \<not> ci_open_ok cio
      then (Inl (make_error Internal ''calendar: cannot open cache file for write'' []), cache, tc)
      else case ci_written cio of
             Some n \<Rightarrow> (Inl (make_error Internal ''calendar: cache file write failed'' []), cache(today \<mapsto> take n doc), tc)
           | None \<Rightarrow> (Inr (), cache(today \<mapsto> doc), tc \<lparr>tc_calendar := data, tc_cache_date := today, tc_loaded := True\<rparr>))"

definition load_cached_for ::
    "json_lib \<Rightarrow> bool \<Rightarrow> string \<Rightarrow> (string \<rightharpoonup> string) \<Rightarrow> trading_calendar \<Rightarrow> unit result \<times> trading_calendar" where
  "load_cached_for lib readable iso_date cache tc =
     (case cache iso_date of
        None \<Rightarrow> (Inl (make_error DataStale (''calendar: no cache for date '' @ iso_date) []), tc)
      | Some doc \<Rightarrow>
          if \<not> readable then (Inl (make_error DataStale (''calendar: cannot open cache for date '' @ iso_date) []), tc)
          else calendar_ingest lib doc iso_date tc)"

definition require_fresh :: "int \<Rightarrow> trading_calendar \<Rightarrow> unit result" where
  "require_fresh now_wall tc =
     (if \<not> tc_loaded tc \<or> tc_cache_date tc \<noteq> today_local now_wall tc
      then Inl (make_error DataStale ''calendar is stale or undownloaded; trading blocked'' []) else Inr ())"

definition calendar_is_fresh :: "int \<Rightarrow> trading_calendar \<Rightarrow> bool" where
  "calendar_is_fresh now_wall tc \<longleftrightarrow> require_fresh now_wall tc = Inr ()"

text \<open>Sunday is 0, and 1970-01-01 was a Thursday.\<close>

definition weekday :: "int \<Rightarrow> int" where
  "weekday day = (day + 4) mod 7"

definition is_trading_day :: "string \<Rightarrow> trading_calendar \<Rightarrow> bool" where
  "is_trading_day iso_date tc =
     (if iso_date \<in> cal_special_sessions (tc_calendar tc) then True
      else if iso_date \<in> cal_holidays (tc_calendar tc) then False
      else case parse_iso_date iso_date of
             None \<Rightarrow> False
           | Some day \<Rightarrow> \<not> (weekday day = 6 \<or> weekday day = 0))"

definition in_entry_window :: "int \<Rightarrow> trading_calendar \<Rightarrow> bool" where
  "in_entry_window now_wall tc =
     (case local_now now_wall tc of (iso_date, minute) \<Rightarrow>
        is_trading_day iso_date tc \<and> minute \<ge> cal_open_min (tc_calendar tc) \<and> minute < cal_entry_cutoff_min (tc_calendar tc))"

definition past_square_off :: "int \<Rightarrow> trading_calendar \<Rightarrow> bool" where
  "past_square_off now_wall tc \<longleftrightarrow> snd (local_now now_wall tc) \<ge> cal_square_off_min (tc_calendar tc)"

definition in_session :: "int \<Rightarrow> trading_calendar \<Rightarrow> bool" where
  "in_session now_wall tc =
     (case local_now now_wall tc of (iso_date, minute) \<Rightarrow>
        is_trading_day iso_date tc \<and> minute \<ge> cal_open_min (tc_calendar tc) \<and> minute < cal_close_min (tc_calendar tc))"

definition calendar_entry_allowed :: "int \<Rightarrow> trading_calendar \<Rightarrow> unit result" where
  "calendar_entry_allowed now_wall tc =
     (case local_now now_wall tc of (iso_date, minute) \<Rightarrow>
        if \<not> is_trading_day iso_date tc then Inl (make_error MarketClosed ''calendar: not a trading day'' [])
        else if minute < cal_open_min (tc_calendar tc) then Inl (make_error MarketClosed ''calendar: before open'' [])
        else if minute \<ge> cal_entry_cutoff_min (tc_calendar tc)
        then Inl (make_error MarketClosed ''calendar: at or after entry cutoff'' [])
        else Inr ())"

section \<open>The date of the day is read back\<close>

lemma calendar_entry_allowed_iff: "calendar_entry_allowed now_wall tc = Inr () \<longleftrightarrow> in_entry_window now_wall tc"
  by (auto simp: calendar_entry_allowed_def in_entry_window_def split: prod.splits)

lemma digits_val_pad:
  assumes "0 \<le> v" "v < 10 ^ Suc k"
  shows "length (pad v (Suc k)) = Suc k" "list_all is_ascii_digit (pad v (Suc k))" "int (digits_val (pad v (Suc k))) = v"
proof -
  have s: "show_int v = show_nat (nat v)" using assms(1) by (simp add: show_int_def)
  have "nat v < 10 ^ Suc k" using assms by (simp add: nat_less_iff)
  then have l: "length (show_nat (nat v)) \<le> Suc k" by (rule show_nat_length)
  then show "length (pad v (Suc k)) = Suc k" by (simp add: pad_def Let_def s)
  show "list_all is_ascii_digit (pad v (Suc k))"
    using show_nat_digits [of "nat v"] by (auto simp: pad_def Let_def s list_all_iff is_ascii_digit_def)
  have "digits_val (replicate n (CHR ''0'')) = 0" for n
    by (induction n) (auto simp: digits_val_def digit_val_def)
  then show "int (digits_val (pad v (Suc k))) = v"
    using assms(1) by (simp add: pad_def Let_def s digits_val_append digits_val_show_nat)
qed

lemma pad_2:
  assumes "0 \<le> v" "v \<le> 99"
  obtains a b where "pad v 2 = [a, b]" "is_ascii_digit a" "is_ascii_digit b" "int (digit_val a) * 10 + int (digit_val b) = v"
proof -
  note P = digits_val_pad [of v 1]
  have "length (pad v 2) = 2" "list_all is_ascii_digit (pad v 2)" "int (digits_val (pad v 2)) = v"
    using P assms by (simp_all add: numeral_2_eq_2)
  then show ?thesis using that by (auto simp: length_Suc_conv numeral_2_eq_2 digits_val_def)
qed

lemma pad_4:
  assumes "0 \<le> v" "v \<le> 9999"
  obtains a b c d where "pad v 4 = [a, b, c, d]" "is_ascii_digit a" "is_ascii_digit b" "is_ascii_digit c" "is_ascii_digit d"
    "int (digit_val a) * 1000 + int (digit_val b) * 100 + int (digit_val c) * 10 + int (digit_val d) = v"
proof -
  note P = digits_val_pad [of v 3]
  have "length (pad v 4) = 4" "list_all is_ascii_digit (pad v 4)" "int (digits_val (pad v 4)) = v"
    using P assms by (simp_all add: eval_nat_numeral)
  then show ?thesis using that by (auto simp: length_Suc_conv eval_nat_numeral digits_val_def algebra_simps)
qed

lemma parse_to_iso:
  assumes "civil_ok c" "0 \<le> cd_year c" "cd_year c \<le> 9999"
  shows "parse_iso_date (to_iso c) = Some (days_of_civil c)"
proof -
  have r: "0 \<le> cd_month c" "cd_month c \<le> 99" "0 \<le> cd_day c" "cd_day c \<le> 99"
    using assms(1) by (auto simp: civil_ok_def last_day_of_month_def split: if_splits)
  obtain y0 y1 y2 y3 where y: "pad (cd_year c) 4 = [y0, y1, y2, y3]" "is_ascii_digit y0" "is_ascii_digit y1" "is_ascii_digit y2" "is_ascii_digit y3"
    "int (digit_val y0) * 1000 + int (digit_val y1) * 100 + int (digit_val y2) * 10 + int (digit_val y3) = cd_year c"
    using pad_4 [OF assms(2,3)] by metis
  obtain m0 m1 where m: "pad (cd_month c) 2 = [m0, m1]" "is_ascii_digit m0" "is_ascii_digit m1" "int (digit_val m0) * 10 + int (digit_val m1) = cd_month c"
    using pad_2 [OF r(1,2)] by metis
  obtain d0 d1 where d: "pad (cd_day c) 2 = [d0, d1]" "is_ascii_digit d0" "is_ascii_digit d1" "int (digit_val d0) * 10 + int (digit_val d1) = cd_day c"
    using pad_2 [OF r(3,4)] by metis
  have c: "\<lparr>cd_year = cd_year c, cd_month = cd_month c, cd_day = cd_day c\<rparr> = c" by simp
  show ?thesis
    using y(2-5) m(2,3) d(2,3) assms(1)
    by (simp add: parse_iso_date_def to_iso_def y(1,6) m(1,4) d(1,4) c Let_def)
qed

text \<open>The day number and the minute of the day at the exchange.\<close>

definition local_day :: "int \<Rightarrow> trading_calendar \<Rightarrow> int" where
  "local_day now_wall tc = (now_wall + tc_tz_offset_minutes tc * ns_per_minute) div ns_per_day"

definition local_minute :: "int \<Rightarrow> trading_calendar \<Rightarrow> int" where
  "local_minute now_wall tc = (now_wall + tc_tz_offset_minutes tc * ns_per_minute) mod ns_per_day div ns_per_minute"

lemma local_now_eq: "local_now now_wall tc = (to_iso (civil_of_days (local_day now_wall tc)), local_minute now_wall tc)"
  by (simp add: local_now_def local_day_def local_minute_def Let_def minus_div_mult_eq_mod)

lemma local_minute_bound: "0 \<le> local_minute now_wall tc \<and> local_minute now_wall tc < 1440"
proof -
  let ?x = "(now_wall + tc_tz_offset_minutes tc * ns_per_minute) mod ns_per_day"
  have b: "0 \<le> x div ns_per_minute \<and> x div ns_per_minute < 1440" if "0 \<le> x" "x < ns_per_day" for x
    using that unfolding ns_per_day_def ns_per_minute_def by linarith
  have "0 \<le> ?x" "?x < ns_per_day" by (simp_all add: ns_per_day_def)
  then show ?thesis unfolding local_minute_def by (rule b)
qed

text \<open>The calendar's entry gate, from the clock to the verdict.  At every instant of the years 0 to 9999 of
  the exchange's own time: the text of the local date names the local day (so the weekday read back
  from it is the right one), the minute of the day lies in the day, and an entry is allowed exactly when
  the date is a special session, or neither a holiday nor a weekend, and the minute is at or after the
  open and before the cut-off.\<close>

theorem calendar_gate_exact:
  assumes "0 \<le> cd_year (civil_of_days (local_day now_wall tc))" "cd_year (civil_of_days (local_day now_wall tc)) \<le> 9999"
  shows "parse_iso_date (today_local now_wall tc) = Some (local_day now_wall tc)
    \<and> 0 \<le> local_minute now_wall tc \<and> local_minute now_wall tc < 1440
    \<and> (calendar_entry_allowed now_wall tc = Inr () \<longleftrightarrow>
         (today_local now_wall tc \<in> cal_special_sessions (tc_calendar tc)
          \<or> today_local now_wall tc \<notin> cal_holidays (tc_calendar tc) \<and> weekday (local_day now_wall tc) \<notin> {6, 0})
         \<and> cal_open_min (tc_calendar tc) \<le> local_minute now_wall tc
         \<and> local_minute now_wall tc < cal_entry_cutoff_min (tc_calendar tc))"
proof -
  have t: "today_local now_wall tc = to_iso (civil_of_days (local_day now_wall tc))"
    by (simp add: today_local_def local_now_eq)
  have p: "parse_iso_date (today_local now_wall tc) = Some (local_day now_wall tc)"
    using parse_to_iso [OF civil_of_days_spec(1) assms] by (simp add: t civil_of_days_spec(2))
  show ?thesis using p local_minute_bound [of now_wall tc]
    by (simp add: calendar_entry_allowed_iff in_entry_window_def local_now_eq is_trading_day_def t [symmetric])
qed

theorem calendar_gate_exact_witness:
  "parse_iso_date (today_local 1709202600000000000 (new_calendar 330)) = Some 19782
   \<and> calendar_entry_allowed 1709202600000000000 (new_calendar 330) \<noteq> Inr ()"
proof -
  have d: "local_day 1709202600000000000 (new_calendar 330) = 19782"
    by (simp add: local_day_def new_calendar_def ns_per_minute_def ns_per_day_def)
  show ?thesis
    using calendar_gate_exact [of 1709202600000000000 "new_calendar 330"]
    by (simp add: d civil_examples(2)) (simp add: new_calendar_def)
qed

text \<open>The cache across a restart: after a refresh that succeeded, a new process that loads the cache of
  that day has the same calendar and passes the freshness gate for the rest of the day; a refresh that
  failed leaves the calendar in memory as it was and touches no other day's cache.\<close>

lemma refresh_then_reload:
  assumes "calendar_refresh lib fetched cio now cache tc = (r, cache', tc')"
  shows "r = Inr () \<Longrightarrow> load_cached_for lib True (today_local now tc) cache' (new_calendar (tc_tz_offset_minutes tc)) = (Inr (), tc')
      \<and> calendar_is_fresh now tc'"
    and "r \<noteq> Inr () \<Longrightarrow> tc' = tc"
    and "d \<noteq> today_local now tc \<Longrightarrow> cache' d = cache d"
  using assms
  by (auto simp: calendar_refresh_def load_cached_for_def calendar_ingest_def calendar_is_fresh_def require_fresh_def
      new_calendar_def today_local_def local_now_eq local_day_def Let_def split: sum.splits if_splits option.splits)

end
