(* ===== verification/Engine.thy ===== *)
theory Engine
  imports Risk Modes Broker_Reason Price_Band Margin_Safety Trading_Calendar
begin

text \<open>
  \<^verbatim>\<open>composition/engine_assembly.cpp\<close>: the composition root.  It refuses to build an engine whose safety
  inputs are missing, and it runs an order through every stage in order: engine mode, posture (with the
  kill switch as its floor), session, instrument, risk limits, margin quote, validation gate, price
  band, buffered margin.  Exits and modifies take a shorter chain.

  A dependency the builder may find missing is an option: a null pointer or an empty \<^verbatim>\<open>std::function\<close> is
  \<open>None\<close>.  What the injected sources answer on a call is a field of the dependencies; the two readings of
  the funds view during one entry (the broker's answer and the clock) are arguments, and the view is
  threaded through.
\<close>

section \<open>Dependencies, options, outcomes\<close>

datatype engine_mode = EntryCapable | ExitOnlyEngine

fun engine_mode_to_string :: "engine_mode \<Rightarrow> string" where
  "engine_mode_to_string EntryCapable = ''EntryCapable''"
| "engine_mode_to_string ExitOnlyEngine = ''ExitOnly''"

record session_snapshot =
  ss_state :: session_state
  ss_last_broker_error :: string

text \<open>The posture coordinator and the risk engine have no state of their own.\<close>

record engine_deps =
  ed_kill_state :: "kill_state option"
  ed_posture :: "unit option"
  ed_detector_signals :: "detector_signal list option"
  ed_session :: "session_snapshot option"
  ed_funds_view :: "unit option"
  ed_calendar :: "trading_calendar option"
  ed_risk_engine :: "unit option"
  ed_unknown_pause :: "bool option"
  ed_duplicate_probe :: "(order_intent \<Rightarrow> bool result) option"
  ed_margin_inputs :: "(order_intent \<Rightarrow> margin_inputs result) option"
  ed_hedge_check :: "(order_intent \<Rightarrow> unit result) option"
  ed_is_reducing :: "(order_intent \<Rightarrow> bool) option"

record engine_options =
  eo_mode :: engine_mode
  eo_allowed_exchanges :: "string list"
  eo_allowed_products :: "product_kind list"
  eo_slice_mode :: bool
  eo_margin_config :: margin_safety_config
  eo_risk_gates_exits :: bool
  eo_declares_no_hedge_check :: bool
  eo_declares_no_risk_limits :: bool
  eo_block_entry_on_unknown_band :: bool

record preflight_inputs =
  pi_instrument :: instrument
  pi_band :: price_band
  pi_risk_limits :: risk_limits
  pi_risk_state :: risk_state

record modify_context =
  mx_current_state :: order_modify_state
  mx_observed_filled_qty :: int64

record preflight_outcome =
  po_gate_outcome :: gate_outcome
  po_session_alert :: bool
  po_band_checked :: bool
  po_band :: band_check_result
  po_band_unvalidated :: bool
  po_exit_clamped :: bool
  po_margin_checked :: bool
  po_margin :: margin_safety_result
  po_modify_checked :: bool
  po_modify :: modify_result

definition no_margin :: margin_safety_result where
  "no_margin = \<lparr>mr_verdict = InsufficientBlocked, mr_blocked = True, mr_base_required = Money 0,
     mr_effective_required = Money 0, mr_used_worst_case = False, mr_boundary_flagged = False, mr_detail = []\<rparr>"

definition no_modify :: modify_result where
  "no_modify = \<lparr>mo_verdict = RejectNotModifiable, mo_allowed = False, mo_detail = []\<rparr>"

definition empty_outcome :: preflight_outcome where
  "empty_outcome = \<lparr>po_gate_outcome = Allow, po_session_alert = False, po_band_checked = False,
     po_band = band_result BandUnknown False [], po_band_unvalidated = False, po_exit_clamped = False,
     po_margin_checked = False, po_margin = no_margin, po_modify_checked = False, po_modify = no_modify\<rparr>"

datatype stage = KEngineMode | KExitClass | KPosture | KSession | KInstrument | KRiskLimits | KDuplicateProbe
  | KGate | KPriceBand | KMargin | KModifyGuard

fun stage_name :: "stage \<Rightarrow> string" where
  "stage_name KEngineMode = ''engine-mode''"
| "stage_name KExitClass = ''exit-class''"
| "stage_name KPosture = ''posture''"
| "stage_name KSession = ''session''"
| "stage_name KInstrument = ''instrument''"
| "stage_name KRiskLimits = ''risk-limits''"
| "stage_name KDuplicateProbe = ''duplicate-probe''"
| "stage_name KGate = ''gate''"
| "stage_name KPriceBand = ''price-band''"
| "stage_name KMargin = ''margin''"
| "stage_name KModifyGuard = ''modify-guard''"

record stage_result =
  sr_stage :: stage
  sr_result :: "preflight_outcome result"

section \<open>Errors of the composition\<close>

definition wiring_error :: "string \<Rightarrow> error" where
  "wiring_error message = (make_error Validation message []) \<lparr>err_action := DoNotRetry\<rparr>"

definition staged :: "stage \<Rightarrow> error \<Rightarrow> error" where
  "staged st inner = inner \<lparr>err_message := ''preflight['' @ stage_name st @ '']: '' @ err_message inner\<rparr>"

definition stage_error :: "stage \<Rightarrow> error_category \<Rightarrow> suggested_action \<Rightarrow> string \<Rightarrow> error" where
  "stage_error st category action detail =
     (make_error category (''preflight['' @ stage_name st @ '']: '' @ detail) []) \<lparr>err_action := action\<rparr>"

definition failed :: "stage \<Rightarrow> error \<Rightarrow> stage_result" where
  "failed st e = \<lparr>sr_stage = st, sr_result = Inl e\<rparr>"

definition passed :: "stage \<Rightarrow> preflight_outcome \<Rightarrow> stage_result" where
  "passed st outcome = \<lparr>sr_stage = st, sr_result = Inr outcome\<rparr>"

fun rejection_for :: "modify_verdict \<Rightarrow> error_category \<times> suggested_action" where
  "rejection_for RejectQtyOnPartial = (RiskRejected, DoNotRetry)"
| "rejection_for RejectShrinkBelowFilled = (RiskRejected, DoNotRetry)"
| "rejection_for RejectTerminal = (OrderNotFound, ReconcileFirst)"
| "rejection_for RejectRacedFill = (Validation, ReconcileFirst)"
| "rejection_for RejectNotModifiable = (Validation, ReconcileFirst)"
| "rejection_for AllowModify = (Validation, ReconcileFirst)"

definition any_risk_limit_armed :: "risk_limits \<Rightarrow> bool" where
  "any_risk_limit_armed l \<longleftrightarrow>
     rl_daily_loss_limit_paise l \<noteq> 0 \<or> rl_max_open_positions l \<noteq> 0 \<or> rl_max_account_margin_paise l \<noteq> 0
     \<or> rl_max_order_value_paise l \<noteq> 0 \<or> rl_block_market_orders l \<or> rl_max_slippage_bps l \<noteq> 0
     \<or> rl_max_lots_per_strategy l \<noteq> 0 \<or> rl_max_lots_per_instrument l \<noteq> 0
     \<or> rl_strategy_daily_loss_limit_paise l \<noteq> 0"

definition apply_clamp :: "order_intent \<Rightarrow> preflight_outcome \<Rightarrow> bool \<times> order_intent" where
  "apply_clamp i outcome =
     (if \<not> po_band_checked outcome then (False, i)
      else
        let b = po_band outcome;
            i = (if br_has_suggestion b then i \<lparr>oi_price := Price (money_paise (br_suggested_limit b))\<rparr> else i);
            i = (if br_has_trigger_suggestion b
                 then i \<lparr>oi_trigger_price := Some (Price (money_paise (br_suggested_trigger b)))\<rparr> else i)
        in (br_has_suggestion b \<or> br_has_trigger_suggestion b, i))"

section \<open>The builder\<close>

text \<open>The first missing input, in the order of the checks.\<close>

definition make_engine :: "engine_deps \<Rightarrow> engine_options \<Rightarrow> (engine_deps \<times> engine_options) result" where
  "make_engine deps opts =
     (if ed_kill_state deps = None
      then Inl (wiring_error (''composition: EngineDeps::kill_state is required in every mode (modes::KillState gates entries via Ga''
           @ ''teContext::kill_entry_block AND supplies the posture operator_floor ''
           @ em_dash
           @ '' without it a Panic kill would resolve to a Normal posture)''))
      else if ed_posture deps = None
      then Inl (wiring_error (''composition: EngineDeps::posture is required in every mode (modes::PostureCoordinator is the single ''
           @ ''degradation-posture authority; without it no detector failure could ever block an entry or route an ''
           @ ''exit to the emergency engine)''))
      else if ed_detector_signals deps = None
      then Inl (wiring_error (''composition: EngineDeps::detector_signals is required in every mode (the posture signal source; an a''
           @ ''bsent source would resolve every posture from the operator floor alone, so a stale feed, a mute sock''
           @ ''et, a clock stall or a reconcile mismatch would all read as Normal)''))
      else if ed_session deps = None
      then Inl (wiring_error (''composition: EngineDeps::session is required in every mode (the mid-session re-auth state; an absent''
           @ '' source would silently pass entries against a token that died DURING the session)''))
      else if eo_mode opts = EntryCapable \<and> ed_funds_view deps = None
      then Inl (wiring_error (''composition: EngineDeps::funds_view is required for an EntryCapable engine (risk::FundsView supplies''
           @ '' GateContext::funds_check via make_funds_check, and the FRESH available-margin figure the buffered m''
           @ ''arginsafety stage is tested against; an ABSENT funds_check is treated by the gate as PASS, so entrie''
           @ ''s would be sized against nothing)''))
      else if eo_mode opts = EntryCapable \<and> ed_calendar deps = None
      then Inl (wiring_error (''composition: EngineDeps::calendar is required for an EntryCapable engine (refdata::TradingCalendar i''
           @ ''s the gate''
           @ [CHR 0x27]
           @ ''s entry time-window authority; a NULL calendar makes the gate SKIP the time-window check entirely, s''
           @ ''o entries would be admitted on a holiday, before open, or past the entry cutoff)''))
      else if eo_mode opts = EntryCapable \<and> ed_risk_engine deps = None
      then Inl (wiring_error (''composition: EngineDeps::risk_engine is required for an EntryCapable engine (risk::RiskEngine suppli''
           @ ''es GateContext::risk_check via make_risk_check; an EMPTY risk_check is treated by the gate as PASS, ''
           @ ''so every account/strategy/instrument/order limit would be unenforced)''))
      else if eo_mode opts = EntryCapable \<and> ed_unknown_pause deps = None
      then Inl (wiring_error (''composition: EngineDeps::unknown_pause is required for an EntryCapable engine (the runtime''
           @ [CHR 0x27]
           @ ''s UNKNOWN-pause flag; it defaults to false on GateContext, so without a source entries would keep fl''
           @ ''owing while UNKNOWN orders are still unresolved)''))
      else if eo_mode opts = EntryCapable \<and> ed_duplicate_probe deps = None
      then Inl (wiring_error (''composition: EngineDeps::duplicate_probe is required for an EntryCapable engine (the idempotency res''
           @ ''erve probe behind GateContext::is_duplicate; an empty probe means NO duplicate is ever detected, so ''
           @ ''one strategy signal could become two live orders)''))
      else if eo_mode opts = EntryCapable \<and> ed_margin_inputs deps = None
      then Inl (wiring_error (''composition: EngineDeps::margin_inputs is required for an EntryCapable engine (the broker-reported m''
           @ ''argin figures; without them there is no requirement to buffer and the marginsafety stage would have ''
           @ ''nothing to check)''))
      else if eo_risk_gates_exits opts \<and> ed_risk_engine deps = None
      then Inl (wiring_error (''composition: EngineOptions::risk_gates_exits is set but EngineDeps::risk_engine is null ''
           @ em_dash
           @ '' the exit chain would present NO risk check to the gate, silently giving you the permissive posture ''
           @ ''you explicitly opted out of. Wire risk_engine, or leave risk_gates_exits false.''))
      else if ed_hedge_check deps = None \<and> \<not> eo_declares_no_hedge_check opts
      then Inl (wiring_error (''composition: EngineDeps::hedge_check is empty ''
           @ em_dash
           @ '' an empty hedge check makes the gate''
           @ [CHR 0x27]
           @ ''s naked-sell / hedge-completion check pass VACUOUSLY. That is correct for a long-only or cash-equity''
           @ '' book and fatal for a naked option seller, and this module cannot tell which you are. If the book ge''
           @ ''nuinely needs no hedge check, set EngineOptions::declares_no_hedge_check = true.''))
      else Inr (deps, opts))"

section \<open>Posture\<close>

definition engine_posture_of :: "engine_deps \<Rightarrow> detector_signal list \<Rightarrow> posture" where
  "engine_posture_of deps active = evaluate_posture active (kill_posture (the (ed_kill_state deps)))"

definition engine_posture :: "engine_deps \<Rightarrow> posture" where
  "engine_posture deps = engine_posture_of deps (the (ed_detector_signals deps))"

definition posture_for_strategy :: "engine_deps \<Rightarrow> string \<Rightarrow> posture" where
  "posture_for_strategy deps strategy =
     (let kills = the (ed_kill_state deps);
          operator_floor = (if blocks_strategy strategy kills then kill_posture kills else NormalPosture)
      in evaluate_posture (the (ed_detector_signals deps)) operator_floor)"

section \<open>The entry chain\<close>

text \<open>One reading of the funds view: what the broker answers if it is asked, and the clock at the three
  points where the view reads it.\<close>

record funds_reading =
  fr_fetched :: "funds_snapshot result"
  fr_now1 :: int64
  fr_now2 :: int64
  fr_now3 :: int64

definition instrument_error :: "order_intent \<Rightarrow> preflight_inputs \<Rightarrow> error" where
  "instrument_error i ctx = stage_error KInstrument Validation DoNotRetry
     (''resolved instrument '' @ Risk.quoted (ins_symbol (pi_instrument ctx)) @ '' does not match the intent''
      @ [CHR 0x27] @ ''s symbol '' @ Risk.quoted (oi_symbol i) @ '' '' @ em_dash
      @ '' lot, tick, freeze and band would all be checked against the wrong contract'')"

text \<open>The gate context of an entry.  The gate asks the duplicate probe only when neither the kill switch nor
  the pause has stopped the order; a probe that cannot answer counts as a duplicate.\<close>

definition entry_context ::
    "engine_deps \<Rightarrow> engine_options \<Rightarrow> int \<Rightarrow> unit result \<Rightarrow> order_intent \<Rightarrow> preflight_inputs \<Rightarrow> gate_context" where
  "entry_context deps opts now_wall funds i ctx =
     (let st = pi_risk_state ctx;
          st = st \<lparr>rk_is_entry := True,
                   rk_order_value_known := (rk_order_value_known st \<and> rk_order_value_paise st > 0)\<rparr>
      in \<lparr>gc_intent = i, gc_instrument = pi_instrument ctx, gc_is_risk_reducing = False,
          gc_kill_entry_block = blocks_strategy (oi_strategy i) (the (ed_kill_state deps)),
          gc_unknown_pause_active = the (ed_unknown_pause deps),
          gc_is_duplicate = Some (case the (ed_duplicate_probe deps) i of Inl _ \<Rightarrow> True | Inr b \<Rightarrow> b),
          gc_calendar = Some (calendar_entry_allowed now_wall (the (ed_calendar deps))),
          gc_funds_check = Some funds,
          gc_risk_check = Some (make_risk_check i (pi_risk_limits ctx) st),
          gc_hedge_check = (case ed_hedge_check deps of None \<Rightarrow> None | Some h \<Rightarrow> Some (h i)),
          gc_allowed_exchanges = eo_allowed_exchanges opts, gc_allowed_products = eo_allowed_products opts,
          gc_slice_mode = eo_slice_mode opts\<rparr>)"

definition probe_error :: "engine_deps \<Rightarrow> order_intent \<Rightarrow> error option" where
  "probe_error deps i =
     (if blocks_strategy (oi_strategy i) (the (ed_kill_state deps)) \<or> the (ed_unknown_pause deps) then None
      else case the (ed_duplicate_probe deps) i of Inl e \<Rightarrow> Some e | Inr _ \<Rightarrow> None)"

text \<open>The gate runs the funds check only when every earlier check has passed: then the view is read.\<close>

definition gate_reads_funds :: "gate_context \<Rightarrow> bool" where
  "gate_reads_funds g = (case validate (g \<lparr>gc_funds_check := None, gc_risk_check := None, gc_hedge_check := None\<rparr>) of
     Inl _ \<Rightarrow> False | Inr _ \<Rightarrow> True)"

definition entry_after_gate ::
    "engine_options \<Rightarrow> funds_reading \<Rightarrow> margin_inputs \<Rightarrow> order_intent \<Rightarrow> preflight_inputs \<Rightarrow> preflight_outcome
     \<Rightarrow> funds_view \<Rightarrow> stage_result \<times> funds_view" where
  "entry_after_gate opts fr margin i ctx outcome view =
     (let band = check_price_band i (pi_band ctx) False;
          unvalidated = (br_verdict band = BandUnknown);
          outcome = outcome \<lparr>po_band_checked := True, po_band := band, po_band_unvalidated := unvalidated\<rparr>
      in if br_blocked band
         then (case require_band_ok i (pi_band ctx) False of
                 Inl e \<Rightarrow> (failed KPriceBand (staged KPriceBand e), view)
               | Inr _ \<Rightarrow> (failed KPriceBand (stage_error KPriceBand Validation DoNotRetry
                    (''entry is out of band (verdict '' @ band_verdict_to_string (br_verdict band) @ '')'')), view))
         else if eo_block_entry_on_unknown_band opts \<and> unvalidated
         then (failed KPriceBand (stage_error KPriceBand DataStale BlockStrategy
                 (''the circuit/LPP band is unavailable or malformed and this engine is configured to refuse UNVALIDATED ''
                  @ ''entry prices (EngineOptions::block_entry_on_unknown_band)'')), view)
         else case ensure_fresh (fr_fetched fr) (fr_now1 fr) (fr_now2 fr) (fr_now3 fr) view of
                (Inl e, view) \<Rightarrow> (failed KMargin (staged KMargin e), view)
              | (Inr f, view) \<Rightarrow>
                  let m = evaluate_margin (margin \<lparr>mi_available := fs_available_margin f\<rparr>) (eo_margin_config opts)
                  in case require_margin_ok m of
                       Inl e \<Rightarrow> (failed KMargin (staged KMargin e), view)
                     | Inr _ \<Rightarrow> (passed KMargin (outcome \<lparr>po_margin_checked := True, po_margin := m\<rparr>), view))"

definition entry_gate ::
    "engine_deps \<Rightarrow> engine_options \<Rightarrow> int \<Rightarrow> funds_reading \<Rightarrow> funds_reading \<Rightarrow> margin_inputs \<Rightarrow> order_intent
     \<Rightarrow> preflight_inputs \<Rightarrow> preflight_outcome \<Rightarrow> funds_view \<Rightarrow> stage_result \<times> funds_view" where
  "entry_gate deps opts now_wall fr1 fr2 margin i ctx outcome view =
     (let required = money_paise (mi_api_required margin);
          checked = check_margin (fr_fetched fr1) (fr_now1 fr1) (fr_now2 fr1) (fr_now3 fr1) required view;
          g = entry_context deps opts now_wall (fst checked) i ctx;
          view = (if gate_reads_funds g then snd checked else view);
          gated = validate g
      in case probe_error deps i of
           Some e \<Rightarrow> (failed KDuplicateProbe (staged KDuplicateProbe e), view)
         | None \<Rightarrow>
           case gated of
             Inl e \<Rightarrow> (failed KGate (staged KGate e), view)
           | Inr go \<Rightarrow> entry_after_gate opts fr2 margin i ctx (outcome \<lparr>po_gate_outcome := go\<rparr>) view)"

definition preflight_entry ::
    "engine_deps \<Rightarrow> engine_options \<Rightarrow> int \<Rightarrow> funds_reading \<Rightarrow> funds_reading \<Rightarrow> order_intent \<Rightarrow> preflight_inputs
     \<Rightarrow> funds_view \<Rightarrow> stage_result \<times> funds_view" where
  "preflight_entry deps opts now_wall fr1 fr2 i ctx view =
     (if eo_mode opts \<noteq> EntryCapable
      then (failed KEngineMode (stage_error KEngineMode NotSupported DoNotRetry
              (''this assembly was composed as '' @ engine_mode_to_string (eo_mode opts)
               @ '' and has no entry pipeline (it was permitted to build without a funds view, calendar or risk ''
               @ ''engine); it can never place an entry'')), view)
      else case require_entry_allowed (posture_for_strategy deps (oi_strategy i)) of
        Inl e \<Rightarrow> (failed KPosture (staged KPosture e), view)
      | Inr _ \<Rightarrow>
        let snap = the (ed_session deps); sp = assess_session (ss_state snap) (ss_last_broker_error snap);
            outcome = empty_outcome \<lparr>po_session_alert := sp_alert sp\<rparr>
        in case require_session_op_allowed sp EntryClass of
          Inl e \<Rightarrow> (failed KSession (staged KSession e), view)
        | Inr _ \<Rightarrow>
          if oi_symbol i \<noteq> ins_symbol (pi_instrument ctx)
          then (failed KInstrument (instrument_error i ctx), view)
          else if \<not> eo_declares_no_risk_limits opts \<and> \<not> any_risk_limit_armed (pi_risk_limits ctx)
          then (failed KRiskLimits (stage_error KRiskLimits Validation DoNotRetry
                  (''PreflightInputs::risk_limits arms NOTHING (every field is at its ''
           @ [CHR 0x27]
           @ ''off''
           @ [CHR 0x27]
           @ '' sentinel), so the risk check would be handed to the gate and pass for every order at every size and''
           @ '' every loss. If this component''
           @ [CHR 0x27]
           @ ''s risk is genuinely enforced upstream, set EngineOptions::declares_no_risk_limits = true.'')), view)
          else case the (ed_margin_inputs deps) i of
            Inl e \<Rightarrow> (failed KMargin (stage_error KMargin DataStale BlockStrategy
                        (''the broker margin quote could not be obtained ('' @ error_category_to_string (err_category e)
                         @ '': '' @ err_message e @ '')'')), view)
          | Inr margin \<Rightarrow>
            if money_paise (mi_api_required margin) \<le> 0
            then (failed KMargin (stage_error KMargin DataStale BlockStrategy
                    (''margin quote absent or non-positive (api_required '' @ money_to_string (mi_api_required margin)
                     @ '') '' @ em_dash @ '' a zero requirement would pass the funds check against any balance; ''
                     @ ''refusing rather than sizing an entry against nothing'')), view)
            else entry_gate deps opts now_wall fr1 fr2 margin i ctx outcome view)"

section \<open>The exit and modify chains\<close>

definition exit_context :: "engine_deps \<Rightarrow> engine_options \<Rightarrow> order_intent \<Rightarrow> preflight_inputs \<Rightarrow> gate_context" where
  "exit_context deps opts i ctx =
     (let st = pi_risk_state ctx;
          st = st \<lparr>rk_is_entry := False,
                   rk_order_value_known := (rk_order_value_known st \<and> rk_order_value_paise st > 0)\<rparr>
      in \<lparr>gc_intent = i, gc_instrument = pi_instrument ctx, gc_is_risk_reducing = True,
          gc_kill_entry_block = False, gc_unknown_pause_active = False, gc_is_duplicate = None,
          gc_calendar = None, gc_funds_check = None,
          gc_risk_check = (if eo_risk_gates_exits opts then Some (make_risk_check i (pi_risk_limits ctx) st) else None),
          gc_hedge_check = (case ed_hedge_check deps of None \<Rightarrow> None | Some h \<Rightarrow> Some (h i)),
          gc_allowed_exchanges = eo_allowed_exchanges opts, gc_allowed_products = eo_allowed_products opts,
          gc_slice_mode = eo_slice_mode opts\<rparr>)"

definition exit_chain ::
    "engine_deps \<Rightarrow> engine_options \<Rightarrow> order_intent \<Rightarrow> preflight_inputs \<Rightarrow> preflight_outcome \<Rightarrow> stage_result" where
  "exit_chain deps opts i ctx outcome =
     (let posture = posture_for_strategy deps (oi_strategy i) in
      if \<not> allows_risk_reducing_exits posture
      then failed KPosture (stage_error KPosture RiskRejected SquareOff
             (''posture '' @ posture_to_string posture @ '' closes the normal exit gate; the emergency engine drives the ''
              @ ''cancel + square-off OUT OF BAND''))
      else
        let snap = the (ed_session deps); sp = assess_session (ss_state snap) (ss_last_broker_error snap);
            outcome = outcome \<lparr>po_session_alert := sp_alert sp\<rparr>
        in case require_session_op_allowed sp ExitClass of
          Inl e \<Rightarrow> failed KSession (staged KSession e)
        | Inr _ \<Rightarrow>
          if oi_symbol i \<noteq> ins_symbol (pi_instrument ctx) then failed KInstrument (instrument_error i ctx)
          else case validate (exit_context deps opts i ctx) of
               Inl e \<Rightarrow> failed KGate (staged KGate e)
             | Inr go \<Rightarrow>
                 let band = check_price_band i (pi_band ctx) True in
                 passed KPriceBand (outcome \<lparr>po_gate_outcome := go, po_band_checked := True, po_band := band,
                   po_band_unvalidated := (br_verdict band = BandUnknown),
                   po_exit_clamped := (br_has_suggestion band \<or> br_has_trigger_suggestion band)\<rparr>))"

definition preflight_exit :: "engine_deps \<Rightarrow> engine_options \<Rightarrow> order_intent \<Rightarrow> preflight_inputs \<Rightarrow> stage_result" where
  "preflight_exit deps opts i ctx =
     (case ed_is_reducing deps of
        Some f \<Rightarrow>
          if \<not> f i
          then failed KExitClass (stage_error KExitClass Validation DoNotRetry
                 (''preflight_exit was called for an intent that does NOT reduce exposure. The exit chain waives the ''
                  @ ''duplicate, UNKNOWN-pause, entry-cutoff, funds and margin stages and clamps instead of blocking ''
                  @ ''out of band; an opening order must go through preflight_entry''))
          else exit_chain deps opts i ctx empty_outcome
      | None \<Rightarrow> exit_chain deps opts i ctx empty_outcome)"

definition preflight_modify ::
    "engine_deps \<Rightarrow> engine_options \<Rightarrow> order_intent \<Rightarrow> order_intent \<Rightarrow> modify_context \<Rightarrow> preflight_inputs \<Rightarrow> stage_result" where
  "preflight_modify deps opts current amended mctx ctx =
     (let m = evaluate_modify (mx_current_state mctx) (make_modify_request current amended) (mx_observed_filled_qty mctx);
          outcome = empty_outcome \<lparr>po_modify_checked := True, po_modify := m\<rparr>
      in if \<not> mo_allowed m
         then case rejection_for (mo_verdict m) of (category, action) \<Rightarrow>
                failed KModifyGuard (stage_error KModifyGuard category action
                  (modify_verdict_to_string (mo_verdict m) @ '': '' @ mo_detail m))
         else exit_chain deps opts amended ctx outcome)"

section \<open>What the builder guarantees\<close>

lemma make_engine_ok:
  "make_engine deps opts = Inr e \<longleftrightarrow>
     (deps, opts) = e \<and> ed_kill_state deps \<noteq> None \<and> ed_posture deps \<noteq> None \<and> ed_detector_signals deps \<noteq> None
     \<and> ed_session deps \<noteq> None
     \<and> (eo_mode opts = EntryCapable \<longrightarrow> ed_funds_view deps \<noteq> None \<and> ed_calendar deps \<noteq> None \<and> ed_risk_engine deps \<noteq> None
          \<and> ed_unknown_pause deps \<noteq> None \<and> ed_duplicate_probe deps \<noteq> None \<and> ed_margin_inputs deps \<noteq> None)
     \<and> (eo_risk_gates_exits opts \<longrightarrow> ed_risk_engine deps \<noteq> None)
     \<and> (ed_hedge_check deps = None \<longrightarrow> eo_declares_no_hedge_check opts)"
  unfolding make_engine_def if_Inl_Inr sum.inject by argo

section \<open>Admission of an entry\<close>

lemma sr_result_simps [simp]:
  "sr_result (failed st e) = Inl e" "sr_result (passed st out) = Inr out"
  by (simp_all add: failed_def passed_def)

lemma case_Inl_Inr:
  "sr_result (fst (case x of Inl e \<Rightarrow> (failed (st e) (f e), v) | Inr y \<Rightarrow> g y)) = Inr out \<longleftrightarrow>
     (\<exists>y. x = Inr y \<and> sr_result (fst (g y)) = Inr out)"
  by (cases x) auto

lemma if_failed: "sr_result (fst (if c then (failed st e, v) else x)) = Inr out \<longleftrightarrow> \<not> c \<and> sr_result (fst x) = Inr out"
  by simp

lemma require_entry_allowed_Inr: "require_entry_allowed p = Inr u \<longleftrightarrow> p = NormalPosture"
  by (simp add: require_entry_allowed_def)

lemma posture_for_strategy_Normal:
  "posture_for_strategy deps s = NormalPosture \<longleftrightarrow>
     the (ed_detector_signals deps) = [] \<and> \<not> blocks_strategy s (the (ed_kill_state deps))"
proof -
  have "blocks_strategy s k \<Longrightarrow> kill_posture k \<noteq> NormalPosture" for k
    by (auto simp: blocks_strategy_def kill_posture_def any_active_def)
  then show ?thesis by (auto simp: posture_for_strategy_def Let_def evaluate_posture_Normal)
qed

lemma posture_for_strategy_exits:
  "allows_risk_reducing_exits (posture_for_strategy deps s) \<longleftrightarrow> \<not> panic_active (the (ed_kill_state deps))"
proof -
  have "panic_active k \<Longrightarrow> blocks_strategy s k" for k
    by (force simp: panic_active_def blocks_strategy_def is_broad_def)
  then show ?thesis
    by (auto simp: posture_for_strategy_def Let_def allows_risk_reducing_exits_def evaluate_posture_Panic kill_posture_def)
qed

lemma entry_after_gate_ok:
  assumes "entry_after_gate opts fr margin i ctx outcome view = (r, view')" "sr_result r = Inr out"
  shows "(band_usable (pi_band ctx) \<longrightarrow> prices_in_band i (pi_band ctx))
    \<and> (\<not> band_usable (pi_band ctx) \<longrightarrow> \<not> eo_block_entry_on_unknown_band opts)
    \<and> (\<exists>f. ensure_fresh (fr_fetched fr) (fr_now1 fr) (fr_now2 fr) (fr_now3 fr) view = (Inr f, view')
         \<and> mr_effective_required (evaluate_margin (margin \<lparr>mi_available := fs_available_margin f\<rparr>) (eo_margin_config opts))
             \<le> fs_available_margin f)
    \<and> po_gate_outcome out = po_gate_outcome outcome"
proof -
  let ?b = "check_price_band i (pi_band ctx) False"
  have nb: "\<not> br_blocked ?b" using assms by (auto simp: entry_after_gate_def Let_def split: if_splits sum.splits)
  then have nu: "\<not> (eo_block_entry_on_unknown_band opts \<and> br_verdict ?b = BandUnknown)"
    using assms by (auto simp: entry_after_gate_def Let_def split: if_splits)
  obtain f v where f: "ensure_fresh (fr_fetched fr) (fr_now1 fr) (fr_now2 fr) (fr_now3 fr) view = (f, v)" by fastforce
  have "(\<exists>x. f = Inr x \<and> v = view' \<and> require_margin_ok (evaluate_margin (margin \<lparr>mi_available := fs_available_margin x\<rparr>) (eo_margin_config opts)) = Inr ())
      \<and> po_gate_outcome out = po_gate_outcome outcome"
    using assms nb nu f by (auto simp: entry_after_gate_def Let_def split: sum.splits)
  then show ?thesis using nb nu f unfolding require_margin_ok_iff
    by (auto simp: band_blocked_iff band_unknown_iff less_eq_money_def)
qed

lemma entry_context_sel [simp]:
  "gc_intent (entry_context deps opts now funds i ctx) = i"
  "gc_instrument (entry_context deps opts now funds i ctx) = pi_instrument ctx"
  "gc_is_risk_reducing (entry_context deps opts now funds i ctx) = False"
  "gc_kill_entry_block (entry_context deps opts now funds i ctx) = blocks_strategy (oi_strategy i) (the (ed_kill_state deps))"
  "gc_unknown_pause_active (entry_context deps opts now funds i ctx) = the (ed_unknown_pause deps)"
  "gc_is_duplicate (entry_context deps opts now funds i ctx) = Some (case the (ed_duplicate_probe deps) i of Inl _ \<Rightarrow> True | Inr b \<Rightarrow> b)"
  "gc_calendar (entry_context deps opts now funds i ctx) = Some (calendar_entry_allowed now (the (ed_calendar deps)))"
  "gc_funds_check (entry_context deps opts now funds i ctx) = Some funds"
  "gc_hedge_check (entry_context deps opts now funds i ctx) = map_option (\<lambda>h. h i) (ed_hedge_check deps)"
  by (simp_all add: entry_context_def Let_def map_option_case)

lemma passes_Some: "passes (Some r) \<longleftrightarrow> r = Inr ()"
  by (cases r) (auto simp: passes_def)

text \<open>The risk state the engine presents for an entry.\<close>

definition entry_risk_state :: "preflight_inputs \<Rightarrow> risk_state" where
  "entry_risk_state ctx = (let st = pi_risk_state ctx in
     st \<lparr>rk_is_entry := True, rk_order_value_known := (rk_order_value_known st \<and> rk_order_value_paise st > 0)\<rparr>)"

lemma entry_gate_ok:
  assumes "validate (entry_context deps opts now funds i ctx) = Inr go"
  shows "shape_ok (entry_context deps opts now funds i ctx) \<and> \<not> blocks_strategy (oi_strategy i) (the (ed_kill_state deps))
    \<and> \<not> the (ed_unknown_pause deps) \<and> the (ed_duplicate_probe deps) i = Inr False
    \<and> in_entry_window now (the (ed_calendar deps)) \<and> funds = Inr ()
    \<and> make_risk_check i (pi_risk_limits ctx) (entry_risk_state ctx) = Inr ()
    \<and> passes (map_option (\<lambda>h. h i) (ed_hedge_check deps))"
proof -
  let ?g = "entry_context deps opts now funds i ctx"
  have g: "shape_ok ?g \<and> passes (gc_risk_check ?g) \<and> passes (gc_hedge_check ?g) \<and> entry_ok ?g"
    using assms validate_Inr [of ?g go] by simp
  moreover have "gc_risk_check ?g = Some (make_risk_check i (pi_risk_limits ctx) (entry_risk_state ctx))"
    by (simp add: entry_context_def entry_risk_state_def Let_def)
  moreover have "(case the (ed_duplicate_probe deps) i of Inl _ \<Rightarrow> True | Inr b \<Rightarrow> b) = False
      \<longleftrightarrow> the (ed_duplicate_probe deps) i = Inr False"
    by (cases "the (ed_duplicate_probe deps) i") auto
  ultimately have "make_risk_check i (pi_risk_limits ctx) (entry_risk_state ctx) = Inr ()
    \<and> \<not> blocks_strategy (oi_strategy i) (the (ed_kill_state deps)) \<and> \<not> the (ed_unknown_pause deps)
    \<and> the (ed_duplicate_probe deps) i = Inr False \<and> in_entry_window now (the (ed_calendar deps)) \<and> funds = Inr ()"
    by (simp add: entry_ok_def passes_Some calendar_entry_allowed_iff)
  moreover have "shape_ok ?g" "passes (map_option (\<lambda>h. h i) (ed_hedge_check deps))" using g by simp_all
  ultimately show ?thesis by blast
qed

text \<open>C28. An entry that the engine lets through has passed every check there is, each against a real input.
  In an engine the builder accepted: no detector is firing and no kill covers the strategy; the session
  is healthy and the last broker error does not say otherwise; the reference data is the order's own;
  a risk limit is armed, or the operator declared there is none; the margin quote is positive; no
  unknown order is outstanding; the duplicate probe answered that the order is new; the clock is inside
  the entry window of a trading day; the funds check, the risk check (as an entry, whatever the caller
  said) and the hedge check passed; the order has the right shape; its prices are inside the band
  whenever the band is known; and the funds read last cover the buffered requirement.\<close>

theorem admitted_entry_passed_every_check:
  assumes built: "make_engine deps opts = Inr (deps, opts)"
    and run: "preflight_entry deps opts now fr1 fr2 i ctx view = (r, view')" "sr_result r = Inr out"
  shows "\<exists>kills cal margin f funds view1.
      ed_kill_state deps = Some kills \<and> \<not> blocks_strategy (oi_strategy i) kills
    \<and> ed_detector_signals deps = Some []
    \<and> (\<exists>err. ed_session deps = Some \<lparr>ss_state = Healthy, ss_last_broker_error = err\<rparr>
         \<and> cl_reason (classify_rejection err) \<noteq> RSessionExpired)
    \<and> oi_symbol i = ins_symbol (pi_instrument ctx)
    \<and> (any_risk_limit_armed (pi_risk_limits ctx) \<or> eo_declares_no_risk_limits opts)
    \<and> ed_unknown_pause deps = Some False
    \<and> (\<exists>probe. ed_duplicate_probe deps = Some probe \<and> probe i = Inr False)
    \<and> ed_calendar deps = Some cal \<and> in_entry_window now cal
    \<and> (\<exists>quote. ed_margin_inputs deps = Some quote \<and> quote i = Inr margin) \<and> 0 < money_paise (mi_api_required margin)
    \<and> check_margin (fr_fetched fr1) (fr_now1 fr1) (fr_now2 fr1) (fr_now3 fr1) (money_paise (mi_api_required margin)) view
        = (Inr (), funds)
    \<and> make_risk_check i (pi_risk_limits ctx) (entry_risk_state ctx) = Inr ()
    \<and> passes (map_option (\<lambda>h. h i) (ed_hedge_check deps))
    \<and> shape_ok (entry_context deps opts now (Inr ()) i ctx)
    \<and> (band_usable (pi_band ctx) \<longrightarrow> prices_in_band i (pi_band ctx))
    \<and> (\<not> band_usable (pi_band ctx) \<longrightarrow> \<not> eo_block_entry_on_unknown_band opts)
    \<and> ensure_fresh (fr_fetched fr2) (fr_now1 fr2) (fr_now2 fr2) (fr_now3 fr2) view1 = (Inr f, view')
    \<and> mr_effective_required (evaluate_margin (margin \<lparr>mi_available := fs_available_margin f\<rparr>) (eo_margin_config opts))
        \<le> fs_available_margin f"
proof -
  let ?snap = "the (ed_session deps)" and ?sp = "assess_session (ss_state (the (ed_session deps))) (ss_last_broker_error (the (ed_session deps)))"
  let ?out = "empty_outcome \<lparr>po_session_alert := sp_alert ?sp\<rparr>"
  have ok: "sr_result (fst (preflight_entry deps opts now fr1 fr2 i ctx view)) = Inr out" using run by simp
  then have s: "eo_mode opts = EntryCapable" "posture_for_strategy deps (oi_strategy i) = NormalPosture"
    "require_session_op_allowed ?sp EntryClass = Inr ()" "oi_symbol i = ins_symbol (pi_instrument ctx)"
    "any_risk_limit_armed (pi_risk_limits ctx) \<or> eo_declares_no_risk_limits opts"
    unfolding preflight_entry_def Let_def if_failed case_Inl_Inr require_entry_allowed_Inr by auto
  from ok obtain margin where m: "the (ed_margin_inputs deps) i = Inr margin" "0 < money_paise (mi_api_required margin)"
    unfolding preflight_entry_def Let_def if_failed case_Inl_Inr by auto
  have pf: "preflight_entry deps opts now fr1 fr2 i ctx view = entry_gate deps opts now fr1 fr2 margin i ctx ?out view"
    using s m by (auto simp: preflight_entry_def Let_def require_entry_allowed_def)
  obtain c v1 where c: "check_margin (fr_fetched fr1) (fr_now1 fr1) (fr_now2 fr1) (fr_now3 fr1) (money_paise (mi_api_required margin)) view = (c, v1)"
    by fastforce
  let ?g = "entry_context deps opts now c i ctx"
  obtain go view1 where g: "validate ?g = Inr go" "entry_after_gate opts fr2 margin i ctx (?out \<lparr>po_gate_outcome := go\<rparr>) view1 = (r, view')"
    using run pf c by (auto simp: entry_gate_def Let_def split: option.splits sum.splits)
  note A = entry_gate_ok [OF g(1)] and B = entry_after_gate_ok [OF g(2) run(2)]
  note W = make_engine_ok [THEN iffD1, OF built]
  have P: "the (ed_detector_signals deps) = []" using s(2) by (simp add: posture_for_strategy_Normal)
  have S: "ss_state ?snap = Healthy" "cl_reason (classify_rejection (ss_last_broker_error ?snap)) \<noteq> RSessionExpired"
    using s(3) session_entry_allowed by auto
  have cu: "c = Inr ()" using A by simp
  obtain f where f: "ensure_fresh (fr_fetched fr2) (fr_now1 fr2) (fr_now2 fr2) (fr_now3 fr2) view1 = (Inr f, view')"
    "mr_effective_required (evaluate_margin (margin \<lparr>mi_available := fs_available_margin f\<rparr>) (eo_margin_config opts)) \<le> fs_available_margin f"
    using B by blast
  have some: "x \<noteq> None \<Longrightarrow> x = Some (the x)" for x :: "'x option" by simp
  have 1: "ed_kill_state deps = Some (the (ed_kill_state deps))" "ed_detector_signals deps = Some []"
    "ed_unknown_pause deps = Some False" "ed_calendar deps = Some (the (ed_calendar deps))"
    using W s(1) P A some by (metis, metis, metis, metis)
  have 2: "\<exists>err. ed_session deps = Some \<lparr>ss_state = Healthy, ss_last_broker_error = err\<rparr>
      \<and> cl_reason (classify_rejection err) \<noteq> RSessionExpired"
    using W S by (intro exI [of _ "ss_last_broker_error ?snap"]) auto
  have 3: "\<exists>probe. ed_duplicate_probe deps = Some probe \<and> probe i = Inr False"
    "\<exists>quote. ed_margin_inputs deps = Some quote \<and> quote i = Inr margin"
    using W s(1) A m(1) some by (metis, metis)
  have 4: "shape_ok (entry_context deps opts now (Inr ()) i ctx)" "\<not> blocks_strategy (oi_strategy i) (the (ed_kill_state deps))"
    "in_entry_window now (the (ed_calendar deps))" "make_risk_check i (pi_risk_limits ctx) (entry_risk_state ctx) = Inr ()"
    "passes (map_option (\<lambda>h. h i) (ed_hedge_check deps))"
    using A unfolding cu by blast+
  have 5: "band_usable (pi_band ctx) \<longrightarrow> prices_in_band i (pi_band ctx)"
    "\<not> band_usable (pi_band ctx) \<longrightarrow> \<not> eo_block_entry_on_unknown_band opts"
    using B by blast+
  note facts = 1 2 3 4 5 s(4,5) m(2) c [unfolded cu] f
  show ?thesis
    apply (rule exI [of _ "the (ed_kill_state deps)"], rule exI [of _ "the (ed_calendar deps)"], rule exI [of _ margin],
        rule exI [of _ f], rule exI [of _ v1], rule exI [of _ view1])
    apply (intro conjI)
    apply (fact facts)+
    done
qed

text \<open>An order the whole gate accepts is also accepted without the checks that come after the calendar.\<close>

lemma validate_without_injected:
  assumes "validate g = Inr go"
  shows "validate (g \<lparr>gc_funds_check := None, gc_risk_check := None, gc_hedge_check := None\<rparr>) = Inr go"
proof -
  let ?h = "g \<lparr>gc_funds_check := None, gc_risk_check := None, gc_hedge_check := None\<rparr>"
  have "shape_ok ?h = shape_ok g" by (simp add: shape_ok_def)
  moreover have "entry_ok g \<Longrightarrow> entry_ok ?h" by (simp add: entry_ok_def passes_def)
  ultimately show ?thesis using assms unfolding validate_Inr by (auto simp: passes_def)
qed

section \<open>A concrete engine\<close>

definition sample_calendar :: trading_calendar where
  "sample_calendar = (new_calendar 330) \<lparr>tc_calendar := \<lparr>cal_holidays = {}, cal_special_sessions = {}, cal_open_min = 555,
     cal_entry_cutoff_min = 1000, cal_square_off_min = 1010, cal_close_min = 1020\<rparr>, tc_loaded := True\<rparr>"

definition sample_deps :: engine_deps where
  "sample_deps = \<lparr>ed_kill_state = Some [], ed_posture = Some (), ed_detector_signals = Some [],
     ed_session = Some \<lparr>ss_state = Healthy, ss_last_broker_error = []\<rparr>, ed_funds_view = Some (),
     ed_calendar = Some sample_calendar, ed_risk_engine = Some (), ed_unknown_pause = Some False,
     ed_duplicate_probe = Some (\<lambda>_. Inr False),
     ed_margin_inputs = Some (\<lambda>_. Inr \<lparr>mi_api_required = Money 100000, mi_summed_leg_margin = Money 0, mi_available = Money 0,
        mi_is_multi_leg = False, mi_benefit_trusted = True\<rparr>),
     ed_hedge_check = None, ed_is_reducing = None\<rparr>"

definition sample_options :: engine_options where
  "sample_options = \<lparr>eo_mode = EntryCapable, eo_allowed_exchanges = [], eo_allowed_products = [], eo_slice_mode = True,
     eo_margin_config = \<lparr>mc_buffer_bps = 500, mc_flat_buffer = Money 0\<rparr>, eo_risk_gates_exits = False,
     eo_declares_no_hedge_check = True, eo_declares_no_risk_limits = False, eo_block_entry_on_unknown_band = False\<rparr>"

definition sample_instrument :: instrument where
  "sample_instrument = \<lparr>ins_symbol = ''NIFTY'', ins_token = 1, ins_exchange = ''NFO'', ins_lot_size = Quantity 50,
     ins_tick_size = Price 5, ins_freeze_qty = Quantity 1800, ins_expiry = []\<rparr>"

definition sample_inputs :: preflight_inputs where
  "sample_inputs = \<lparr>pi_instrument = sample_instrument,
     pi_band = \<lparr>pb_lower = Money 9003, pb_upper = Money 11002, pb_known = True\<rparr>,
     pi_risk_limits = \<lparr>rl_daily_loss_limit_paise = 0, rl_max_open_positions = 5, rl_max_account_margin_paise = 0,
        rl_max_order_value_paise = 0, rl_block_market_orders = False, rl_max_slippage_bps = 0, rl_max_lots_per_strategy = 0,
        rl_max_lots_per_instrument = 0, rl_strategy_daily_loss_limit_paise = 0\<rparr>,
     pi_risk_state = \<lparr>rk_account_pnl_paise = 0, rk_open_positions = 0, rk_used_margin_paise = 0, rk_order_value_paise = 500000,
        rk_order_value_known = True, rk_order_lots = 1, rk_slippage_bps = 0, rk_is_entry = False, rk_strategy_lots = 0,
        rk_strategy_pnl_paise = 0, rk_strategy_enabled = True, rk_instrument_lots = 0, rk_data_tradable = True\<rparr>\<rparr>"

definition sample_order :: "int64 \<Rightarrow> int64 \<Rightarrow> order_intent" where
  "sample_order qty limit = \<lparr>oi_client_ref = ''s-1'', oi_symbol = ''NIFTY'', oi_side = Sell, oi_quantity = Quantity qty,
     oi_price = Price limit, oi_trigger_price = None, oi_order_type = Limit, oi_product = Intraday, oi_strategy = ''alpha''\<rparr>"

definition sample_funds :: funds_reading where
  "sample_funds = \<lparr>fr_fetched = Inr \<lparr>fs_available_margin = Money 105000, fs_used_margin = Money 0\<rparr>,
     fr_now1 = 10, fr_now2 = 20, fr_now3 = 30\<rparr>"

definition sample_view :: funds_view where
  "sample_view = \<lparr>fv_snapshot = \<lparr>fs_available_margin = Money 0, fs_used_margin = Money 0\<rparr>,
     fv_fetched_at = 0, fv_has_snapshot = False, fv_cadence = 5\<rparr>"

text \<open>Thursday 29 February 2024, 16:00 at the exchange.\<close>

definition sample_now :: int where
  "sample_now = 1709202600000000000"

lemma sample_margin_check:
  "check_margin (fr_fetched sample_funds) (fr_now1 sample_funds) (fr_now2 sample_funds) (fr_now3 sample_funds) 100000 sample_view
     = (Inr (), sample_view \<lparr>fv_snapshot := \<lparr>fs_available_margin = Money 105000, fs_used_margin = Money 0\<rparr>,
          fv_fetched_at := 20, fv_has_snapshot := True\<rparr>)"
  by (simp add: check_margin_def ensure_fresh_def fv_refresh_def fv_is_fresh_def sample_funds_def sample_view_def Let_def)

lemma sample_in_window: "in_entry_window sample_now sample_calendar"
  by code_simp

lemma sample_gate: "validate (entry_context sample_deps sample_options sample_now (Inr ()) (sample_order 50 10000) sample_inputs) = Inr Allow"
proof -
  let ?g = "entry_context sample_deps sample_options sample_now (Inr ()) (sample_order 50 10000) sample_inputs"
  have "shape_ok ?g"
    by (simp add: shape_ok_def Let_def priced_ok_def uses_limit_price_def uses_trigger_price_def)
       (simp add: entry_context_def Let_def sample_options_def sample_inputs_def sample_instrument_def sample_order_def)
  moreover have "passes (gc_risk_check ?g)"
    by (simp add: entry_context_def Let_def passes_Some sample_inputs_def make_risk_check_def check_all_def check_account_def
        check_strategy_def check_instrument_def check_order_def sum_over32_def sample_order_def)
  moreover have "passes (gc_hedge_check ?g)" by (simp add: sample_deps_def passes_def)
  moreover have "entry_ok ?g" using sample_in_window
    by (simp add: entry_ok_def sample_deps_def blocks_strategy_def passes_Some calendar_entry_allowed_iff)
  ultimately show ?thesis
    by (simp add: validate_Inr) (simp add: sample_inputs_def sample_instrument_def sample_order_def)
qed

lemma sample_after_gate:
  "\<exists>out. sr_result (fst (entry_after_gate sample_options sample_funds
      \<lparr>mi_api_required = Money 100000, mi_summed_leg_margin = Money 0, mi_available = Money 0,
        mi_is_multi_leg = False, mi_benefit_trusted = True\<rparr> (sample_order 50 10000) sample_inputs outcome view)) = Inr out"
  if "fv_cadence view = 5" "fv_has_snapshot view" "fv_fetched_at view = 20" "fs_available_margin (fv_snapshot view) = Money 105000"
proof -
  have b: "prices_in_band (sample_order 50 10000) (pi_band sample_inputs)" "band_usable (pi_band sample_inputs)"
    by (simp_all add: prices_in_band_def in_band_def sample_inputs_def sample_order_def as_money_def less_eq_money_def
        has_trigger_to_check_def band_usable_def)
  have f: "ensure_fresh (fr_fetched sample_funds) (fr_now1 sample_funds) (fr_now2 sample_funds) (fr_now3 sample_funds) view = (Inr (fv_snapshot view), view)"
    using that by (simp add: ensure_fresh_def fv_is_fresh_def sample_funds_def Let_def)
  have "require_margin_ok (evaluate_margin \<lparr>mi_api_required = Money 100000, mi_summed_leg_margin = Money 0, mi_available = Money 105000,
        mi_is_multi_leg = False, mi_benefit_trusted = True\<rparr> (eo_margin_config sample_options)) = Inr ()"
    unfolding require_margin_ok_iff evaluate_margin_required by (simp add: sample_options_def base_margin_def) code_simp
  then show ?thesis using that b f
    by (simp add: entry_after_gate_def Let_def band_blocked_iff band_unknown_iff)
qed

lemma sample_session: "require_session_op_allowed (assess_session Healthy []) EntryClass = Inr ()"
  unfolding session_entry_allowed by (simp add: classify_rejection_def trim_ws_def)

lemma sample_entry_passes:
  "\<exists>out. sr_result (fst (preflight_entry sample_deps sample_options sample_now sample_funds sample_funds (sample_order 50 10000)
      sample_inputs sample_view)) = Inr out"
proof -
  let ?i = "sample_order 50 10000"
  let ?m = "\<lparr>mi_api_required = Money 100000, mi_summed_leg_margin = Money 0, mi_available = Money 0, mi_is_multi_leg = False, mi_benefit_trusted = True\<rparr>"
  have d: "eo_mode sample_options = EntryCapable" "ed_session sample_deps = Some \<lparr>ss_state = Healthy, ss_last_broker_error = []\<rparr>"
    "ed_kill_state sample_deps = Some []" "ed_detector_signals sample_deps = Some []" "ed_unknown_pause sample_deps = Some False"
    "ed_duplicate_probe sample_deps = Some (\<lambda>_. Inr False)" "the (ed_margin_inputs sample_deps) ?i = Inr ?m"
    by (simp_all add: sample_deps_def sample_options_def)
  have "posture_for_strategy sample_deps (oi_strategy ?i) = NormalPosture"
    by (simp add: posture_for_strategy_Normal d blocks_strategy_def)
  moreover have "oi_symbol ?i = ins_symbol (pi_instrument sample_inputs)" "any_risk_limit_armed (pi_risk_limits sample_inputs)"
    by (simp_all add: sample_order_def sample_inputs_def sample_instrument_def any_risk_limit_armed_def)
  ultimately have "preflight_entry sample_deps sample_options sample_now sample_funds sample_funds ?i sample_inputs sample_view
      = entry_gate sample_deps sample_options sample_now sample_funds sample_funds ?m ?i sample_inputs
          (empty_outcome \<lparr>po_session_alert := sp_alert (assess_session Healthy [])\<rparr>) sample_view"
    by (simp add: preflight_entry_def Let_def d sample_session require_entry_allowed_def)
  moreover have "probe_error sample_deps ?i = None" by (simp add: probe_error_def d blocks_strategy_def)
  moreover have "gate_reads_funds (entry_context sample_deps sample_options sample_now (Inr ()) ?i sample_inputs)"
    by (simp add: gate_reads_funds_def validate_without_injected [OF sample_gate])
  ultimately show ?thesis
    using sample_after_gate by (simp add: entry_gate_def Let_def sample_margin_check sample_gate) (simp add: sample_view_def)
qed

theorem admitted_entry_passed_every_check_witness:
  "(\<exists>out. sr_result (fst (preflight_entry sample_deps sample_options sample_now sample_funds sample_funds
        (sample_order 50 10000) sample_inputs sample_view)) = Inr out)
   \<and> in_entry_window sample_now sample_calendar
   \<and> prices_in_band (sample_order 50 10000) (pi_band sample_inputs)"
proof -
  obtain r view' where run: "preflight_entry sample_deps sample_options sample_now sample_funds sample_funds
        (sample_order 50 10000) sample_inputs sample_view = (r, view')" by fastforce
  then obtain out where ok: "sr_result r = Inr out"
    using sample_entry_passes by auto
  have "make_engine sample_deps sample_options = Inr (sample_deps, sample_options)"
    unfolding make_engine_ok by (simp add: sample_deps_def sample_options_def)
  from admitted_entry_passed_every_check [OF this run ok]
  have "\<exists>cal. ed_calendar sample_deps = Some cal \<and> in_entry_window sample_now cal"
    "band_usable (pi_band sample_inputs) \<longrightarrow> prices_in_band (sample_order 50 10000) (pi_band sample_inputs)" by blast+
  moreover have "ed_calendar sample_deps = Some sample_calendar" "band_usable (pi_band sample_inputs)"
    by (simp_all add: sample_deps_def sample_inputs_def band_usable_def less_eq_money_def)
  ultimately show ?thesis using run ok by auto
qed

section \<open>Admission of an exit\<close>

lemma exit_context_sel [simp]:
  "gc_intent (exit_context deps opts i ctx) = i" "gc_instrument (exit_context deps opts i ctx) = pi_instrument ctx"
  "gc_is_risk_reducing (exit_context deps opts i ctx) = True"
  "gc_hedge_check (exit_context deps opts i ctx) = map_option (\<lambda>h. h i) (ed_hedge_check deps)"
  by (simp_all add: exit_context_def Let_def map_option_case)

definition exit_risk_state :: "preflight_inputs \<Rightarrow> risk_state" where
  "exit_risk_state ctx = (let st = pi_risk_state ctx in
     st \<lparr>rk_is_entry := False, rk_order_value_known := (rk_order_value_known st \<and> rk_order_value_paise st > 0)\<rparr>)"

lemma exit_context_risk:
  "passes (gc_risk_check (exit_context deps opts i ctx)) \<longleftrightarrow>
     (eo_risk_gates_exits opts \<longrightarrow> make_risk_check i (pi_risk_limits ctx) (exit_risk_state ctx) = Inr ())"
  by (simp add: exit_context_def exit_risk_state_def Let_def passes_Some, simp add: passes_def)

lemma exit_chain_ok:
  "(\<exists>out. sr_result (exit_chain deps opts i ctx outcome) = Inr out) \<longleftrightarrow>
     \<not> panic_active (the (ed_kill_state deps)) \<and> oi_symbol i = ins_symbol (pi_instrument ctx)
     \<and> shape_ok (exit_context deps opts i ctx)
     \<and> (eo_risk_gates_exits opts \<longrightarrow> make_risk_check i (pi_risk_limits ctx) (exit_risk_state ctx) = Inr ())
     \<and> passes (map_option (\<lambda>h. h i) (ed_hedge_check deps))"
proof -
  have v: "(\<exists>go. validate (exit_context deps opts i ctx) = Inr go) \<longleftrightarrow> shape_ok (exit_context deps opts i ctx)
     \<and> passes (gc_risk_check (exit_context deps opts i ctx)) \<and> passes (map_option (\<lambda>h. h i) (ed_hedge_check deps))"
    unfolding validate_Inr by simp
  have "(\<exists>out. sr_result (exit_chain deps opts i ctx outcome) = Inr out) \<longleftrightarrow>
     \<not> panic_active (the (ed_kill_state deps)) \<and> oi_symbol i = ins_symbol (pi_instrument ctx)
     \<and> (\<exists>go. validate (exit_context deps opts i ctx) = Inr go)"
    unfolding exit_chain_def Let_def posture_for_strategy_exits session_exit_allowed
    by (cases "validate (exit_context deps opts i ctx)") simp_all
  then show ?thesis unfolding v exit_context_risk by blast
qed

lemma exit_chain_band:
  assumes "sr_result (exit_chain deps opts i ctx outcome) = Inr out"
  shows "po_band_checked out" "po_band out = check_price_band i (pi_band ctx) True"
  using assms by (auto simp: exit_chain_def Let_def split: if_splits sum.splits)

text \<open>C29. What can hold back an exit is exactly this: a classifier that says it does not reduce exposure, a panic
  kill, reference data of another instrument, a malformed order, the risk engine where the operator
  opted into it for exits, and the hedge check.  Nothing else can: not the detectors, not a dead
  session, not a kill short of panic, not the pause for unknown orders, a duplicate, the calendar,
  stale funds, the margin, or the price band.\<close>

theorem exit_admission_exact:
  "(\<exists>out. sr_result (preflight_exit deps opts i ctx) = Inr out) \<longleftrightarrow>
     (\<forall>f. ed_is_reducing deps = Some f \<longrightarrow> f i)
     \<and> \<not> panic_active (the (ed_kill_state deps)) \<and> oi_symbol i = ins_symbol (pi_instrument ctx)
     \<and> shape_ok (exit_context deps opts i ctx)
     \<and> (eo_risk_gates_exits opts \<longrightarrow> make_risk_check i (pi_risk_limits ctx) (exit_risk_state ctx) = Inr ())
     \<and> passes (map_option (\<lambda>h. h i) (ed_hedge_check deps))"
proof (cases "\<forall>f. ed_is_reducing deps = Some f \<longrightarrow> f i")
  case True
  then have "preflight_exit deps opts i ctx = exit_chain deps opts i ctx empty_outcome"
    by (cases "ed_is_reducing deps") (simp_all add: preflight_exit_def)
  then have "(\<exists>out. sr_result (preflight_exit deps opts i ctx) = Inr out)
      \<longleftrightarrow> (\<exists>out. sr_result (exit_chain deps opts i ctx empty_outcome) = Inr out)" by (simp only:)
  then show ?thesis using True unfolding exit_chain_ok by blast
next
  case False
  then obtain f where "ed_is_reducing deps = Some f" "\<not> f i" by blast
  then have "\<nexists>out. sr_result (preflight_exit deps opts i ctx) = Inr out" by (simp add: preflight_exit_def)
  then show ?thesis using False by blast
qed

section \<open>Clamping an exit\<close>

lemma as_money_Price [simp]: "as_money (Price (money_paise m)) = m"
  by (simp add: as_money_def)

lemma apply_clamp_prices:
  assumes "po_band_checked out" "po_band out = check_price_band i band True" "band_usable band"
    and "has_trigger_to_check (oi_order_type i) \<longleftrightarrow> oi_trigger_price i \<noteq> None"
  shows "prices_in_band (snd (apply_clamp i out)) band"
    and "oi_order_type (snd (apply_clamp i out)) = oi_order_type i" "oi_quantity (snd (apply_clamp i out)) = oi_quantity i"
    and "oi_side (snd (apply_clamp i out)) = oi_side i" "oi_symbol (snd (apply_clamp i out)) = oi_symbol i"
    and "oi_order_type i = StopLoss \<Longrightarrow>
       (if oi_side i = Sell then oi_price i \<le> intent_trigger i else intent_trigger i \<le> oi_price i) \<Longrightarrow>
       (let j = snd (apply_clamp i out) in if oi_side j = Sell then oi_price j \<le> intent_trigger j else intent_trigger j \<le> oi_price j)"
proof -
  let ?j = "snd (apply_clamp i out)"
  show fixed: "oi_order_type ?j = oi_order_type i" "oi_quantity ?j = oi_quantity i" "oi_side ?j = oi_side i" "oi_symbol ?j = oi_symbol i"
    by (simp_all add: apply_clamp_def Let_def)
  let ?c = "\<lambda>m. clamp m (pb_lower band) (pb_upper band)"
  have le: "pb_lower band \<le> pb_upper band" using assms(3) by (simp add: band_usable_def)
  have L: "as_money (oi_price ?j) = ?c (as_money (oi_price i))" if "has_limit_to_check (oi_order_type i)"
    using that assms(1-3) band_suggestions(1,3) [of i band True] clamp_id
    by (cases "prices_in_band i band") (simp_all add: apply_clamp_def Let_def band_suggestions prices_in_band_def)
  have T: "as_money (intent_trigger ?j) = ?c (as_money (intent_trigger i))" if "has_trigger_to_check (oi_order_type i)"
    using that assms(1-3) band_suggestions(2,4) [of i band True] clamp_id
    by (cases "prices_in_band i band") (simp_all add: apply_clamp_def Let_def band_suggestions prices_in_band_def intent_trigger_def)
  show "prices_in_band ?j band"
    using L T clamp_in_band [OF assms(3)] by (simp add: prices_in_band_def fixed(1))
  have pm: "p \<le> q \<longleftrightarrow> as_money p \<le> as_money q" for p q by (simp add: less_eq_price_def less_eq_money_def as_money_def)
  show "let j = ?j in if oi_side j = Sell then oi_price j \<le> intent_trigger j else intent_trigger j \<le> oi_price j"
    if "oi_order_type i = StopLoss" "if oi_side i = Sell then oi_price i \<le> intent_trigger i else intent_trigger i \<le> oi_price i"
    using that L T clamp_mono [OF le] unfolding Let_def fixed(3) pm
    by (simp add: has_limit_to_check_def has_trigger_to_check_def split: if_splits)
qed

text \<open>The caller applies the clamp of an admitted exit.  The order then has every price it uses inside the
  band, keeps its instrument, side, type and quantity, and a stop keeps its limit on the right side of
  its trigger.\<close>

theorem clamped_exit_in_band:
  assumes "sr_result (preflight_exit deps opts i ctx) = Inr out" "band_usable (pi_band ctx)"
  defines "j \<equiv> snd (apply_clamp i out)"
  shows "prices_in_band j (pi_band ctx) \<and> oi_symbol j = oi_symbol i \<and> oi_side j = oi_side i
    \<and> oi_order_type j = oi_order_type i \<and> oi_quantity j = oi_quantity i
    \<and> (oi_order_type j = StopLoss \<longrightarrow>
         (if oi_side j = Sell then oi_price j \<le> intent_trigger j else intent_trigger j \<le> oi_price j))"
proof -
  have chain: "sr_result (exit_chain deps opts i ctx empty_outcome) = Inr out"
    using assms(1) by (auto simp: preflight_exit_def split: option.splits if_splits)
  then have sh: "shape_ok (exit_context deps opts i ctx)" using exit_chain_ok by blast
  then have tr: "has_trigger_to_check (oi_order_type i) \<longleftrightarrow> oi_trigger_price i \<noteq> None"
    by (simp add: shape_ok_def Let_def has_trigger_to_check_def uses_trigger_price_def)
  have st: "if oi_side i = Sell then oi_price i \<le> intent_trigger i else intent_trigger i \<le> oi_price i"
    if "oi_order_type i = StopLoss"
    using sh that by (auto simp: shape_ok_def Let_def intent_trigger_def uses_trigger_price_def split: option.splits if_splits)
  note C = apply_clamp_prices [OF exit_chain_band [OF chain] assms(2) tr, folded j_def]
  show ?thesis using C(1-5) C(6) st by (simp add: Let_def)
qed

text \<open>The exits of the sample engine, for an order priced on the tick.\<close>

lemma sample_exit_chain:
  assumes "ed_hedge_check deps = None" "ed_is_reducing deps = None" "panic_active (the (ed_kill_state deps)) = False"
    and "0 < qty" "50 dvd qty" "0 < p"
  shows "(\<exists>out. sr_result (exit_chain deps sample_options (sample_order qty p) sample_inputs outcome) = Inr out) \<longleftrightarrow> 5 dvd p"
proof -
  have "shape_ok (exit_context deps sample_options (sample_order qty p) sample_inputs) \<longleftrightarrow> 5 dvd p"
    using assms(4-6)
    by (simp add: shape_ok_def Let_def priced_ok_def uses_limit_price_def uses_trigger_price_def)
       (simp add: exit_context_def Let_def sample_options_def sample_inputs_def sample_instrument_def sample_order_def)
  then show ?thesis unfolding exit_chain_ok using assms(1,3)
    by (simp add: sample_options_def passes_def) (simp add: sample_order_def sample_inputs_def sample_instrument_def)
qed

lemma sample_exit_out:
  assumes "sr_result (preflight_exit sample_deps sample_options (sample_order 50 8000) sample_inputs) = Inr out"
  shows "snd (apply_clamp (sample_order 50 8000) out) = sample_order 50 9003"
proof -
  have "exit_chain sample_deps sample_options (sample_order 50 8000) sample_inputs empty_outcome
      = preflight_exit sample_deps sample_options (sample_order 50 8000) sample_inputs"
    by (simp add: preflight_exit_def sample_deps_def)
  then have b: "po_band_checked out" "po_band out = check_price_band (sample_order 50 8000) (pi_band sample_inputs) True"
    using exit_chain_band [of sample_deps] assms by metis+
  have n: "band_usable (pi_band sample_inputs)" "\<not> prices_in_band (sample_order 50 8000) (pi_band sample_inputs)"
    "has_limit_to_check (oi_order_type (sample_order 50 8000))" "\<not> has_trigger_to_check (oi_order_type (sample_order 50 8000))"
    "clamp (as_money (oi_price (sample_order 50 8000))) (pb_lower (pi_band sample_inputs)) (pb_upper (pi_band sample_inputs)) = Money 9003"
    by (simp_all add: band_usable_def prices_in_band_def in_band_def sample_inputs_def sample_order_def less_eq_money_def
        less_money_def as_money_def has_limit_to_check_def has_trigger_to_check_def clamp_def)
  show ?thesis using b n by (simp add: apply_clamp_def Let_def band_suggestions) (simp add: sample_order_def)
qed

lemma sample_deps_facts:
  "ed_hedge_check sample_deps = None" "ed_is_reducing sample_deps = None" "panic_active (the (ed_kill_state sample_deps)) = False"
  by (simp_all add: sample_deps_def panic_active_def)

lemma sample_exit_passes:
  "0 < p \<Longrightarrow> (\<exists>out. sr_result (preflight_exit sample_deps sample_options (sample_order 50 p) sample_inputs) = Inr out) \<longleftrightarrow> 5 dvd p"
  using sample_exit_chain [OF sample_deps_facts, of 50 p empty_outcome]
  by (simp add: preflight_exit_def sample_deps_facts)

theorem clamped_exit_in_band_witness:
  "\<exists>out. sr_result (preflight_exit sample_deps sample_options (sample_order 50 8000) sample_inputs) = Inr out
     \<and> prices_in_band (snd (apply_clamp (sample_order 50 8000) out)) (pi_band sample_inputs)"
proof -
  obtain out where o: "sr_result (preflight_exit sample_deps sample_options (sample_order 50 8000) sample_inputs) = Inr out"
    using sample_exit_passes [of 8000] by auto
  have "band_usable (pi_band sample_inputs)" by (simp add: band_usable_def sample_inputs_def less_eq_money_def)
  from clamped_exit_in_band [OF o this] show ?thesis using o by blast
qed

text \<open>The band's edges are not on the tick grid of the instrument, and the gate checks the tick before the
  clamp: an exit that the engine admits and clamps is one that the engine's own gate, and so the
  exchange, refuses.  Here an exit at 80.00 is clamped to the edge 90.03 on a tick of 0.05.\<close>

theorem clamped_exit_can_leave_the_tick:
  "\<exists>out. sr_result (preflight_exit sample_deps sample_options (sample_order 50 8000) sample_inputs) = Inr out
     \<and> (\<nexists>out'. sr_result (preflight_exit sample_deps sample_options (snd (apply_clamp (sample_order 50 8000) out)) sample_inputs) = Inr out')"
proof -
  obtain out where o: "sr_result (preflight_exit sample_deps sample_options (sample_order 50 8000) sample_inputs) = Inr out"
    using sample_exit_passes [of 8000] by auto
  then have "snd (apply_clamp (sample_order 50 8000) out) = sample_order 50 9003" by (rule sample_exit_out)
  moreover have "\<nexists>out'. sr_result (preflight_exit sample_deps sample_options (sample_order 50 9003) sample_inputs) = Inr out'"
    using sample_exit_passes [of 9003] by simp
  ultimately show ?thesis using o by auto
qed

section \<open>Modifying\<close>

lemma preflight_modify_ok:
  "(\<exists>out. sr_result (preflight_modify deps opts current amended mctx ctx) = Inr out) \<longleftrightarrow>
     mo_allowed (evaluate_modify (mx_current_state mctx) (make_modify_request current amended) (mx_observed_filled_qty mctx))
     \<and> (\<exists>out. sr_result (exit_chain deps opts amended ctx (empty_outcome \<lparr>po_modify_checked := True,
          po_modify := evaluate_modify (mx_current_state mctx) (make_modify_request current amended) (mx_observed_filled_qty mctx)\<rparr>)) = Inr out)"
  by (simp add: preflight_modify_def Let_def split: prod.splits)

text \<open>A modify runs the exit chain on the amended order, on the ground that changing a working order is no
  new risk.  Raising its quantity is: with a soft kill in force, a session that has failed, a detector
  firing and no funds at all, an acknowledged entry may be raised to any multiple of its lot.  The same
  quantity as a new entry is refused.\<close>

theorem modify_grows_past_every_entry_check:
  fixes deps :: engine_deps
  assumes "1 \<le> qty" "50 dvd qty"
    and "deps = sample_deps \<lparr>ed_kill_state := Some [\<lparr>kc_type = KillSoft, kc_scope = []\<rparr>], ed_detector_signals := Some [RiskBreach],
        ed_session := Some \<lparr>ss_state = SessionFailed, ss_last_broker_error = []\<rparr>\<rparr>"
  shows "(\<exists>out. sr_result (preflight_modify deps sample_options (sample_order 50 10000) (sample_order qty 10000)
            \<lparr>mx_current_state = \<lparr>oms_state = Acknowledged, oms_filled_qty = 0, oms_total_qty = 50\<rparr>, mx_observed_filled_qty = 0\<rparr>
            sample_inputs) = Inr out)
    \<and> (\<nexists>out. sr_result (fst (preflight_entry deps sample_options now fr1 fr2 (sample_order qty 10000) sample_inputs view)) = Inr out)"
proof
  have d: "ed_hedge_check deps = None" "ed_is_reducing deps = None" "panic_active (the (ed_kill_state deps)) = False"
    by (simp_all add: assms(3) sample_deps_def panic_active_def)
  have "qty_value (oi_quantity (sample_order qty 10000)) = qty" by (simp add: sample_order_def)
  then show "\<exists>out. sr_result (preflight_modify deps sample_options (sample_order 50 10000) (sample_order qty 10000)
            \<lparr>mx_current_state = \<lparr>oms_state = Acknowledged, oms_filled_qty = 0, oms_total_qty = 50\<rparr>, mx_observed_filled_qty = 0\<rparr>
            sample_inputs) = Inr out"
    unfolding preflight_modify_ok evaluate_modify_allowed using sample_exit_chain [OF d, of qty 10000] assms(1,2)
    by (simp add: make_modify_request_def)
  have "posture_for_strategy deps s \<noteq> NormalPosture" for s
    by (simp add: posture_for_strategy_Normal assms(3))
  then show "\<nexists>out. sr_result (fst (preflight_entry deps sample_options now fr1 fr2 (sample_order qty 10000) sample_inputs view)) = Inr out"
    unfolding preflight_entry_def if_failed case_Inl_Inr require_entry_allowed_Inr by blast
qed

theorem modify_grows_past_every_entry_check_witness:
  "\<exists>deps out. ed_kill_state deps = Some [\<lparr>kc_type = KillSoft, kc_scope = []\<rparr>]
     \<and> sr_result (preflight_modify deps sample_options (sample_order 50 10000) (sample_order 500000 10000)
            \<lparr>mx_current_state = \<lparr>oms_state = Acknowledged, oms_filled_qty = 0, oms_total_qty = 50\<rparr>, mx_observed_filled_qty = 0\<rparr>
            sample_inputs) = Inr out"
proof -
  let ?deps = "sample_deps \<lparr>ed_kill_state := Some [\<lparr>kc_type = KillSoft, kc_scope = []\<rparr>], ed_detector_signals := Some [RiskBreach],
        ed_session := Some \<lparr>ss_state = SessionFailed, ss_last_broker_error = []\<rparr>\<rparr>"
  have q: "1 \<le> (500000 :: int)" "50 dvd (500000 :: int)" by simp_all
  from modify_grows_past_every_entry_check [OF q refl, THEN conjunct1]
  obtain out where "sr_result (preflight_modify ?deps sample_options (sample_order 50 10000) (sample_order 500000 10000)
            \<lparr>mx_current_state = \<lparr>oms_state = Acknowledged, oms_filled_qty = 0, oms_total_qty = 50\<rparr>, mx_observed_filled_qty = 0\<rparr>
            sample_inputs) = Inr out" by (rule exE)
  then show ?thesis by (intro exI [of _ ?deps] exI [of _ out]) simp
qed

theorem exit_admission_exact_witness:
  "\<exists>out. sr_result (preflight_exit (sample_deps \<lparr>ed_session := Some \<lparr>ss_state = SessionFailed, ss_last_broker_error = []\<rparr>\<rparr>)
      sample_options (sample_order 50 8000) sample_inputs) = Inr out"
proof -
  let ?deps = "sample_deps \<lparr>ed_session := Some \<lparr>ss_state = SessionFailed, ss_last_broker_error = []\<rparr>\<rparr>"
  let ?i = "sample_order 50 8000"
  have d: "ed_hedge_check ?deps = None" "ed_is_reducing ?deps = None" "panic_active (the (ed_kill_state ?deps)) = False"
    using sample_deps_facts by simp_all
  have "shape_ok (exit_context ?deps sample_options ?i sample_inputs)" "oi_symbol ?i = ins_symbol (pi_instrument sample_inputs)"
    using sample_exit_chain [OF d, of 50 8000 empty_outcome] unfolding exit_chain_ok by simp_all
  then show ?thesis unfolding exit_admission_exact using d by (simp add: sample_options_def passes_def)
qed

end
