(* ===== verification/Basket.thy ===== *)
theory Basket
  imports Ports
begin

text \<open>
  \<^verbatim>\<open>options/basket.cpp\<close>: a trade of several legs placed as one unit.

  The injected seams may answer differently at every call, so a seam is a function of everything
  called before it, the \<open>basket_trace\<close>; \<open>execute_basket\<close> returns the result and the trace of the
  calls it made, alerts included.  An absent seam is \<open>None\<close>, as a null \<^verbatim>\<open>std::function\<close> is.  The
  queue loop of Kahn's algorithm is a \<open>partial_function\<close>: that it returns is a theorem here, not a
  property of the definition.
\<close>

section \<open>Data\<close>

record basket_leg =
  bl_leg_id :: string
  bl_depends_on :: "string list"

datatype leg_failure_policy = UnwindExecuted | LeaveAndAlert

record basket_config =
  bc_on_leg_failure :: leg_failure_policy
  bc_track_as_single_unit :: bool
  bc_basket_id :: string

datatype leg_status = Executed | LegFailed | SkippedUnmetDependency | Unwound | AmbiguousMayBeLive

fun leg_status_to_string :: "leg_status \<Rightarrow> string" where
  "leg_status_to_string Executed = ''Executed''"
| "leg_status_to_string LegFailed = ''Failed''"
| "leg_status_to_string SkippedUnmetDependency = ''SkippedUnmetDependency''"
| "leg_status_to_string Unwound = ''Unwound''"
| "leg_status_to_string AmbiguousMayBeLive = ''AmbiguousMayBeLive''"

record leg_result =
  lr_leg_id :: string
  lr_status :: leg_status
  lr_order_id :: string
  lr_detail :: string

datatype basket_outcome =
    BasketComplete | PartiallyExecutedUnwound | PartiallyExecutedLeft | BasketBlocked
  | ReconcileRequired

fun basket_outcome_to_string :: "basket_outcome \<Rightarrow> string" where
  "basket_outcome_to_string BasketComplete = ''Complete''"
| "basket_outcome_to_string PartiallyExecutedUnwound = ''PartiallyExecutedUnwound''"
| "basket_outcome_to_string PartiallyExecutedLeft = ''PartiallyExecutedLeft''"
| "basket_outcome_to_string BasketBlocked = ''Blocked''"
| "basket_outcome_to_string ReconcileRequired = ''ReconcileRequired''"

record basket_result =
  br_outcome :: basket_outcome
  br_basket_id :: string
  br_legs :: "leg_result list"
  br_tracked_as_single_unit :: bool
  br_detail :: string

datatype basket_call =
    PlaceLeg basket_leg "broker_ack result"
  | UnwindLeg string "unit result"
  | BasketAlert alert_level string

type_synonym basket_trace = "basket_call list"

record basket_seams =
  place_leg :: "(basket_trace \<Rightarrow> basket_leg \<Rightarrow> broker_ack result) option"
  unwind_leg :: "(basket_trace \<Rightarrow> string \<Rightarrow> unit result) option"

definition error_tag :: "error \<Rightarrow> string" where
  "error_tag err = error_category_to_string (err_category err)"

definition is_ambiguous :: "error \<Rightarrow> bool" where
  "is_ambiguous err \<longleftrightarrow>
     (if err_action err = ReconcileFirst then True
      else err_category err = Timeout \<or> err_category err = Network \<or> err_category err = UnknownCategory)"

definition fallback_basket_id :: "nat \<Rightarrow> string" where
  "fallback_basket_id leg_count = ''basket-'' @ show_nat leg_count"

section \<open>The pre-flight sort\<close>

text \<open>The first pass maps each identifier to its index and refuses an empty or repeated one.\<close>

fun index_ids :: "basket_leg list \<Rightarrow> nat \<Rightarrow> (string \<rightharpoonup> nat) \<Rightarrow> (string \<rightharpoonup> nat) option" where
  "index_ids [] i ids = Some ids"
| "index_ids (leg # legs) i ids =
     (if bl_leg_id leg = [] then None
      else if ids (bl_leg_id leg) \<noteq> None then None
      else index_ids legs (Suc i) (ids(bl_leg_id leg \<mapsto> i)))"

text \<open>The second pass counts the prerequisites of each leg and lists the dependents of each.\<close>

fun add_prerequisites ::
    "(string \<rightharpoonup> nat) \<Rightarrow> nat \<Rightarrow> string list \<Rightarrow> nat list \<times> nat list list \<Rightarrow> (nat list \<times> nat list list) option" where
  "add_prerequisites ids i [] g = Some g"
| "add_prerequisites ids i (dep # deps) (in_degree, dependents) =
     (case ids dep of
        None \<Rightarrow> None
      | Some j \<Rightarrow> add_prerequisites ids i deps
          (in_degree[i := Suc (in_degree ! i)], dependents[j := dependents ! j @ [i]]))"

fun build_graph ::
    "(string \<rightharpoonup> nat) \<Rightarrow> nat \<Rightarrow> basket_leg list \<Rightarrow> nat list \<times> nat list list \<Rightarrow> (nat list \<times> nat list list) option" where
  "build_graph ids i [] g = Some g"
| "build_graph ids i (leg # legs) g =
     (case add_prerequisites ids i (bl_depends_on leg) g of
        None \<Rightarrow> None
      | Some g' \<Rightarrow> build_graph ids (Suc i) legs g')"

text \<open>
  The third is the queue loop.  The decrement is on naturals: \<open>kahn_inv\<close> below shows that it never
  meets a zero, where the unsigned counter of the source would wrap.
\<close>

fun free_dependents :: "nat list \<Rightarrow> nat list \<Rightarrow> nat list \<Rightarrow> nat list \<times> nat list" where
  "free_dependents [] in_degree queue = (in_degree, queue)"
| "free_dependents (v # vs) in_degree queue =
     (let d = in_degree ! v - 1 in
      free_dependents vs (in_degree[v := d]) (if d = 0 then queue @ [v] else queue))"

partial_function (option) kahn_loop ::
    "nat list list \<Rightarrow> nat list \<Rightarrow> nat list \<Rightarrow> nat \<Rightarrow> nat list \<Rightarrow> nat list option" where
  "kahn_loop dependents in_degree queue head order =
     (if head < length queue then
        let u = queue ! head;
            (in_degree', queue') = free_dependents (dependents ! u) in_degree queue
        in kahn_loop dependents in_degree' queue' (Suc head) (order @ [u])
      else Some order)"

text \<open>
  \<open>None\<close>: the call does not return.  \<open>Some None\<close>: it answers \<^verbatim>\<open>false\<close>.  \<open>Some (Some order)\<close>: it
  answers \<^verbatim>\<open>true\<close> with the order filled in.
\<close>

definition topological_order :: "basket_leg list \<Rightarrow> nat list option option" where
  "topological_order legs =
     (let n = length legs in
      case index_ids legs 0 (\<lambda>_. None) of
        None \<Rightarrow> Some None
      | Some ids \<Rightarrow>
        (case build_graph ids 0 legs (replicate n 0, replicate n []) of
           None \<Rightarrow> Some None
         | Some (in_degree, dependents) \<Rightarrow>
           (case kahn_loop dependents in_degree (filter (\<lambda>i. in_degree ! i = 0) [0..<n]) 0 [] of
              None \<Rightarrow> None
            | Some order \<Rightarrow> Some (if length order = n then Some order else None))))"

section \<open>The sort returns, and answers exactly\<close>

lemma index_ids_ok:
  "index_ids legs i ids \<noteq> None \<longleftrightarrow>
     (\<forall>leg \<in> set legs. bl_leg_id leg \<noteq> [] \<and> ids (bl_leg_id leg) = None) \<and> distinct (map bl_leg_id legs)"
  by (induction legs arbitrary: i ids) (auto simp: image_iff)

lemma index_ids_lookup:
  "index_ids legs i ids = Some ids' \<Longrightarrow>
     ids' s = Some j \<longleftrightarrow> ids s = Some j \<or> (\<exists>k < length legs. j = i + k \<and> bl_leg_id (legs ! k) = s)"
proof (induction legs arbitrary: i ids)
  case (Cons leg legs)
  have "(\<exists>k < length (leg # legs). j = i + k \<and> bl_leg_id ((leg # legs) ! k) = s)
      \<longleftrightarrow> j = i \<and> bl_leg_id leg = s \<or> (\<exists>k < length legs. j = Suc i + k \<and> bl_leg_id (legs ! k) = s)"
    by (simp add: Ex_less_Suc2)
  with Cons show ?case by (auto split: if_splits)
qed simp

lemma free_dependents_spec:
  assumes "\<forall>v \<in> set vs. v < length deg \<and> count_list vs v \<le> deg ! v"
    and "free_dependents vs deg q = (deg', q')"
  shows "length deg' = length deg"
    and "\<forall>v < length deg. deg' ! v = deg ! v - count_list vs v"
    and "\<exists>new. q' = q @ new \<and> distinct new \<and> set new = {v \<in> set vs. deg ! v = count_list vs v}"
proof -
  have "length deg' = length deg \<and> (\<forall>v < length deg. deg' ! v = deg ! v - count_list vs v)
      \<and> (\<exists>new. q' = q @ new \<and> distinct new \<and> set new = {v \<in> set vs. deg ! v = count_list vs v})"
    using assms
  proof (induction vs arbitrary: deg q)
    case (Cons v vs)
    define d where "d = deg ! v - 1"
    have v: "v < length deg" "0 < deg ! v" "count_list vs v \<le> d" using Cons.prems(1) by (auto simp: d_def)
    have pre: "\<forall>w \<in> set vs. w < length (deg[v := d]) \<and> count_list vs w \<le> deg[v := d] ! w"
      using Cons.prems(1) v by (auto simp: nth_list_update split: if_splits)
    have "free_dependents vs (deg[v := d]) (if d = 0 then q @ [v] else q) = (deg', q')"
      using Cons.prems(2) by (simp add: Let_def d_def)
    from Cons.IH [OF pre this] obtain new where ih: "length deg' = length deg"
      "\<forall>w < length deg. deg' ! w = deg[v := d] ! w - count_list vs w"
      "q' = (if d = 0 then q @ [v] else q) @ new" "distinct new"
      "set new = {w \<in> set vs. deg[v := d] ! w = count_list vs w}"
      by auto
    have deg: "\<forall>w < length deg. deg' ! w = deg ! w - count_list (v # vs) w"
      using ih(2) v by (auto simp: d_def nth_list_update)
    show ?case
    proof (cases "d = 0")
      case True
      then have n: "v \<notin> set vs" "deg ! v = 1" using v by (simp_all add: count_list_0_iff d_def)
      then have "\<forall>w \<in> set vs. deg[v := d] ! w = deg ! w \<and> count_list (v # vs) w = count_list vs w"
        by (auto simp: nth_list_update)
      then have "set new = {w \<in> set vs. deg ! w = count_list (v # vs) w}" using ih(5) by auto
      then have "set (v # new) = {w \<in> set (v # vs). deg ! w = count_list (v # vs) w} \<and> distinct (v # new)"
        using ih(4) n by auto
      moreover have "q' = q @ (v # new)" using ih(3) True by simp
      ultimately show ?thesis using ih(1) deg by blast
    next
      case False
      then have n: "deg ! v \<noteq> Suc 0" using v by (simp add: d_def)
      have "deg[v := d] ! w = count_list vs w \<longleftrightarrow> deg ! w = count_list (v # vs) w" for w
        using v by (cases "w = v") (auto simp: d_def)
      moreover have "deg ! v \<noteq> count_list (v # vs) v" if "v \<notin> set vs"
        using n that by (simp add: count_notin)
      ultimately have "set new = {w \<in> set (v # vs). deg ! w = count_list (v # vs) w}"
        using ih(5) by auto
      then show ?thesis using ih(1,3,4) deg False by auto
    qed
  qed simp
  then show "length deg' = length deg" "\<forall>v < length deg. deg' ! v = deg ! v - count_list vs v"
    "\<exists>new. q' = q @ new \<and> distinct new \<and> set new = {v \<in> set vs. deg ! v = count_list vs v}" by auto
qed

text \<open>
  The loop invariant: a counter holds the edges from legs not yet taken, so it is zero exactly for the
  queued legs, and everything queued comes after its prerequisites.
\<close>

definition kahn_inv :: "nat \<Rightarrow> nat list list \<Rightarrow> nat list \<Rightarrow> nat list \<Rightarrow> nat \<Rightarrow> bool" where
  "kahn_inv n dependents deg queue head \<longleftrightarrow>
     length deg = n \<and> head \<le> length queue \<and> distinct queue \<and> set queue \<subseteq> {..<n}
     \<and> (\<forall>u < n. set (dependents ! u) \<subseteq> {..<n})
     \<and> (\<forall>v < n. deg ! v = (\<Sum>u \<in> {..<n} - set (take head queue). count_list (dependents ! u) v))
     \<and> (\<forall>v < n. v \<in> set queue \<longleftrightarrow> deg ! v = 0)
     \<and> (\<forall>k < length queue. \<forall>u < n. queue ! k \<in> set (dependents ! u) \<longrightarrow> u \<in> set (take k queue))"

lemma kahn_inv_step:
  assumes inv: "kahn_inv n dependents deg queue head" and h: "head < length queue"
    and free: "free_dependents (dependents ! (queue ! head)) deg queue = (deg', queue')"
  shows "kahn_inv n dependents deg' queue' (Suc head)"
    and "take (Suc head) queue' = take head queue @ [queue ! head]"
proof -
  define u where "u = queue ! head"
  define rest where "rest = (\<lambda>v. \<Sum>w \<in> {..<n} - set (take (Suc head) queue). count_list (dependents ! w) v)"
  have q: "length deg = n" "distinct queue" "set queue \<subseteq> {..<n}" "\<forall>u < n. set (dependents ! u) \<subseteq> {..<n}"
    and deg: "\<forall>v < n. deg ! v = (\<Sum>u \<in> {..<n} - set (take head queue). count_list (dependents ! u) v)"
    and zero: "\<forall>v < n. v \<in> set queue \<longleftrightarrow> deg ! v = 0"
    and before: "\<forall>k < length queue. \<forall>u < n. queue ! k \<in> set (dependents ! u) \<longrightarrow> u \<in> set (take k queue)"
    using inv by (auto simp: kahn_inv_def)
  have u: "u < n" using q(3) h by (auto simp: u_def subset_eq)
  have tk: "take (Suc head) queue = take head queue @ [u]" using h by (simp add: u_def take_Suc_conv_app_nth)
  have un: "u \<notin> set (take head queue)"
    using q(2) tk by (metis distinct_take not_distinct_conv_prefix)
  have split: "{..<n} - set (take head queue) = insert u ({..<n} - set (take (Suc head) queue))"
    using u un tk by auto
  have deg_rest: "deg ! v = count_list (dependents ! u) v + rest v" if "v < n" for v
  proof -
    have "u \<notin> {..<n} - set (take (Suc head) queue)" using tk by simp
    then have "(\<Sum>w \<in> insert u ({..<n} - set (take (Suc head) queue)). count_list (dependents ! w) v)
        = count_list (dependents ! u) v + rest v" by (simp add: rest_def)
    then show ?thesis using deg that by (simp only: split)
  qed
  have pre: "\<forall>v \<in> set (dependents ! u). v < length deg \<and> count_list (dependents ! u) v \<le> deg ! v"
    using q(1,4) u deg_rest by fastforce
  note fr = free_dependents_spec [OF pre free [folded u_def]]
  obtain new where new: "queue' = queue @ new" "distinct new"
    "set new = {v \<in> set (dependents ! u). deg ! v = count_list (dependents ! u) v}" using fr(3) by blast
  have deg': "deg' ! v = rest v" if "v < n" for v using fr(2) deg_rest that q(1) by simp
  have new_n: "v < n \<and> rest v = 0 \<and> deg ! v \<noteq> 0" if "v \<in> set new" for v
  proof -
    have "v < n" "v \<in> set (dependents ! u)" "deg ! v = count_list (dependents ! u) v" using that new(3) pre q(1) by auto
    then show ?thesis using deg_rest by (auto simp: count_list_0_iff)
  qed
  show take: "take (Suc head) queue' = take head queue @ [queue ! head]"
    using h tk new(1) by (simp add: u_def)
  have zero': "v \<in> set queue' \<longleftrightarrow> deg' ! v = 0" if v: "v < n" for v
  proof -
    have "v \<in> set new \<longleftrightarrow> rest v = 0 \<and> deg ! v \<noteq> 0"
      using v new(3) new_n deg_rest [OF v] by (auto simp: count_list_0_iff)
    then show ?thesis using zero v deg' deg_rest [OF v] new(1) by auto
  qed
  have before': "w \<in> set (take k queue')" if k: "k < length queue'" and w: "w < n" "queue' ! k \<in> set (dependents ! w)" for k w
  proof (cases "k < length queue")
    case True
    then show ?thesis using before w new(1) by (simp add: nth_append)
  next
    case False
    then have "queue' ! k \<in> set new" using k new(1) by (simp add: nth_append)
    then have "rest (queue' ! k) = 0" using new_n by blast
    then have "w \<notin> {..<n} - set (take (Suc head) queue)"
      using w by (auto simp: rest_def count_list_0_iff)
    then have "w \<in> set queue" using w by (auto dest: in_set_takeD)
    then show ?thesis using False new(1) by simp
  qed
  have "set new \<subseteq> {..<n}" "set queue \<inter> set new = {}" using new_n zero by blast+
  then have "set queue' \<subseteq> {..<n}" "distinct queue'"
    unfolding new(1) using new(2) q(2,3) by auto
  then show "kahn_inv n dependents deg' queue' (Suc head)"
    unfolding kahn_inv_def using q fr(1) h new(1) deg' zero' before' by (auto simp: rest_def)
qed

lemma kahn_inv_length: "kahn_inv n dependents deg queue head \<Longrightarrow> length queue \<le> n"
  unfolding kahn_inv_def by (metis card_lessThan card_mono distinct_card finite_lessThan)

lemma kahn_loop_returns:
  assumes "kahn_inv n dependents deg queue head"
  shows "\<exists>deg' order. kahn_loop dependents deg queue head (take head queue) = Some order
           \<and> kahn_inv n dependents deg' order (length order)"
  using assms
proof (induction "n - head" arbitrary: deg queue head rule: less_induct)
  case less
  show ?case
  proof (cases "head < length queue")
    case False
    then have "head = length queue" using less.prems by (simp add: kahn_inv_def)
    then show ?thesis using less.prems kahn_loop.simps by auto
  next
    case True
    obtain deg' queue' where free: "free_dependents (dependents ! (queue ! head)) deg queue = (deg', queue')"
      by (cases "free_dependents (dependents ! (queue ! head)) deg queue")
    note st = kahn_inv_step [OF less.prems True free]
    have "n - Suc head < n - head" using True kahn_inv_length [OF less.prems] by simp
    from less.hyps [OF this st(1)] show ?thesis
      using True free st(2) by (simp add: kahn_loop.simps [of dependents deg queue])
  qed
qed

lemma add_prerequisites_spec:
  assumes "\<forall>d j. ids d = Some j \<longrightarrow> j < length dependents" and "i < length deg"
  shows "add_prerequisites ids i deps (deg, dependents) =
     (if \<exists>d \<in> set deps. ids d = None then None
      else Some (deg[i := deg ! i + length deps],
        map (\<lambda>u. dependents ! u @ replicate (count_list (map ids deps) (Some u)) i) [0..<length dependents]))"
  using assms
proof (induction deps arbitrary: deg dependents)
  case Nil
  then show ?case by (simp add: map_nth)
next
  case (Cons d deps)
  show ?case
  proof (cases "ids d")
    case (Some j)
    then have j: "j < length dependents" using Cons.prems by simp
    have "map (\<lambda>u. dependents[j := dependents ! j @ [i]] ! u @ replicate (count_list (map ids deps) (Some u)) i) [0..<length dependents]
        = map (\<lambda>u. dependents ! u @ replicate (count_list (map ids (d # deps)) (Some u)) i) [0..<length dependents]"
      using Some j by (intro map_cong) (auto simp: nth_list_update)
    then show ?thesis using Cons.IH [of "dependents[j := dependents ! j @ [i]]" "deg[i := Suc (deg ! i)]"] Cons.prems Some
      by auto
  qed simp
qed

definition leg_edges :: "(string \<rightharpoonup> nat) \<Rightarrow> basket_leg list \<Rightarrow> nat \<Rightarrow> nat \<Rightarrow> nat \<Rightarrow> nat" where
  "leg_edges ids legs i u v =
     (if i \<le> v \<and> v < i + length legs then count_list (map ids (bl_depends_on (legs ! (v - i)))) (Some u) else 0)"

definition leg_need :: "basket_leg list \<Rightarrow> nat \<Rightarrow> nat \<Rightarrow> nat" where
  "leg_need legs i v = (if i \<le> v \<and> v < i + length legs then length (bl_depends_on (legs ! (v - i))) else 0)"

lemma build_graph_spec:
  assumes "\<forall>d j. ids d = Some j \<longrightarrow> j < n" and "length deg = n" "length dependents = n" "i + length legs \<le> n"
  shows "build_graph ids i legs (deg, dependents) = None \<longleftrightarrow> (\<exists>leg \<in> set legs. \<exists>d \<in> set (bl_depends_on leg). ids d = None)"
    and "build_graph ids i legs (deg, dependents) = Some (deg', dependents') \<Longrightarrow>
      length deg' = n \<and> length dependents' = n
      \<and> (\<forall>v < n. deg' ! v = deg ! v + leg_need legs i v)
      \<and> (\<forall>u < n. \<forall>v. count_list (dependents' ! u) v = count_list (dependents ! u) v + leg_edges ids legs i u v)"
proof -
  have "(build_graph ids i legs (deg, dependents) = None \<longleftrightarrow> (\<exists>leg \<in> set legs. \<exists>d \<in> set (bl_depends_on leg). ids d = None))
    \<and> (build_graph ids i legs (deg, dependents) = Some (deg', dependents') \<longrightarrow>
      length deg' = n \<and> length dependents' = n
      \<and> (\<forall>v < n. deg' ! v = deg ! v + leg_need legs i v)
      \<and> (\<forall>u < n. \<forall>v. count_list (dependents' ! u) v = count_list (dependents ! u) v + leg_edges ids legs i u v))"
    using assms
  proof (induction legs arbitrary: i deg dependents)
    case Nil
    then show ?case by (auto simp: leg_edges_def leg_need_def)
  next
    case (Cons leg legs)
    define ds where "ds = bl_depends_on leg"
    define deg1 where "deg1 = deg[i := deg ! i + length ds]"
    define dep1 where "dep1 = map (\<lambda>u. dependents ! u @ replicate (count_list (map ids ds) (Some u)) i) [0..<length dependents]"
    have i: "i < n" using Cons.prems by simp
    have add: "add_prerequisites ids i ds (deg, dependents) = (if \<exists>d \<in> set ds. ids d = None then None else Some (deg1, dep1))"
      using add_prerequisites_spec [of ids dependents i deg ds] Cons.prems i by (simp add: deg1_def dep1_def)
    show ?case
    proof (cases "\<exists>d \<in> set ds. ids d = None")
      case True
      then show ?thesis using add by (auto simp: ds_def)
    next
      case False
      have ih: "(build_graph ids (Suc i) legs (deg1, dep1) = None \<longleftrightarrow> (\<exists>leg \<in> set legs. \<exists>d \<in> set (bl_depends_on leg). ids d = None))
        \<and> (build_graph ids (Suc i) legs (deg1, dep1) = Some (deg', dependents') \<longrightarrow>
          length deg' = n \<and> length dependents' = n
          \<and> (\<forall>v < n. deg' ! v = deg1 ! v + leg_need legs (Suc i) v)
          \<and> (\<forall>u < n. \<forall>v. count_list (dependents' ! u) v = count_list (dep1 ! u) v + leg_edges ids legs (Suc i) u v))"
        using Cons.prems by (intro Cons.IH) (simp_all add: deg1_def dep1_def)
      have eq: "build_graph ids i (leg # legs) (deg, dependents) = build_graph ids (Suc i) legs (deg1, dep1)"
        using add False by (auto simp: ds_def)
      have d1: "deg1 ! v + leg_need legs (Suc i) v = deg ! v + leg_need (leg # legs) i v" for v
        using i Cons.prems by (cases "v = i") (auto simp: deg1_def ds_def leg_need_def nth_Cons')
      have e1: "count_list (dep1 ! u) v + leg_edges ids legs (Suc i) u v = count_list (dependents ! u) v + leg_edges ids (leg # legs) i u v"
        if "u < n" for u v
      proof -
        have "count_list (replicate m i) v = (if v = i then m else 0)" for m :: nat by (induction m) auto
        then show ?thesis using that Cons.prems
          by (cases "v = i") (auto simp: dep1_def ds_def leg_edges_def nth_Cons')
      qed
      have "(\<exists>l \<in> set (leg # legs). \<exists>d \<in> set (bl_depends_on l). ids d = None)
          \<longleftrightarrow> (\<exists>l \<in> set legs. \<exists>d \<in> set (bl_depends_on l). ids d = None)"
        using False by (auto simp: ds_def)
      then show ?thesis using ih unfolding eq by (simp only: d1 e1 simp_thms cong: conj_cong) (simp add: e1)
    qed
  qed
  then show "build_graph ids i legs (deg, dependents) = None \<longleftrightarrow> (\<exists>leg \<in> set legs. \<exists>d \<in> set (bl_depends_on leg). ids d = None)"
    and "build_graph ids i legs (deg, dependents) = Some (deg', dependents') \<Longrightarrow>
      length deg' = n \<and> length dependents' = n
      \<and> (\<forall>v < n. deg' ! v = deg ! v + leg_need legs i v)
      \<and> (\<forall>u < n. \<forall>v. count_list (dependents' ! u) v = count_list (dependents ! u) v + leg_edges ids legs i u v)"
    by blast+
qed

lemma sum_count_indices:
  fixes n :: nat
  shows "\<forall>d \<in> set ds. \<exists>u < n. ids d = Some u \<Longrightarrow> (\<Sum>u < n. count_list (map ids ds) (Some u)) = length ds"
proof (induction ds)
  case (Cons d ds)
  obtain u where u: "u < n" "ids d = Some u" using Cons.prems by auto
  have "(\<Sum>w < n. count_list (map ids (d # ds)) (Some w)) = (\<Sum>w < n. (if w = u then 1 else 0) + count_list (map ids ds) (Some w))"
    using u by (intro sum.cong) auto
  then show ?case using Cons u by (simp add: sum.distrib)
qed simp

text \<open>What the pre-flight is to decide: identifiers, known prerequisites, no cycle.\<close>

definition depends :: "basket_leg list \<Rightarrow> (nat \<times> nat) set" where
  "depends legs = {(j, i). i < length legs \<and> j < length legs
     \<and> bl_leg_id (legs ! j) \<in> set (bl_depends_on (legs ! i))}"

definition basket_wf :: "basket_leg list \<Rightarrow> bool" where
  "basket_wf legs \<longleftrightarrow> (\<forall>leg \<in> set legs. bl_leg_id leg \<noteq> []) \<and> distinct (map bl_leg_id legs)
     \<and> (\<forall>leg \<in> set legs. set (bl_depends_on leg) \<subseteq> bl_leg_id ` set legs) \<and> acyclic (depends legs)"

definition respects_depends :: "basket_leg list \<Rightarrow> nat list \<Rightarrow> bool" where
  "respects_depends legs order \<longleftrightarrow> distinct order \<and> set order = {..<length legs}
     \<and> (\<forall>k < length order. \<forall>j. (j, order ! k) \<in> depends legs \<longrightarrow> j \<in> set (take k order))"

lemma respects_acyclic:
  assumes "respects_depends legs order"
  shows "acyclic (depends legs)"
proof -
  have sub: "(j, i) \<in> depends legs \<Longrightarrow> \<exists>a b. a < b \<and> b < length order \<and> order ! a = j \<and> order ! b = i" for j i
  proof -
    assume d: "(j, i) \<in> depends legs"
    then have "i \<in> set order" using assms by (auto simp: depends_def respects_depends_def)
    then obtain b where b: "b < length order" "order ! b = i" by (auto simp: in_set_conv_nth)
    then have "j \<in> set (take b order)" using assms d by (auto simp: respects_depends_def)
    then obtain a where "a < b" "order ! a = j" by (auto simp: in_set_conv_nth)
    then show ?thesis using b by blast
  qed
  define pos where "pos = (\<lambda>i. THE a. a < length order \<and> order ! a = i)"
  have pos: "pos (order ! a) = a" if "a < length order" for a
    unfolding pos_def using assms that by (intro the_equality) (auto simp: respects_depends_def nth_eq_iff_index_eq)
  have "depends legs \<subseteq> measure pos"
    using sub pos by fastforce
  then show ?thesis using acyclic_subset wf_acyclic wf_measure by blast
qed

lemma stuck_cyclic:
  assumes R: "R \<noteq> {}" "R \<subseteq> {..<length legs}" and pred: "\<forall>i \<in> R. \<exists>j \<in> R. (j, i) \<in> depends legs"
  shows "\<not> acyclic (depends legs)"
proof
  assume "acyclic (depends legs)"
  moreover have "finite (depends legs)"
    by (rule finite_subset [of _ "{..<length legs} \<times> {..<length legs}"]) (auto simp: depends_def)
  ultimately have "wf (depends legs)" by (rule finite_acyclic_wf [rotated])
  then obtain i where "i \<in> R" "\<forall>j. (j, i) \<in> depends legs \<longrightarrow> j \<notin> R"
    using R(1) by (metis wf_eq_minimal ex_in_conv)
  then show False using pred by blast
qed

lemma built_graph:
  assumes ids: "index_ids legs 0 (\<lambda>_. None) = Some ids"
    and g: "build_graph ids 0 legs (replicate (length legs) 0, replicate (length legs) []) = Some (deg, dependents)"
  shows "kahn_inv (length legs) dependents deg (filter (\<lambda>i. deg ! i = 0) [0..<length legs]) 0"
    and "u < length legs \<Longrightarrow> v < length legs \<Longrightarrow> v \<in> set (dependents ! u) \<longleftrightarrow> (u, v) \<in> depends legs"
proof -
  let ?n = "length legs"
  have look: "ids s = Some j \<longleftrightarrow> j < ?n \<and> bl_leg_id (legs ! j) = s" for s j
    using index_ids_lookup [OF ids] by simp
  have b: "\<forall>d j. ids d = Some j \<longrightarrow> j < ?n" "length (replicate ?n (0::nat)) = ?n"
    "length (replicate ?n ([]::nat list)) = ?n" "0 + length legs \<le> ?n" by (simp_all add: look)
  note spec = build_graph_spec(2) [OF b g]
  have known: "\<forall>d \<in> set (bl_depends_on (legs ! v)). \<exists>u < ?n. ids d = Some u" if "v < ?n" for v
    using build_graph_spec(1) [OF b] g that b(1) by (metis nth_mem option.distinct(1) option.exhaust)
  have cnt: "count_list (dependents ! u) v = (if v < ?n then count_list (map ids (bl_depends_on (legs ! v))) (Some u) else 0)"
    if "u < ?n" for u v
    using spec that by (simp add: leg_edges_def)
  show edge: "v \<in> set (dependents ! u) \<longleftrightarrow> (u, v) \<in> depends legs" if "u < ?n" "v < ?n" for u v
  proof -
    have "v \<in> set (dependents ! u) \<longleftrightarrow> count_list (dependents ! u) v \<noteq> 0" by (simp add: count_list_0_iff)
    also have "\<dots> \<longleftrightarrow> Some u \<in> ids ` set (bl_depends_on (legs ! v))" using cnt that by (simp add: count_list_0_iff)
    also have "\<dots> \<longleftrightarrow> (u, v) \<in> depends legs" using that look by (auto simp: depends_def image_iff dest: sym)
    finally show ?thesis .
  qed
  have inside: "set (dependents ! u) \<subseteq> {..<?n}" if "u < ?n" for u
    using cnt [OF that] by (metis count_list_0_iff lessThan_iff subsetI)
  have deg: "deg ! v = (\<Sum>u < ?n. count_list (dependents ! u) v)" if v: "v < ?n" for v
  proof -
    have "deg ! v = length (bl_depends_on (legs ! v))" using spec v by (simp add: leg_need_def)
    also have "\<dots> = (\<Sum>u < ?n. count_list (map ids (bl_depends_on (legs ! v))) (Some u))"
      using sum_count_indices [OF known [OF v]] by simp
    also have "\<dots> = (\<Sum>u < ?n. count_list (dependents ! u) v)" using cnt v by (intro sum.cong) auto
    finally show ?thesis .
  qed
  let ?q = "filter (\<lambda>i. deg ! i = 0) [0..<?n]"
  have none: "u \<notin> set (dependents ! w)" if "u < ?n" "w < ?n" "deg ! u = 0" for u w
    using deg [OF that(1)] that by (auto simp: count_list_0_iff)
  have "?q ! k \<notin> set (dependents ! w)" if "k < length ?q" "w < ?n" for k w
    using none [of "?q ! k" w] nth_mem [OF that(1)] that(2) by auto
  then have "\<forall>k < length ?q. \<forall>u < ?n. ?q ! k \<in> set (dependents ! u) \<longrightarrow> u \<in> set (take k ?q)" by blast
  then show "kahn_inv ?n dependents deg ?q 0"
    unfolding kahn_inv_def using spec inside by (intro conjI) (simp_all add: deg, auto)
qed

lemma topological_order_spec:
  "\<exists>answer. topological_order legs = Some answer
    \<and> (case answer of None \<Rightarrow> \<not> basket_wf legs | Some order \<Rightarrow> basket_wf legs \<and> respects_depends legs order)"
proof -
  let ?n = "length legs"
  show ?thesis
  proof (cases "index_ids legs 0 (\<lambda>_. None)")
    case None
    then have "\<not> basket_wf legs" using index_ids_ok [of legs 0 "\<lambda>_. None"] by (auto simp: basket_wf_def)
    then show ?thesis using None by (simp add: topological_order_def)
  next
    case ids: (Some ids)
    have wf1: "(\<forall>leg \<in> set legs. bl_leg_id leg \<noteq> []) \<and> distinct (map bl_leg_id legs)"
      using index_ids_ok [of legs 0 "\<lambda>_. None"] ids by auto
    have look: "ids s = Some j \<longleftrightarrow> j < ?n \<and> bl_leg_id (legs ! j) = s" for s j
      using index_ids_lookup [OF ids] by simp
    have known: "ids d = None \<longleftrightarrow> d \<notin> bl_leg_id ` set legs" for d
    proof -
      have "ids d = None \<longleftrightarrow> \<not> (\<exists>j. ids d = Some j)" by auto
      then show ?thesis unfolding look by (metis imageE imageI in_set_conv_nth)
    qed
    have b: "\<forall>d j. ids d = Some j \<longrightarrow> j < ?n" "length (replicate ?n (0::nat)) = ?n"
      "length (replicate ?n ([]::nat list)) = ?n" "0 + length legs \<le> ?n" by (simp_all add: look)
    show ?thesis
    proof (cases "build_graph ids 0 legs (replicate ?n 0, replicate ?n [])")
      case None
      then have "\<not> basket_wf legs"
        using build_graph_spec(1) [OF b] known by (auto simp: basket_wf_def)
      then show ?thesis using None ids by (simp add: topological_order_def Let_def)
    next
      case (Some g)
      obtain deg dependents where g: "g = (deg, dependents)" by (cases g)
      note built = built_graph [OF ids Some [unfolded g]]
      have wf2: "\<forall>leg \<in> set legs. set (bl_depends_on leg) \<subseteq> bl_leg_id ` set legs"
        using build_graph_spec(1) [OF b] Some known by auto
      obtain deg' order where run: "kahn_loop dependents deg (filter (\<lambda>i. deg ! i = 0) [0..<?n]) 0 [] = Some order"
        and inv: "kahn_inv ?n dependents deg' order (length order)"
        using kahn_loop_returns [OF built(1)] by auto
      have topo: "topological_order legs = Some (if length order = ?n then Some order else None)"
        using ids Some g run by (simp add: topological_order_def Let_def)
      show ?thesis
      proof (cases "length order = ?n")
        case True
        then have "set order = {..<?n}" using inv unfolding kahn_inv_def
          by (metis card_lessThan card_subset_eq distinct_card finite_lessThan)
        then have "respects_depends legs order"
          using inv built(2) unfolding respects_depends_def kahn_inv_def
          by (auto simp: depends_def)
        then show ?thesis using topo True wf1 wf2 respects_acyclic by (auto simp: basket_wf_def)
      next
        case False
        define R where "R = {..<?n} - set order"
        have "R \<noteq> {}" using inv False unfolding kahn_inv_def R_def
          by (metis Diff_eq_empty_iff card_lessThan distinct_card subset_antisym)
        moreover have "\<forall>i \<in> R. \<exists>j \<in> R. (j, i) \<in> depends legs"
        proof
          fix i assume i: "i \<in> R"
          then have "deg' ! i \<noteq> 0" using inv by (auto simp: kahn_inv_def R_def)
          moreover have "deg' ! i = (\<Sum>u \<in> R. count_list (dependents ! u) i)"
            using inv i by (simp add: kahn_inv_def R_def)
          ultimately obtain j where "j \<in> R" "count_list (dependents ! j) i \<noteq> 0"
            by (metis sum.neutral)
          then show "\<exists>j \<in> R. (j, i) \<in> depends legs" using built(2) i by (auto simp: R_def count_list_0_iff)
        qed
        ultimately have "\<not> acyclic (depends legs)" by (intro stuck_cyclic [of R]) (auto simp: R_def)
        then show ?thesis using topo False by (simp add: basket_wf_def)
      qed
    qed
  qed
qed

section \<open>Execution\<close>

record basket_run =
  bn_status :: "leg_status list"
  bn_order_id :: "string list"
  bn_detail :: "string list"

definition fresh_run :: "nat \<Rightarrow> basket_run" where
  "fresh_run n = \<lparr>bn_status = replicate n SkippedUnmetDependency, bn_order_id = replicate n [],
     bn_detail = replicate n []\<rparr>"

text \<open>The second map from identifiers to indices, for the validated legs.\<close>

fun emplace_ids :: "basket_leg list \<Rightarrow> nat \<Rightarrow> (string \<rightharpoonup> nat) \<Rightarrow> (string \<rightharpoonup> nat)" where
  "emplace_ids [] i ids = ids"
| "emplace_ids (leg # legs) i ids =
     emplace_ids legs (Suc i) (if ids (bl_leg_id leg) = None then ids(bl_leg_id leg \<mapsto> i) else ids)"

definition prerequisites_met :: "(string \<rightharpoonup> nat) \<Rightarrow> basket_run \<Rightarrow> string list \<Rightarrow> bool" where
  "prerequisites_met ids run deps = list_all (\<lambda>dep. bn_status run ! the (ids dep) = Executed) deps"

definition ambiguous_leg_detail :: "error \<Rightarrow> string" where
  "ambiguous_leg_detail e = ''leg placement AMBIGUOUS, order MAY be LIVE (no order_id): '' @ error_tag e
     @ ''; reconcile before any unwind''"

definition rejected_leg_detail :: "error \<Rightarrow> string" where
  "rejected_leg_detail e = ''leg placement rejected (definitive, order not placed): '' @ error_tag e"

definition note_answer :: "nat \<Rightarrow> broker_ack result \<Rightarrow> basket_run \<Rightarrow> basket_run" where
  "note_answer i ack run =
     (case ack of
        Inl e \<Rightarrow>
          if is_ambiguous e then
            run \<lparr>bn_status := (bn_status run)[i := AmbiguousMayBeLive],
                 bn_detail := (bn_detail run)[i := ambiguous_leg_detail e]\<rparr>
          else
            run \<lparr>bn_status := (bn_status run)[i := LegFailed],
                 bn_detail := (bn_detail run)[i := rejected_leg_detail e]\<rparr>
      | Inr a \<Rightarrow>
          run \<lparr>bn_status := (bn_status run)[i := Executed],
               bn_order_id := (bn_order_id run)[i := ba_broker_order_id a],
               bn_detail := (bn_detail run)[i := ''leg executed'']\<rparr>)"

fun place_legs ::
    "(basket_trace \<Rightarrow> basket_leg \<Rightarrow> broker_ack result) \<Rightarrow> basket_leg list \<Rightarrow> (string \<rightharpoonup> nat) \<Rightarrow> nat list
     \<Rightarrow> basket_run \<times> basket_trace \<Rightarrow> basket_run \<times> basket_trace" where
  "place_legs place legs ids [] (run, tr) = (run, tr)"
| "place_legs place legs ids (i # order) (run, tr) =
     (let leg = legs ! i in
      if \<not> prerequisites_met ids run (bl_depends_on leg) then
        place_legs place legs ids order
          (run \<lparr>bn_status := (bn_status run)[i := SkippedUnmetDependency],
                bn_detail := (bn_detail run)[i := ''skipped: a prerequisite leg was not Executed (never orphaned)'']\<rparr>, tr)
      else
        let ack = place tr leg; tr' = tr @ [PlaceLeg leg ack] in
        place_legs place legs ids order (note_answer i ack run, tr'))"

definition comma_join :: "string \<Rightarrow> string \<Rightarrow> string" where
  "comma_join acc name = (if acc = [] then name else acc @ '','' @ name)"

text \<open>The ambiguous branch: name the unproven legs, mark the executed ones as left live.\<close>

fun mark_ambiguous :: "basket_leg list \<Rightarrow> nat list \<Rightarrow> basket_run \<Rightarrow> string \<Rightarrow> basket_run \<times> string" where
  "mark_ambiguous legs [] run names = (run, names)"
| "mark_ambiguous legs (i # is) run names =
     (if bn_status run ! i = AmbiguousMayBeLive then
        mark_ambiguous legs is run (comma_join names (bl_leg_id (legs ! i)))
      else if bn_status run ! i = Executed then
        mark_ambiguous legs is
          (run \<lparr>bn_detail := (bn_detail run)[i := ''leg LEFT LIVE: unwind SUPPRESSED while an ambiguous leg may be live'']\<rparr>) names
      else mark_ambiguous legs is run names)"

text \<open>The unwind loop, over the reversed execution order.\<close>

fun unwind_legs ::
    "(basket_trace \<Rightarrow> string \<Rightarrow> unit result) option \<Rightarrow> basket_leg list \<Rightarrow> nat list
     \<Rightarrow> basket_run \<times> basket_trace \<Rightarrow> string \<Rightarrow> (basket_run \<times> basket_trace) \<times> string" where
  "unwind_legs unwind legs [] (run, tr) live = ((run, tr), live)"
| "unwind_legs unwind legs (i # is) (run, tr) live =
     (if bn_status run ! i \<noteq> Executed then unwind_legs unwind legs is (run, tr) live
      else case unwind of
        None \<Rightarrow> unwind_legs unwind legs is
          (run \<lparr>bn_detail := (bn_detail run)[i := ''CRITICAL: unwind seam not configured, leg still LIVE'']\<rparr>, tr)
          (comma_join live (bl_leg_id (legs ! i)))
      | Some f \<Rightarrow>
        let answer = f tr (bn_order_id run ! i); tr' = tr @ [UnwindLeg (bn_order_id run ! i) answer] in
        case answer of
          Inr _ \<Rightarrow> unwind_legs unwind legs is
            (run \<lparr>bn_status := (bn_status run)[i := Unwound],
                  bn_detail := (bn_detail run)[i := ''leg unwound during remediation'']\<rparr>, tr') live
        | Inl e \<Rightarrow> unwind_legs unwind legs is
            (run \<lparr>bn_detail := (bn_detail run)[i := ''CRITICAL: unwind failed, leg still LIVE: '' @ error_tag e]\<rparr>, tr')
            (comma_join live (bl_leg_id (legs ! i))))"

definition leg_results :: "basket_leg list \<Rightarrow> basket_run \<Rightarrow> leg_result list" where
  "leg_results legs run = map (\<lambda>i. \<lparr>lr_leg_id = bl_leg_id (legs ! i), lr_status = bn_status run ! i,
     lr_order_id = bn_order_id run ! i, lr_detail = bn_detail run ! i\<rparr>) [0..<length legs]"

definition settle_basket ::
    "basket_leg list \<Rightarrow> basket_config \<Rightarrow> basket_seams \<Rightarrow> string \<Rightarrow> nat list \<Rightarrow> basket_run \<times> basket_trace
     \<Rightarrow> basket_result \<times> basket_trace" where
  "settle_basket legs config seams basket_id order placed =
     (let (run, tr) = placed;
          finish = (\<lambda>outcome run detail.
            \<lparr>br_outcome = outcome, br_basket_id = basket_id, br_legs = leg_results legs run,
             br_tracked_as_single_unit = bc_track_as_single_unit config, br_detail = detail\<rparr>) in
      if AmbiguousMayBeLive \<in> set (bn_status run) then
        let (run', names) = mark_ambiguous legs [0..<length legs] run [] in
        (finish ReconcileRequired run'
           (''basket RECONCILE REQUIRED: ambiguous leg(s) may be LIVE at the broker: '' @ names @ ''; NO leg was unwound''),
         tr @ [BasketAlert AlertCritical
           (''BASKET RECONCILE REQUIRED: leg placement was AMBIGUOUS and MAY be LIVE at the broker: '' @ names
            @ ''; NO leg was unwound - reconcile before cancelling anything'')])
      else if \<not> (LegFailed \<in> set (bn_status run) \<or> SkippedUnmetDependency \<in> set (bn_status run)) then
        (finish BasketComplete run ''basket complete: all legs executed'', tr)
      else if bc_on_leg_failure config = UnwindExecuted then
        let ((run', tr'), live) = unwind_legs (unwind_leg seams) legs (rev order) (run, tr) [] in
        (finish PartiallyExecutedUnwound run'
           (if live \<noteq> [] then ''basket partial: unwind attempted; legs still LIVE: '' @ live
            else ''basket partial: executed legs unwound per policy''),
         tr' @ [BasketAlert AlertCritical
           (if live \<noteq> [] then ''BASKET PARTIAL: a leg failed and one or more executed legs could NOT be unwound and remain LIVE: '' @ live
            else ''BASKET PARTIAL: a leg failed; all executed legs unwound per policy'')])
      else
        (finish PartiallyExecutedLeft run ''basket partial: executed legs left in place per policy; operator alerted'',
         tr @ [BasketAlert AlertWarning ''BASKET PARTIAL: a leg failed; executed legs LEFT in place per policy'']))"

definition blocked_basket :: "basket_leg list \<Rightarrow> basket_config \<Rightarrow> string \<Rightarrow> string \<Rightarrow> basket_result" where
  "blocked_basket legs config basket_id detail =
     \<lparr>br_outcome = BasketBlocked, br_basket_id = basket_id,
      br_legs = map (\<lambda>leg. \<lparr>lr_leg_id = bl_leg_id leg, lr_status = SkippedUnmetDependency, lr_order_id = [],
        lr_detail = ''basket blocked pre-flight''\<rparr>) legs,
      br_tracked_as_single_unit = bc_track_as_single_unit config, br_detail = detail\<rparr>"

text \<open>\<open>None\<close>: the call does not return.\<close>

definition execute_basket ::
    "basket_leg list \<Rightarrow> basket_config \<Rightarrow> basket_seams \<Rightarrow> (basket_result \<times> basket_trace) option" where
  "execute_basket legs config seams =
     (let basket_id = (if bc_basket_id config = [] then fallback_basket_id (length legs) else bc_basket_id config) in
      case place_leg seams of
        None \<Rightarrow> Some (blocked_basket legs config basket_id
          ''basket blocked: place_leg seam not configured (nothing placed)'', [])
      | Some place \<Rightarrow>
        (case topological_order legs of
           None \<Rightarrow> None
         | Some None \<Rightarrow> Some (blocked_basket legs config basket_id
             ''basket blocked: invalid basket (empty/duplicate leg_id, unknown dependency, or cycle); nothing placed'', [])
         | Some (Some order) \<Rightarrow>
             let ids = emplace_ids legs 0 (\<lambda>_. None) in
             Some (settle_basket legs config seams basket_id order
               (place_legs place legs ids order (fresh_run (length legs), [])))))"

section \<open>What execution does\<close>

fun status_of :: "broker_ack result \<Rightarrow> leg_status" where
  "status_of (Inl e) = (if is_ambiguous e then AmbiguousMayBeLive else LegFailed)"
| "status_of (Inr a) = Executed"

definition placed_calls :: "basket_leg list \<Rightarrow> (nat \<times> broker_ack result) list \<Rightarrow> basket_trace" where
  "placed_calls legs calls = map (\<lambda>(i, x). PlaceLeg (legs ! i) x) calls"

text \<open>
  After the legs \<open>done\<close>: the calls made, in order, are those of the legs not skipped; the status of a
  leg is the reading of its answer; a skipped leg has a prerequisite that is not executed.
\<close>

definition place_inv ::
    "basket_leg list \<Rightarrow> nat list \<Rightarrow> basket_run \<Rightarrow> (nat \<times> broker_ack result) list \<Rightarrow> bool" where
  "place_inv legs done run calls \<longleftrightarrow>
     length (bn_status run) = length legs \<and> length (bn_order_id run) = length legs
     \<and> length (bn_detail run) = length legs
     \<and> map fst calls = filter (\<lambda>i. bn_status run ! i \<noteq> SkippedUnmetDependency) done
     \<and> (\<forall>i < length legs. i \<notin> set done \<longrightarrow> bn_status run ! i = SkippedUnmetDependency)
     \<and> (\<forall>(i, x) \<in> set calls. bn_status run ! i = status_of x
          \<and> (\<forall>a. x = Inr a \<longrightarrow> bn_order_id run ! i = ba_broker_order_id a))
     \<and> (\<forall>k < length calls. \<forall>j. (j, fst (calls ! k)) \<in> depends legs \<longrightarrow>
          (\<exists>l < k. \<exists>a. calls ! l = (j, Inr a)))
     \<and> (\<forall>i \<in> set done. bn_status run ! i = SkippedUnmetDependency \<longrightarrow>
          (\<exists>j. (j, i) \<in> depends legs \<and> bn_status run ! j \<noteq> Executed))"

lemma place_inv_executed:
  assumes "place_inv legs done run calls" "j < length legs" "bn_status run ! j = Executed"
  shows "\<exists>l < length calls. \<exists>a. calls ! l = (j, Inr a)"
proof -
  have "j \<in> set done" using assms by (force simp: place_inv_def)
  then have "j \<in> set (map fst calls)" using assms by (simp add: place_inv_def)
  then obtain l where l: "l < length calls" "fst (calls ! l) = j" by (auto simp: in_set_conv_nth)
  then obtain x where x: "calls ! l = (j, x)" by (metis prod.collapse)
  then have "status_of x = Executed" using assms l by (force simp: place_inv_def dest: nth_mem)
  then show ?thesis using x l by (cases x) (auto split: if_splits)
qed

lemma filter_list_update:
  "i \<notin> set is \<Longrightarrow> filter (\<lambda>j. P (xs[i := y] ! j)) is = filter (\<lambda>j. P (xs ! j)) is"
  by (induction "is") auto

lemma place_inv_done:
  assumes "place_inv legs done run calls" "(i, x) \<in> set calls"
  shows "i \<in> set done"
proof -
  have "i \<in> set (map fst calls)" using assms(2) by force
  moreover have "map fst calls = filter (\<lambda>i. bn_status run ! i \<noteq> SkippedUnmetDependency) done"
    using assms(1) by (simp add: place_inv_def)
  ultimately show ?thesis by simp
qed

text \<open>One more leg, skipped or placed.\<close>

lemma place_inv_skip:
  assumes inv: "place_inv legs done run calls" and i: "i \<notin> set done" "i < length legs"
    and dep: "(j, i) \<in> depends legs" "j \<noteq> i" "bn_status run ! j \<noteq> Executed"
    and ds: "length ds = length legs"
  shows "place_inv legs (done @ [i])
    (run \<lparr>bn_status := (bn_status run)[i := SkippedUnmetDependency], bn_detail := ds\<rparr>) calls"
proof -
  have st: "(bn_status run)[i := SkippedUnmetDependency] = bn_status run"
  proof -
    have "bn_status run ! i = SkippedUnmetDependency" using inv i by (simp add: place_inv_def)
    then show ?thesis by (metis list_update_id)
  qed
  then show ?thesis using inv i dep ds by (auto simp: place_inv_def)
qed

lemma place_inv_place:
  assumes inv: "place_inv legs done run calls" and i: "i \<notin> set done" "i < length legs"
    and nodep: "(i, i) \<notin> depends legs" "\<forall>j \<in> set done. (i, j) \<notin> depends legs"
    and met: "\<forall>j. (j, i) \<in> depends legs \<longrightarrow> bn_status run ! j = Executed"
    and run': "bn_status run' = (bn_status run)[i := status_of x]" "length (bn_order_id run') = length legs"
      "length (bn_detail run') = length legs"
      "\<forall>j \<noteq> i. bn_order_id run' ! j = bn_order_id run ! j"
      "\<forall>a. x = Inr a \<longrightarrow> bn_order_id run' ! i = ba_broker_order_id a"
  shows "place_inv legs (done @ [i]) run' (calls @ [(i, x)])"
proof -
  have len: "i < length (bn_status run)" using inv i by (simp add: place_inv_def)
  have other: "bn_status run' ! j = bn_status run ! j" if "j \<noteq> i" for j using run'(1) that by simp
  have here: "bn_status run' ! i = status_of x" "status_of x \<noteq> SkippedUnmetDependency"
    using run'(1) len by (simp_all, cases x) auto
  have fsts: "map fst (calls @ [(i, x)]) = filter (\<lambda>i. bn_status run' ! i \<noteq> SkippedUnmetDependency) (done @ [i])"
  proof -
    have "filter (\<lambda>i. bn_status run' ! i \<noteq> SkippedUnmetDependency) done = filter (\<lambda>i. bn_status run ! i \<noteq> SkippedUnmetDependency) done"
      unfolding run'(1) using filter_list_update [OF i(1)] .
    then show ?thesis using inv here by (simp add: place_inv_def)
  qed
  have deps: "\<exists>l < k. \<exists>a. (calls @ [(i, x)]) ! l = (j, Inr a)"
    if k: "k < length (calls @ [(i, x)])" and d: "(j, fst ((calls @ [(i, x)]) ! k)) \<in> depends legs" for k j
  proof (cases "k < length calls")
    case True
    then have "\<exists>l < k. \<exists>a. calls ! l = (j, Inr a)" using inv d by (simp add: place_inv_def nth_append)
    then show ?thesis using True by (metis nth_append order_less_trans)
  next
    case False
    then have "k = length calls" using k by simp
    moreover from this have "(j, i) \<in> depends legs" using d by simp
    ultimately have "k = length calls" "(j, i) \<in> depends legs" by blast+
    then have "j < length legs" "bn_status run ! j = Executed" using met by (auto simp: depends_def)
    then obtain l a where "l < length calls" "calls ! l = (j, Inr a)" using place_inv_executed [OF inv] by blast
    then show ?thesis using \<open>k = length calls\<close> by (metis nth_append)
  qed
  have skipped: "\<exists>h. (h, j) \<in> depends legs \<and> bn_status run' ! h \<noteq> Executed"
    if j: "j \<in> set (done @ [i])" "bn_status run' ! j = SkippedUnmetDependency" for j
  proof -
    have "j \<noteq> i" "j \<in> set done" using here j by auto
    then obtain h where "(h, j) \<in> depends legs" "bn_status run ! h \<noteq> Executed"
      using inv j other by (force simp: place_inv_def)
    then show ?thesis using nodep \<open>j \<in> set done\<close> other by metis
  qed
  have answers: "bn_status run' ! j = status_of y \<and> (\<forall>a. y = Inr a \<longrightarrow> bn_order_id run' ! j = ba_broker_order_id a)"
    if "(j, y) \<in> set (calls @ [(i, x)])" for j y
  proof (cases "(j, y) \<in> set calls")
    case True
    then have "j \<noteq> i" using place_inv_done [OF inv] i by blast
    then show ?thesis using inv True other run'(4) by (auto simp: place_inv_def)
  next
    case False
    then show ?thesis using that here run'(5) by auto
  qed
  have lens: "length (bn_status run') = length legs" using inv run'(1) by (simp add: place_inv_def)
  have rest: "\<forall>j < length legs. j \<notin> set (done @ [i]) \<longrightarrow> bn_status run' ! j = SkippedUnmetDependency"
    using inv other by (simp add: place_inv_def)
  show ?thesis
    unfolding place_inv_def using lens run'(2,3) fsts rest deps skipped answers
    by (intro conjI allI impI ballI) (blast | fastforce)+
qed

lemma emplace_ids_lookup:
  assumes "\<forall>leg \<in> set legs. ids (bl_leg_id leg) = None" "distinct (map bl_leg_id legs)"
  shows "emplace_ids legs i ids s = Some j \<longleftrightarrow> ids s = Some j \<or> (\<exists>k < length legs. j = i + k \<and> bl_leg_id (legs ! k) = s)"
  using assms
proof (induction legs arbitrary: i ids)
  case (Cons leg legs)
  have "(\<exists>k < length (leg # legs). j = i + k \<and> bl_leg_id ((leg # legs) ! k) = s)
      \<longleftrightarrow> j = i \<and> bl_leg_id leg = s \<or> (\<exists>k < length legs. j = Suc i + k \<and> bl_leg_id (legs ! k) = s)"
    by (simp add: Ex_less_Suc2)
  moreover have "emplace_ids legs (Suc i) (ids(bl_leg_id leg \<mapsto> i)) s = Some j
      \<longleftrightarrow> (ids(bl_leg_id leg \<mapsto> i)) s = Some j \<or> (\<exists>k < length legs. j = Suc i + k \<and> bl_leg_id (legs ! k) = s)"
    using Cons.prems by (intro Cons.IH) (auto simp: image_iff)
  ultimately show ?case using Cons.prems by (auto split: if_splits)
qed simp

lemma prerequisites_met_iff:
  assumes wf: "basket_wf legs" and i: "i < length legs"
  shows "prerequisites_met (emplace_ids legs 0 (\<lambda>_. None)) run (bl_depends_on (legs ! i))
    \<longleftrightarrow> (\<forall>j. (j, i) \<in> depends legs \<longrightarrow> bn_status run ! j = Executed)"
proof -
  let ?ids = "emplace_ids legs 0 (\<lambda>_. None)"
  have d: "distinct (map bl_leg_id legs)" using wf by (simp add: basket_wf_def)
  have look: "?ids s = Some j \<longleftrightarrow> j < length legs \<and> bl_leg_id (legs ! j) = s" for s j
    using emplace_ids_lookup [OF _ d] by simp
  have known: "\<exists>j < length legs. ?ids s = Some j" if "s \<in> set (bl_depends_on (legs ! i))" for s
  proof -
    have "s \<in> bl_leg_id ` set legs" using wf i that by (auto simp: basket_wf_def)
    then show ?thesis unfolding look by (auto simp: in_set_conv_nth)
  qed
  show ?thesis
    unfolding prerequisites_met_def list_all_iff
  proof
    assume l: "\<forall>dep \<in> set (bl_depends_on (legs ! i)). bn_status run ! the (?ids dep) = Executed"
    show "\<forall>j. (j, i) \<in> depends legs \<longrightarrow> bn_status run ! j = Executed"
    proof (intro allI impI)
      fix j assume "(j, i) \<in> depends legs"
      then have "?ids (bl_leg_id (legs ! j)) = Some j" "bl_leg_id (legs ! j) \<in> set (bl_depends_on (legs ! i))"
        by (auto simp: look depends_def)
      then show "bn_status run ! j = Executed" using l by force
    qed
  next
    assume r: "\<forall>j. (j, i) \<in> depends legs \<longrightarrow> bn_status run ! j = Executed"
    show "\<forall>dep \<in> set (bl_depends_on (legs ! i)). bn_status run ! the (?ids dep) = Executed"
    proof
      fix dep assume dep: "dep \<in> set (bl_depends_on (legs ! i))"
      then obtain j where "?ids dep = Some j" using known by blast
      then have "(j, i) \<in> depends legs" using dep i by (auto simp: look depends_def)
      then show "bn_status run ! the (?ids dep) = Executed" using r \<open>?ids dep = Some j\<close> by simp
    qed
  qed
qed

lemma respects_before:
  "respects_depends legs order \<Longrightarrow> k < length order \<Longrightarrow> (j, order ! k) \<in> depends legs \<Longrightarrow> j \<in> set (take k order)"
  by (simp add: respects_depends_def)

lemma place_legs_inv:
  assumes wf: "basket_wf legs" and ord: "respects_depends legs (done @ order)"
    and inv: "place_inv legs done run calls"
    and run: "place_legs place legs (emplace_ids legs 0 (\<lambda>_. None)) order (run, placed_calls legs calls) = (run', tr')"
  shows "\<exists>calls'. place_inv legs (done @ order) run' calls' \<and> tr' = placed_calls legs calls'"
  using ord inv run
proof (induction order arbitrary: "done" run calls)
  case Nil
  then show ?case by auto
next
  case (Cons i order)
  have i: "i \<notin> set done" "i < length legs" using Cons.prems(1) by (auto simp: respects_depends_def)
  have before: "(j, i) \<in> depends legs \<Longrightarrow> j \<in> set done" for j
    using respects_before [OF Cons.prems(1), of "length done" j] by simp
  have after: "\<forall>j \<in> set done. (i, j) \<notin> depends legs"
  proof
    fix j assume "j \<in> set done"
    then obtain k where k: "k < length done" "done ! k = j" by (auto simp: in_set_conv_nth)
    then have "(i, j) \<in> depends legs \<Longrightarrow> i \<in> set (take k (done @ i # order))"
      by (intro respects_before [OF Cons.prems(1)]) (simp_all add: nth_append)
    then show "(i, j) \<notin> depends legs" using i k by (auto dest: in_set_takeD)
  qed
  have self: "(i, i) \<notin> depends legs" using before i by blast
  have ord': "respects_depends legs ((done @ [i]) @ order)" using Cons.prems(1) by simp
  let ?ids = "emplace_ids legs 0 (\<lambda>_. None)"
  have len: "length (bn_status run) = length legs" "length (bn_order_id run) = length legs" "length (bn_detail run) = length legs"
    using Cons.prems(2) by (auto simp: place_inv_def)
  show ?case
  proof (cases "prerequisites_met ?ids run (bl_depends_on (legs ! i))")
    case False
    then obtain j where j: "(j, i) \<in> depends legs" "bn_status run ! j \<noteq> Executed"
      using prerequisites_met_iff [OF wf i(2)] by blast
    moreover from j self have "j \<noteq> i" by auto
    ultimately have "place_inv legs (done @ [i]) (run \<lparr>bn_status := (bn_status run)[i := SkippedUnmetDependency],
        bn_detail := (bn_detail run)[i := ''skipped: a prerequisite leg was not Executed (never orphaned)'']\<rparr>) calls"
      using len by (intro place_inv_skip [OF Cons.prems(2) i]) auto
    from Cons.IH [OF ord' this] show ?thesis using False Cons.prems(3) by (simp add: Let_def)
  next
    case True
    then have met: "\<forall>j. (j, i) \<in> depends legs \<longrightarrow> bn_status run ! j = Executed"
      using prerequisites_met_iff [OF wf i(2)] by blast
    define x where "x = place (placed_calls legs calls) (legs ! i)"
    have "place_inv legs (done @ [i]) (note_answer i x run) (calls @ [(i, x)])"
      by (rule place_inv_place [OF Cons.prems(2) i self after met])
        (use len i in \<open>auto simp: note_answer_def split: sum.splits\<close>)
    moreover have "placed_calls legs calls @ [PlaceLeg (legs ! i) x] = placed_calls legs (calls @ [(i, x)])"
      by (simp add: placed_calls_def)
    then have "place_legs place legs ?ids order (note_answer i x run, placed_calls legs (calls @ [(i, x)])) = (run', tr')"
      using Cons.prems(3) True x_def by (simp add: Let_def)
    ultimately show ?thesis using Cons.IH [OF ord'] by simp
  qed
qed

fun placed_legs :: "basket_trace \<Rightarrow> basket_leg list" where
  "placed_legs [] = []"
| "placed_legs (PlaceLeg leg x # tr) = leg # placed_legs tr"
| "placed_legs (_ # tr) = placed_legs tr"

fun unwound_ids :: "basket_trace \<Rightarrow> string list" where
  "unwound_ids [] = []"
| "unwound_ids (UnwindLeg order_id x # tr) = order_id # unwound_ids tr"
| "unwound_ids (_ # tr) = unwound_ids tr"

fun acked_ids :: "basket_trace \<Rightarrow> string list" where
  "acked_ids [] = []"
| "acked_ids (PlaceLeg leg (Inr a) # tr) = ba_broker_order_id a # acked_ids tr"
| "acked_ids (_ # tr) = acked_ids tr"

definition acked :: "basket_trace \<Rightarrow> string \<Rightarrow> bool" where
  "acked tr d \<longleftrightarrow> (\<exists>leg a. PlaceLeg leg (Inr a) \<in> set tr \<and> bl_leg_id leg = d)"

lemma placed_legs_append [simp]: "placed_legs (tr @ tr') = placed_legs tr @ placed_legs tr'"
  by (induction tr rule: placed_legs.induct) auto

lemma unwound_ids_append [simp]: "unwound_ids (tr @ tr') = unwound_ids tr @ unwound_ids tr'"
  by (induction tr rule: unwound_ids.induct) auto

lemma acked_ids_append [simp]: "acked_ids (tr @ tr') = acked_ids tr @ acked_ids tr'"
  by (induction tr rule: acked_ids.induct) auto

lemma placed_calls_traces:
  "placed_legs (placed_calls legs calls) = map (\<lambda>c. legs ! fst c) calls"
  "unwound_ids (placed_calls legs calls) = []"
  by (induction calls) (auto simp: placed_calls_def)

lemma acked_placed_calls:
  assumes "basket_wf legs" "place_inv legs order run calls" "set order \<subseteq> {..<length legs}" "j < length legs"
  shows "acked (placed_calls legs calls) (bl_leg_id (legs ! j)) \<longleftrightarrow> bn_status run ! j = Executed"
proof
  assume "acked (placed_calls legs calls) (bl_leg_id (legs ! j))"
  then obtain i a where c: "(i, Inr a) \<in> set calls" "bl_leg_id (legs ! i) = bl_leg_id (legs ! j)"
    by (auto simp: acked_def placed_calls_def)
  have "i < length legs" using place_inv_done [OF assms(2) c(1)] assms(3) by auto
  then have "i = j" using c(2) assms(1,4) nth_eq_iff_index_eq [of "map bl_leg_id legs" i j]
    by (simp add: basket_wf_def)
  then show "bn_status run ! j = Executed" using c(1) assms(2) by (auto simp: place_inv_def)
next
  assume "bn_status run ! j = Executed"
  then obtain l a where "l < length calls" "calls ! l = (j, Inr a)"
    using place_inv_executed assms(2,4) by blast
  then have "(j, Inr a) \<in> set calls" by (metis nth_mem)
  then show "acked (placed_calls legs calls) (bl_leg_id (legs ! j))"
    by (force simp: acked_def placed_calls_def)
qed

lemma basket_wf_deps:
  assumes "basket_wf legs" "i < length legs"
  shows "(\<forall>d \<in> set (bl_depends_on (legs ! i)). P d) \<longleftrightarrow> (\<forall>j. (j, i) \<in> depends legs \<longrightarrow> P (bl_leg_id (legs ! j)))"
proof -
  have "d \<in> set (bl_depends_on (legs ! i)) \<Longrightarrow> \<exists>j. (j, i) \<in> depends legs \<and> bl_leg_id (legs ! j) = d" for d
  proof -
    assume d: "d \<in> set (bl_depends_on (legs ! i))"
    then have "d \<in> bl_leg_id ` set legs" using assms by (auto simp: basket_wf_def)
    then obtain j where "j < length legs" "bl_leg_id (legs ! j) = d" by (auto simp: in_set_conv_nth)
    then show ?thesis using d assms(2) by (auto simp: depends_def)
  qed
  then show ?thesis by (auto simp: depends_def)
qed

text \<open>What the placing phase leaves behind, in terms of the trace alone.\<close>

lemma placing_phase:
  assumes wf: "basket_wf legs" and ord: "respects_depends legs order" and inv: "place_inv legs order run calls"
  defines "tr \<equiv> placed_calls legs calls"
  shows "distinct (placed_legs tr)"
    and "leg \<in> set legs \<Longrightarrow> leg \<in> set (placed_legs tr) \<longleftrightarrow> (\<forall>d \<in> set (bl_depends_on leg). acked tr d)"
    and "k < length tr \<Longrightarrow> tr ! k = PlaceLeg leg x \<Longrightarrow> d \<in> set (bl_depends_on leg) \<Longrightarrow> acked (take k tr) d"
proof -
  have o: "distinct order" "set order = {..<length legs}" using ord by (auto simp: respects_depends_def)
  have fsts: "map fst calls = filter (\<lambda>i. bn_status run ! i \<noteq> SkippedUnmetDependency) order"
    using inv by (simp add: place_inv_def)
  have dl: "distinct (map bl_leg_id legs)" using wf by (simp add: basket_wf_def)
  have "inj_on ((!) legs) {..<length legs}" using dl by (auto intro!: inj_onI simp: distinct_map nth_eq_iff_index_eq)
  moreover have "set (map fst calls) \<subseteq> {..<length legs}" "distinct (map fst calls)" unfolding fsts using o by auto
  ultimately have "distinct (map ((!) legs) (map fst calls))"
    by (subst distinct_map) (blast intro: inj_on_subset)
  then show "distinct (placed_legs tr)" by (simp add: tr_def placed_calls_traces comp_def)
  show "leg \<in> set (placed_legs tr) \<longleftrightarrow> (\<forall>d \<in> set (bl_depends_on leg). acked tr d)" if leg: "leg \<in> set legs"
  proof -
    obtain i where i: "i < length legs" "leg = legs ! i" using leg by (metis in_set_conv_nth)
    have "leg \<in> set (placed_legs tr) \<longleftrightarrow> i \<in> set (map fst calls)"
    proof -
      have "set (placed_legs tr) = ((!) legs) ` set (map fst calls)" by (auto simp: tr_def placed_calls_traces)
      then show ?thesis using i \<open>inj_on ((!) legs) {..<length legs}\<close> \<open>set (map fst calls) \<subseteq> {..<length legs}\<close>
        by (metis inj_on_image_mem_iff lessThan_iff)
    qed
    also have "\<dots> \<longleftrightarrow> bn_status run ! i \<noteq> SkippedUnmetDependency" unfolding fsts using o i by simp
    also have "\<dots> \<longleftrightarrow> (\<forall>j. (j, i) \<in> depends legs \<longrightarrow> bn_status run ! j = Executed)"
    proof
      assume "bn_status run ! i \<noteq> SkippedUnmetDependency"
      then have "i \<in> set (map fst calls)" unfolding fsts using o i by simp
      then obtain k where k: "k < length calls" "fst (calls ! k) = i" by (auto simp: in_set_conv_nth)
      show "\<forall>j. (j, i) \<in> depends legs \<longrightarrow> bn_status run ! j = Executed"
      proof (intro allI impI)
        fix j assume "(j, i) \<in> depends legs"
        then obtain l a where "l < k" "calls ! l = (j, Inr a)" using inv k unfolding place_inv_def by blast
        then have "(j, Inr a) \<in> set calls" using k by (metis nth_mem order_less_trans)
        then show "bn_status run ! j = Executed" using inv by (auto simp: place_inv_def)
      qed
    next
      assume "\<forall>j. (j, i) \<in> depends legs \<longrightarrow> bn_status run ! j = Executed"
      then show "bn_status run ! i \<noteq> SkippedUnmetDependency" using inv o(2) i unfolding place_inv_def by blast
    qed
    also have "\<dots> \<longleftrightarrow> (\<forall>j. (j, i) \<in> depends legs \<longrightarrow> acked tr (bl_leg_id (legs ! j)))"
      using acked_placed_calls [OF wf inv] o(2) by (auto simp: tr_def depends_def)
    also have "\<dots> \<longleftrightarrow> (\<forall>d \<in> set (bl_depends_on leg). acked tr d)" using basket_wf_deps [OF wf i(1)] i(2) by simp
    finally show ?thesis .
  qed
  show "acked (take k tr) d" if k: "k < length tr" "tr ! k = PlaceLeg leg x" and d: "d \<in> set (bl_depends_on leg)"
  proof -
    have kc: "k < length calls" "leg = legs ! fst (calls ! k)"
      using k by (auto simp: tr_def placed_calls_def split: prod.splits)
    then have "fst (calls ! k) \<in> set (map fst calls)" by simp
    then have i: "fst (calls ! k) < length legs" using \<open>set (map fst calls) \<subseteq> {..<length legs}\<close> by auto
    have "\<forall>d \<in> set (bl_depends_on leg). acked (take k tr) d"
      unfolding kc(2) basket_wf_deps [OF wf i]
    proof (intro allI impI)
      fix j assume "(j, fst (calls ! k)) \<in> depends legs"
      then obtain l a where l: "l < k" "calls ! l = (j, Inr a)" using inv kc unfolding place_inv_def by blast
      then have "tr ! l = PlaceLeg (legs ! j) (Inr a)" "take k tr ! l = tr ! l" "l < length (take k tr)"
        using kc k by (auto simp: tr_def placed_calls_def)
      then show "acked (take k tr) (bl_leg_id (legs ! j))" unfolding acked_def by (metis nth_mem)
    qed
    then show ?thesis using d by blast
  qed
qed

text \<open>The settling phase adds no placement; it unwinds only when it unwinds by policy.\<close>

lemma mark_ambiguous_keeps:
  "mark_ambiguous legs is run names = (run', names') \<Longrightarrow> bn_status run' = bn_status run \<and> bn_order_id run' = bn_order_id run"
  by (induction legs "is" run names rule: mark_ambiguous.induct) (auto split: if_splits)

fun unwind_answer :: "unit result \<Rightarrow> leg_status" where
  "unwind_answer (Inr _) = Unwound"
| "unwind_answer (Inl _) = Executed"

lemma unwind_none:
  "unwind_legs None legs is (run, tr) live = ((run', tr'), live') \<Longrightarrow> bn_status run' = bn_status run \<and> tr' = tr"
  by (induction "None :: (basket_trace \<Rightarrow> string \<Rightarrow> unit result) option" legs "is" "(run, tr)" live
      arbitrary: run tr rule: unwind_legs.induct) (auto split: if_splits)

lemma unwind_some:
  assumes "unwind_legs (Some f) legs is (run, tr) live = ((run', tr'), live')"
    and "distinct is" "set is \<subseteq> {..<length (bn_status run)}"
  shows "\<exists>answers. tr' = tr @ map (\<lambda>(i, x). UnwindLeg (bn_order_id run ! i) x) answers
    \<and> map fst answers = filter (\<lambda>i. bn_status run ! i = Executed) is
    \<and> (\<forall>(i, x) \<in> set answers. bn_status run' ! i = unwind_answer x)
    \<and> (\<forall>j. j \<notin> set (map fst answers) \<longrightarrow> bn_status run' ! j = bn_status run ! j)"
  using assms
proof (induction "is" arbitrary: run tr live)
  case Nil
  then show ?case by simp
next
  case (Cons i "is")
  show ?case
  proof (cases "bn_status run ! i = Executed")
    case False
    then show ?thesis using Cons.IH [of run tr live] Cons.prems by auto
  next
    case True
    define x where "x = f tr (bn_order_id run ! i)"
    define run1 where "run1 = (case x of
        Inr _ \<Rightarrow> run \<lparr>bn_status := (bn_status run)[i := Unwound],
                  bn_detail := (bn_detail run)[i := ''leg unwound during remediation'']\<rparr>
      | Inl e \<Rightarrow> run \<lparr>bn_detail := (bn_detail run)[i := ''CRITICAL: unwind failed, leg still LIVE: '' @ error_tag e]\<rparr>)"
    have run1: "bn_status run1 = (bn_status run)[i := unwind_answer x]" "bn_order_id run1 = bn_order_id run"
      using True by (auto simp: run1_def split: sum.splits) (metis list_update_id)
    obtain live1 where rec: "unwind_legs (Some f) legs is (run1, tr @ [UnwindLeg (bn_order_id run ! i) x]) live1 = ((run', tr'), live')"
      using Cons.prems(1) True by (cases x) (auto simp: x_def run1_def Let_def)
    have "distinct is" "set is \<subseteq> {..<length (bn_status run1)}" using Cons.prems(2,3) run1 by auto
    from Cons.IH [OF rec this, unfolded run1(2)] obtain answers where ih:
      "tr' = (tr @ [UnwindLeg (bn_order_id run ! i) x]) @ map (\<lambda>(j, y). UnwindLeg (bn_order_id run ! j) y) answers"
      "map fst answers = filter (\<lambda>j. bn_status run1 ! j = Executed) is"
      "\<forall>(j, y) \<in> set answers. bn_status run' ! j = unwind_answer y"
      "\<forall>j. j \<notin> set (map fst answers) \<longrightarrow> bn_status run' ! j = bn_status run1 ! j"
      by blast
    have i: "i \<notin> set is" "i < length (bn_status run)" using Cons.prems by auto
    have f: "filter (\<lambda>j. bn_status run1 ! j = Executed) is = filter (\<lambda>j. bn_status run ! j = Executed) is"
      unfolding run1(1) using i(1) by (rule filter_list_update)
    have "i \<notin> set (map fst answers)" unfolding ih(2) using i by auto
    then have "bn_status run' ! i = unwind_answer x" using ih(4) run1 i by simp
    then show ?thesis
      using ih(1-4) f True i run1 by (intro exI [of _ "(i, x) # answers"]) auto
  qed
qed

lemma unwound_ids_map: "unwound_ids (map (\<lambda>(i, x). UnwindLeg (g i) x) answers) = map (\<lambda>c. g (fst c)) answers"
  and placed_legs_map: "placed_legs (map (\<lambda>(i, x). UnwindLeg (g i) x) answers) = []"
  by (induction answers) auto

lemma acked_ids_placed_calls:
  assumes "\<forall>(i, x) \<in> set calls. bn_status run ! i = status_of x \<and> (\<forall>a. x = Inr a \<longrightarrow> bn_order_id run ! i = ba_broker_order_id a)"
  shows "acked_ids (placed_calls legs calls)
    = map ((!) (bn_order_id run)) (filter (\<lambda>i. bn_status run ! i = Executed) (map fst calls))"
  using assms
proof (induction calls)
  case (Cons c calls)
  obtain i x where c: "c = (i, x)" by (cases c)
  show ?case using Cons c by (cases x) (auto simp: placed_calls_def)
qed (simp add: placed_calls_def)

lemma settle_basket_spec:
  assumes "settle_basket legs config seams basket_id order (run, tr) = (res, tr')"
    and "distinct order" "set order \<subseteq> {..<length (bn_status run)}"
  obtains (ambiguous) msg where "AmbiguousMayBeLive \<in> set (bn_status run)" "br_outcome res = ReconcileRequired"
      "tr' = tr @ [BasketAlert AlertCritical msg]"
      "map lr_status (br_legs res) = map ((!) (bn_status run)) [0..<length legs]"
  | (complete) "AmbiguousMayBeLive \<notin> set (bn_status run)" "set (bn_status run) \<inter> {LegFailed, SkippedUnmetDependency} = {}"
      "br_outcome res = BasketComplete" "tr' = tr"
  | (unwind) answers msg run' where "AmbiguousMayBeLive \<notin> set (bn_status run)" "set (bn_status run) \<inter> {LegFailed, SkippedUnmetDependency} \<noteq> {}"
      "bc_on_leg_failure config = UnwindExecuted" "br_outcome res = PartiallyExecutedUnwound"
      "tr' = tr @ map (\<lambda>(i, x). UnwindLeg (bn_order_id run ! i) x) answers @ [BasketAlert AlertCritical msg]"
      "map fst answers = (if unwind_leg seams = None then [] else filter (\<lambda>i. bn_status run ! i = Executed) (rev order))"
      "\<forall>(i, x) \<in> set answers. bn_status run' ! i = unwind_answer x"
      "\<forall>j. j \<notin> set (map fst answers) \<longrightarrow> bn_status run' ! j = bn_status run ! j"
      "br_legs res = leg_results legs run'"
  | (left) msg where "AmbiguousMayBeLive \<notin> set (bn_status run)" "set (bn_status run) \<inter> {LegFailed, SkippedUnmetDependency} \<noteq> {}"
      "bc_on_leg_failure config = LeaveAndAlert" "br_outcome res = PartiallyExecutedLeft"
      "tr' = tr @ [BasketAlert AlertWarning msg]"
proof -
  note def = assms(1) [unfolded settle_basket_def Let_def prod.case]
  show thesis
  proof (cases "AmbiguousMayBeLive \<in> set (bn_status run)")
    case True
    obtain run' names where m: "mark_ambiguous legs [0..<length legs] run [] = (run', names)"
      by (cases "mark_ambiguous legs [0..<length legs] run []")
    show thesis
      by (rule ambiguous) (use True def m mark_ambiguous_keeps [OF m] in \<open>auto simp: leg_results_def\<close>)
  next
    case False
    show thesis
    proof (cases "LegFailed \<in> set (bn_status run) \<or> SkippedUnmetDependency \<in> set (bn_status run)")
      case none: False
      show thesis by (rule complete) (use False none def in auto)
    next
      case some: True
      then have s: "set (bn_status run) \<inter> {LegFailed, SkippedUnmetDependency} \<noteq> {}" by auto
      show thesis
      proof (cases "bc_on_leg_failure config")
        case LeaveAndAlert
        show thesis by (rule left) (use False s some LeaveAndAlert def in auto)
      next
        case UnwindExecuted
        obtain run' tr1 live where u: "unwind_legs (unwind_leg seams) legs (rev order) (run, tr) [] = ((run', tr1), live)"
          by (cases "unwind_legs (unwind_leg seams) legs (rev order) (run, tr) []") auto
        have "\<exists>answers. tr1 = tr @ map (\<lambda>(i, x). UnwindLeg (bn_order_id run ! i) x) answers
            \<and> map fst answers = (if unwind_leg seams = None then [] else filter (\<lambda>i. bn_status run ! i = Executed) (rev order))
            \<and> (\<forall>(i, x) \<in> set answers. bn_status run' ! i = unwind_answer x)
            \<and> (\<forall>j. j \<notin> set (map fst answers) \<longrightarrow> bn_status run' ! j = bn_status run ! j)"
        proof (cases "unwind_leg seams")
          case None
          then show ?thesis using u unwind_none by (intro exI [of _ "[]"]) (auto dest!: unwind_none)
        next
          case (Some f)
          have "distinct (rev order)" "set (rev order) \<subseteq> {..<length (bn_status run)}" using assms(2,3) by simp_all
          from unwind_some [OF u [unfolded Some] this] Some show ?thesis by simp
        qed
        then obtain answers where a: "tr1 = tr @ map (\<lambda>(i, x). UnwindLeg (bn_order_id run ! i) x) answers"
            "map fst answers = (if unwind_leg seams = None then [] else filter (\<lambda>i. bn_status run ! i = Executed) (rev order))"
            "\<forall>(i, x) \<in> set answers. bn_status run' ! i = unwind_answer x"
            "\<forall>j. j \<notin> set (map fst answers) \<longrightarrow> bn_status run' ! j = bn_status run ! j" by blast
        show thesis
          by (rule unwind [of answers _ run']) (use False s some UnwindExecuted def u a in \<open>auto simp del: Int_insert_right\<close>)
      qed
    qed
  qed
qed

lemma execute_basket_runs:
  assumes "place_leg seams = Some place" "basket_wf legs"
  obtains order run calls res tr where "respects_depends legs order" "place_inv legs order run calls"
    "settle_basket legs config seams
      (if bc_basket_id config = [] then fallback_basket_id (length legs) else bc_basket_id config) order
      (run, placed_calls legs calls) = (res, tr)"
    "execute_basket legs config seams = Some (res, tr)"
proof -
  obtain order where o: "topological_order legs = Some (Some order)" "respects_depends legs order"
    using topological_order_spec [of legs] assms(2) by (auto split: option.splits)
  obtain run tr1 where p: "place_legs place legs (emplace_ids legs 0 (\<lambda>_. None)) order (fresh_run (length legs), placed_calls legs []) = (run, tr1)"
    by (cases "place_legs place legs (emplace_ids legs 0 (\<lambda>_. None)) order (fresh_run (length legs), placed_calls legs [])")
  have "place_inv legs [] (fresh_run (length legs)) []" by (simp add: place_inv_def fresh_run_def)
  from place_legs_inv [OF assms(2) _ this p] o(2) obtain calls where c: "place_inv legs order run calls" "tr1 = placed_calls legs calls"
    by auto
  obtain res tr where s: "settle_basket legs config seams
      (if bc_basket_id config = [] then fallback_basket_id (length legs) else bc_basket_id config) order (run, placed_calls legs calls) = (res, tr)"
    by (cases "settle_basket legs config seams
      (if bc_basket_id config = [] then fallback_basket_id (length legs) else bc_basket_id config) order (run, placed_calls legs calls)")
  show thesis
    by (rule that [OF o(2) c(1) s]) (use assms o p c s in \<open>simp add: execute_basket_def Let_def placed_calls_def\<close>)
qed

lemma blocked_iff:
  assumes "place_leg seams = None \<or> \<not> basket_wf legs"
  shows "\<exists>res. execute_basket legs config seams = Some (res, []) \<and> br_outcome res = BasketBlocked"
proof (cases "place_leg seams")
  case (Some place)
  then have "topological_order legs = Some None"
    using topological_order_spec [of legs] assms by (auto split: option.splits)
  then show ?thesis using Some by (simp add: execute_basket_def blocked_basket_def)
qed (simp add: execute_basket_def blocked_basket_def)

definition no_placement :: "basket_trace \<Rightarrow> bool" where
  "no_placement tr \<longleftrightarrow> (\<forall>leg x. PlaceLeg leg x \<notin> set tr)"

lemma no_placement_placed: "no_placement tr \<Longrightarrow> placed_legs tr = [] \<and> acked_ids tr = []"
proof (induction tr)
  case (Cons c tr)
  have "no_placement tr" using Cons.prems by (auto simp: no_placement_def)
  then show ?case using Cons by (cases c) (auto simp: no_placement_def)
qed simp

lemma settle_suffix:
  assumes "settle_basket legs config seams basket_id order (run, tr) = (res, tr')"
    and "distinct order" "set order \<subseteq> {..<length (bn_status run)}"
  shows "\<exists>suffix. tr' = tr @ suffix \<and> no_placement suffix" and "br_outcome res \<noteq> BasketBlocked"
  by (cases rule: settle_basket_spec [OF assms]; auto simp: no_placement_def)+

lemma respects_range:
  "respects_depends legs order \<Longrightarrow> place_inv legs done run calls \<Longrightarrow> distinct order \<and> set order \<subseteq> {..<length (bn_status run)}"
  by (simp add: respects_depends_def place_inv_def)

fun alert_levels :: "basket_trace \<Rightarrow> alert_level list" where
  "alert_levels [] = []"
| "alert_levels (BasketAlert level msg # tr) = level # alert_levels tr"
| "alert_levels (_ # tr) = alert_levels tr"

lemma alert_levels_append [simp]: "alert_levels (tr @ tr') = alert_levels tr @ alert_levels tr'"
  by (induction tr rule: alert_levels.induct) auto

lemma alert_levels_placed: "alert_levels (placed_calls legs calls) = []"
  by (induction calls) (auto simp: placed_calls_def)

lemma alert_levels_map: "alert_levels (map (\<lambda>(i, x). UnwindLeg (g i) x) answers) = []"
  by (induction answers) auto

text \<open>The status list read off the calls.\<close>

lemma place_inv_status:
  assumes "place_inv legs done run calls" "(i, x) \<in> set calls"
  shows "bn_status run ! i = status_of x"
proof -
  have "\<forall>(i, x) \<in> set calls. bn_status run ! i = status_of x
      \<and> (\<forall>a. x = Inr a \<longrightarrow> bn_order_id run ! i = ba_broker_order_id a)"
    using assms(1) unfolding place_inv_def by blast
  then show ?thesis using assms(2) by blast
qed

lemma status_call:
  assumes "respects_depends legs order" "place_inv legs order run calls" "i < length legs"
  shows "bn_status run ! i = SkippedUnmetDependency \<or> (\<exists>x. (i, x) \<in> set calls \<and> bn_status run ! i = status_of x)"
proof (cases "bn_status run ! i = SkippedUnmetDependency")
  case False
  then have "i \<in> set (map fst calls)" using assms by (simp add: place_inv_def respects_depends_def)
  then obtain x where "(i, x) \<in> set calls" by auto
  then show ?thesis using place_inv_status [OF assms(2)] by blast
qed simp

lemma status_not_unwound:
  assumes "respects_depends legs order" "place_inv legs order run calls"
  shows "Unwound \<notin> set (bn_status run)"
proof -
  have "status_of x \<noteq> Unwound" for x by (cases x) auto
  moreover have "length (bn_status run) = length legs" using assms by (simp add: place_inv_def)
  moreover have "bn_status run ! i \<noteq> Unwound" if "i < length legs" for i
    using status_call [OF assms that] calculation(1) by (elim disjE exE conjE) simp_all
  ultimately show ?thesis by (auto simp: in_set_conv_nth)
qed

lemma status_ambiguous:
  assumes "respects_depends legs order" "place_inv legs order run calls"
  shows "AmbiguousMayBeLive \<in> set (bn_status run)
    \<longleftrightarrow> (\<exists>leg e. PlaceLeg leg (Inl e) \<in> set (placed_calls legs calls) \<and> is_ambiguous e)"
proof -
  have len: "length (bn_status run) = length legs" using assms by (simp add: place_inv_def)
  have st: "status_of x = AmbiguousMayBeLive \<longleftrightarrow> (\<exists>e. x = Inl e \<and> is_ambiguous e)" for x by (cases x) auto
  have "AmbiguousMayBeLive \<in> set (bn_status run) \<longleftrightarrow> (\<exists>i e. (i, Inl e) \<in> set calls \<and> is_ambiguous e)"
  proof
    assume "AmbiguousMayBeLive \<in> set (bn_status run)"
    then obtain i where "i < length legs" "bn_status run ! i = AmbiguousMayBeLive" using len by (auto simp: in_set_conv_nth)
    then show "\<exists>i e. (i, Inl e) \<in> set calls \<and> is_ambiguous e" using status_call [OF assms] st by fastforce
  next
    assume "\<exists>i e. (i, Inl e) \<in> set calls \<and> is_ambiguous e"
    then obtain i e where c: "(i, Inl e) \<in> set calls" "is_ambiguous e" by blast
    then have "bn_status run ! i = AmbiguousMayBeLive" using place_inv_status [OF assms(2) c(1)] by simp
    moreover have "i < length legs" using place_inv_done [OF assms(2) c(1)] assms(1) by (auto simp: respects_depends_def)
    ultimately show "AmbiguousMayBeLive \<in> set (bn_status run)" using len by (metis nth_mem)
  qed
  then show ?thesis by (force simp: placed_calls_def)
qed

lemma status_all_executed:
  assumes "basket_wf legs" "respects_depends legs order" "place_inv legs order run calls"
  shows "(\<forall>leg \<in> set legs. acked (placed_calls legs calls) (bl_leg_id leg)) \<longleftrightarrow> set (bn_status run) \<subseteq> {Executed}"
proof -
  have o: "set order \<subseteq> {..<length legs}" using assms(2) by (simp add: respects_depends_def)
  have "length (bn_status run) = length legs" using assms(3) by (simp add: place_inv_def)
  then have "set (bn_status run) \<subseteq> {Executed} \<longleftrightarrow> (\<forall>j < length legs. bn_status run ! j = Executed)"
    by (metis in_set_conv_nth nth_mem singletonD singletonI subsetD subsetI)
  also have "\<dots> \<longleftrightarrow> (\<forall>j < length legs. acked (placed_calls legs calls) (bl_leg_id (legs ! j)))"
    using acked_placed_calls [OF assms(1,3) o] by blast
  finally show ?thesis by (metis in_set_conv_nth)
qed

lemma acked_ids_inv:
  assumes "place_inv legs order run calls"
  shows "acked_ids (placed_calls legs calls) = map ((!) (bn_order_id run)) (filter (\<lambda>i. bn_status run ! i = Executed) order)"
proof -
  have "filter (\<lambda>i. bn_status run ! i = Executed) (map fst calls) = filter (\<lambda>i. bn_status run ! i = Executed) order"
    using assms by (auto simp: place_inv_def intro!: filter_cong)
  then show ?thesis using acked_ids_placed_calls [of calls run legs] assms by (simp add: place_inv_def)
qed

section \<open>Properties\<close>

text \<open>C30. 
  The pre-flight always returns, and its answer is exact: it refuses a basket exactly when an
  identifier is empty or repeated, a prerequisite is unknown, or the prerequisites form a cycle; an
  accepted basket is ordered with every leg once and after all its prerequisites.
\<close>

theorem topological_order_exact:
  "\<exists>answer. topological_order legs = Some answer
    \<and> (answer = None \<longleftrightarrow> \<not> basket_wf legs)
    \<and> (\<forall>order. answer = Some order \<longrightarrow> respects_depends legs order)"
  using topological_order_spec [of legs] by (auto split: option.splits)

text \<open>C31. 
  No leg is orphaned.  Execution always returns; a basket refused by the pre-flight or without a
  placer makes no call at all; otherwise no leg is sent twice, a leg is sent exactly when every one of
  its prerequisites was acknowledged, and at the moment it is sent all of them already are.
\<close>

theorem basket_never_orphans:
  "\<exists>res tr. execute_basket legs config seams = Some (res, tr)
    \<and> (if place_leg seams = None \<or> \<not> basket_wf legs then br_outcome res = BasketBlocked \<and> tr = []
       else br_outcome res \<noteq> BasketBlocked \<and> distinct (placed_legs tr)
         \<and> (\<forall>leg \<in> set legs. leg \<in> set (placed_legs tr) \<longleftrightarrow> (\<forall>d \<in> set (bl_depends_on leg). acked tr d))
         \<and> (\<forall>k < length tr. \<forall>leg x. tr ! k = PlaceLeg leg x \<longrightarrow> (\<forall>d \<in> set (bl_depends_on leg). acked (take k tr) d)))"
proof (cases "place_leg seams = None \<or> \<not> basket_wf legs")
  case True
  then show ?thesis using blocked_iff by (metis (no_types, lifting))
next
  case False
  then obtain place where p: "place_leg seams = Some place" and wf: "basket_wf legs" by auto
  obtain order run calls res tr where r: "respects_depends legs order" "place_inv legs order run calls"
    "settle_basket legs config seams
      (if bc_basket_id config = [] then fallback_basket_id (length legs) else bc_basket_id config) order
      (run, placed_calls legs calls) = (res, tr)"
    "execute_basket legs config seams = Some (res, tr)" using execute_basket_runs [OF p wf] by metis
  note range = respects_range [OF r(1,2), THEN conjunct1] respects_range [OF r(1,2), THEN conjunct2]
  obtain suffix where tr: "tr = placed_calls legs calls @ suffix" "no_placement suffix"
    using settle_suffix(1) [OF r(3) range] by blast
  note phase = placing_phase [OF wf r(1,2)]
  have placed: "placed_legs tr = placed_legs (placed_calls legs calls)" using tr no_placement_placed by simp
  have acked: "acked tr d = acked (placed_calls legs calls) d" for d
    using tr by (auto simp: acked_def no_placement_def)
  have "acked (take k tr) d" if k: "k < length tr" "tr ! k = PlaceLeg leg x" "d \<in> set (bl_depends_on leg)" for k leg x d
  proof -
    have "k < length (placed_calls legs calls)"
      using k tr by (metis add_diff_inverse_nat length_append nat_add_left_cancel_less no_placement_def nth_append nth_mem)
    then show ?thesis using phase(3) k tr(1) by (simp add: nth_append)
  qed
  then show ?thesis using False r(4) settle_suffix(2) [OF r(3) range] phase(1,2) placed acked by auto
qed

text \<open>C32. 
  How a basket ends is a function of the answers.  An ambiguous answer outranks everything and vetoes
  the rollback under either policy; with every leg acknowledged the basket is complete; otherwise the
  policy decides.  The orders unwound are exactly the acknowledged ones, newest first, and only under
  the unwinding policy; a critical alert follows an ambiguity or an unwind, a warning a partial basket
  left in place, nothing a complete one.
\<close>

theorem basket_outcome_exact:
  assumes "execute_basket legs config seams = Some (res, tr)"
    and "place_leg seams \<noteq> None" and "basket_wf legs"
  shows "br_outcome res =
      (if \<exists>leg e. PlaceLeg leg (Inl e) \<in> set tr \<and> is_ambiguous e then ReconcileRequired
       else if \<forall>leg \<in> set legs. acked tr (bl_leg_id leg) then BasketComplete
       else if bc_on_leg_failure config = UnwindExecuted then PartiallyExecutedUnwound
       else PartiallyExecutedLeft)
    \<and> unwound_ids tr =
      (if br_outcome res = PartiallyExecutedUnwound \<and> unwind_leg seams \<noteq> None then rev (acked_ids tr) else [])
    \<and> alert_levels tr =
      (if br_outcome res = BasketComplete then []
       else if br_outcome res = PartiallyExecutedLeft then [AlertWarning] else [AlertCritical])"
proof -
  obtain place where p: "place_leg seams = Some place" using assms(2) by auto
  obtain order run calls where r: "respects_depends legs order" "place_inv legs order run calls"
    "settle_basket legs config seams
      (if bc_basket_id config = [] then fallback_basket_id (length legs) else bc_basket_id config) order
      (run, placed_calls legs calls) = (res, tr)"
    using execute_basket_runs [OF p assms(3)] assms(1) by (metis option.inject prod.inject)
  note range = respects_range [OF r(1,2), THEN conjunct1] respects_range [OF r(1,2), THEN conjunct2]
  obtain suffix where tr: "tr = placed_calls legs calls @ suffix" "no_placement suffix"
    using settle_suffix(1) [OF r(3) range] by blast
  have acked: "acked tr d = acked (placed_calls legs calls) d" for d
    using tr by (auto simp: acked_def no_placement_def)
  have amb: "(\<exists>leg e. PlaceLeg leg (Inl e) \<in> set tr \<and> is_ambiguous e) \<longleftrightarrow> AmbiguousMayBeLive \<in> set (bn_status run)"
    using tr status_ambiguous [OF r(1,2)] by (auto simp: no_placement_def)
  have all: "(\<forall>leg \<in> set legs. acked tr (bl_leg_id leg)) \<longleftrightarrow> set (bn_status run) \<subseteq> {Executed}"
    using status_all_executed [OF assms(3) r(1,2)] acked by simp
  have acks: "acked_ids tr = map ((!) (bn_order_id run)) (filter (\<lambda>i. bn_status run ! i = Executed) order)"
    using tr no_placement_placed acked_ids_inv [OF r(2)] by simp
  have none: "Unwound \<notin> set (bn_status run)" using status_not_unwound [OF r(1,2)] .
  have stat: "s = Executed \<or> s = LegFailed \<or> s = SkippedUnmetDependency" if "s \<in> set (bn_status run)" "AmbiguousMayBeLive \<notin> set (bn_status run)" for s
    using that none leg_status.exhaust by metis
  from r(3) range show ?thesis
  proof (cases rule: settle_basket_spec)
    case (ambiguous msg)
    then show ?thesis using amb by (simp add: placed_calls_traces alert_levels_placed)
  next
    case complete
    then show ?thesis using amb all stat by (auto simp: placed_calls_traces alert_levels_placed)
  next
    case (unwind answers msg run')
    have a: "\<not> (\<exists>leg e. PlaceLeg leg (Inl e) \<in> set tr \<and> is_ambiguous e)" using amb unwind(1) by simp
    have "\<not> set (bn_status run) \<subseteq> {Executed}" using unwind(2) by auto
    then have e: "\<not> (\<forall>leg \<in> set legs. acked tr (bl_leg_id leg))" using all by simp
    have "unwound_ids tr = map ((!) (bn_order_id run)) (map fst answers)"
      unfolding unwind(5) by (simp add: placed_calls_traces unwound_ids_map comp_def)
    then have u: "unwound_ids tr = (if unwind_leg seams = None then [] else rev (acked_ids tr))"
      using unwind(6) acks by (simp add: rev_map rev_filter)
    have l: "alert_levels tr = [AlertCritical]"
      unfolding unwind(5) by (simp add: alert_levels_placed alert_levels_map)
    show ?thesis unfolding if_not_P [OF a] if_not_P [OF e] using unwind(3,4) u l by simp
  next
    case (left msg)
    then have "\<not> set (bn_status run) \<subseteq> {Executed}" by auto
    then show ?thesis using left amb all by (simp add: placed_calls_traces alert_levels_placed)
  qed
qed

text \<open>A protective leg, a short that needs it, and a short answered with a timeout.\<close>

definition sample_legs :: "basket_leg list" where
  "sample_legs = [\<lparr>bl_leg_id = ''short'', bl_depends_on = [''hedge'']\<rparr>, \<lparr>bl_leg_id = ''hedge'', bl_depends_on = []\<rparr>]"

definition sample_basket_config :: basket_config where
  "sample_basket_config = \<lparr>bc_on_leg_failure = UnwindExecuted, bc_track_as_single_unit = True, bc_basket_id = []\<rparr>"

definition sample_seams :: basket_seams where
  "sample_seams = \<lparr>place_leg = Some (\<lambda>_ leg. if bl_leg_id leg = ''hedge''
       then Inr \<lparr>ba_broker_order_id = ''B1'', ba_client_ref = []\<rparr> else Inl (make_error Timeout [] [])),
     unwind_leg = Some (\<lambda>_ _. Inr ())\<rparr>"

definition sample_trace :: basket_trace where
  "sample_trace =
     [PlaceLeg \<lparr>bl_leg_id = ''hedge'', bl_depends_on = []\<rparr> (Inr \<lparr>ba_broker_order_id = ''B1'', ba_client_ref = []\<rparr>),
      PlaceLeg \<lparr>bl_leg_id = ''short'', bl_depends_on = [''hedge'']\<rparr> (Inl (make_error Timeout [] [])),
      BasketAlert AlertCritical ''BASKET RECONCILE REQUIRED: leg placement was AMBIGUOUS and MAY be LIVE at the broker: short; NO leg was unwound - reconcile before cancelling anything'']"

lemma sample_order: "topological_order sample_legs = Some (Some [1, 0])"
  by (simp add: topological_order_def sample_legs_def kahn_loop.simps numeral_2_eq_2)

lemma sample_wf: "basket_wf sample_legs"
  using topological_order_spec [of sample_legs] by (simp add: sample_order)

lemma sample_run: "\<exists>res. execute_basket sample_legs sample_basket_config sample_seams = Some (res, sample_trace)
    \<and> br_outcome res = ReconcileRequired"
  unfolding execute_basket_def sample_order
  by (simp add: sample_seams_def sample_legs_def sample_trace_def sample_basket_config_def fresh_run_def note_answer_def
      prerequisites_met_def is_ambiguous_def make_error_def settle_basket_def numeral_2_eq_2 comma_join_def Let_def)

lemma topological_order_exact_witness:
  "topological_order sample_legs = Some (Some [1, 0]) \<and> respects_depends sample_legs [1, 0]"
  using topological_order_exact [of sample_legs] by (simp add: sample_order)

lemma basket_never_orphans_witness:
  "acked (take 1 sample_trace) ''hedge''"
proof -
  obtain res where run: "execute_basket sample_legs sample_basket_config sample_seams = Some (res, sample_trace)"
    using sample_run by blast
  have ok: "\<not> (place_leg sample_seams = None \<or> \<not> basket_wf sample_legs)" using sample_wf by (simp add: sample_seams_def)
  have "\<forall>k < length sample_trace. \<forall>leg x. sample_trace ! k = PlaceLeg leg x
      \<longrightarrow> (\<forall>d \<in> set (bl_depends_on leg). acked (take k sample_trace) d)"
    using basket_never_orphans [of sample_legs sample_basket_config sample_seams] unfolding run if_not_P [OF ok] by auto
  moreover have "1 < length sample_trace" "sample_trace ! 1 = PlaceLeg \<lparr>bl_leg_id = ''short'', bl_depends_on = [''hedge'']\<rparr> (Inl (make_error Timeout [] []))"
    by (simp_all add: sample_trace_def)
  ultimately show ?thesis by fastforce
qed

lemma basket_outcome_exact_witness:
  "\<exists>res. execute_basket sample_legs sample_basket_config sample_seams = Some (res, sample_trace)
    \<and> br_outcome res = ReconcileRequired \<and> unwound_ids sample_trace = [] \<and> alert_levels sample_trace = [AlertCritical]"
proof -
  obtain res where run: "execute_basket sample_legs sample_basket_config sample_seams = Some (res, sample_trace)"
    "br_outcome res = ReconcileRequired" using sample_run by blast
  have "place_leg sample_seams \<noteq> None" by (simp add: sample_seams_def)
  note basket_outcome_exact [OF run(1) this sample_wf]
  then have "unwound_ids sample_trace = []" "alert_levels sample_trace = [AlertCritical]"
    using run(2) by (simp_all split: if_splits)
  then show ?thesis using run by blast
qed

end
