(* ===== verification/Hedge_First.thy ===== *)
theory Hedge_First
  imports Basket
begin

text \<open>
  \<^verbatim>\<open>options/hedge_first.cpp\<close>: a short that is only sent behind a confirmed hedge.  As in \<open>Basket\<close>, an
  absent seam is \<open>None\<close> and the function returns the trace of the calls it made.  Each seam is called
  at most once, so it is a plain answer, or a function of the order id it is asked about.
\<close>

datatype hedge_first_outcome =
    HedgedShortLive | HedgePlacementFailed | HedgeUnconfirmed | ShortPlacementFailed
  | NakedShortRemediated | ShortAmbiguousReconcileRequired

fun hedge_first_outcome_to_string :: "hedge_first_outcome \<Rightarrow> string" where
  "hedge_first_outcome_to_string HedgedShortLive = ''HedgedShortLive''"
| "hedge_first_outcome_to_string HedgePlacementFailed = ''HedgePlacementFailed''"
| "hedge_first_outcome_to_string HedgeUnconfirmed = ''HedgeUnconfirmed''"
| "hedge_first_outcome_to_string ShortPlacementFailed = ''ShortPlacementFailed''"
| "hedge_first_outcome_to_string NakedShortRemediated = ''NakedShortRemediated''"
| "hedge_first_outcome_to_string ShortAmbiguousReconcileRequired = ''ShortAmbiguousReconcileRequired''"

record hedge_first_result =
  hf_outcome :: hedge_first_outcome
  hf_hedge_order_id :: string
  hf_short_order_id :: string
  hf_emergency_action_ran :: bool
  hf_detail :: string

datatype hedge_call =
    PlaceHedge "broker_ack result"
  | ConfirmHedge string "bool result"
  | PlaceShort "broker_ack result"
  | RecheckHedge string "bool result"
  | EmergencyAction "unit result"
  | HedgeAlert alert_level string

record hedge_first_seams =
  place_hedge :: "broker_ack result option"
  confirm_hedge :: "(string \<Rightarrow> bool result) option"
  place_short :: "broker_ack result option"
  recheck_hedge_live :: "(string \<Rightarrow> bool result) option"
  emergency_action :: "unit result option"

definition hedge_result ::
    "hedge_first_outcome \<Rightarrow> string \<Rightarrow> string \<Rightarrow> bool \<Rightarrow> string \<Rightarrow> hedge_first_result" where
  "hedge_result outcome hedge_id short_id acted detail =
     \<lparr>hf_outcome = outcome, hf_hedge_order_id = hedge_id, hf_short_order_id = short_id,
      hf_emergency_action_ran = acted, hf_detail = detail\<rparr>"

text \<open>Step 4 and the remediation, after the short was acknowledged.\<close>

definition recheck_hedge ::
    "hedge_first_seams \<Rightarrow> string \<Rightarrow> string \<Rightarrow> hedge_call list \<Rightarrow> hedge_first_result \<times> hedge_call list" where
  "recheck_hedge seams hedge_id short_id tr =
     (let (live, tr) =
        (case recheck_hedge_live seams of
           None \<Rightarrow> (False, tr)
         | Some f \<Rightarrow> ((case f hedge_id of Inr b \<Rightarrow> b | Inl _ \<Rightarrow> False), tr @ [RecheckHedge hedge_id (f hedge_id)])) in
      if live then (hedge_result HedgedShortLive hedge_id short_id False ''hedge re-verified live after short'', tr)
      else
        let (acted, detail, tr) =
          (case emergency_action seams of
             None \<Rightarrow> (False, ''naked short: no emergency action configured; operator alerted'', tr)
           | Some (Inr u) \<Rightarrow> (True, ''naked short remediated: emergency action ran'', tr @ [EmergencyAction (Inr u)])
           | Some (Inl e) \<Rightarrow> (False, ''naked short: emergency action returned error: '' @ error_tag e,
               tr @ [EmergencyAction (Inl e)])) in
        (hedge_result NakedShortRemediated hedge_id short_id acted detail,
         tr @ [HedgeAlert AlertCritical
           ''NAKED SHORT: hedge no longer verifiable after short placement; emergency action invoked'']))"

text \<open>Step 3, reached only with a confirmed hedge.\<close>

definition send_short ::
    "hedge_first_seams \<Rightarrow> string \<Rightarrow> hedge_call list \<Rightarrow> hedge_first_result \<times> hedge_call list" where
  "send_short seams hedge_id tr =
     (case place_short seams of
        None \<Rightarrow> (hedge_result ShortPlacementFailed hedge_id [] False
          ''short placement seam not configured (hedge stands)'', tr)
      | Some (Inl e) \<Rightarrow>
          if is_ambiguous e then
            (hedge_result ShortAmbiguousReconcileRequired hedge_id [] False
               (''short placement AMBIGUOUS, short MAY be LIVE (no order id): '' @ error_tag e
                @ ''; hedge LEFT in place, reconcile first''),
             tr @ [PlaceShort (Inl e), HedgeAlert AlertCritical
               ''SHORT AMBIGUOUS: short placement outcome is UNKNOWN and the short may be LIVE at the broker; the hedge was LEFT in place - do NOT close it before reconciling''])
          else
            (hedge_result ShortPlacementFailed hedge_id [] False
               (''short placement failed (hedge stands): '' @ error_tag e), tr @ [PlaceShort (Inl e)])
      | Some (Inr a) \<Rightarrow> recheck_hedge seams hedge_id (ba_broker_order_id a) (tr @ [PlaceShort (Inr a)]))"

definition execute_hedge_first :: "hedge_first_seams \<Rightarrow> hedge_first_result \<times> hedge_call list" where
  "execute_hedge_first seams =
     (case place_hedge seams of
        None \<Rightarrow> (hedge_result HedgePlacementFailed [] [] False ''hedge placement seam not configured'', [])
      | Some (Inl e) \<Rightarrow> (hedge_result HedgePlacementFailed [] [] False
          (''hedge placement failed: '' @ error_tag e), [PlaceHedge (Inl e)])
      | Some (Inr a) \<Rightarrow>
        let hedge_id = ba_broker_order_id a; tr = [PlaceHedge (Inr a)] in
        (case confirm_hedge seams of
           None \<Rightarrow> (hedge_result HedgeUnconfirmed hedge_id [] False ''hedge confirmation seam not configured'', tr)
         | Some f \<Rightarrow>
           let tr = tr @ [ConfirmHedge hedge_id (f hedge_id)] in
           (case f hedge_id of
              Inl e \<Rightarrow> (hedge_result HedgeUnconfirmed hedge_id [] False
                (''hedge confirmation check failed: '' @ error_tag e), tr)
            | Inr confirmed \<Rightarrow>
                if \<not> confirmed then (hedge_result HedgeUnconfirmed hedge_id [] False ''hedge not confirmed live'', tr)
                else send_short seams hedge_id tr)))"

text \<open>
  The short is sent exactly when the hedge was acknowledged and then confirmed live under the order
  id of that acknowledgement.
\<close>

definition hedge_confirmed :: "hedge_first_seams \<Rightarrow> broker_ack \<Rightarrow> bool" where
  "hedge_confirmed seams a \<longleftrightarrow> place_hedge seams = Some (Inr a)
     \<and> (\<exists>f. confirm_hedge seams = Some f \<and> f (ba_broker_order_id a) = Inr True)"

lemma recheck_hedge_spec:
  assumes "recheck_hedge seams h s tr = (res, tr')"
  obtains (live) "hf_outcome res = HedgedShortLive" "tr' = tr @ [RecheckHedge h (Inr True)]"
  | (naked) rc msg where "rc = [] \<or> (\<exists>r. rc = [RecheckHedge h r] \<and> r \<noteq> Inr True)"
      "hf_outcome res = NakedShortRemediated"
      "tr' = tr @ rc @ (case emergency_action seams of None \<Rightarrow> [] | Some y \<Rightarrow> [EmergencyAction y]) @ [HedgeAlert AlertCritical msg]"
proof -
  define rc where "rc = (case recheck_hedge_live seams of None \<Rightarrow> [] | Some f \<Rightarrow> [RecheckHedge h (f h)])"
  define ok where "ok = (case recheck_hedge_live seams of None \<Rightarrow> False | Some f \<Rightarrow> f h = Inr True)"
  have eq: "(case recheck_hedge_live seams of None \<Rightarrow> (False, tr)
         | Some f \<Rightarrow> ((case f h of Inr b \<Rightarrow> b | Inl _ \<Rightarrow> False), tr @ [RecheckHedge h (f h)])) = (ok, tr @ rc)"
    by (auto simp: rc_def ok_def split: option.splits sum.splits)
  show thesis
  proof (cases ok)
    case True
    then have "rc = [RecheckHedge h (Inr True)]" by (auto simp: rc_def ok_def split: option.splits)
    then show thesis using live assms True unfolding recheck_hedge_def eq by (auto simp: Let_def hedge_result_def)
  next
    case False
    then have "rc = [] \<or> (\<exists>r. rc = [RecheckHedge h r] \<and> r \<noteq> Inr True)" by (auto simp: rc_def ok_def split: option.splits)
    moreover have "hf_outcome res = NakedShortRemediated \<and> (\<exists>msg.
        tr' = tr @ rc @ (case emergency_action seams of None \<Rightarrow> [] | Some y \<Rightarrow> [EmergencyAction y]) @ [HedgeAlert AlertCritical msg])"
      using assms False unfolding recheck_hedge_def eq
      by (auto simp: Let_def hedge_result_def split: option.splits sum.splits)
    ultimately show thesis using naked by blast
  qed
qed

lemma execute_hedge_first_spec:
  assumes "execute_hedge_first seams = (res, tr)"
  obtains (unhedged) "\<nexists>a. hedge_confirmed seams a" "hf_outcome res \<in> {HedgePlacementFailed, HedgeUnconfirmed}"
      "\<forall>c \<in> set tr. (\<exists>a. c = PlaceHedge a) \<or> (\<exists>h b. c = ConfirmHedge h b)"
  | (unsent) a where "hedge_confirmed seams a" "place_short seams = None" "hf_outcome res = ShortPlacementFailed"
      "tr = [PlaceHedge (Inr a), ConfirmHedge (ba_broker_order_id a) (Inr True)]"
  | (refused) a e where "hedge_confirmed seams a" "place_short seams = Some (Inl e)" "\<not> is_ambiguous e"
      "hf_outcome res = ShortPlacementFailed"
      "tr = [PlaceHedge (Inr a), ConfirmHedge (ba_broker_order_id a) (Inr True), PlaceShort (Inl e)]"
  | (ambiguous) a e msg where "hedge_confirmed seams a" "place_short seams = Some (Inl e)" "is_ambiguous e"
      "hf_outcome res = ShortAmbiguousReconcileRequired"
      "tr = [PlaceHedge (Inr a), ConfirmHedge (ba_broker_order_id a) (Inr True), PlaceShort (Inl e), HedgeAlert AlertCritical msg]"
  | (sent) a b where "hedge_confirmed seams a" "place_short seams = Some (Inr b)"
      "recheck_hedge seams (ba_broker_order_id a) (ba_broker_order_id b)
        [PlaceHedge (Inr a), ConfirmHedge (ba_broker_order_id a) (Inr True), PlaceShort (Inr b)] = (res, tr)"
proof (cases "\<exists>a. hedge_confirmed seams a")
  case False
  then show thesis using unhedged assms
    by (auto simp: execute_hedge_first_def hedge_confirmed_def hedge_result_def Let_def split: option.splits sum.splits if_splits)
next
  case True
  then obtain a where a: "hedge_confirmed seams a" ..
  then have eq: "execute_hedge_first seams = send_short seams (ba_broker_order_id a)
      [PlaceHedge (Inr a), ConfirmHedge (ba_broker_order_id a) (Inr True)]"
    by (auto simp: execute_hedge_first_def hedge_confirmed_def Let_def)
  show thesis
  proof (cases "place_short seams")
    case None
    then show thesis using unsent a eq assms by (simp add: send_short_def hedge_result_def)
  next
    case (Some x)
    show thesis
    proof (cases x)
      case (Inl e)
      then show thesis using refused [OF a] ambiguous [OF a] Some eq assms
        by (auto simp: send_short_def hedge_result_def split: if_splits)
    next
      case (Inr b)
      then show thesis using sent [OF a] Some eq assms by (simp add: send_short_def)
    qed
  qed
qed

text \<open>What follows an acknowledged short: the re-check, and without a live answer the remediation.\<close>

definition short_aftermath :: "hedge_first_seams \<Rightarrow> string \<Rightarrow> string \<Rightarrow> hedge_call list" where
  "short_aftermath seams hedge_id msg =
     (case recheck_hedge_live seams of None \<Rightarrow> [] | Some f \<Rightarrow> [RecheckHedge hedge_id (f hedge_id)])
     @ (if \<exists>f. recheck_hedge_live seams = Some f \<and> f hedge_id = Inr True then []
        else (case emergency_action seams of None \<Rightarrow> [] | Some y \<Rightarrow> [EmergencyAction y])
             @ [HedgeAlert AlertCritical msg])"

lemma recheck_hedge_aftermath:
  assumes "recheck_hedge seams h s tr = (res, tr')"
  shows "\<exists>msg. tr' = tr @ short_aftermath seams h msg" "hf_hedge_order_id res = h" "hf_short_order_id res = s"
  using assms
  by (auto simp: recheck_hedge_def short_aftermath_def hedge_result_def Let_def
      split: option.splits sum.splits bool.splits if_splits)

text \<open>C33. 
  The account is never left naked.  A short goes out exactly when a hedge was acknowledged and
  confirmed live under the id of that acknowledgement, and nothing else precedes it.  Once the short is
  acknowledged, the calls are exactly these: the hedge is re-checked under the hedge's own order id
  (where the seam is configured), and unless that answers live, the emergency action runs (where one
  is configured) and then a critical alert is sent, last; the result carries the two orders' ids.  A
  short that is live without a hedge re-verified after it always ends remediated, and the emergency
  action runs then and only then.  An ambiguous short never triggers the emergency action, which would
  remove the hedge, and is never reported as not placed.
\<close>

theorem hedge_first_never_naked:
  assumes "execute_hedge_first seams = (res, tr)"
  shows "(PlaceShort x \<in> set tr \<longleftrightarrow> (\<exists>a. hedge_confirmed seams a) \<and> place_short seams = Some x)
    \<and> (PlaceShort x \<in> set tr \<longrightarrow>
         (\<exists>a rest. tr = [PlaceHedge (Inr a), ConfirmHedge (ba_broker_order_id a) (Inr True), PlaceShort x] @ rest))
    \<and> (hf_outcome res = NakedShortRemediated \<longleftrightarrow>
         (\<exists>a. PlaceShort (Inr a) \<in> set tr) \<and> (\<nexists>h. RecheckHedge h (Inr True) \<in> set tr))
    \<and> ((\<exists>y. EmergencyAction y \<in> set tr) \<longleftrightarrow> hf_outcome res = NakedShortRemediated \<and> emergency_action seams \<noteq> None)
    \<and> (hf_outcome res = ShortAmbiguousReconcileRequired \<longleftrightarrow> (\<exists>e. PlaceShort (Inl e) \<in> set tr \<and> is_ambiguous e))
    \<and> (hf_outcome res = ShortPlacementFailed \<longrightarrow> (\<forall>y. PlaceShort y \<in> set tr \<longrightarrow> (\<exists>e. y = Inl e \<and> \<not> is_ambiguous e)))
    \<and> ((\<exists>msg. HedgeAlert AlertCritical msg \<in> set tr)
         \<longleftrightarrow> hf_outcome res = ShortAmbiguousReconcileRequired \<or> hf_outcome res = NakedShortRemediated)
    \<and> (\<forall>a b. hedge_confirmed seams a \<and> place_short seams = Some (Inr b) \<longrightarrow>
         (\<exists>msg. tr = [PlaceHedge (Inr a), ConfirmHedge (ba_broker_order_id a) (Inr True), PlaceShort (Inr b)]
            @ short_aftermath seams (ba_broker_order_id a) msg)
         \<and> hf_hedge_order_id res = ba_broker_order_id a \<and> hf_short_order_id res = ba_broker_order_id b)"
  using assms
proof (cases rule: execute_hedge_first_spec)
  case (sent a b)
  have c: "a' = a \<and> b' = b" if "hedge_confirmed seams a'" "place_short seams = Some (Inr b')" for a' b'
    using that sent(1,2) by (simp add: hedge_confirmed_def)
  have after: "\<forall>a b. hedge_confirmed seams a \<and> place_short seams = Some (Inr b) \<longrightarrow>
         (\<exists>msg. tr = [PlaceHedge (Inr a), ConfirmHedge (ba_broker_order_id a) (Inr True), PlaceShort (Inr b)]
            @ short_aftermath seams (ba_broker_order_id a) msg)
         \<and> hf_hedge_order_id res = ba_broker_order_id a \<and> hf_short_order_id res = ba_broker_order_id b"
    using recheck_hedge_aftermath [OF sent(3)] c by blast
  from sent(3) show ?thesis
  proof (cases rule: recheck_hedge_spec)
    case live
    then show ?thesis using sent(1,2) by (intro conjI after) auto
  next
    case naked
    then show ?thesis using sent(1,2) by (intro conjI after) (auto split: option.splits)
  qed
qed auto

text \<open>Two runs: an ambiguous short, and a short whose hedge is found gone under its own id.\<close>

definition sample_hedge_seams :: "broker_ack result \<Rightarrow> hedge_first_seams" where
  "sample_hedge_seams short = \<lparr>place_hedge = Some (Inr \<lparr>ba_broker_order_id = ''H'', ba_client_ref = []\<rparr>),
     confirm_hedge = Some (\<lambda>_. Inr True), place_short = Some short,
     recheck_hedge_live = Some (\<lambda>h. Inr (h \<noteq> ''H'')), emergency_action = Some (Inr ())\<rparr>"

lemma sample_hedge_confirmed:
  "hedge_confirmed (sample_hedge_seams x) \<lparr>ba_broker_order_id = ''H'', ba_client_ref = []\<rparr>"
  by (simp add: hedge_confirmed_def sample_hedge_seams_def)

lemma hedge_first_never_naked_witness:
  "hf_outcome (fst (execute_hedge_first (sample_hedge_seams (Inl (make_error Timeout [] []))))) = ShortAmbiguousReconcileRequired
   \<and> (\<nexists>y. EmergencyAction y \<in> set (snd (execute_hedge_first (sample_hedge_seams (Inl (make_error Timeout [] []))))))
   \<and> (\<exists>a b msg. snd (execute_hedge_first (sample_hedge_seams (Inr \<lparr>ba_broker_order_id = ''S'', ba_client_ref = []\<rparr>)))
       = [PlaceHedge (Inr a), ConfirmHedge ''H'' (Inr True), PlaceShort (Inr b), RecheckHedge ''H'' (Inr False),
          EmergencyAction (Inr ()), HedgeAlert AlertCritical msg])"
proof -
  let ?amb = "sample_hedge_seams (Inl (make_error Timeout [] []))"
  let ?b = "\<lparr>ba_broker_order_id = ''S'', ba_client_ref = []\<rparr>"
  have "hf_outcome (fst (execute_hedge_first ?amb)) = ShortAmbiguousReconcileRequired"
    by (simp add: sample_hedge_seams_def execute_hedge_first_def send_short_def hedge_result_def is_ambiguous_def make_error_def Let_def)
  moreover have "(\<exists>y. EmergencyAction y \<in> set (snd (execute_hedge_first ?amb)))
      \<longrightarrow> hf_outcome (fst (execute_hedge_first ?amb)) = NakedShortRemediated"
    using hedge_first_never_naked [of ?amb "fst (execute_hedge_first ?amb)" "snd (execute_hedge_first ?amb)"] by simp
  moreover have "place_short (sample_hedge_seams (Inr ?b)) = Some (Inr ?b)" by (simp add: sample_hedge_seams_def)
  then have "\<exists>msg. snd (execute_hedge_first (sample_hedge_seams (Inr ?b))) = [PlaceHedge (Inr \<lparr>ba_broker_order_id = ''H'', ba_client_ref = []\<rparr>),
      ConfirmHedge ''H'' (Inr True), PlaceShort (Inr ?b)] @ short_aftermath (sample_hedge_seams (Inr ?b)) ''H'' msg"
    using hedge_first_never_naked [OF surjective_pairing [of "execute_hedge_first (sample_hedge_seams (Inr ?b))"]]
      sample_hedge_confirmed [of "Inr ?b"] by fastforce
  ultimately show ?thesis by (auto simp: short_aftermath_def sample_hedge_seams_def)
qed

end
