(* ===== verification/Sliced_Leg.thy ===== *)
theory Sliced_Leg
  imports Basket Slicing
begin

text \<open>
  \<^verbatim>\<open>options/sliced_leg.cpp\<close>: one leg sent as the children the freeze slicer cuts it into.  The child
  seams are functions of everything called before, so two probes of the same reference may differ.
\<close>

datatype child_placement = ChildAcked | AlreadyPlaced | ChildUnknown

fun child_placement_to_string :: "child_placement \<Rightarrow> string" where
  "child_placement_to_string ChildAcked = ''Acked''"
| "child_placement_to_string AlreadyPlaced = ''AlreadyPlaced''"
| "child_placement_to_string ChildUnknown = ''Unknown''"

datatype sliced_leg_outcome = FilledSliced | UnknownPaused | SliceRejected

fun sliced_leg_outcome_to_string :: "sliced_leg_outcome \<Rightarrow> string" where
  "sliced_leg_outcome_to_string FilledSliced = ''FilledSliced''"
| "sliced_leg_outcome_to_string UnknownPaused = ''UnknownPaused''"
| "sliced_leg_outcome_to_string SliceRejected = ''SliceRejected''"

record child_result =
  chr_client_ref :: string
  chr_placement :: child_placement
  chr_broker_order_id :: string

record sliced_leg_result =
  slr_outcome :: sliced_leg_outcome
  slr_children :: "child_result list"
  slr_placed_count :: int
  slr_deduped_count :: int
  slr_paused_at_ref :: string
  slr_detail :: string

datatype child_call =
    ProbeChild string "bool result"
  | PlaceChild order_intent "(child_placement \<times> string) result"
  | ChildAlert alert

type_synonym child_trace = "child_call list"

record sliced_leg_seams =
  already_placed :: "(child_trace \<Rightarrow> string \<Rightarrow> bool result) option"
  place_child :: "(child_trace \<Rightarrow> order_intent \<Rightarrow> (child_placement \<times> string) result) option"

definition initial_leg_result :: sliced_leg_result where
  "initial_leg_result = \<lparr>slr_outcome = SliceRejected, slr_children = [], slr_placed_count = 0,
     slr_deduped_count = 0, slr_paused_at_ref = [], slr_detail = []\<rparr>"

definition pause_for_unknown ::
    "order_intent \<Rightarrow> string \<Rightarrow> string \<Rightarrow> sliced_leg_result \<times> child_trace \<Rightarrow> sliced_leg_result \<times> child_trace" where
  "pause_for_unknown parent ref reason st =
     (let (res, tr) = st in
      (res \<lparr>slr_outcome := UnknownPaused,
        slr_children := slr_children res @ [\<lparr>chr_client_ref = ref, chr_placement = ChildUnknown, chr_broker_order_id = []\<rparr>],
        slr_paused_at_ref := ref,
        slr_detail := ''sliced leg UNKNOWN at '' @ ref @ '' ('' @ reason @ ''): placement STOPPED, reconcile before resume''\<rparr>,
       tr @ [ChildAlert \<lparr>al_level = AlertCritical,
         al_message = ''SLICED LEG UNKNOWN: child order is ambiguous; placement STOPPED, reconcile before resume'',
         al_context = no_context \<lparr>ac_client_ref := ref, ac_strategy := oi_strategy parent, ac_symbol := oi_symbol parent\<rparr>\<rparr>]))"

text \<open>The idempotency probe; an absent one answers \<^verbatim>\<open>false\<close> without a call.\<close>

definition probe_child ::
    "sliced_leg_seams \<Rightarrow> child_trace \<Rightarrow> string \<Rightarrow> bool result \<times> child_trace" where
  "probe_child seams tr ref =
     (case already_placed seams of
        None \<Rightarrow> (Inr False, tr)
      | Some f \<Rightarrow> (f tr ref, tr @ [ProbeChild ref (f tr ref)]))"

text \<open>The child loop.  The flag tells whether the loop ran to its end.\<close>

fun place_children ::
    "order_intent \<Rightarrow> sliced_leg_seams \<Rightarrow> (child_trace \<Rightarrow> order_intent \<Rightarrow> (child_placement \<times> string) result)
     \<Rightarrow> order_intent list \<Rightarrow> sliced_leg_result \<times> child_trace \<Rightarrow> bool \<times> sliced_leg_result \<times> child_trace" where
  "place_children parent seams place [] st = (True, st)"
| "place_children parent seams place (child # children) (res, tr) =
     (let ref = oi_client_ref child; (known, tr) = probe_child seams tr ref in
      case known of
        Inl _ \<Rightarrow> (False, pause_for_unknown parent ref ''already_placed check errored'' (res, tr))
      | Inr True \<Rightarrow>
          place_children parent seams place children
            (res \<lparr>slr_children := slr_children res
                   @ [\<lparr>chr_client_ref = ref, chr_placement = AlreadyPlaced, chr_broker_order_id = []\<rparr>],
                  slr_deduped_count := slr_deduped_count res + 1\<rparr>, tr)
      | Inr False \<Rightarrow>
          let placed = place tr child; tr = tr @ [PlaceChild child placed] in
          (case placed of
             Inl _ \<Rightarrow> (False, pause_for_unknown parent ref ''place_child errored'' (res, tr))
           | Inr (state, broker_order_id) \<Rightarrow>
               if state = ChildAcked then
                 place_children parent seams place children
                   (res \<lparr>slr_children := slr_children res
                          @ [\<lparr>chr_client_ref = ref, chr_placement = ChildAcked, chr_broker_order_id = broker_order_id\<rparr>],
                         slr_placed_count := slr_placed_count res + 1\<rparr>, tr)
               else (False, pause_for_unknown parent ref ''place_child returned Unknown'' (res, tr))))"

definition execute_sliced_leg ::
    "order_intent \<Rightarrow> instrument \<Rightarrow> sliced_leg_seams \<Rightarrow> sliced_leg_result \<times> child_trace" where
  "execute_sliced_leg parent inst seams =
     (case place_child seams of
        None \<Rightarrow> (initial_leg_result \<lparr>slr_detail :=
          ''sliced leg rejected: place_child seam not configured (nothing placed)''\<rparr>, [])
      | Some place \<Rightarrow>
        (case slice parent inst of
           Inl e \<Rightarrow> (initial_leg_result \<lparr>slr_detail := ''sliced leg rejected: slicer error: '' @ error_tag e\<rparr>, [])
         | Inr children \<Rightarrow>
           (case place_children parent seams place children (initial_leg_result, []) of
              (False, st) \<Rightarrow> st
            | (True, res, tr) \<Rightarrow>
                (res \<lparr>slr_outcome := FilledSliced,
                   slr_detail := ''sliced leg complete: '' @ show_nat (length children) @ '' children (placed ''
                     @ show_int (slr_placed_count res) @ '', deduped '' @ show_int (slr_deduped_count res) @ '')''\<rparr>, tr))))"

section \<open>Properties\<close>

text \<open>A call whose answer does not say whether the child is at the broker.\<close>

fun unsettled :: "child_call \<Rightarrow> bool" where
  "unsettled (ProbeChild ref answer) = isl answer"
| "unsettled (PlaceChild child answer) = (case answer of Inl _ \<Rightarrow> True | Inr (state, _) \<Rightarrow> state \<noteq> ChildAcked)"
| "unsettled (ChildAlert a) = False"

text \<open>The child a call is about.\<close>

fun call_ref :: "child_call \<Rightarrow> string" where
  "call_ref (ProbeChild ref answer) = ref"
| "call_ref (PlaceChild child answer) = oi_client_ref child"
| "call_ref (ChildAlert a) = ac_client_ref (al_context a)"

fun sent_children :: "child_trace \<Rightarrow> order_intent list" where
  "sent_children [] = []"
| "sent_children (PlaceChild child answer # tr) = child # sent_children tr"
| "sent_children (_ # tr) = sent_children tr"

lemma sent_children_append [simp]: "sent_children (tr @ tr') = sent_children tr @ sent_children tr'"
  by (induction tr rule: sent_children.induct) auto

definition settled :: "child_trace \<Rightarrow> order_intent \<Rightarrow> child_result \<Rightarrow> bool" where
  "settled tr child r \<longleftrightarrow> chr_client_ref r = oi_client_ref child
     \<and> (chr_placement r = AlreadyPlaced \<and> ProbeChild (oi_client_ref child) (Inr True) \<in> set tr
        \<or> chr_placement r = ChildAcked \<and> PlaceChild child (Inr (ChildAcked, chr_broker_order_id r)) \<in> set tr)"

lemma distinct_subseq: "subseq xs ys \<Longrightarrow> distinct ys \<Longrightarrow> distinct xs"
  by (induction rule: list_emb.induct) (auto dest: list_emb_set)

lemma settled_mono: "settled tr child r \<Longrightarrow> set tr \<subseteq> set tr' \<Longrightarrow> settled tr' child r"
  by (auto simp: settled_def)

text \<open>The loop settles a prefix of the children; it stops at the first call that settles nothing, and
  pauses at the child that call is about.\<close>

definition paused_at ::
    "order_intent list \<Rightarrow> child_trace \<Rightarrow> child_call \<Rightarrow> alert \<Rightarrow> child_result list \<Rightarrow> child_result list
     \<Rightarrow> sliced_leg_result \<Rightarrow> nat \<Rightarrow> bool" where
  "paused_at children good bad a old news res n \<longleftrightarrow> n < length children \<and> unsettled bad
     \<and> call_ref bad = oi_client_ref (children ! n) \<and> al_level a = AlertCritical
     \<and> ac_client_ref (al_context a) = oi_client_ref (children ! n)
     \<and> slr_paused_at_ref res = oi_client_ref (children ! n) \<and> slr_outcome res = UnknownPaused
     \<and> slr_children res = old @ news
          @ [\<lparr>chr_client_ref = oi_client_ref (children ! n), chr_placement = ChildUnknown, chr_broker_order_id = []\<rparr>]
     \<and> list_all2 (settled good) (take n children) news
     \<and> subseq (sent_children (good @ [bad])) (take (Suc n) children)"

definition leg_progress ::
    "order_intent list \<Rightarrow> sliced_leg_result \<times> child_trace \<Rightarrow> bool \<times> sliced_leg_result \<times> child_trace \<Rightarrow> bool" where
  "leg_progress children start out \<longleftrightarrow>
     (case start of (res, tr) \<Rightarrow> case out of (fin, res', tr') \<Rightarrow>
       \<exists>news good. list_all (\<lambda>c. \<not> unsettled c) good
         \<and> slr_placed_count res' + slr_deduped_count res' = slr_placed_count res + slr_deduped_count res + int (length news)
         \<and> (if fin then tr' = tr @ good \<and> subseq (sent_children good) children
              \<and> list_all2 (settled good) children news
              \<and> slr_children res' = slr_children res @ news \<and> slr_outcome res' = slr_outcome res
            else \<exists>bad a n. tr' = tr @ good @ [bad, ChildAlert a]
              \<and> paused_at children good bad a (slr_children res) news res' n))"

lemma settled_later:
  assumes "settled calls child new" "list_all2 (settled good) children news"
  shows "list_all2 (settled (calls @ good)) (child # children) (new # news)"
proof -
  have "list_all2 (settled (calls @ good)) children news"
    using assms(2) by (auto elim!: list_all2_mono settled_mono)
  moreover have "settled (calls @ good) child new" using assms(1) by (rule settled_mono) simp
  ultimately show ?thesis by simp
qed

lemma paused_later:
  assumes "paused_at children good bad a (old @ [new]) news res n"
    and "settled calls child new" "\<And>xs ys. subseq xs ys \<Longrightarrow> subseq (sent_children calls @ xs) (child # ys)"
  shows "paused_at (child # children) (calls @ good) bad a old (new # news) res (Suc n)"
  using assms(1) settled_later [OF assms(2), of good "take n children" news]
    assms(3) [of "sent_children (good @ [bad])" "take (Suc n) children"]
  by (simp add: paused_at_def)

lemma leg_progress_step:
  assumes "leg_progress children (res1, tr @ calls) out"
    and "list_all (\<lambda>c. \<not> unsettled c) calls" "subseq (sent_children calls) [child]"
    and "settled calls child new" "slr_children res1 = slr_children res @ [new]" "slr_outcome res1 = slr_outcome res"
    and "slr_placed_count res1 + slr_deduped_count res1 = slr_placed_count res + slr_deduped_count res + 1"
  shows "leg_progress (child # children) (res, tr) out"
proof -
  obtain fin res' tr' where out: "out = (fin, res', tr')" by (cases out) auto
  obtain news good where p: "list_all (\<lambda>c. \<not> unsettled c) good"
    "slr_placed_count res' + slr_deduped_count res' = slr_placed_count res1 + slr_deduped_count res1 + int (length news)"
    "if fin then tr' = (tr @ calls) @ good \<and> subseq (sent_children good) children
              \<and> list_all2 (settled good) children news
              \<and> slr_children res' = slr_children res1 @ news \<and> slr_outcome res' = slr_outcome res1
            else \<exists>bad a n. tr' = (tr @ calls) @ good @ [bad, ChildAlert a]
              \<and> paused_at children good bad a (slr_children res1) news res' n"
    using assms(1) unfolding leg_progress_def out prod.case by blast
  have sub: "subseq xs ys \<Longrightarrow> subseq (sent_children calls @ xs) (child # ys)" for xs ys
    using list_emb_append_mono [OF assms(3), of xs ys] by simp
  have "list_all (\<lambda>c. \<not> unsettled c) (calls @ good)"
    "slr_placed_count res' + slr_deduped_count res' = slr_placed_count res + slr_deduped_count res + int (length (new # news))"
    using p(1,2) assms(2,7) by simp_all
  moreover have "if fin then tr' = tr @ (calls @ good) \<and> subseq (sent_children (calls @ good)) (child # children)
              \<and> list_all2 (settled (calls @ good)) (child # children) (new # news)
              \<and> slr_children res' = slr_children res @ (new # news) \<and> slr_outcome res' = slr_outcome res
            else \<exists>bad a n. tr' = tr @ (calls @ good) @ [bad, ChildAlert a]
              \<and> paused_at (child # children) (calls @ good) bad a (slr_children res) (new # news) res' n"
  proof (cases fin)
    case True
    then show ?thesis using p(3) settled_later [OF assms(4), of good children news] assms(5,6) sub by simp
  next
    case False
    then obtain bad a n where at: "tr' = (tr @ calls) @ good @ [bad, ChildAlert a]"
      "paused_at children good bad a (slr_children res @ [new]) news res' n" using p(3) assms(5) by auto
    from paused_later [OF at(2) assms(4) sub] at(1) show ?thesis unfolding if_not_P [OF False]
      by (intro exI [of _ bad] exI [of _ a] exI [of _ "Suc n"]) simp_all
  qed
  ultimately show ?thesis unfolding leg_progress_def out prod.case by blast
qed

lemma leg_progress_pause:
  assumes "list_all (\<lambda>c. \<not> unsettled c) good" "unsettled bad" "subseq (sent_children (good @ [bad])) [child]"
    and "call_ref bad = oi_client_ref child"
  shows "leg_progress (child # children) (res, tr)
    (False, pause_for_unknown parent (oi_client_ref child) reason (res, tr @ good @ [bad]))"
  unfolding leg_progress_def pause_for_unknown_def Let_def prod.case
  by (rule exI [of _ "[]"], rule exI [of _ good])
    (use assms in \<open>auto simp: no_context_def paused_at_def intro!: exI [of _ 0]\<close>)

lemma place_children_progress:
  "leg_progress children (res, tr) (place_children parent seams place children (res, tr))"
proof (induction children arbitrary: res tr)
  case Nil
  then show ?case by (auto simp: leg_progress_def intro!: exI [of _ "[]"])
next
  case (Cons child children)
  obtain known tr1 where pr: "probe_child seams tr (oi_client_ref child) = (known, tr1)"
    by (cases "probe_child seams tr (oi_client_ref child)")
  define calls where "calls = (if already_placed seams = None then [] else [ProbeChild (oi_client_ref child) known])"
  have tr1: "tr1 = tr @ calls" and none: "already_placed seams = None \<Longrightarrow> known = Inr False"
    using pr by (auto simp: probe_child_def calls_def split: option.splits)
  have sent: "sent_children calls = []" by (simp add: calls_def)
  show ?case
  proof (cases known)
    case (Inl e)
    then have "calls = [] @ [ProbeChild (oi_client_ref child) (Inl e)]" using none by (auto simp: calls_def)
    then show ?thesis
      using leg_progress_pause [of "[]" "ProbeChild (oi_client_ref child) (Inl e)" child children res tr parent]
      using pr tr1 Inl by (simp add: Let_def)
  next
    case (Inr b)
    then have good: "list_all (\<lambda>c. \<not> unsettled c) calls" by (simp add: calls_def)
    show ?thesis
    proof (cases b)
      case True
      then have "ProbeChild (oi_client_ref child) (Inr True) \<in> set calls" using Inr none by (auto simp: calls_def)
      then show ?thesis using pr tr1 Inr True good sent
        by (auto simp: Let_def settled_def intro!: leg_progress_step [OF Cons.IH])
    next
      case False
      define placed where "placed = place tr1 child"
      let ?call = "PlaceChild child placed"
      show ?thesis
      proof (cases "\<exists>id. placed = Inr (ChildAcked, id)")
        case True
        then obtain id where id: "placed = Inr (ChildAcked, id)" by blast
        have "leg_progress (child # children) (res, tr)
          (place_children parent seams place children
            (res \<lparr>slr_children := slr_children res
                   @ [\<lparr>chr_client_ref = oi_client_ref child, chr_placement = ChildAcked, chr_broker_order_id = id\<rparr>],
                  slr_placed_count := slr_placed_count res + 1\<rparr>, tr @ (calls @ [?call])))"
          by (rule leg_progress_step [OF Cons.IH]) (use good id sent in \<open>auto simp: settled_def\<close>)
        then show ?thesis using pr tr1 Inr False id placed_def by (simp add: Let_def)
      next
        case no: False
        have bad: "unsettled ?call" using no by (auto split: sum.splits prod.splits)
        have "leg_progress (child # children) (res, tr)
            (False, pause_for_unknown parent (oi_client_ref child) reason (res, tr @ calls @ [?call]))" for reason
          using leg_progress_pause [OF good bad] sent by simp
        then show ?thesis using pr tr1 Inr False no
          by (auto simp: Let_def placed_def split: sum.splits prod.splits)
      qed
    qed
  qed
qed

lemma execute_sliced_leg_cases:
  assumes "execute_sliced_leg parent inst seams = (res, tr)"
  obtains (rejected) "place_child seams = None \<or> \<not> slice_input_ok parent inst" "tr = []" "slr_outcome res = SliceRejected"
  | (filled) children where "place_child seams \<noteq> None" "slice_input_ok parent inst" "slice parent inst = Inr children"
      "list_all (\<lambda>c. \<not> unsettled c) tr" "subseq (sent_children tr) children"
      "list_all2 (settled tr) children (slr_children res)" "slr_outcome res = FilledSliced"
      "slr_placed_count res + slr_deduped_count res = int (length children)"
  | (paused) children good bad a news n where "place_child seams \<noteq> None" "slice_input_ok parent inst" "slice parent inst = Inr children"
      "list_all (\<lambda>c. \<not> unsettled c) good" "tr = good @ [bad, ChildAlert a]"
      "paused_at children good bad a [] news res n"
proof (cases "place_child seams")
  case None
  then show thesis using rejected assms by (auto simp: execute_sliced_leg_def initial_leg_result_def)
next
  case (Some place)
  show thesis
  proof (cases "slice_input_ok parent inst")
    case False
    then obtain e where "slice parent inst = Inl e" using slice_cases(2) by blast
    then show thesis using rejected False assms Some by (auto simp: execute_sliced_leg_def initial_leg_result_def)
  next
    case True
    then obtain children where ch: "slice parent inst = Inr children" using slice_spec [of parent inst] by auto
    obtain fin res1 tr1 where run: "place_children parent seams place children (initial_leg_result, []) = (fin, res1, tr1)"
      by (cases "place_children parent seams place children (initial_leg_result, [])") auto
    note prog = place_children_progress [of children initial_leg_result "[]" parent seams place,
        unfolded run leg_progress_def prod.case]
    show thesis
    proof (cases fin)
      case fin: True
      have len: "list_all2 (settled good) children news \<Longrightarrow> length news = length children" for good news
        by (simp add: list_all2_lengthD)
      have "slr_outcome res = FilledSliced" "tr = tr1" "slr_children res = slr_children res1"
        "slr_placed_count res = slr_placed_count res1" "slr_deduped_count res = slr_deduped_count res1"
        using assms Some ch run fin by (auto simp: execute_sliced_leg_def)
      then show thesis using filled [OF _ True ch] prog fin Some len by (auto simp: initial_leg_result_def)
    next
      case False
      have "(res, tr) = (res1, tr1)" using assms Some ch run False by (simp add: execute_sliced_leg_def)
      moreover obtain news good bad a n where p: "list_all (\<lambda>c. \<not> unsettled c) good"
          "tr1 = good @ [bad, ChildAlert a]" "paused_at children good bad a [] news res1 n"
        using prog False by (auto simp: initial_leg_result_def)
      ultimately show thesis using Some by (intro paused [OF _ True ch p(1)]) auto
    qed
  qed
qed

text \<open>C34. 
  One leg in slices.  Nothing is called when the leg is refused.  Otherwise the children are those of
  the slicer, each is sent at most once, and the sends are in slice order.  The first answer that
  leaves a child in doubt ends the leg: nothing is called after it but one critical alert, and the
  alert and the pause of the result carry the client reference of the very child that answer is about;
  every child before it in slice order is acknowledged or found at the broker, it is recorded as
  unknown, and no child after it is sent.  A leg reported filled has every child acknowledged or found
  at the broker, in order, and their quantities add up to the parent's.
\<close>

theorem sliced_leg_stops_at_unknown:
  assumes "execute_sliced_leg parent inst seams = (res, tr)"
  shows "(slr_outcome res = SliceRejected \<longleftrightarrow> place_child seams = None \<or> \<not> slice_input_ok parent inst)
    \<and> (slr_outcome res = SliceRejected \<longrightarrow> tr = [])
    \<and> distinct (map oi_client_ref (sent_children tr))
    \<and> (slr_outcome res = UnknownPaused \<longleftrightarrow> (\<exists>c \<in> set tr. unsettled c))
    \<and> (\<forall>k < length tr. unsettled (tr ! k) \<longrightarrow>
         slr_paused_at_ref res = call_ref (tr ! k)
         \<and> (\<exists>a. drop (Suc k) tr = [ChildAlert a] \<and> al_level a = AlertCritical
            \<and> ac_client_ref (al_context a) = call_ref (tr ! k)))
    \<and> (slr_outcome res = UnknownPaused \<longrightarrow> (\<exists>children n. slice parent inst = Inr children \<and> n < length children
         \<and> slr_paused_at_ref res = oi_client_ref (children ! n)
         \<and> list_all2 (settled tr) (take n children) (butlast (slr_children res))
         \<and> chr_client_ref (last (slr_children res)) = oi_client_ref (children ! n)
         \<and> chr_placement (last (slr_children res)) = ChildUnknown
         \<and> subseq (sent_children tr) (take (Suc n) children)))
    \<and> (slr_outcome res = FilledSliced \<longrightarrow> (\<exists>children. slice parent inst = Inr children
         \<and> list_all2 (settled tr) children (slr_children res) \<and> subseq (sent_children tr) children
         \<and> sum_list (map (\<lambda>c. qty_value (oi_quantity c)) children) = qty_value (oi_quantity parent)
         \<and> slr_placed_count res + slr_deduped_count res = int (length children)))"
proof -
  have sliced: "distinct (map oi_client_ref (sent_children tr))
      \<and> sum_list (map (\<lambda>c. qty_value (oi_quantity c)) children) = qty_value (oi_quantity parent)"
    if "slice_input_ok parent inst" "slice parent inst = Inr children" "subseq (sent_children tr) children" for children
  proof -
    have "distinct (map oi_client_ref children)
        \<and> sum_list (map (\<lambda>c. qty_value (oi_quantity c)) children) = qty_value (oi_quantity parent)"
      using slice_spec [of parent inst] that(1,2) by (auto split: if_splits)
    then show ?thesis using distinct_subseq [OF subseq_map [OF that(3)]] by blast
  qed
  from assms show ?thesis
  proof (cases rule: execute_sliced_leg_cases)
    case rejected
    then show ?thesis by simp
  next
    case (filled children)
    then have "\<not> (\<exists>c \<in> set tr. unsettled c)" "\<forall>k < length tr. \<not> unsettled (tr ! k)" by (auto simp: list_all_iff)
    then show ?thesis using filled sliced by auto
  next
    case (paused children good bad a news n)
    note at = paused(6) [unfolded paused_at_def]
    have k: "k = length good" if "k < length tr" "unsettled (tr ! k)" for k
    proof -
      have "\<not> k < length good" using paused(4,5) that(2) by (auto simp: list_all_iff nth_append)
      moreover have "k \<noteq> Suc (length good)" using paused(5) that(2) by (auto simp: nth_append)
      ultimately show ?thesis using paused(5) that(1) by simp
    qed
    have stop: "tr ! length good = bad" "drop (Suc (length good)) tr = [ChildAlert a]" by (simp_all add: paused(5))
    have sent: "subseq (sent_children tr) (take (Suc n) children)"
      using at unfolding paused(5) by (cases bad) auto
    then have "subseq (sent_children tr) children"
      using subseq_order.order_trans [of _ "take (Suc n) children" children] by (simp add: prefix_imp_subseq take_is_prefix)
    note whole = sliced [OF paused(2,3) this]
    have "list_all2 (settled tr) (take n children) news"
      using at paused(5) by (auto elim!: list_all2_mono settled_mono)
    then have pause: "\<exists>children n. slice parent inst = Inr children \<and> n < length children
         \<and> slr_paused_at_ref res = oi_client_ref (children ! n)
         \<and> list_all2 (settled tr) (take n children) (butlast (slr_children res))
         \<and> chr_client_ref (last (slr_children res)) = oi_client_ref (children ! n)
         \<and> chr_placement (last (slr_children res)) = ChildUnknown
         \<and> subseq (sent_children tr) (take (Suc n) children)"
      using at paused(3) sent by (intro exI [of _ children] exI [of _ n]) (simp add: butlast_append)
    have "slr_outcome res = UnknownPaused" "\<exists>c \<in> set tr. unsettled c" using at paused(5) by auto
    moreover have "\<forall>k < length tr. unsettled (tr ! k) \<longrightarrow>
         slr_paused_at_ref res = call_ref (tr ! k)
         \<and> (\<exists>a. drop (Suc k) tr = [ChildAlert a] \<and> al_level a = AlertCritical
            \<and> ac_client_ref (al_context a) = call_ref (tr ! k))"
      using k stop at by auto
    ultimately show ?thesis using paused(1,2) whole pause by (intro conjI) auto
  qed
qed

text \<open>Ten units at a freeze quantity of four: the second child times out and the third is never sent.\<close>

definition sample_parent :: order_intent where
  "sample_parent = sample_intent \<lparr>oi_client_ref := ''p'', oi_quantity := Quantity 10\<rparr>"

definition sample_frozen :: instrument where
  "sample_frozen = \<lparr>ins_symbol = [], ins_token = 0, ins_exchange = [], ins_lot_size = Quantity 2,
     ins_tick_size = Price 5, ins_freeze_qty = Quantity 4, ins_expiry = []\<rparr>"

definition sample_child_seams :: sliced_leg_seams where
  "sample_child_seams = \<lparr>already_placed = None, place_child = Some (\<lambda>tr _. if tr = [] then Inr (ChildAcked, ''B'') else Inl (make_error Timeout [] []))\<rparr>"

lemma sample_slices: "slice sample_parent sample_frozen
    = Inr [make_child sample_parent 4 1, make_child sample_parent 4 2, make_child sample_parent 2 3]"
  by (simp add: slice_def sample_parent_def sample_frozen_def sample_intent_def upto_rec1)

lemma sliced_leg_stops_at_unknown_witness:
  "\<exists>a. drop 2 (snd (execute_sliced_leg sample_parent sample_frozen sample_child_seams)) = [ChildAlert a]
     \<and> al_level a = AlertCritical
     \<and> ac_client_ref (al_context a) = oi_client_ref (make_child sample_parent 4 2)
     \<and> slr_paused_at_ref (fst (execute_sliced_leg sample_parent sample_frozen sample_child_seams))
         = oi_client_ref (make_child sample_parent 4 2)"
proof -
  let ?r = "execute_sliced_leg sample_parent sample_frozen sample_child_seams"
  have tr: "1 < length (snd ?r)" "unsettled (snd ?r ! 1)" "call_ref (snd ?r ! 1) = oi_client_ref (make_child sample_parent 4 2)"
    unfolding execute_sliced_leg_def sample_slices
    by (simp_all add: sample_child_seams_def probe_child_def pause_for_unknown_def Let_def)
  have "\<forall>k < length (snd ?r). unsettled (snd ?r ! k) \<longrightarrow> slr_paused_at_ref (fst ?r) = call_ref (snd ?r ! k)
      \<and> (\<exists>a. drop (Suc k) (snd ?r) = [ChildAlert a] \<and> al_level a = AlertCritical
        \<and> ac_client_ref (al_context a) = call_ref (snd ?r ! k))"
    using sliced_leg_stops_at_unknown [OF surjective_pairing [of ?r]] by (elim conjE)
  then show ?thesis using tr by (auto simp: numeral_2_eq_2)
qed

end
