(* ===== verification/Recovery.thy ===== *)
theory Recovery
  imports Reconcile
begin

text \<open>
  \<^verbatim>\<open>reconcile/recovery.cpp\<close>: reconcile before resume.  One call of \<open>recover\<close> takes the lifecycle
  engine and the answers of everything outside it, the three injected checks and the four broker
  reads, and returns the outcome, the engine and the alerts sent.  The broker is only read: there is
  no mutating call in the model because there is none in the source.
\<close>

datatype recovery_status = ResumedSafe | RecoveryBlocked | RecoveryManual

fun recovery_status_to_string :: "recovery_status \<Rightarrow> string" where
  "recovery_status_to_string ResumedSafe = ''RESUMED_SAFE''"
| "recovery_status_to_string RecoveryBlocked = ''BLOCKED''"
| "recovery_status_to_string RecoveryManual = ''MANUAL_INTERVENTION_REQUIRED''"

record recovery_outcome =
  rec_status :: recovery_status
  rec_orders :: "order list"
  rec_unknowns_resolved :: int
  rec_unknowns_unresolved :: int
  rec_escalated :: bool
  rec_detail :: string
  rec_mismatches :: int

record recovery_inputs =
  ri_load_state :: "order list result"
  ri_check_session :: "unit result"
  ri_fetch_orders :: "order list result"
  ri_fetch_trades :: "trade list result"
  ri_fetch_positions :: "position list result"
  ri_fetch_funds :: "funds_snapshot result"
  ri_now_wall :: int64
  ri_safe_start :: "unit result"

definition initial_recovery :: recovery_outcome where
  "initial_recovery = \<lparr>rec_status = RecoveryBlocked, rec_orders = [], rec_unknowns_resolved = 0,
     rec_unknowns_unresolved = 0, rec_escalated = False, rec_detail = [], rec_mismatches = 0\<rparr>"

definition broker_answered :: "error \<Rightarrow> bool" where
  "broker_answered e \<longleftrightarrow> err_category e = DataStale \<or> err_category e = Validation"

definition count_unknown :: "order list \<Rightarrow> int" where
  "count_unknown orders = int (length (filter (\<lambda>r. ord_state r = Unknown) orders))"

definition mark_manual :: "order \<Rightarrow> order" where
  "mark_manual r = (if ord_state r = Unknown then r \<lparr>ord_state := ManualInterventionRequired\<rparr> else r)"

definition fetch_truth :: "recovery_inputs \<Rightarrow> reconcile_result result" where
  "fetch_truth inp = reconciler_fetch (ri_fetch_orders inp) (ri_fetch_trades inp) (ri_fetch_positions inp)
     (ri_fetch_funds inp) (ri_now_wall inp) 1"

text \<open>Steps 4 and 5, with broker truth in hand.\<close>

definition resolve_and_gate ::
    "lifecycle_engine \<Rightarrow> recovery_inputs \<Rightarrow> recovery_outcome \<Rightarrow> reconcile_result
     \<Rightarrow> recovery_outcome \<times> lifecycle_engine \<times> alert list" where
  "resolve_and_gate eng inp out truth =
     (let unknowns_before = count_unknown (rec_orders out);
          (recon, ap, orders) = reconcile_apply (applier_init eng) truth (rec_orders out);
          unknowns_after = count_unknown orders;
          out = out \<lparr>rec_orders := orders, rec_unknowns_unresolved := unknowns_after,
                     rec_mismatches := ro_mismatches recon,
                     rec_unknowns_resolved := (if unknowns_after < unknowns_before
                       then unknowns_before - unknowns_after else 0)\<rparr>;
          blocked = (\<lambda>detail. (out \<lparr>rec_detail := detail\<rparr>, ap_engine ap, ap_alerts ap)) in
      if isl (ri_safe_start inp) then blocked ''safe-start gate blocked''
      else if rec_unknowns_unresolved out > 0 then blocked ''open UNKNOWN orders; not safe to resume''
      else if ro_block_new_orders recon \<or> ro_mismatches recon > 0
      then blocked ''reconciliation mismatch (phantom/vanished order); not safe to resume''
      else (out \<lparr>rec_status := ResumedSafe, rec_escalated := False,
                 rec_detail := ''reconciled clean; safe to resume''\<rparr>, ap_engine ap, ap_alerts ap))"

definition recover ::
    "lifecycle_engine \<Rightarrow> recovery_inputs \<Rightarrow> recovery_outcome \<times> lifecycle_engine \<times> alert list" where
  "recover eng inp =
     (case ri_load_state inp of
        Inl _ \<Rightarrow> (initial_recovery \<lparr>rec_detail := ''could not load state''\<rparr>, eng,
          [\<lparr>al_level = AlertWarning, al_message = ''recovery: could not load state'', al_context = no_context\<rparr>])
      | Inr loaded \<Rightarrow>
        let out = initial_recovery \<lparr>rec_orders := loaded\<rparr> in
        if isl (ri_check_session inp) then (out \<lparr>rec_detail := ''session not established''\<rparr>, eng, [])
        else case fetch_truth inp of
          Inl e \<Rightarrow>
            if broker_answered e then
              (out \<lparr>rec_detail := ''broker reachable but its reply was unreadable; cannot reconcile yet''\<rparr>, eng, [])
            else
              let out = out \<lparr>rec_orders := map mark_manual loaded\<rparr> in
              if count_unknown loaded > 0 then
                (out \<lparr>rec_status := RecoveryManual, rec_unknowns_resolved := 0,
                      rec_unknowns_unresolved := count_unknown loaded, rec_escalated := True,
                      rec_detail := ''double fault: UNKNOWN order + broker unreachable''\<rparr>, eng,
                 [\<lparr>al_level = AlertCritical,
                   al_message = ''recovery: double fault (UNKNOWN order + broker unreachable) -> MANUAL_INTERVENTION_REQUIRED; human intervention required, no auto-square-off'',
                   al_context = no_context\<rparr>])
              else (out \<lparr>rec_detail := ''broker unreachable; cannot reconcile yet''\<rparr>, eng, [])
        | Inr truth \<Rightarrow> resolve_and_gate eng inp out truth)"

section \<open>Resuming\<close>

lemma count_unknown_zero: "count_unknown orders \<le> 0 \<longleftrightarrow> (\<forall>r \<in> set orders. ord_state r \<noteq> Unknown)"
  by (simp add: count_unknown_def filter_empty_conv)

lemma recover_resumed:
  assumes "recover eng inp = (out, eng', alerts)" "rec_status out = ResumedSafe"
  obtains loaded truth recon ap where "ri_load_state inp = Inr loaded" "ri_check_session inp = Inr ()"
    "fetch_truth inp = Inr truth" "ri_safe_start inp = Inr ()"
    "reconcile_apply (applier_init eng) truth loaded = (recon, ap, rec_orders out)"
    "\<not> ro_block_new_orders recon" "ro_mismatches recon \<le> 0" "alerts = ap_alerts ap"
    "\<forall>r \<in> set (rec_orders out). ord_state r \<noteq> Unknown"
proof -
  have unit: "\<not> isl x \<Longrightarrow> x = Inr ()" for x :: "unit result" by (cases x) auto
  obtain loaded truth where l: "ri_load_state inp = Inr loaded" "\<not> isl (ri_check_session inp)" "fetch_truth inp = Inr truth"
    and g: "resolve_and_gate eng inp (initial_recovery \<lparr>rec_orders := loaded\<rparr>) truth = (out, eng', alerts)"
    using assms unfolding recover_def by (auto simp: initial_recovery_def Let_def split: sum.splits if_splits)
  obtain recon ap orders where r: "reconcile_apply (applier_init eng) truth loaded = (recon, ap, orders)"
    by (cases "reconcile_apply (applier_init eng) truth loaded") auto
  have "\<not> isl (ri_safe_start inp)" "\<not> ro_block_new_orders recon" "ro_mismatches recon \<le> 0" "alerts = ap_alerts ap"
    "rec_orders out = orders" "count_unknown orders \<le> 0"
    using g r assms(2) unfolding resolve_and_gate_def by (auto simp: initial_recovery_def Let_def split: if_splits)
  then show thesis using that [OF l(1) unit [OF l(2)] l(3)] unit r by (simp add: count_unknown_zero)
qed

lemma fetch_truth_key: "fetch_truth inp = Inr truth \<Longrightarrow> rr_ordering_key truth = 1"
  by (auto simp: fetch_truth_def reconciler_fetch_def split: sum.splits)

text \<open>C35. 
  Trading resumes only on broker truth.  If recovery reports \<open>RESUMED_SAFE\<close> then the state was loaded,
  the session is up, all four broker reads succeeded and the safe-start gate passed; no order is
  \<open>Unknown\<close>; every acknowledged live order that was loaded is in the broker's snapshot, and every order
  of the snapshot (broker ids being distinct) is one that was loaded; terminal orders were left as they
  were; and nothing had to be alerted.
\<close>

theorem recovery_resumes_on_broker_truth:
  assumes "recover eng inp = (out, eng', alerts)" and "rec_status out = ResumedSafe"
  shows "\<exists>loaded truth. ri_load_state inp = Inr loaded \<and> ri_check_session inp = Inr ()
    \<and> fetch_truth inp = Inr truth \<and> ri_safe_start inp = Inr ()
    \<and> (\<forall>r \<in> set (rec_orders out). ord_state r \<noteq> Unknown)
    \<and> (\<forall>l \<in> set loaded. \<not> is_terminal (ord_state l) \<and> ord_broker_order_id l \<noteq> []
         \<longrightarrow> (\<exists>b \<in> set (rr_orders truth). same_order l b))
    \<and> (distinct (map ord_broker_order_id (rr_orders truth))
         \<longrightarrow> (\<forall>b \<in> set (rr_orders truth). \<exists>l \<in> set loaded. same_order l b))
    \<and> length (rec_orders out) = length loaded
    \<and> (\<forall>j < length loaded. is_terminal (ord_state (loaded ! j)) \<longrightarrow> rec_orders out ! j = loaded ! j)
    \<and> alerts = []"
proof -
  obtain loaded truth recon ap where r: "ri_load_state inp = Inr loaded" "ri_check_session inp = Inr ()"
    "fetch_truth inp = Inr truth" "ri_safe_start inp = Inr ()"
    "reconcile_apply (applier_init eng) truth loaded = (recon, ap, rec_orders out)"
    "\<not> ro_block_new_orders recon" "ro_mismatches recon \<le> 0" "alerts = ap_alerts ap"
    "\<forall>r \<in> set (rec_orders out). ord_state r \<noteq> Unknown"
    using recover_resumed [OF assms] .
  have "ap_last_snapshot_key (applier_init eng) < rr_ordering_key truth"
    using fetch_truth_key [OF r(3)] by (simp add: applier_init_def)
  note spec = reconcile_apply_spec [OF this r(5)]
  have phantom: "\<exists>l \<in> set loaded. same_order l b"
    if d: "distinct (map ord_broker_order_id (rr_orders truth))" and b: "b \<in> set (rr_orders truth)" for b
  proof (rule ccontr)
    assume "\<not> (\<exists>l \<in> set loaded. same_order l b)"
    moreover obtain pre post where sp: "rr_orders truth = pre @ b # post" using b by (auto dest: split_list)
    moreover have "ord_broker_order_id b \<notin> ord_broker_order_id ` set pre" using d sp by simp
    then have "\<forall>x \<in> set pre. ord_broker_order_id x \<noteq> ord_broker_order_id b" by (metis imageI)
    ultimately show False using spec r(6) by (metis (no_types, lifting))
  qed
  have "int (length (ap_alerts ap)) = int (length (ap_alerts (applier_init eng))) + ro_mismatches recon" using spec by blast
  then have "int (length (ap_alerts ap)) = ro_mismatches recon" by (simp add: applier_init_def)
  then have "length (ap_alerts ap) = 0" using r(7) by linarith
  then have a: "alerts = []" using r(8) by simp
  have l: "\<exists>b \<in> set (rr_orders truth). same_order l b"
    if "l \<in> set loaded" "\<not> is_terminal (ord_state l) \<and> ord_broker_order_id l \<noteq> []" for l
    using that spec r(6) by blast
  have k: "length (rec_orders out) = length loaded"
    "\<forall>j < length loaded. is_terminal (ord_state (loaded ! j)) \<longrightarrow> rec_orders out ! j = loaded ! j"
    using spec by blast+
  show ?thesis
    apply (rule exI [of _ loaded], rule exI [of _ truth])
    using r(1-4,9) k a l phantom by simp
qed

text \<open>C36. 
  The double fault, and nothing else, demands a human.  The verdict is \<open>MANUAL_INTERVENTION_REQUIRED\<close>
  exactly when the state was loaded with an \<open>Unknown\<close> order, the session is up, and a broker read failed
  with an error that does not prove an answer; then exactly the \<open>Unknown\<close> orders are re-labelled, one
  critical alert is sent, and the lifecycle engine is untouched.
\<close>

theorem recovery_double_fault:
  assumes "recover eng inp = (out, eng', alerts)"
  shows "(rec_status out = RecoveryManual \<longleftrightarrow>
      (\<exists>loaded e. ri_load_state inp = Inr loaded \<and> (\<exists>r \<in> set loaded. ord_state r = Unknown)
         \<and> ri_check_session inp = Inr () \<and> fetch_truth inp = Inl e \<and> \<not> broker_answered e))
    \<and> (rec_escalated out \<longleftrightarrow> rec_status out = RecoveryManual)
    \<and> (rec_status out = RecoveryManual \<longrightarrow> eng' = eng \<and> map al_level alerts = [AlertCritical]
         \<and> (\<exists>loaded. ri_load_state inp = Inr loaded \<and> rec_orders out = map mark_manual loaded))"
proof -
  have unit: "\<not> isl x \<longleftrightarrow> x = Inr ()" for x :: "unit result" by (cases x) auto
  have gate: "rec_status o1 \<noteq> RecoveryManual \<and> \<not> rec_escalated o1"
    if "resolve_and_gate eng inp (initial_recovery \<lparr>rec_orders := loaded\<rparr>) truth = (o1, e1, a1)" for loaded truth o1 e1 a1
    using that by (auto simp: resolve_and_gate_def initial_recovery_def Let_def split: if_splits prod.splits)
  have cnt: "0 < count_unknown orders \<longleftrightarrow> (\<exists>r \<in> set orders. ord_state r = Unknown)" for orders
    using count_unknown_zero [of orders] by auto
  show ?thesis
  proof (cases "ri_load_state inp")
    case (Inl e)
    then show ?thesis using assms by (auto simp: recover_def initial_recovery_def)
  next
    case load: (Inr loaded)
    show ?thesis
    proof (cases "ri_check_session inp")
      case (Inl e)
      then show ?thesis using assms load by (auto simp: recover_def initial_recovery_def)
    next
      case session: (Inr u)
      show ?thesis
      proof (cases "fetch_truth inp")
        case (Inr truth)
        then have "resolve_and_gate eng inp (initial_recovery \<lparr>rec_orders := loaded\<rparr>) truth = (out, eng', alerts)"
          using assms load session by (simp add: recover_def)
        then show ?thesis using gate Inr by simp
      next
        case (Inl e)
        then show ?thesis using assms load session
          by (auto simp: recover_def initial_recovery_def cnt Let_def split: if_splits)
      qed
    qed
  qed
qed

text \<open>
  \<open>RESUMED_SAFE\<close> looks at \<open>Unknown\<close> only: an order a former run already handed to a human, as
  \<open>ManualInterventionRequired\<close> and never acknowledged, does not hold it back once the broker answers.
\<close>

lemma resumes_over_manual_order:
  assumes "ord_state r = ManualInterventionRequired" "ord_broker_order_id r = []"
  shows "rec_status (fst (recover lifecycle_init \<lparr>ri_load_state = Inr [r], ri_check_session = Inr (),
      ri_fetch_orders = Inr [], ri_fetch_trades = Inr [], ri_fetch_positions = Inr [],
      ri_fetch_funds = Inr \<lparr>fs_available_margin = Money 0, fs_used_margin = Money 0\<rparr>,
      ri_now_wall = 0, ri_safe_start = Inr ()\<rparr>)) = ResumedSafe"
  using assms by (simp add: recover_def fetch_truth_def reconciler_fetch_def resolve_and_gate_def reconcile_apply_def
    applier_init_def check_vanished_def count_unknown_def initial_recovery_def Let_def)

section \<open>Witnesses\<close>

definition live_row :: order where
  "live_row = broker_row \<lparr>ord_state := Acknowledged, ord_filled_qty := Quantity 0, ord_avg_price := Price 0\<rparr>"

definition recovery_sample :: "order list \<Rightarrow> order list result \<Rightarrow> recovery_inputs" where
  "recovery_sample loaded fetched = \<lparr>ri_load_state = Inr loaded, ri_check_session = Inr (),
     ri_fetch_orders = fetched, ri_fetch_trades = Inr [], ri_fetch_positions = Inr [],
     ri_fetch_funds = Inr \<lparr>fs_available_margin = Money 0, fs_used_margin = Money 0\<rparr>,
     ri_now_wall = 0, ri_safe_start = Inr ()\<rparr>"

text \<open>An acknowledged order the broker also reports as acknowledged: trading resumes, on that snapshot.\<close>

lemma recovery_resumes_on_broker_truth_witness:
  "let inp = recovery_sample [live_row] (Inr [live_row]); (out, eng', alerts) = recover lifecycle_init inp in
     rec_status out = ResumedSafe \<and> alerts = []
     \<and> length (rec_orders out) = 1 \<and> (\<forall>r \<in> set (rec_orders out). ord_state r \<noteq> Unknown)
     \<and> (\<exists>truth. fetch_truth inp = Inr truth \<and> rr_orders truth = [live_row]
          \<and> (\<exists>b \<in> set (rr_orders truth). same_order live_row b))"
proof -
  let ?inp = "recovery_sample [live_row] (Inr [live_row])"
  let ?r = "recover lifecycle_init ?inp"
  have s: "rec_status (fst ?r) = ResumedSafe"
    by (simp add: recover_def recovery_sample_def fetch_truth_def reconciler_fetch_def resolve_and_gate_def
      reconcile_apply_def applier_init_def apply_broker_order_def apply_matched_def match_index_def same_order_def
      reconcile_view_def fsm_apply_def lifecycle_init_def canonical_observed_def is_contradiction_def last_key_def
      is_valid_transition_def live_row_def broker_row_def check_vanished_def count_unknown_def initial_recovery_def Let_def)
  have "?r = (fst ?r, fst (snd ?r), snd (snd ?r))" by simp
  from recovery_resumes_on_broker_truth [OF this s] obtain loaded truth where
    c: "ri_load_state ?inp = Inr loaded" "fetch_truth ?inp = Inr truth"
      "\<forall>r \<in> set (rec_orders (fst ?r)). ord_state r \<noteq> Unknown"
      "\<forall>l \<in> set loaded. \<not> is_terminal (ord_state l) \<and> ord_broker_order_id l \<noteq> []
         \<longrightarrow> (\<exists>b \<in> set (rr_orders truth). same_order l b)"
      "length (rec_orders (fst ?r)) = length loaded" "snd (snd ?r) = []" by blast
  have l: "loaded = [live_row]" using c(1) by (simp add: recovery_sample_def)
  have "rr_orders truth = [live_row]"
    using c(2) by (auto simp: recovery_sample_def fetch_truth_def reconciler_fetch_def)
  moreover have "\<not> is_terminal (ord_state live_row) \<and> ord_broker_order_id live_row \<noteq> []"
    by (simp add: live_row_def broker_row_def)
  ultimately show ?thesis using s c(2-6) unfolding l Let_def split_beta by auto
qed

lemma recovery_double_fault_witness:
  "rec_status (fst (recover lifecycle_init (recovery_sample [live_row \<lparr>ord_state := Unknown\<rparr>] (Inl (make_error Network [] []))))) = RecoveryManual"
proof -
  let ?i = "recovery_sample [live_row \<lparr>ord_state := Unknown\<rparr>] (Inl (make_error Network [] []))"
  let ?r = "recover lifecycle_init ?i"
  have "\<exists>loaded e. ri_load_state ?i = Inr loaded \<and> (\<exists>r \<in> set loaded. ord_state r = Unknown)
      \<and> ri_check_session ?i = Inr () \<and> fetch_truth ?i = Inl e \<and> \<not> broker_answered e"
    by (simp add: recovery_sample_def fetch_truth_def reconciler_fetch_def broker_answered_def make_error_def)
  then show ?thesis
    using recovery_double_fault [of lifecycle_init ?i "fst ?r" "fst (snd ?r)" "snd (snd ?r)"] by simp
qed

end
