(* ===== verification/Position_Changes.thy ===== *)
theory Position_Changes
  imports Reconcile "HOL-Library.Signed_Division"
begin

text \<open>
  What a changed position means: \<^verbatim>\<open>reconcile/manual_intervention.cpp\<close>, a human acting on the account,
  and \<^verbatim>\<open>reconcile/corporate_actions.cpp\<close>, a split, bonus or rename.  Both report through the alert
  sink; the alerts sent are part of the result.  Quantities and prices are exact integers: the
  products of the source stay within 64 bits for real position sizes, and its division truncates
  toward zero (\<open>sdiv\<close>).
\<close>

section \<open>Manual intervention\<close>

datatype manual_kind = PositionClosedManually | PositionReducedManually | OrderCancelledManually

fun manual_kind_to_string :: "manual_kind \<Rightarrow> string" where
  "manual_kind_to_string PositionClosedManually = ''PositionClosedManually''"
| "manual_kind_to_string PositionReducedManually = ''PositionReducedManually''"
| "manual_kind_to_string OrderCancelledManually = ''OrderCancelledManually''"

record manual_event =
  me_kind :: manual_kind
  me_symbol :: string
  me_client_ref :: string
  me_believed_qty :: int64
  me_broker_qty :: int64
  me_detail :: string

definition abs_qty :: "int64 \<Rightarrow> int64" where
  "abs_qty value = (if value < 0 then - value else value)"

fun net_in_rows :: "position list \<Rightarrow> string \<Rightarrow> int64" where
  "net_in_rows [] symbol = 0"
| "net_in_rows (pos # rows) symbol =
     (if pos_symbol pos = symbol then qty_value (pos_net_qty pos) else net_in_rows rows symbol)"

definition broker_net_for :: "reconcile_result \<Rightarrow> string \<Rightarrow> int64" where
  "broker_net_for truth symbol = net_in_rows (rr_positions truth) symbol"

definition qty_tag :: "int64 \<Rightarrow> int64 \<Rightarrow> string" where
  "qty_tag believed_qty broker_qty = ''believed='' @ show_int believed_qty @ '' broker='' @ show_int broker_qty"

definition symbol_provenance :: "string \<Rightarrow> alert_context" where
  "symbol_provenance symbol = no_context \<lparr>ac_symbol := symbol\<rparr>"

text \<open>The symbols on which the bot has live or filled intent.\<close>

definition bot_intent_symbols :: "order list \<Rightarrow> string set" where
  "bot_intent_symbols local_orders = set (map (\<lambda>r. oi_symbol (ord_intent r))
     (filter (\<lambda>r. oi_symbol (ord_intent r) \<noteq> []
        \<and> (\<not> is_terminal (ord_state r) \<or> ord_state r = Filled)) local_orders))"

definition position_event :: "manual_kind \<Rightarrow> string \<Rightarrow> int64 \<Rightarrow> int64 \<Rightarrow> manual_event \<times> alert" where
  "position_event kind symbol believed_qty broker_qty =
     (\<lparr>me_kind = kind, me_symbol = symbol, me_client_ref = [], me_believed_qty = believed_qty, me_broker_qty = broker_qty,
       me_detail = manual_kind_to_string kind @ '' '' @ symbol @ '' '' @ qty_tag believed_qty broker_qty\<rparr>,
      \<lparr>al_level = AlertWarning, al_message = manual_kind_to_string kind @ '' '' @ qty_tag believed_qty broker_qty,
       al_context = symbol_provenance symbol\<rparr>)"

definition detect_position ::
    "string set \<Rightarrow> reconcile_result \<Rightarrow> position \<Rightarrow> (manual_event \<times> alert) list" where
  "detect_position bot_intent truth believed_pos =
     (let symbol = pos_symbol believed_pos; believed_qty = qty_value (pos_net_qty believed_pos) in
      if believed_qty = 0 then []
      else if symbol \<in> bot_intent then []
      else
        let broker_qty = broker_net_for truth symbol in
        if broker_qty = 0 then [position_event PositionClosedManually symbol believed_qty 0]
        else
          let sign_flipped = ((broker_qty < 0) \<noteq> (believed_qty < 0));
              same_sign_reduced = (\<not> sign_flipped \<and> abs_qty broker_qty < abs_qty believed_qty) in
          if sign_flipped \<or> same_sign_reduced
          then [position_event PositionReducedManually symbol believed_qty broker_qty]
          else [])"

definition cancelled_or_absent :: "reconcile_result \<Rightarrow> order \<Rightarrow> bool" where
  "cancelled_or_absent truth local_o =
     (case find (same_order local_o) (rr_orders truth) of
        None \<Rightarrow> True | Some broker_o \<Rightarrow> ord_state broker_o = Cancelled)"

definition detect_order :: "reconcile_result \<Rightarrow> order \<Rightarrow> (manual_event \<times> alert) list" where
  "detect_order truth local_o =
     (if is_terminal (ord_state local_o) \<or> ord_broker_order_id local_o = [] then []
      else if cancelled_or_absent truth local_o then
        [(\<lparr>me_kind = OrderCancelledManually, me_symbol = oi_symbol (ord_intent local_o),
           me_client_ref = oi_client_ref (ord_intent local_o), me_believed_qty = 0, me_broker_qty = 0,
           me_detail = manual_kind_to_string OrderCancelledManually @ '' ref='' @ oi_client_ref (ord_intent local_o)
             @ '' symbol='' @ oi_symbol (ord_intent local_o)\<rparr>,
          \<lparr>al_level = AlertWarning, al_message = manual_kind_to_string OrderCancelledManually,
           al_context = provenance_of local_o\<rparr>)]
      else [])"

definition detect :: "position list \<Rightarrow> order list \<Rightarrow> reconcile_result \<Rightarrow> manual_event list \<times> alert list" where
  "detect believed_positions local_orders truth =
     (let found = concat (map (detect_position (bot_intent_symbols local_orders) truth) believed_positions)
            @ concat (map (detect_order truth) local_orders)
      in (map fst found, map snd found))"

definition reconcile_position :: "reconcile_result \<Rightarrow> position \<Rightarrow> position" where
  "reconcile_position truth pos =
     (case find (\<lambda>b. pos_symbol b = pos_symbol pos) (rr_positions truth) of
        Some m \<Rightarrow> pos \<lparr>pos_net_qty := pos_net_qty m, pos_avg_price := pos_avg_price m\<rparr>
      | None \<Rightarrow> pos \<lparr>pos_net_qty := Quantity 0, pos_avg_price := Price 0\<rparr>)"

definition reconcile_positions :: "reconcile_result \<Rightarrow> position list \<Rightarrow> position list" where
  "reconcile_positions truth local_positions = map (reconcile_position truth) local_positions"

definition needs_exit :: "position \<Rightarrow> bool" where
  "needs_exit pos \<longleftrightarrow> qty_value (pos_net_qty pos) \<noteq> 0"

section \<open>No duplicate exit\<close>

lemma net_in_rows_find:
  "net_in_rows rows symbol = (case find (\<lambda>b. pos_symbol b = symbol) rows of None \<Rightarrow> 0 | Some m \<Rightarrow> qty_value (pos_net_qty m))"
  by (induction rows) auto

lemma needs_exit_reconciled: "needs_exit (reconcile_position truth pos) \<longleftrightarrow> broker_net_for truth (pos_symbol pos) \<noteq> 0"
  by (auto simp: needs_exit_def reconcile_position_def broker_net_for_def net_in_rows_find split: option.splits)

lemma detect_position_kinds:
  "(e, a) \<in> set (detect_position bot truth p) \<longleftrightarrow>
     qty_value (pos_net_qty p) \<noteq> 0 \<and> pos_symbol p \<notin> bot
     \<and> (\<exists>kind. (e, a) = position_event kind (pos_symbol p) (qty_value (pos_net_qty p)) (broker_net_for truth (pos_symbol p))
         \<and> (if broker_net_for truth (pos_symbol p) = 0 then kind = PositionClosedManually
            else kind = PositionReducedManually
              \<and> ((broker_net_for truth (pos_symbol p) < 0) \<noteq> (qty_value (pos_net_qty p) < 0)
                 \<or> \<bar>broker_net_for truth (pos_symbol p)\<bar> < \<bar>qty_value (pos_net_qty p)\<bar>)))"
  by (auto simp: detect_position_def Let_def abs_qty_def)

text \<open>The rows of a symbol, and what the code reads of them: the first.\<close>

definition rows_of :: "reconcile_result \<Rightarrow> string \<Rightarrow> position list" where
  "rows_of truth symbol = filter (\<lambda>b. pos_symbol b = symbol) (rr_positions truth)"

lemma broker_net_for_rows:
  "broker_net_for truth symbol = (case rows_of truth symbol of [] \<Rightarrow> 0 | m # _ \<Rightarrow> qty_value (pos_net_qty m))"
  "length (rows_of truth symbol) \<le> 1 \<Longrightarrow>
     broker_net_for truth symbol = (\<Sum>m \<leftarrow> rows_of truth symbol. qty_value (pos_net_qty m))"
proof -
  have "net_in_rows rows symbol
      = (case filter (\<lambda>b. pos_symbol b = symbol) rows of [] \<Rightarrow> 0 | m # _ \<Rightarrow> qty_value (pos_net_qty m))" for rows
    by (induction rows) auto
  then show first: "broker_net_for truth symbol = (case rows_of truth symbol of [] \<Rightarrow> 0 | m # _ \<Rightarrow> qty_value (pos_net_qty m))"
    by (simp add: broker_net_for_def rows_of_def)
  assume "length (rows_of truth symbol) \<le> 1"
  then show "broker_net_for truth symbol = (\<Sum>m \<leftarrow> rows_of truth symbol. qty_value (pos_net_qty m))"
    unfolding first by (cases "rows_of truth symbol") (auto simp: Suc_le_eq)
qed

text \<open>C37. 
  A manual close is not exited a second time, as far as the first row of a symbol in the broker's
  snapshot tells.  The code reads only that row (none counts as flat); where a symbol has at most one
  row it is the broker's net position, and where it has several it need not be: see
  first_row_hides_open_position.  A close is reported exactly for the positions believed open whose
  symbol's first row is flat and on which no order of the bot is live or filled; once the book has
  been reconciled with the same snapshot no position under such a symbol asks for an exit, and in
  general one does exactly when the first row of its symbol is not flat.  Every event is one warning
  naming its instrument, and reconciling neither adds nor renames a position.
\<close>

theorem manual_close_never_exits_twice:
  assumes "detect believed_positions local_orders truth = (events, alerts)"
  shows "((\<exists>e \<in> set events. me_kind e = PositionClosedManually \<and> me_symbol e = symbol) \<longleftrightarrow>
      (\<exists>p \<in> set believed_positions. pos_symbol p = symbol \<and> needs_exit p) \<and> broker_net_for truth symbol = 0
        \<and> symbol \<notin> bot_intent_symbols local_orders)
    \<and> (\<forall>p \<in> set (reconcile_positions truth local_positions).
         needs_exit p \<longleftrightarrow> broker_net_for truth (pos_symbol p) \<noteq> 0)
    \<and> map pos_symbol (reconcile_positions truth local_positions) = map pos_symbol local_positions
    \<and> map (\<lambda>a. (al_level a, ac_symbol (al_context a))) alerts = map (\<lambda>e. (AlertWarning, me_symbol e)) events
    \<and> broker_net_for truth symbol = (case rows_of truth symbol of [] \<Rightarrow> 0 | m # _ \<Rightarrow> qty_value (pos_net_qty m))
    \<and> (length (rows_of truth symbol) \<le> 1 \<longrightarrow>
         broker_net_for truth symbol = (\<Sum>m \<leftarrow> rows_of truth symbol. qty_value (pos_net_qty m)))"
proof -
  let ?bot = "bot_intent_symbols local_orders"
  define found where "found = concat (map (detect_position ?bot truth) believed_positions)
    @ concat (map (detect_order truth) local_orders)"
  have ev: "events = map fst found" "alerts = map snd found" using assms by (auto simp: detect_def found_def Let_def)
  have tag: "(al_level (snd f), ac_symbol (al_context (snd f))) = (AlertWarning, me_symbol (fst f))" if "f \<in> set found" for f
    using that by (auto simp: found_def detect_position_def detect_order_def position_event_def symbol_provenance_def
        provenance_of_def Let_def split: if_splits)
  have orders: "me_kind e \<noteq> PositionClosedManually" if "(e, a) \<in> set (detect_order truth r)" for e a r
    using that by (auto simp: detect_order_def split: if_splits)
  have "(\<exists>e \<in> set events. me_kind e = PositionClosedManually \<and> me_symbol e = symbol)
      \<longleftrightarrow> (\<exists>p \<in> set believed_positions. \<exists>e a. (e, a) \<in> set (detect_position ?bot truth p)
            \<and> me_kind e = PositionClosedManually \<and> me_symbol e = symbol)"
  proof -
    have "(\<exists>e \<in> set events. me_kind e = PositionClosedManually \<and> me_symbol e = symbol)
        \<longleftrightarrow> (\<exists>f \<in> set found. me_kind (fst f) = PositionClosedManually \<and> me_symbol (fst f) = symbol)"
      by (simp add: ev)
    also have "\<dots> \<longleftrightarrow> (\<exists>p \<in> set believed_positions. \<exists>f \<in> set (detect_position ?bot truth p).
        me_kind (fst f) = PositionClosedManually \<and> me_symbol (fst f) = symbol)"
      using orders by (auto simp: found_def)
    finally show ?thesis by (simp add: Bex_def)
  qed
  also have "\<dots> \<longleftrightarrow> (\<exists>p \<in> set believed_positions. pos_symbol p = symbol \<and> needs_exit p) \<and> broker_net_for truth symbol = 0
      \<and> symbol \<notin> ?bot"
    by (auto simp: detect_position_def position_event_def needs_exit_def Let_def)
  finally have closed: "(\<exists>e \<in> set events. me_kind e = PositionClosedManually \<and> me_symbol e = symbol) \<longleftrightarrow>
      (\<exists>p \<in> set believed_positions. pos_symbol p = symbol \<and> needs_exit p) \<and> broker_net_for truth symbol = 0
        \<and> symbol \<notin> ?bot" .
  have sym: "pos_symbol (reconcile_position truth p) = pos_symbol p" for p
    by (simp add: reconcile_position_def split: option.splits)
  show ?thesis
    by (intro conjI impI broker_net_for_rows closed)
      (use tag in \<open>simp_all add: reconcile_positions_def needs_exit_reconciled sym ev\<close>)
qed

text \<open>
  Only the first row of a symbol is read.  A snapshot that lists a flat row of the symbol before an open
  one, as the per-product rows of a broker do, is taken for a manual close: it is reported, and the
  book is set flat over a position that is open.
\<close>

lemma first_row_hides_open_position:
  fixes s :: string and q :: quantity and a :: price
  assumes "qty_value q \<noteq> 0"
  defines "truth \<equiv> (snapshot_of []) \<lparr>rr_positions := [\<lparr>pos_symbol = s, pos_net_qty = Quantity 0, pos_avg_price = Price 0\<rparr>,
    \<lparr>pos_symbol = s, pos_net_qty = q, pos_avg_price = a\<rparr>]\<rparr>"
  shows "map me_kind (fst (detect [\<lparr>pos_symbol = s, pos_net_qty = q, pos_avg_price = a\<rparr>] [] truth)) = [PositionClosedManually]
    \<and> \<not> needs_exit (reconcile_position truth \<lparr>pos_symbol = s, pos_net_qty = q, pos_avg_price = a\<rparr>)"
  using assms by (simp add: detect_def detect_position_def position_event_def bot_intent_symbols_def broker_net_for_def
      truth_def snapshot_of_def needs_exit_def reconcile_position_def Let_def)

lemma manual_close_never_exits_twice_witness:
  "let p = \<lparr>pos_symbol = ''NIFTY'', pos_net_qty = Quantity 50, pos_avg_price = Price 10000\<rparr>;
       (events, alerts) = detect [p] [] (snapshot_of [])
   in (\<exists>e \<in> set events. me_kind e = PositionClosedManually \<and> me_symbol e = ''NIFTY'')
      \<and> (\<forall>q \<in> set (reconcile_positions (snapshot_of []) [p]). \<not> needs_exit q)"
proof -
  let ?p = "\<lparr>pos_symbol = ''NIFTY'', pos_net_qty = Quantity 50, pos_avg_price = Price 10000\<rparr>"
  let ?d = "detect [?p] [] (snapshot_of [])"
  have "broker_net_for (snapshot_of []) s = 0" for s by (simp add: broker_net_for_def snapshot_of_def)
  then show ?thesis
    using manual_close_never_exits_twice [of "[?p]" "[]" "snapshot_of []" "fst ?d" "snd ?d" "''NIFTY''" "[?p]"]
    by (simp add: split_beta Let_def needs_exit_def bot_intent_symbols_def)
qed

section \<open>Corporate actions\<close>

datatype corporate_action_kind = Split | Bonus | SymbolChange | FnoAdjustment

fun corporate_action_kind_to_string :: "corporate_action_kind \<Rightarrow> string" where
  "corporate_action_kind_to_string Split = ''Split''"
| "corporate_action_kind_to_string Bonus = ''Bonus''"
| "corporate_action_kind_to_string SymbolChange = ''SymbolChange''"
| "corporate_action_kind_to_string FnoAdjustment = ''FnoAdjustment''"

record corporate_action =
  ca_symbol :: string
  ca_kind :: corporate_action_kind
  ca_qty_num :: int64
  ca_qty_den :: int64
  ca_new_symbol :: string
  ca_new_token :: int64

record corporate_action_outcome =
  co_is_corporate_action :: bool
  co_source_missing :: bool
  co_rebased :: "position option"
  co_detail :: string

definition ratio_tag :: "int64 \<Rightarrow> int64 \<Rightarrow> string" where
  "ratio_tag num den = show_int num @ '':'' @ show_int den"

definition divides_exactly :: "int64 \<Rightarrow> int64 \<Rightarrow> int64 \<Rightarrow> bool" where
  "divides_exactly value num den \<longleftrightarrow> (if den = 0 then True else (value * num) smod den = 0)"

definition rebase :: "position \<Rightarrow> corporate_action \<Rightarrow> position" where
  "rebase pos ca =
     (let qty = qty_value (pos_net_qty pos); paise = price_paise (pos_avg_price pos);
          (qty, paise) = (if ca_qty_num ca > 0 \<and> ca_qty_den ca > 0
            then ((qty * ca_qty_num ca) sdiv ca_qty_den ca, (paise * ca_qty_den ca) sdiv ca_qty_num ca)
            else (qty, paise))
      in \<lparr>pos_symbol = (if ca_new_symbol ca = [] then pos_symbol pos else ca_new_symbol ca),
          pos_net_qty = Quantity qty, pos_avg_price = Price paise\<rparr>)"

definition no_action :: corporate_action_outcome where
  "no_action = \<lparr>co_is_corporate_action = False, co_source_missing = False, co_rebased = None, co_detail = []\<rparr>"

text \<open>The source is \<open>None\<close> when not configured; otherwise it looks an action up by symbol.\<close>

definition classify_change ::
    "(string \<Rightarrow> corporate_action option) option \<Rightarrow> position \<Rightarrow> position \<Rightarrow> corporate_action_outcome \<times> alert list" where
  "classify_change source believed_pos broker_observed =
     (if believed_pos = broker_observed then (no_action, [])
      else case source of
        None \<Rightarrow>
          (no_action \<lparr>co_source_missing := True,
             co_detail := ''corporate-action source not configured; cannot classify position change on '' @ pos_symbol believed_pos\<rparr>,
           [\<lparr>al_level = AlertError,
             al_message = ''corporate-action source not configured; cannot classify position change'',
             al_context = symbol_provenance (pos_symbol believed_pos)\<rparr>])
      | Some action_for \<Rightarrow>
        (case action_for (pos_symbol believed_pos) of
           None \<Rightarrow> (no_action, [])
         | Some ca \<Rightarrow>
           let rebased = rebase believed_pos ca in
           if pos_symbol rebased = pos_symbol broker_observed \<and> pos_net_qty rebased = pos_net_qty broker_observed
              \<and> price_paise (pos_avg_price rebased) = price_paise (pos_avg_price broker_observed)
           then
             let note = (if divides_exactly (qty_value (pos_net_qty believed_pos)) (ca_qty_num ca) (ca_qty_den ca)
                         then [] else '' (qty truncated: non-divisible re-base)'');
                 tag = corporate_action_kind_to_string (ca_kind ca) @ '' '' @ ratio_tag (ca_qty_num ca) (ca_qty_den ca)
             in (no_action \<lparr>co_is_corporate_action := True, co_rebased := Some rebased,
                   co_detail := tag @ '' on '' @ pos_symbol believed_pos @ note\<rparr>,
                 [\<lparr>al_level = AlertInfo, al_message = tag @ note, al_context = symbol_provenance (pos_symbol believed_pos)\<rparr>])
           else (no_action, [])))"

text \<open>With exact divisions the value of the position is kept.\<close>

lemma sdiv_exact: "b dvd a \<Longrightarrow> a sdiv b * b = a" for a b :: int
  by (simp add: signed_divide_int_eq_divide_int)

lemma rebase_value:
  assumes "0 < ca_qty_num ca" "0 < ca_qty_den ca"
    and "ca_qty_den ca dvd qty_value (pos_net_qty pos) * ca_qty_num ca"
    and "ca_qty_num ca dvd price_paise (pos_avg_price pos) * ca_qty_den ca"
  shows "qty_value (pos_net_qty (rebase pos ca)) * price_paise (pos_avg_price (rebase pos ca))
    = qty_value (pos_net_qty pos) * price_paise (pos_avg_price pos)"
proof -
  let ?q = "qty_value (pos_net_qty pos)" and ?p = "price_paise (pos_avg_price pos)"
    and ?n = "ca_qty_num ca" and ?d = "ca_qty_den ca"
  have "(?q * ?n) sdiv ?d * ?d = ?q * ?n" "(?p * ?d) sdiv ?n * ?n = ?p * ?d"
    using assms(3,4) by (simp_all only: sdiv_exact)
  then have "((?q * ?n) sdiv ?d * ((?p * ?d) sdiv ?n)) * (?d * ?n) = (?q * ?p) * (?d * ?n)"
    by (metis (no_types, opaque_lifting) mult.assoc mult.commute)
  moreover have "?d * ?n \<noteq> 0" using assms(1,2) by simp
  ultimately have "(?q * ?n) sdiv ?d * ((?p * ?d) sdiv ?n) = ?q * ?p" by (simp only: mult_cancel_right) simp
  then show ?thesis using assms(1,2) by (simp add: rebase_def Let_def)
qed

text \<open>
  A change is put down to a corporate action exactly when the configured source names one for the
  symbol that turns the believed position into the observed one, symbol, quantity and price; then the
  observed position is adopted.  A change without a source is reported as such.  An alert goes out
  exactly in these two cases.  A re-basing that divides exactly keeps the value of the position.
\<close>

theorem corporate_action_exact:
  assumes "classify_change source believed_pos observed = (out, alerts)"
  shows "(co_is_corporate_action out \<longleftrightarrow> believed_pos \<noteq> observed
      \<and> (\<exists>f ca. source = Some f \<and> f (pos_symbol believed_pos) = Some ca \<and> rebase believed_pos ca = observed))
    \<and> (co_is_corporate_action out \<longrightarrow> co_rebased out = Some observed)
    \<and> (co_source_missing out \<longleftrightarrow> believed_pos \<noteq> observed \<and> source = None)
    \<and> (alerts = [] \<longleftrightarrow> \<not> co_is_corporate_action out \<and> \<not> co_source_missing out)
    \<and> (0 < ca_qty_num ca \<and> 0 < ca_qty_den ca
         \<and> ca_qty_den ca dvd qty_value (pos_net_qty believed_pos) * ca_qty_num ca
         \<and> ca_qty_num ca dvd price_paise (pos_avg_price believed_pos) * ca_qty_den ca
       \<longrightarrow> qty_value (pos_net_qty (rebase believed_pos ca)) * price_paise (pos_avg_price (rebase believed_pos ca))
           = qty_value (pos_net_qty believed_pos) * price_paise (pos_avg_price believed_pos))"
proof -
  have eq: "(pos_symbol r = pos_symbol observed \<and> pos_net_qty r = pos_net_qty observed
      \<and> price_paise (pos_avg_price r) = price_paise (pos_avg_price observed)) \<longleftrightarrow> r = observed" for r
    by (auto intro: position.equality price.expand)
  have cls: "(co_is_corporate_action out \<longleftrightarrow> believed_pos \<noteq> observed
      \<and> (\<exists>f ca. source = Some f \<and> f (pos_symbol believed_pos) = Some ca \<and> rebase believed_pos ca = observed))
    \<and> (co_is_corporate_action out \<longrightarrow> co_rebased out = Some observed)
    \<and> (co_source_missing out \<longleftrightarrow> believed_pos \<noteq> observed \<and> source = None)
    \<and> (alerts = [] \<longleftrightarrow> \<not> co_is_corporate_action out \<and> \<not> co_source_missing out)"
    using assms unfolding classify_change_def Let_def eq
    by (auto simp: no_action_def split: if_splits option.splits)
  show ?thesis using cls rebase_value [of ca believed_pos] by blast
qed

text \<open>
  The note on truncation covers the quantity only: a two for one split of ten at an odd average price
  is adopted at half a paisa less a unit, and its alert says nothing of it.
\<close>

definition odd_split :: corporate_action where
  "odd_split = \<lparr>ca_symbol = ''X'', ca_kind = Split, ca_qty_num = 2, ca_qty_den = 1, ca_new_symbol = [], ca_new_token = 0\<rparr>"

definition held :: "int \<Rightarrow> int \<Rightarrow> position" where
  "held q p = \<lparr>pos_symbol = ''X'', pos_net_qty = Quantity q, pos_avg_price = Price p\<rparr>"

lemma price_truncation_is_silent:
  "map al_message (snd (classify_change (Some (\<lambda>_. Some odd_split)) (held 10 101) (held 20 50))) = [''Split '' @ ratio_tag 2 1]"
  by (simp add: classify_change_def odd_split_def held_def rebase_def no_action_def divides_exactly_def
      signed_divide_int_def signed_modulo_int_def Let_def)

lemma corporate_action_exact_witness:
  "co_rebased (fst (classify_change (Some (\<lambda>_. Some odd_split)) (held 10 100) (held 20 50))) = Some (held 20 50)"
proof -
  have "rebase (held 10 100) odd_split = held 20 50"
    by (simp add: odd_split_def held_def rebase_def signed_divide_int_def)
  moreover have "held 10 100 \<noteq> held 20 50" by (simp add: held_def)
  ultimately show ?thesis
    using corporate_action_exact [of "Some (\<lambda>_. Some odd_split)" "held 10 100" "held 20 50"
      "fst (classify_change (Some (\<lambda>_. Some odd_split)) (held 10 100) (held 20 50))"
      "snd (classify_change (Some (\<lambda>_. Some odd_split)) (held 10 100) (held 20 50))" odd_split] by simp
qed

end
