(* ===== verification/Supervisor.thy ===== *)
theory Supervisor
  imports Prelude "HOL-Library.AList" "HOL-Library.List_Lexorder" "HOL-Library.Char_ord"
begin

text \<open>
  \<^verbatim>\<open>supervisor/supervisor_policy.cpp\<close> and \<^verbatim>\<open>supervisor/supervisor_plan.cpp\<close>: whether an account's process is
  restarted after it exits.  The account table is an association list updated in place of the
  source's ordered map; times are nanoseconds of the steady clock.
\<close>

section \<open>Policy\<close>

datatype exit_reason = CleanShutdown | Crash | FailClosedNeedsHuman

definition kExitClean :: int where "kExitClean = 0"
definition kExitFailClosedNeedsHuman :: int where "kExitFailClosedNeedsHuman = 70"

definition exit_reason_from_code :: "int \<Rightarrow> exit_reason" where
  "exit_reason_from_code exit_code =
     (if exit_code = kExitClean then CleanShutdown
      else if exit_code = kExitFailClosedNeedsHuman then FailClosedNeedsHuman
      else Crash)"

record backoff_config =
  bo_base_seconds :: int
  bo_max_seconds :: int
  bo_max_consecutive_restarts :: int

datatype supervisor_action = RestartWithBackoff | NoRestartCleanShutdown | NoRestartEscalate

record supervisor_decision =
  sd_action :: supervisor_action
  sd_backoff_seconds :: int
  sd_raise_absence_alarm :: bool
  sd_detail :: string

fun exit_reason_to_string :: "exit_reason \<Rightarrow> string" where
  "exit_reason_to_string CleanShutdown = ''clean_shutdown''"
| "exit_reason_to_string Crash = ''crash''"
| "exit_reason_to_string FailClosedNeedsHuman = ''fail_closed_needs_human''"

fun supervisor_action_to_string :: "supervisor_action \<Rightarrow> string" where
  "supervisor_action_to_string RestartWithBackoff = ''restart_with_backoff''"
| "supervisor_action_to_string NoRestartCleanShutdown = ''no_restart_clean_shutdown''"
| "supervisor_action_to_string NoRestartEscalate = ''no_restart_escalate''"

text \<open>The doubling loop; the first argument is the number of rounds left.\<close>

fun backoff_loop :: "nat \<Rightarrow> int \<Rightarrow> int \<Rightarrow> int" where
  "backoff_loop 0 cap val = val"
| "backoff_loop (Suc k) cap val =
     (if val > cap div 2 then cap
      else let val = val * 2 in if val \<ge> cap then cap else backoff_loop k cap val)"

definition backoff_for :: "int \<Rightarrow> backoff_config \<Rightarrow> int" where
  "backoff_for consecutive_crashes cfg =
     (let base = (if bo_base_seconds cfg > 0 then bo_base_seconds cfg else 1);
          cap = (if bo_max_seconds cfg \<ge> base then bo_max_seconds cfg else base)
      in if consecutive_crashes \<le> 1 then base else backoff_loop (nat (consecutive_crashes - 1)) cap base)"

fun supervise :: "exit_reason \<Rightarrow> int \<Rightarrow> backoff_config \<Rightarrow> supervisor_decision" where
  "supervise CleanShutdown consecutive_crashes cfg =
     \<lparr>sd_action = NoRestartCleanShutdown, sd_backoff_seconds = 0, sd_raise_absence_alarm = False,
      sd_detail = ''clean shutdown - intended stop, no restart''\<rparr>"
| "supervise FailClosedNeedsHuman consecutive_crashes cfg =
     \<lparr>sd_action = NoRestartEscalate, sd_backoff_seconds = 0, sd_raise_absence_alarm = True,
      sd_detail = ''fail-closed: human required - no auto-restart, absence alarm raised''\<rparr>"
| "supervise Crash consecutive_crashes cfg =
     (if consecutive_crashes > bo_max_consecutive_restarts cfg then
        \<lparr>sd_action = NoRestartEscalate, sd_backoff_seconds = 0, sd_raise_absence_alarm = True,
         sd_detail = ''crash-loop circuit-breaker tripped after '' @ show_int consecutive_crashes
           @ '' consecutive crashes - escalated''\<rparr>
      else
        let backoff = backoff_for consecutive_crashes cfg in
        \<lparr>sd_action = RestartWithBackoff, sd_backoff_seconds = backoff, sd_raise_absence_alarm = False,
         sd_detail = ''crash - restarting after '' @ show_int backoff @ ''s backoff''\<rparr>)"

section \<open>Plan\<close>

record account_supervision =
  as_consecutive_crashes :: int
  as_down :: bool
  as_absence_alarm :: bool
  as_escalated :: bool
  as_last_exit_code :: int
  as_last_reason :: exit_reason
  as_restart_due :: "int option"

definition fresh_account :: account_supervision where
  "fresh_account = \<lparr>as_consecutive_crashes = 0, as_down = True, as_absence_alarm = False, as_escalated = False,
     as_last_exit_code = 0, as_last_reason = CleanShutdown, as_restart_due = None\<rparr>"

record supervisor_plan =
  sp_backoff :: backoff_config
  sp_accounts :: "(string \<times> account_supervision) list"

definition plan_init :: "backoff_config \<Rightarrow> supervisor_plan" where
  "plan_init cfg = \<lparr>sp_backoff = cfg, sp_accounts = []\<rparr>"

definition state_of :: "supervisor_plan \<Rightarrow> string \<Rightarrow> account_supervision option" where
  "state_of plan account_id = map_of (sp_accounts plan) account_id"

definition put_account :: "string \<Rightarrow> account_supervision \<Rightarrow> supervisor_plan \<Rightarrow> supervisor_plan" where
  "put_account account_id account plan = plan \<lparr>sp_accounts := AList.update account_id account (sp_accounts plan)\<rparr>"

text \<open>The entry of the map, created when missing.\<close>

definition slot :: "supervisor_plan \<Rightarrow> string \<Rightarrow> account_supervision" where
  "slot plan account_id = (case state_of plan account_id of Some a \<Rightarrow> a | None \<Rightarrow> fresh_account)"

definition register_account :: "supervisor_plan \<Rightarrow> string \<Rightarrow> bool \<times> supervisor_plan" where
  "register_account plan account_id =
     (if account_id = [] then (False, plan) else (True, put_account account_id (slot plan account_id) plan))"

definition on_exit :: "supervisor_plan \<Rightarrow> string \<Rightarrow> int \<Rightarrow> int \<Rightarrow> supervisor_decision \<times> supervisor_plan" where
  "on_exit plan account_id exit_code now =
     (if account_id = [] then
        (\<lparr>sd_action = NoRestartEscalate, sd_backoff_seconds = 0, sd_raise_absence_alarm = True,
          sd_detail = ''empty account id - cannot attribute exit, escalated''\<rparr>, plan)
      else
        let reason = exit_reason_from_code exit_code;
            account = (slot plan account_id) \<lparr>as_last_exit_code := exit_code, as_last_reason := reason,
              as_down := True, as_restart_due := None\<rparr>;
            account = (case reason of
                Crash \<Rightarrow> account \<lparr>as_consecutive_crashes := as_consecutive_crashes account + 1\<rparr>
              | CleanShutdown \<Rightarrow> account \<lparr>as_consecutive_crashes := 0\<rparr>
              | FailClosedNeedsHuman \<Rightarrow> account);
            decision = supervise reason (as_consecutive_crashes account) (sp_backoff plan);
            account = (if sd_raise_absence_alarm decision then account \<lparr>as_absence_alarm := True\<rparr> else account);
            account = (if sd_action decision = NoRestartEscalate then account \<lparr>as_escalated := True\<rparr> else account);
            account = (if sd_action decision = RestartWithBackoff
              then account \<lparr>as_restart_due := Some (now + sd_backoff_seconds decision * 1000000000)\<rparr> else account)
        in (decision, put_account account_id account plan))"

definition note_started :: "supervisor_plan \<Rightarrow> string \<Rightarrow> supervisor_plan" where
  "note_started plan account_id =
     (if account_id = [] then plan
      else put_account account_id ((slot plan account_id) \<lparr>as_down := False, as_restart_due := None\<rparr>) plan)"

definition note_healthy :: "supervisor_plan \<Rightarrow> string \<Rightarrow> supervisor_plan" where
  "note_healthy plan account_id =
     (case state_of plan account_id of
        None \<Rightarrow> plan
      | Some account \<Rightarrow> put_account account_id
          (account \<lparr>as_consecutive_crashes := 0, as_absence_alarm := False, as_escalated := False\<rparr>) plan)"

definition clear_alarm :: "supervisor_plan \<Rightarrow> string \<Rightarrow> supervisor_plan" where
  "clear_alarm plan account_id =
     (case state_of plan account_id of
        None \<Rightarrow> plan
      | Some account \<Rightarrow> put_account account_id (account \<lparr>as_absence_alarm := False, as_escalated := False\<rparr>) plan)"

definition may_restart :: "supervisor_plan \<Rightarrow> string \<Rightarrow> int \<Rightarrow> bool" where
  "may_restart plan account_id now =
     (case state_of plan account_id of
        None \<Rightarrow> False
      | Some account \<Rightarrow>
          if \<not> as_down account \<or> as_escalated account then False
          else case as_restart_due account of None \<Rightarrow> False | Some due \<Rightarrow> now \<ge> due)"

definition plan_accounts :: "supervisor_plan \<Rightarrow> string list" where
  "plan_accounts plan = sort (map fst (sp_accounts plan))"

record plan_summary =
  ps_accounts_total :: int
  ps_accounts_down :: int
  ps_accounts_alarmed :: int
  ps_accounts_escalated :: int
  ps_any_escalated :: bool

definition count_accounts :: "(account_supervision \<Rightarrow> bool) \<Rightarrow> supervisor_plan \<Rightarrow> int" where
  "count_accounts P plan = int (length (filter (\<lambda>(_, a). P a) (sp_accounts plan)))"

definition plan_summary_of :: "supervisor_plan \<Rightarrow> plan_summary" where
  "plan_summary_of plan = \<lparr>ps_accounts_total = int (length (sp_accounts plan)),
     ps_accounts_down = count_accounts as_down plan, ps_accounts_alarmed = count_accounts as_absence_alarm plan,
     ps_accounts_escalated = count_accounts as_escalated plan,
     ps_any_escalated = count_accounts as_escalated plan > 0\<rparr>"

section \<open>Backoff\<close>

text \<open>The loop doubles under the cap: no val it computes exceeds it.\<close>

lemma backoff_loop_eq:
  "0 < val \<Longrightarrow> val \<le> cap \<Longrightarrow> backoff_loop k cap val = min cap (val * 2 ^ k)"
proof (induction k arbitrary: val)
  case (Suc k)
  have p: "1 \<le> (2 :: int) ^ k" by simp
  have m: "val * 2 \<le> val * 2 * 2 ^ k" using Suc.prems(1) p by (simp add: mult_le_cancel_left)
  show ?case
  proof (cases "val > cap div 2")
    case True
    then have "cap \<le> val * 2" by linarith
    then show ?thesis using True m by (simp add: min_def mult.assoc)
  next
    case False
    then have le: "val * 2 \<le> cap" by linarith
    show ?thesis
    proof (cases "val * 2 \<ge> cap")
      case True
      then show ?thesis using False m by (simp add: Let_def min_def mult.assoc)
    next
      case lt: False
      have "backoff_loop k cap (val * 2) = min cap (val * 2 * 2 ^ k)" using Suc.prems(1) le by (intro Suc.IH) simp_all
      then show ?thesis using False lt by (simp add: Let_def mult.assoc)
    qed
  qed
qed simp

definition effective_base :: "backoff_config \<Rightarrow> int" where
  "effective_base cfg = max 1 (bo_base_seconds cfg)"

definition effective_cap :: "backoff_config \<Rightarrow> int" where
  "effective_cap cfg = max (effective_base cfg) (bo_max_seconds cfg)"

lemma backoff_for_eq:
  "backoff_for n cfg = min (effective_cap cfg) (effective_base cfg * 2 ^ nat (n - 1))"
proof -
  define b c where "b = effective_base cfg" and "c = effective_cap cfg"
  have bc: "0 < b" "b \<le> c" by (simp_all add: b_def c_def effective_base_def effective_cap_def)
  have eq: "(if bo_base_seconds cfg > 0 then bo_base_seconds cfg else 1) = b" "(if bo_max_seconds cfg \<ge> b then bo_max_seconds cfg else b) = c"
    by (auto simp: b_def c_def effective_base_def effective_cap_def)
  show ?thesis
    unfolding backoff_for_def Let_def eq b_def [symmetric] c_def [symmetric]
    using bc by (auto simp: backoff_loop_eq)
qed

section \<open>Histories\<close>

text \<open>The supervisor loop as a sequence of calls on the plan.\<close>

datatype sup_event =
    SupRegister string
  | SupExit string int int
  | SupStarted string
  | SupHealthy string
  | SupClear string

fun sup_apply :: "supervisor_plan \<Rightarrow> sup_event \<Rightarrow> supervisor_plan" where
  "sup_apply plan (SupRegister a) = snd (register_account plan a)"
| "sup_apply plan (SupExit a code now) = snd (on_exit plan a code now)"
| "sup_apply plan (SupStarted a) = note_started plan a"
| "sup_apply plan (SupHealthy a) = note_healthy plan a"
| "sup_apply plan (SupClear a) = clear_alarm plan a"

definition sup_run :: "backoff_config \<Rightarrow> sup_event list \<Rightarrow> supervisor_plan" where
  "sup_run cfg evs = foldl sup_apply (plan_init cfg) evs"

text \<open>Crashes of an account since its last clean exit or healthy report, newest event first.\<close>

fun crash_streak :: "string \<Rightarrow> sup_event list \<Rightarrow> int" where
  "crash_streak a [] = 0"
| "crash_streak a (SupExit b code now # h) =
     (if b \<noteq> a then crash_streak a h
      else case exit_reason_from_code code of
        Crash \<Rightarrow> crash_streak a h + 1 | CleanShutdown \<Rightarrow> 0 | FailClosedNeedsHuman \<Rightarrow> crash_streak a h)"
| "crash_streak a (SupHealthy b # h) = (if b = a then 0 else crash_streak a h)"
| "crash_streak a (_ # h) = crash_streak a h"

lemma slot_put [simp]: "slot (put_account a x plan) b = (if b = a then x else slot plan b)"
  by (simp add: slot_def state_of_def put_account_def update_conv')

lemma sp_backoff_put [simp]: "sp_backoff (put_account a x plan) = sp_backoff plan"
  by (simp add: put_account_def)

lemma state_of_slot: "state_of plan a = Some x \<Longrightarrow> slot plan a = x"
  by (simp add: slot_def)

lemma slot_steps:
  "slot (snd (register_account plan a)) b = slot plan b"
  "slot (note_started plan a) b = (if a \<noteq> [] \<and> b = a then (slot plan a) \<lparr>as_down := False, as_restart_due := None\<rparr> else slot plan b)"
  "slot (note_healthy plan a) b = (if b = a then (slot plan a)
     \<lparr>as_consecutive_crashes := 0, as_absence_alarm := False, as_escalated := False\<rparr> else slot plan b)"
  "slot (clear_alarm plan a) b = (if b = a then (slot plan a) \<lparr>as_absence_alarm := False, as_escalated := False\<rparr> else slot plan b)"
  by (auto simp: register_account_def note_started_def note_healthy_def clear_alarm_def slot_def fresh_account_def
      put_account_def state_of_def update_conv' split: option.splits)

lemma sp_backoff_steps [simp]: "sp_backoff (sup_apply plan e) = sp_backoff plan"
  by (cases e) (auto simp: register_account_def on_exit_def note_started_def note_healthy_def clear_alarm_def Let_def
      split: option.splits)

lemma sup_run_snoc: "sup_run cfg (evs @ [e]) = sup_apply (sup_run cfg evs) e"
  by (simp add: sup_run_def)

lemma sp_backoff_run [simp]: "sp_backoff (sup_run cfg evs) = cfg"
  by (induction evs rule: rev_induct) (simp_all add: sup_run_snoc, simp add: sup_run_def plan_init_def)

lemma slot_on_exit:
  "slot (snd (on_exit plan a code now)) b =
     (if a = [] \<or> b \<noteq> a then slot plan b
      else let account = (slot plan a) \<lparr>as_last_exit_code := code, as_last_reason := exit_reason_from_code code, as_down := True\<rparr> in
        case exit_reason_from_code code of
          CleanShutdown \<Rightarrow> account \<lparr>as_consecutive_crashes := 0, as_restart_due := None\<rparr>
        | FailClosedNeedsHuman \<Rightarrow> account \<lparr>as_absence_alarm := True, as_escalated := True, as_restart_due := None\<rparr>
        | Crash \<Rightarrow>
            let n = as_consecutive_crashes (slot plan a) + 1 in
            if n > bo_max_consecutive_restarts (sp_backoff plan)
            then account \<lparr>as_consecutive_crashes := n, as_absence_alarm := True, as_escalated := True, as_restart_due := None\<rparr>
            else account \<lparr>as_consecutive_crashes := n,
                   as_restart_due := Some (now + backoff_for n (sp_backoff plan) * 1000000000)\<rparr>)"
  by (auto simp: on_exit_def Let_def split: exit_reason.splits)

lemma snoc_split:
  "evs @ [e] = p @ x # q \<longleftrightarrow> (q = [] \<and> evs = p \<and> e = x) \<or> (\<exists>q'. q = q' @ [e] \<and> evs = p @ x # q')"
  by (cases q rule: rev_cases) auto

lemma streak_inv:
  assumes "a \<noteq> []"
  shows "as_consecutive_crashes (slot (sup_run cfg evs) a) = crash_streak a (rev evs)"
proof (induction evs rule: rev_induct)
  case Nil
  then show ?case by (simp add: sup_run_def plan_init_def slot_def state_of_def fresh_account_def)
next
  case (snoc e evs)
  then show ?case
    by (cases e) (auto simp: sup_run_snoc slot_steps slot_on_exit Let_def assms split: exit_reason.splits)
qed

text \<open>An account that was escalated stays so until it is reported healthy or its alarm is cleared.\<close>

definition forgives :: "string \<Rightarrow> sup_event list \<Rightarrow> bool" where
  "forgives a evs \<longleftrightarrow> SupHealthy a \<in> set evs \<or> SupClear a \<in> set evs"

definition escalating :: "backoff_config \<Rightarrow> string \<Rightarrow> sup_event list \<Rightarrow> int \<Rightarrow> bool" where
  "escalating cfg a before code \<longleftrightarrow> exit_reason_from_code code = FailClosedNeedsHuman
     \<or> exit_reason_from_code code = Crash \<and> bo_max_consecutive_restarts cfg < crash_streak a (rev before) + 1"

lemma escalated_inv:
  assumes "a \<noteq> []" "evs = p @ SupExit a code t # q" "escalating cfg a p code" "\<not> forgives a q"
  shows "as_escalated (slot (sup_run cfg evs) a) \<and> as_absence_alarm (slot (sup_run cfg evs) a)"
  using assms(2,4)
proof (induction evs arbitrary: q rule: rev_induct)
  case (snoc e evs)
  show ?case
  proof (cases "q = []")
    case True
    then have "e = SupExit a code t" "evs = p" using snoc.prems(1) by auto
    then show ?thesis using assms(1,3) streak_inv [OF assms(1), of cfg p]
      by (auto simp: sup_run_snoc slot_on_exit escalating_def Let_def split: exit_reason.splits)
  next
    case False
    then obtain q' where q: "q = q' @ [e]" "evs = p @ SupExit a code t # q'"
      using snoc.prems(1) by (auto simp: snoc_split)
    then have "as_escalated (slot (sup_run cfg evs) a) \<and> as_absence_alarm (slot (sup_run cfg evs) a)"
      using snoc.IH [OF q(2)] snoc.prems(2) by (auto simp: forgives_def)
    then show ?thesis using snoc.prems(2) q(1)
      by (cases e) (auto simp: sup_run_snoc slot_steps slot_on_exit forgives_def Let_def split: exit_reason.splits)
  qed
qed simp

text \<open>A scheduled restart comes from the last exit of the account, a crash within the limit.\<close>

lemma due_inv:
  assumes "a \<noteq> []" "as_restart_due (slot (sup_run cfg evs) a) = Some due"
  shows "\<exists>p code t q. evs = p @ SupExit a code t # q \<and> exit_reason_from_code code = Crash
    \<and> crash_streak a (rev p) + 1 \<le> bo_max_consecutive_restarts cfg
    \<and> due = t + backoff_for (crash_streak a (rev p) + 1) cfg * 1000000000
    \<and> SupStarted a \<notin> set q \<and> (\<forall>c u. SupExit a c u \<notin> set q)"
  using assms(2)
proof (induction evs rule: rev_induct)
  case Nil
  then show ?case by (simp add: sup_run_def plan_init_def slot_def state_of_def fresh_account_def)
next
  case (snoc e evs)
  show ?case
  proof (cases "\<exists>c u. e = SupExit a c u")
    case True
    then obtain c u where e: "e = SupExit a c u" by blast
    have "exit_reason_from_code c = Crash \<and> crash_streak a (rev evs) + 1 \<le> bo_max_consecutive_restarts cfg
        \<and> due = u + backoff_for (crash_streak a (rev evs) + 1) cfg * 1000000000"
      using snoc.prems streak_inv [OF assms(1), of cfg evs] assms(1)
      by (auto simp: e sup_run_snoc slot_on_exit Let_def split: exit_reason.splits if_splits)
    then show ?thesis using e by (intro exI [of _ evs] exI [of _ c] exI [of _ u] exI [of _ "[]"]) simp
  next
    case False
    then have "as_restart_due (slot (sup_run cfg evs) a) = Some due" "e \<noteq> SupStarted a"
      using snoc.prems assms(1) by (cases e; auto simp: sup_run_snoc slot_steps slot_on_exit split: if_splits)+
    from snoc.IH [OF this(1)] obtain p code t q where "evs = p @ SupExit a code t # q" "exit_reason_from_code code = Crash"
      "crash_streak a (rev p) + 1 \<le> bo_max_consecutive_restarts cfg"
      "due = t + backoff_for (crash_streak a (rev p) + 1) cfg * 1000000000"
      "SupStarted a \<notin> set q" "\<forall>c u. SupExit a c u \<notin> set q" by blast
    then show ?thesis using False \<open>e \<noteq> SupStarted a\<close>
      by (intro exI [of _ p] exI [of _ code] exI [of _ t] exI [of _ "q @ [e]"]) auto
  qed
qed

lemma unnamed_account: "state_of (sup_run cfg evs) [] = None"
proof (induction evs rule: rev_induct)
  case Nil
  then show ?case by (simp add: sup_run_def plan_init_def state_of_def)
next
  case (snoc e evs)
  then show ?case
    by (cases e) (auto simp: sup_run_snoc register_account_def on_exit_def note_started_def note_healthy_def clear_alarm_def
        state_of_def put_account_def update_conv' Let_def split: option.splits)
qed

text \<open>C38. 
  An account is restarted only after a crash that may be retried.  If the plan lets an account be
  restarted now, its last exit was a crash, it was not started since, the crashes in a row (since its
  last clean exit or healthy report) are within the limit, and the backoff of that many crashes has
  passed since; and every exit that escalated, be it fail-closed or one crash too many, was followed by
  a healthy report or a cleared alarm.
\<close>

theorem restart_only_after_retryable_crash:
  assumes "may_restart (sup_run cfg evs) a now"
  shows "(\<exists>p code t q. evs = p @ SupExit a code t # q \<and> exit_reason_from_code code = Crash
      \<and> SupStarted a \<notin> set q \<and> (\<forall>c u. SupExit a c u \<notin> set q)
      \<and> crash_streak a (rev p) + 1 \<le> bo_max_consecutive_restarts cfg
      \<and> t + backoff_for (crash_streak a (rev p) + 1) cfg * 1000000000 \<le> now)
    \<and> (\<forall>p code t q. evs = p @ SupExit a code t # q \<and> escalating cfg a p code \<longrightarrow> forgives a q)"
proof -
  obtain x due where x: "state_of (sup_run cfg evs) a = Some x" "\<not> as_escalated x" "as_restart_due x = Some due" "due \<le> now"
    using assms by (auto simp: may_restart_def split: option.splits if_splits)
  have a: "a \<noteq> []" using x(1) unnamed_account by auto
  have s: "slot (sup_run cfg evs) a = x" using x(1) by (rule state_of_slot)
  show ?thesis using due_inv [OF a, of cfg evs due] escalated_inv [OF a] s x by blast
qed

text \<open>
  The delay before a restart is the base doubled once per crash after the first, cut off at the
  ceiling; a base below one counts as one, a ceiling below the base as the base.
\<close>

theorem backoff_is_capped_doubling:
  "backoff_for n cfg = min (max (max 1 (bo_base_seconds cfg)) (bo_max_seconds cfg))
     (max 1 (bo_base_seconds cfg) * 2 ^ nat (n - 1))"
  by (simp add: backoff_for_eq effective_cap_def effective_base_def)

definition sample_backoff :: backoff_config where
  "sample_backoff = \<lparr>bo_base_seconds = 1, bo_max_seconds = 300, bo_max_consecutive_restarts = 10\<rparr>"

text \<open>The witness: a fail-closed exit, the alarm cleared, a crash; the restart is due one second later.\<close>

lemma restart_only_after_retryable_crash_witness:
  "let evs = [SupExit ''A'' 70 0, SupClear ''A'', SupExit ''A'' 1 5] in
     may_restart (sup_run sample_backoff evs) ''A'' 1000000005
     \<and> \<not> may_restart (sup_run sample_backoff evs) ''A'' 1000000004
     \<and> \<not> may_restart (sup_run sample_backoff [SupExit ''A'' 70 0, SupExit ''A'' 1 5]) ''A'' 1000000005
     \<and> (\<exists>p code t q. evs = p @ SupExit ''A'' code t # q \<and> exit_reason_from_code code = Crash
          \<and> crash_streak ''A'' (rev p) + 1 \<le> 10 \<and> t \<le> 1000000005)
     \<and> forgives ''A'' [SupClear ''A'', SupExit ''A'' 1 5]"
proof -
  let ?evs = "[SupExit ''A'' 70 0, SupClear ''A'', SupExit ''A'' 1 5]"
  note step_defs = sup_run_def plan_init_def on_exit_def slot_def state_of_def put_account_def exit_reason_from_code_def
      kExitClean_def kExitFailClosedNeedsHuman_def fresh_account_def clear_alarm_def may_restart_def backoff_for_def
      sample_backoff_def Let_def
  have may: "may_restart (sup_run sample_backoff ?evs) ''A'' 1000000005" by (simp add: step_defs)
  have early: "\<not> may_restart (sup_run sample_backoff ?evs) ''A'' 1000000004" by (simp add: step_defs)
  have uncleared: "\<not> may_restart (sup_run sample_backoff [SupExit ''A'' 70 0, SupExit ''A'' 1 5]) ''A'' 1000000005"
    by (simp add: step_defs)
  note concl = restart_only_after_retryable_crash [OF may]
  have "escalating sample_backoff ''A'' [] 70"
    by (simp add: escalating_def exit_reason_from_code_def kExitClean_def kExitFailClosedNeedsHuman_def)
  then have "forgives ''A'' [SupClear ''A'', SupExit ''A'' 1 5]" using conjunct2 [OF concl] by blast
  moreover from conjunct1 [OF concl] obtain p code t q where p: "?evs = p @ SupExit ''A'' code t # q"
    "exit_reason_from_code code = Crash" "crash_streak ''A'' (rev p) + 1 \<le> bo_max_consecutive_restarts sample_backoff"
    "t + backoff_for (crash_streak ''A'' (rev p) + 1) sample_backoff * 1000000000 \<le> 1000000005" by blast
  moreover have "0 \<le> backoff_for (crash_streak ''A'' (rev p) + 1) sample_backoff"
    unfolding backoff_is_capped_doubling by (simp add: sample_backoff_def min_def)
  moreover from this have "t \<le> 1000000005" using p(4) by linarith
  moreover have "bo_max_consecutive_restarts sample_backoff = 10" by (simp add: sample_backoff_def)
  ultimately show ?thesis using may early uncleared unfolding Let_def by metis
qed

end
