(* ===== verification/Fill_Norm.thy ===== *)
theory Fill_Norm
  imports Broker_Reason
begin

text \<open>
  \<^verbatim>\<open>fillnorm/fill_normalizer.cpp\<close>: one broker order event turned into one canonical fill state, and the
  quantity an exit may be sized from.
\<close>

record fill_snapshot =
  fn_canonical_state :: order_state
  fn_filled_qty :: int64
  fn_pending_qty :: int64
  fn_authoritative :: bool
  fn_exit_qty_trustworthy :: bool
  fn_detail :: string

definition clamp_non_negative :: "int64 \<Rightarrow> int64" where
  "clamp_non_negative q = (if q > 0 then q else 0)"

definition fill_detail :: "order_state \<Rightarrow> int64 \<Rightarrow> int64 \<Rightarrow> string" where
  "fill_detail state filled pending =
     scrub (''fill normalized to '' @ [CHR 0x27] @ order_state_to_string state @ [CHR 0x27]
       @ '' (filled='' @ show_int filled @ '', pending='' @ show_int pending @ '')'')"

definition normalize_fill :: "string \<Rightarrow> int64 \<Rightarrow> int64 \<Rightarrow> bool \<Rightarrow> fill_snapshot" where
  "normalize_fill raw_status filled_qty total_qty from_reconcile =
     (let filled = clamp_non_negative filled_qty;
          total = clamp_non_negative total_qty;
          pending = (if total > filled then total - filled else 0);
          status = lower_ascii raw_status;
          state =
            (if contains_text ''reject'' status then Rejected
             else if contains_text ''cancel'' status then Cancelled
             else if filled > 0 \<and> pending > 0 then PartiallyFilled
             else if filled > 0 \<and> pending = 0 then Filled
             else if filled = 0 \<and> pending > 0 then Acknowledged
             else
               let c = classify_status raw_status;
                   recognized_working = (cl_reason c = RIndeterminate \<and> \<not> cl_should_alert c)
               in if recognized_working then Acknowledged else Unknown)
      in \<lparr>fn_canonical_state = state, fn_filled_qty = filled, fn_pending_qty = pending,
          fn_authoritative = from_reconcile, fn_exit_qty_trustworthy = (from_reconcile \<and> filled > 0),
          fn_detail = fill_detail state filled pending\<rparr>)"

definition exit_qty_for :: "fill_snapshot \<Rightarrow> int64" where
  "exit_qty_for snap = (if fn_exit_qty_trustworthy snap then fn_filled_qty snap else 0)"

definition is_authoritative :: "fill_snapshot \<Rightarrow> bool" where
  "is_authoritative snap = fn_authoritative snap"

text \<open>The status texts that say how an order is doing without ending it.\<close>

definition working_texts :: "string list" where
  "working_texts = [''open'', ''open pending'', ''trigger pending'', ''update'', ''modify pending'',
     ''validation pending'', ''put order req received'', ''amo req received'', ''after market order req received'']"

lemma working_status_iff:
  "cl_reason (classify_status s) = RIndeterminate \<and> \<not> cl_should_alert (classify_status s)
    \<longleftrightarrow> lower_ascii (trim_ws s) \<in> set working_texts"
  by (simp add: classify_status_def Let_def make_classification_def working_texts_def)

lemma fill_state:
  "fn_canonical_state (normalize_fill raw_status filled_qty total_qty from_reconcile) =
        (if contains_text ''reject'' (lower_ascii raw_status) then Rejected
         else if contains_text ''cancel'' (lower_ascii raw_status) then Cancelled
         else if 0 < max 0 filled_qty then (if max 0 filled_qty < max 0 total_qty then PartiallyFilled else Filled)
         else if 0 < max 0 total_qty \<or> lower_ascii (trim_ws raw_status) \<in> set working_texts then Acknowledged
         else Unknown)"
  unfolding normalize_fill_def Let_def working_status_iff by (simp add: clamp_non_negative_def)

text \<open>
  The fill state is read off the quantities, not off the label.  For a label naming neither a
  rejection nor a cancellation it is a function of the clamped quantities, except that with no
  quantity at all a known working label counts as acknowledged and every other as unknown.  The pending
  quantity is never negative, filled and pending add up to the larger of the two reported
  quantities, and an exit may be sized only from a reconciled read, to the filled quantity exactly.
  The label itself never reaches the detail text.
\<close>

theorem fill_state_follows_quantity:
  fixes raw_status filled_qty total_qty from_reconcile
  defines "snap \<equiv> normalize_fill raw_status filled_qty total_qty from_reconcile"
  defines "f \<equiv> max 0 filled_qty" and "t \<equiv> max 0 total_qty"
  shows "fn_filled_qty snap = f \<and> 0 \<le> fn_pending_qty snap \<and> fn_filled_qty snap + fn_pending_qty snap = max f t
    \<and> exit_qty_for snap = (if from_reconcile then f else 0)
    \<and> fn_canonical_state snap =
        (if contains_text ''reject'' (lower_ascii raw_status) then Rejected
         else if contains_text ''cancel'' (lower_ascii raw_status) then Cancelled
         else if 0 < f then (if f < t then PartiallyFilled else Filled)
         else if 0 < t \<or> lower_ascii (trim_ws raw_status) \<in> set working_texts then Acknowledged
         else Unknown)
    \<and> fn_detail snap = fill_detail (fn_canonical_state snap) (fn_filled_qty snap) (fn_pending_qty snap)"
proof -
  have cl: "clamp_non_negative filled_qty = f" "clamp_non_negative total_qty = t"
    by (simp_all add: clamp_non_negative_def f_def t_def)
  have nn: "0 \<le> f" "0 \<le> t" by (simp_all add: f_def t_def)
  note s = snap_def [unfolded normalize_fill_def Let_def cl working_status_iff]
  have "fn_filled_qty snap = f" "fn_pending_qty snap = (if t > f then t - f else 0)"
    "fn_exit_qty_trustworthy snap = (from_reconcile \<and> f > 0)"
    unfolding s by simp_all
  moreover have "fn_detail snap = fill_detail (fn_canonical_state snap) (fn_filled_qty snap) (fn_pending_qty snap)"
    unfolding s by simp
  ultimately show ?thesis using nn
    fill_state [of raw_status filled_qty total_qty from_reconcile, folded snap_def f_def t_def]
    by (simp add: exit_qty_for_def)
qed

text \<open>
  The two keyword tests are on the whole label.  A cancellation still pending reads as cancelled, and a
  cancellation the exchange refused reads as a rejected order; in both the order is working.
\<close>

lemma pending_cancel_reads_cancelled:
  "fn_canonical_state (normalize_fill ''CANCEL PENDING'' 0 50 True) = Cancelled
   \<and> fn_canonical_state (normalize_fill ''CANCEL REJECTED'' 0 50 True) = Rejected"
proof -
  have "contains_text ''cancel'' (lower_ascii ''CANCEL PENDING'')" "\<not> contains_text ''reject'' (lower_ascii ''CANCEL PENDING'')"
    "contains_text ''reject'' (lower_ascii ''CANCEL REJECTED'')" by code_simp+
  then show ?thesis by (simp add: fill_state)
qed

end
