(* ===== verification/Safe_Start.thy ===== *)
theory Safe_Start
  imports Broker_Reason
begin

text \<open>
  \<^verbatim>\<open>session/safe_start.cpp\<close>: the gate that must pass before trading starts.  A check is the answer of its
  injected function, \<open>None\<close> when the function is not configured.
\<close>

record safe_start_context =
  sc_config_check :: "unit result option"
  sc_strategy_name_check :: "unit result option"
  sc_crypto_keys_check :: "unit result option"
  sc_clock_check :: "unit result option"
  sc_session_check :: "unit result option"
  sc_egress_ip_check :: "unit result option"
  sc_instrument_master_check :: "unit result option"
  sc_calendar_check :: "unit result option"
  sc_legacy_stop_check :: "unit result option"
  sc_reconciliation_check :: "unit result option"

definition start_named :: "string \<Rightarrow> string \<Rightarrow> string" where
  "start_named check detail = ''safe-start: '' @ check @ '' check failed: '' @ detail"

definition not_configured_error :: "string \<Rightarrow> error" where
  "not_configured_error check =
     (make_error Internal (start_named check ''not configured'') []) \<lparr>err_action := BlockStrategy\<rparr>"

definition start_wrap_error :: "string \<Rightarrow> error \<Rightarrow> error" where
  "start_wrap_error check inner = inner \<lparr>err_message := start_named check (err_message inner)\<rparr>"

definition run_check :: "string \<Rightarrow> unit result option \<Rightarrow> unit result" where
  "run_check name check =
     (case check of
        None \<Rightarrow> Inl (not_configured_error name)
      | Some (Inl e) \<Rightarrow> Inl (start_wrap_error name e)
      | Some (Inr _) \<Rightarrow> Inr ())"

text \<open>The checks in the order the gate runs them.\<close>

definition gate_checks :: "safe_start_context \<Rightarrow> (string \<times> unit result option) list" where
  "gate_checks ctx =
     [(''config'', sc_config_check ctx), (''strategy-names'', sc_strategy_name_check ctx),
      (''crypto-keys'', sc_crypto_keys_check ctx), (''clock'', sc_clock_check ctx),
      (''session'', sc_session_check ctx), (''egress-IP'', sc_egress_ip_check ctx),
      (''instrument-master'', sc_instrument_master_check ctx), (''calendar'', sc_calendar_check ctx),
      (''legacy-stops'', sc_legacy_stop_check ctx), (''reconciliation'', sc_reconciliation_check ctx)]"

fun run_checks :: "(string \<times> unit result option) list \<Rightarrow> unit result" where
  "run_checks [] = Inr ()"
| "run_checks ((name, check) # rest) =
     (case run_check name check of Inl e \<Rightarrow> Inl e | Inr _ \<Rightarrow> run_checks rest)"

definition verify_safe_start :: "safe_start_context \<Rightarrow> unit result" where
  "verify_safe_start ctx = run_checks (gate_checks ctx)"

section \<open>Legacy stops and strategy names\<close>

definition is_legacy_trigger_less_stop :: "order \<Rightarrow> bool" where
  "is_legacy_trigger_less_stop r =
     (let is_stop = (oi_order_type (ord_intent r) = StopLoss \<or> oi_order_type (ord_intent r) = StopLossMarket) in
      if \<not> is_stop \<or> oi_trigger_price (ord_intent r) \<noteq> None then False
      else case ord_state r of Filled \<Rightarrow> False | Rejected \<Rightarrow> False | Cancelled \<Rightarrow> False | _ \<Rightarrow> True)"

fun scan_stops :: "order list \<Rightarrow> nat \<Rightarrow> string \<Rightarrow> nat \<times> string" where
  "scan_stops [] count first_ref = (count, first_ref)"
| "scan_stops (r # rs) count first_ref =
     (if \<not> is_legacy_trigger_less_stop r then scan_stops rs count first_ref
      else scan_stops rs (Suc count) (if first_ref = [] then oi_client_ref (ord_intent r) else first_ref))"

definition require_no_legacy_stops :: "order list \<Rightarrow> unit result" where
  "require_no_legacy_stops orders =
     (let (count, first_ref) = scan_stops orders 0 [] in
      if count = 0 then Inr ()
      else Inl ((make_error Validation
        (''projection holds '' @ show_nat count @ '' working stop order(s) with no trigger price '' @ em_dash
         @ '' these were placed by a pre-IMP-11 binary, which stored the stop level in `price`. Their signal ''
         @ ''signatures have changed, so restart dedupe cannot recognize them and they ''
         @ ''could be placed a SECOND time. Flatten or cancel every outstanding stop ''
         @ ''before deploying (see docs/upgrade-imp-11-stops.md). First: ''
         @ (if first_ref = [] then ''<no client_ref>'' else first_ref)) []) \<lparr>err_action := BlockStrategy\<rparr>))"

fun scan_names :: "string list \<Rightarrow> nat \<Rightarrow> string \<Rightarrow> nat \<times> string" where
  "scan_names [] count first_reason = (count, first_reason)"
| "scan_names (name # names) count first_reason =
     (let reason = explain_invalid_strategy_name name in
      if reason = [] then scan_names names count first_reason
      else scan_names names (Suc count) (if first_reason = [] then reason else first_reason))"

definition require_valid_strategy_names :: "string list \<Rightarrow> unit result" where
  "require_valid_strategy_names names =
     (let (count, first_reason) = scan_names names 0 [] in
      if count = 0 then Inr ()
      else Inl ((make_error Validation
        (show_nat count @ '' of '' @ show_nat (length names)
         @ '' configured strategy name(s) would make every client_ref they mint ''
         @ ''unloggable '' @ em_dash @ '' an alert or ledger entry about such an order reads ''
         @ ''client_ref=***REDACTED*** and cannot be linked to the store or the intent ''
         @ ''log. Fix the name(s) in configuration before trading; renaming changes the ''
         @ ''signal signature, so do it BETWEEN sessions with no working orders. First: ''
         @ first_reason) []) \<lparr>err_action := BlockStrategy\<rparr>))"

text \<open>\<^verbatim>\<open>KiteSessionEstablisher::needs_reauth_error\<close>.\<close>

definition needs_reauth_error :: error where
  "needs_reauth_error = \<lparr>err_category = SessionExpired, err_action = ReEstablishSession,
     err_message = ''kite: daily session expired; operator must re-establish (no headless refresh)'',
     err_broker_code = []\<rparr>"

fun session_state_to_result :: "session_state \<Rightarrow> unit result" where
  "session_state_to_result Healthy = Inr ()"
| "session_state_to_result NeedsReauth = Inl needs_reauth_error"
| "session_state_to_result SessionFailed = Inl needs_reauth_error"

section \<open>The gate is conjunctive\<close>

lemma run_check_Inr: "run_check name check = Inr () \<longleftrightarrow> check = Some (Inr ())"
  by (auto simp: run_check_def split: option.splits sum.splits)

lemma run_checks_spec:
  "run_checks cs = (case find (\<lambda>(_, c). c \<noteq> Some (Inr ())) cs of
     None \<Rightarrow> Inr () | Some (name, c) \<Rightarrow> run_check name c)"
proof (induction cs)
  case (Cons nc cs)
  obtain name c where nc: "nc = (name, c)" by (cases nc)
  show ?case
  proof (cases "c = Some (Inr ())")
    case True
    then show ?thesis using Cons nc by (simp add: run_check_def)
  next
    case False
    then obtain e where "run_check name c = Inl e" using run_check_Inr [of name c] by (cases "run_check name c") auto
    then show ?thesis using False nc by simp
  qed
qed simp

lemma run_checks_Inr: "run_checks cs = Inr () \<longleftrightarrow> list_all (\<lambda>(_, c). c = Some (Inr ())) cs"
proof (induction cs)
  case (Cons nc cs)
  obtain name c where nc: "nc = (name, c)" by (cases nc)
  then show ?case using Cons run_check_Inr [of name c] by (cases "run_check name c") auto
qed simp

lemma scan_stops_count: "fst (scan_stops rs n f) = n + length (filter is_legacy_trigger_less_stop rs)"
  by (induction rs arbitrary: n f) simp_all

lemma scan_names_count:
  "fst (scan_names names n f) = n + length (filter (\<lambda>s. \<not> is_valid_strategy_name s) names)"
  by (induction names arbitrary: n f) (simp_all add: Let_def is_valid_strategy_name_def)

lemma requirements_exact:
  "require_no_legacy_stops orders = Inr () \<longleftrightarrow> (\<forall>r \<in> set orders. \<not> is_legacy_trigger_less_stop r)"
  "require_valid_strategy_names names = Inr () \<longleftrightarrow> (\<forall>s \<in> set names. is_valid_strategy_name s)"
  using scan_stops_count [of orders 0 "[]"] scan_names_count [of names 0 "[]"]
  by (auto simp: require_no_legacy_stops_def require_valid_strategy_names_def filter_empty_conv Let_def
      split: prod.splits if_splits)

text \<open>
  The gate opens only when all ten checks are configured and pass.  Otherwise the error returned is
  that of the first check in the fixed order that does not, prefixed with its name; a check that is not
  configured blocks the strategy.  The requirement on stops passes exactly when no working stop lacks
  a trigger price, the one on names exactly when every name is valid.
\<close>

theorem safe_start_conjunctive:
  "(verify_safe_start ctx = Inr () \<longleftrightarrow> list_all (\<lambda>(_, c). c = Some (Inr ())) (gate_checks ctx))
   \<and> (verify_safe_start ctx = Inl e \<longrightarrow> (\<exists>pre name c post. gate_checks ctx = pre @ (name, c) # post
        \<and> list_all (\<lambda>(_, c). c = Some (Inr ())) pre
        \<and> (case c of None \<Rightarrow> e = not_configured_error name \<and> err_action e = BlockStrategy
           | Some r \<Rightarrow> (\<exists>inner. r = Inl inner \<and> e = start_wrap_error name inner))))
   \<and> (require_no_legacy_stops orders = Inr () \<longleftrightarrow> (\<forall>r \<in> set orders. \<not> is_legacy_trigger_less_stop r))
   \<and> (require_valid_strategy_names names = Inr () \<longleftrightarrow> (\<forall>s \<in> set names. is_valid_strategy_name s))"
proof -
  have ok: "verify_safe_start ctx = Inr () \<longleftrightarrow> list_all (\<lambda>(_, c). c = Some (Inr ())) (gate_checks ctx)"
    by (simp add: verify_safe_start_def run_checks_Inr)
  have "\<exists>pre name c post. gate_checks ctx = pre @ (name, c) # post \<and> list_all (\<lambda>(_, c). c = Some (Inr ())) pre
        \<and> (case c of None \<Rightarrow> e = not_configured_error name \<and> err_action e = BlockStrategy
           | Some r \<Rightarrow> (\<exists>inner. r = Inl inner \<and> e = start_wrap_error name inner))"
    if err: "verify_safe_start ctx = Inl e"
  proof -
    obtain name c where f: "find (\<lambda>(_, c). c \<noteq> Some (Inr ())) (gate_checks ctx) = Some (name, c)" "run_check name c = Inl e"
      using err unfolding verify_safe_start_def run_checks_spec by (auto split: option.splits)
    then obtain i where i: "i < length (gate_checks ctx)" "gate_checks ctx ! i = (name, c)"
      "\<forall>j < i. snd (gate_checks ctx ! j) = Some (Inr ())"
      by (auto simp: find_Some_iff split_beta)
    then have "gate_checks ctx = take i (gate_checks ctx) @ (name, c) # drop (Suc i) (gate_checks ctx)"
      by (metis id_take_nth_drop)
    moreover have "list_all (\<lambda>(_, c). c = Some (Inr ())) (take i (gate_checks ctx))"
      using i by (auto simp: list_all_length split_beta)
    moreover have "case c of None \<Rightarrow> e = not_configured_error name \<and> err_action e = BlockStrategy
           | Some r \<Rightarrow> (\<exists>inner. r = Inl inner \<and> e = start_wrap_error name inner)"
      using f(2) by (auto simp: run_check_def not_configured_error_def split: option.splits sum.splits)
    ultimately show ?thesis by blast
  qed
  then show ?thesis using ok requirements_exact by blast
qed

lemma safe_start_conjunctive_witness:
  "let ctx = \<lparr>sc_config_check = Some (Inr ()), sc_strategy_name_check = Some (Inr ()), sc_crypto_keys_check = Some (Inr ()),
      sc_clock_check = None, sc_session_check = Some (Inr ()), sc_egress_ip_check = Some (Inr ()),
      sc_instrument_master_check = Some (Inr ()), sc_calendar_check = Some (Inr ()), sc_legacy_stop_check = Some (Inr ()),
      sc_reconciliation_check = Some (Inr ())\<rparr>
   in verify_safe_start ctx = Inl (not_configured_error ''clock'')
      \<and> (\<exists>pre name c post. gate_checks ctx = pre @ (name, c) # post \<and> c = None)"
proof -
  let ?ctx = "\<lparr>sc_config_check = Some (Inr ()), sc_strategy_name_check = Some (Inr ()), sc_crypto_keys_check = Some (Inr ()),
      sc_clock_check = None, sc_session_check = Some (Inr ()), sc_egress_ip_check = Some (Inr ()),
      sc_instrument_master_check = Some (Inr ()), sc_calendar_check = Some (Inr ()), sc_legacy_stop_check = Some (Inr ()),
      sc_reconciliation_check = Some (Inr ())\<rparr>"
  have v: "verify_safe_start ?ctx = Inl (not_configured_error ''clock'')"
    by (simp add: verify_safe_start_def gate_checks_def run_check_def)
  obtain pre name c post where g: "gate_checks ?ctx = pre @ (name, c) # post" "list_all (\<lambda>(_, c). c = Some (Inr ())) pre"
    "case c of None \<Rightarrow> not_configured_error ''clock'' = not_configured_error name \<and> err_action (not_configured_error ''clock'') = BlockStrategy
      | Some r \<Rightarrow> (\<exists>inner. r = Inl inner \<and> not_configured_error ''clock'' = start_wrap_error name inner)"
    using safe_start_conjunctive [of ?ctx "not_configured_error ''clock''" "[]" "[]"] v by auto
  have "c = None"
  proof (cases c)
    case (Some r)
    then obtain inner where "r = Inl inner" using g(3) by auto
    then have "(name, Some (Inl inner)) \<in> set (gate_checks ?ctx)" using g(1) Some by simp
    then show ?thesis by (simp add: gate_checks_def)
  qed
  then show ?thesis using v g(1) by (auto simp: Let_def)
qed

end
