(* ===== verification/Keyed_State.thy ===== *)
theory Keyed_State
  imports Main
begin

text \<open>
  State held per key.  \<open>ordered_put\<close> is \<^verbatim>\<open>std::map::operator[]\<close> and \<open>insert_or_assign\<close> on an association
  list kept in key order, the order in which the source iterates.  The locale is the contract of a
  table each of whose events touches some keys: what a key holds after any history depends on the
  events that touch it alone.
\<close>

fun ordered_put :: "'k::linorder \<Rightarrow> 'v \<Rightarrow> ('k \<times> 'v) list \<Rightarrow> ('k \<times> 'v) list" where
  "ordered_put k v [] = [(k, v)]"
| "ordered_put k v ((k', v') # entries) =
     (if k < k' then (k, v) # (k', v') # entries
      else if k = k' then (k, v) # entries
      else (k', v') # ordered_put k v entries)"

definition keys_sorted :: "('k::linorder \<times> 'v) list \<Rightarrow> bool" where
  "keys_sorted entries \<longleftrightarrow> sorted_wrt (<) (map fst entries)"

lemma keys_sorted_simps [simp]:
  "keys_sorted []" "keys_sorted (e # es) \<longleftrightarrow> keys_sorted es \<and> (\<forall>k \<in> fst ` set es. fst e < k)"
  by (auto simp: keys_sorted_def)

lemma map_of_ordered_put [simp]: "map_of (ordered_put k v entries) = (map_of entries)(k \<mapsto> v)"
  by (induction k v entries rule: ordered_put.induct) (auto simp: fun_upd_twist)

lemma keys_ordered_put [simp]: "fst ` set (ordered_put k v entries) = insert k (fst ` set entries)"
  by (induction k v entries rule: ordered_put.induct) auto

lemma keys_sorted_put [simp]: "keys_sorted entries \<Longrightarrow> keys_sorted (ordered_put k v entries)"
  by (induction k v entries rule: ordered_put.induct) auto

lemma set_ordered_put: "set (ordered_put k v entries) \<subseteq> insert (k, v) (set entries)"
  by (induction k v entries rule: ordered_put.induct) auto

lemma keys_sorted_distinct: "keys_sorted entries \<Longrightarrow> distinct (map fst entries)"
  by (simp add: keys_sorted_def strict_sorted_iff)

lemma keys_sorted_map_snd [simp]: "keys_sorted (map (\<lambda>(k, v). (k, f k v)) entries) = keys_sorted entries"
proof -
  have "map fst (map (\<lambda>(k, v). (k, f k v)) entries) = map fst entries" by (induction entries) auto
  then show ?thesis by (simp only: keys_sorted_def)
qed

lemma keys_sorted_filter: "keys_sorted entries \<Longrightarrow> keys_sorted (filter P entries)"
  by (induction entries) auto

text \<open>An event of a history that satisfied \<open>hit\<close>, given what came before it, and none since that was \<open>bad\<close>.\<close>

definition since :: "('e list \<Rightarrow> 'e \<Rightarrow> bool) \<Rightarrow> ('e \<Rightarrow> bool) \<Rightarrow> 'e list \<Rightarrow> bool" where
  "since hit bad es \<longleftrightarrow> (\<exists>pre e post. es = pre @ e # post \<and> hit pre e \<and> (\<forall>y \<in> set post. \<not> bad y))"

lemma since_Nil [simp]: "\<not> since hit bad []"
  by (simp add: since_def)

lemma since_snoc [simp]: "since hit bad (es @ [e]) \<longleftrightarrow> hit es e \<or> since hit bad es \<and> \<not> bad e"
proof
  assume "since hit bad (es @ [e])"
  then obtain pre x post where s: "es @ [e] = pre @ x # post" "hit pre x" "\<forall>y \<in> set post. \<not> bad y"
    unfolding since_def by blast
  show "hit es e \<or> since hit bad es \<and> \<not> bad e"
  proof (cases post rule: rev_cases)
    case (snoc q y)
    then have "es = pre @ x # q" "e = y" using s(1) by simp_all
    then show ?thesis using s snoc unfolding since_def by auto
  qed (use s in simp)
next
  assume "hit es e \<or> since hit bad es \<and> \<not> bad e"
  then show "since hit bad (es @ [e])"
  proof
    assume "hit es e"
    then show ?thesis unfolding since_def by (intro exI [of _ es] exI [of _ e] exI [of _ "[]"]) simp
  next
    assume a: "since hit bad es \<and> \<not> bad e"
    then obtain pre x post where "es = pre @ x # post" "hit pre x" "\<forall>y \<in> set post. \<not> bad y" unfolding since_def by blast
    then show ?thesis using a unfolding since_def by (intro exI [of _ pre] exI [of _ x] exI [of _ "post @ [e]"]) simp
  qed
qed

locale keyed_state =
  fixes act :: "'s \<Rightarrow> 'e \<Rightarrow> 's" and at_key :: "'s \<Rightarrow> 'k \<Rightarrow> 'v" and touches :: "'e \<Rightarrow> 'k \<Rightarrow> bool" and local_step :: "'v \<Rightarrow> 'e \<Rightarrow> 'v"
  assumes act_at_key: "at_key (act s e) k = (if touches e k then local_step (at_key s k) e else at_key s k)"
begin

lemma run_at_key: "at_key (foldl act s es) k = foldl local_step (at_key s k) (filter (\<lambda>e. touches e k) es)"
  by (induction es arbitrary: s) (simp_all add: act_at_key)

lemma run_untouched: "\<forall>e \<in> set es. \<not> touches e k \<Longrightarrow> at_key (foldl act s es) k = at_key s k"
  by (simp add: run_at_key filter_False)

text \<open>Histories that agree on a key leave it in the same state, however they are interleaved with others.\<close>

lemma run_interleaved:
  "filter (\<lambda>e. touches e k) es = filter (\<lambda>e. touches e k) es' \<Longrightarrow> at_key (foldl act s es) k = at_key (foldl act s es') k"
  by (simp add: run_at_key)

end

end
