(* ===== verification/Strategy_Book.thy ===== *)
theory Strategy_Book
  imports Ports Keyed_State "HOL-Library.Signed_Division" "HOL-Library.List_Lexorder" "HOL-Library.Char_ord"
begin

text \<open>
  \<^verbatim>\<open>isolation/strategy_book.cpp\<close>: the virtual book of each strategy on a shared account.  The two ordered
  maps are association lists in key order.  Amounts are exact integers: the products of the source stay
  within 64 bits for real sizes, and its division truncates toward zero (\<open>sdiv\<close>).
\<close>

record book_position =
  bp_net_qty :: int64
  bp_avg_cost :: money
  bp_realized_pnl :: money

definition flat_position :: book_position where
  "flat_position = \<lparr>bp_net_qty = 0, bp_avg_cost = Money 0, bp_realized_pnl = Money 0\<rparr>"

record flatten_leg =
  fl_symbol :: string
  fl_qty :: int64
  fl_side :: side

record strategy_state =
  ss_positions :: "(string \<times> book_position) list"
  ss_tag :: string
  ss_active :: bool

definition fresh_strategy :: strategy_state where
  "fresh_strategy = \<lparr>ss_positions = [], ss_tag = [], ss_active = True\<rparr>"

type_synonym strategy_book = "(string \<times> strategy_state) list"

definition abs64 :: "int64 \<Rightarrow> int64" where
  "abs64 x = (if x < 0 then - x else x)"

definition book_rejected :: "string \<Rightarrow> error" where
  "book_rejected message = (make_error RiskRejected message []) \<lparr>err_action := BlockStrategy\<rparr>"

text \<open>\<^verbatim>\<open>strategies_[id]\<close> and \<^verbatim>\<open>positions[symbol]\<close>: the entry, or the default one it is created with.\<close>

definition strategy_slot :: "strategy_book \<Rightarrow> string \<Rightarrow> strategy_state" where
  "strategy_slot book strategy_id = (case map_of book strategy_id of Some st \<Rightarrow> st | None \<Rightarrow> fresh_strategy)"

definition position_slot :: "strategy_state \<Rightarrow> string \<Rightarrow> book_position" where
  "position_slot st symbol = (case map_of (ss_positions st) symbol of Some pos \<Rightarrow> pos | None \<Rightarrow> flat_position)"

definition signed_fill :: "side \<Rightarrow> quantity \<Rightarrow> int64" where
  "signed_fill s qty = (if s = Buy then qty_value qty else - qty_value qty)"

text \<open>A fill of \<open>f\<close>, not zero, at \<open>price\<close> on one position.\<close>

definition fill_position :: "int64 \<Rightarrow> money \<Rightarrow> book_position \<Rightarrow> book_position" where
  "fill_position f price pos =
     (let n = bp_net_qty pos in
      if n = 0 \<or> ((n > 0) = (f > 0)) then
        let mag_n = abs64 n; mag_f = abs64 f;
            blended = (mag_n * money_paise (bp_avg_cost pos) + mag_f * money_paise price) sdiv (mag_n + mag_f)
        in pos \<lparr>bp_avg_cost := Money blended, bp_net_qty := n + f\<rparr>
      else
        let closed = min (abs64 f) (abs64 n);
            sgn_n = (if n > 0 then 1 else - 1);
            pos = pos \<lparr>bp_realized_pnl := bp_realized_pnl pos
              + Money ((money_paise price - money_paise (bp_avg_cost pos)) * closed * sgn_n),
              bp_net_qty := n + f\<rparr>
        in if bp_net_qty pos = 0 then pos \<lparr>bp_avg_cost := Money 0\<rparr>
           else if abs64 f > abs64 n then pos \<lparr>bp_avg_cost := price\<rparr>
           else pos)"

definition apply_fill :: "strategy_book \<Rightarrow> string \<Rightarrow> string \<Rightarrow> side \<Rightarrow> quantity \<Rightarrow> money \<Rightarrow> strategy_book" where
  "apply_fill book strategy_id symbol s qty price =
     (let f = signed_fill s qty in
      if f = 0 then book
      else
        let st = strategy_slot book strategy_id;
            pos = fill_position f price (position_slot st symbol)
        in ordered_put strategy_id (st \<lparr>ss_positions := ordered_put symbol pos (ss_positions st)\<rparr>) book)"

definition position_of :: "strategy_book \<Rightarrow> string \<Rightarrow> string \<Rightarrow> book_position" where
  "position_of book strategy_id symbol =
     (case map_of book strategy_id of
        None \<Rightarrow> flat_position
      | Some st \<Rightarrow> (case map_of (ss_positions st) symbol of None \<Rightarrow> flat_position | Some pos \<Rightarrow> pos))"

definition book_strategies :: "strategy_book \<Rightarrow> string list" where
  "book_strategies book = map fst book"

definition set_tag :: "strategy_book \<Rightarrow> string \<Rightarrow> string \<Rightarrow> strategy_book" where
  "set_tag book strategy_id tag = ordered_put strategy_id ((strategy_slot book strategy_id) \<lparr>ss_tag := tag\<rparr>) book"

definition tag_of :: "strategy_book \<Rightarrow> string \<Rightarrow> string" where
  "tag_of book strategy_id = (case map_of book strategy_id of None \<Rightarrow> [] | Some st \<Rightarrow> ss_tag st)"

definition stop_strategy :: "strategy_book \<Rightarrow> string \<Rightarrow> strategy_book" where
  "stop_strategy book strategy_id = ordered_put strategy_id ((strategy_slot book strategy_id) \<lparr>ss_active := False\<rparr>) book"

definition resume_strategy :: "strategy_book \<Rightarrow> string \<Rightarrow> strategy_book" where
  "resume_strategy book strategy_id = ordered_put strategy_id ((strategy_slot book strategy_id) \<lparr>ss_active := True\<rparr>) book"

definition is_active :: "strategy_book \<Rightarrow> string \<Rightarrow> bool" where
  "is_active book strategy_id = (case map_of book strategy_id of None \<Rightarrow> True | Some st \<Rightarrow> ss_active st)"

section \<open>Squaring off and the account cap\<close>

definition flatten_of :: "string \<times> int64 \<Rightarrow> flatten_leg list" where
  "flatten_of = (\<lambda>(symbol, net).
     if net = 0 then []
     else [\<lparr>fl_symbol = symbol, fl_qty = abs64 net, fl_side = (if net > 0 then Sell else Buy)\<rparr>])"

definition zero_position :: "book_position \<Rightarrow> book_position" where
  "zero_position pos = (if bp_net_qty pos = 0 then pos else pos \<lparr>bp_net_qty := 0, bp_avg_cost := Money 0\<rparr>)"

definition zero_strategy :: "strategy_state \<Rightarrow> strategy_state" where
  "zero_strategy st = st \<lparr>ss_positions := map (\<lambda>(symbol, pos). (symbol, zero_position pos)) (ss_positions st)\<rparr>"

fun net_positions :: "(string \<times> book_position) list \<Rightarrow> (string \<times> int64) list \<Rightarrow> (string \<times> int64) list" where
  "net_positions [] acc = acc"
| "net_positions ((symbol, pos) # rest) acc =
     net_positions rest (ordered_put symbol ((case map_of acc symbol of None \<Rightarrow> 0 | Some n \<Rightarrow> n) + bp_net_qty pos) acc)"

fun account_net :: "strategy_book \<Rightarrow> (string \<times> int64) list \<Rightarrow> (string \<times> int64) list" where
  "account_net [] acc = acc"
| "account_net ((_, st) # rest) acc = account_net rest (net_positions (ss_positions st) acc)"

definition zero_netted :: "(string \<times> int64) list \<Rightarrow> strategy_state \<Rightarrow> strategy_state" where
  "zero_netted nets st = st \<lparr>ss_positions := map (\<lambda>(symbol, pos).
     (symbol, if map_of nets symbol \<noteq> None \<and> bp_net_qty pos \<noteq> 0
        then pos \<lparr>bp_net_qty := 0, bp_avg_cost := Money 0\<rparr> else pos)) (ss_positions st)\<rparr>"

definition square_off_book :: "strategy_book \<Rightarrow> string \<Rightarrow> bool \<Rightarrow> flatten_leg list \<times> strategy_book" where
  "square_off_book book strategy_id netting_enabled =
     (if \<not> netting_enabled then
        (case map_of book strategy_id of
           None \<Rightarrow> ([], book)
         | Some st \<Rightarrow> (concat (map (\<lambda>(symbol, pos). flatten_of (symbol, bp_net_qty pos)) (ss_positions st)),
             ordered_put strategy_id (zero_strategy st) book))
      else
        let nets = account_net book [] in
        (concat (map flatten_of nets), map (\<lambda>(id, st). (id, zero_netted nets st)) book))"

definition position_exposure :: "(string \<Rightarrow> money) \<Rightarrow> string \<times> book_position \<Rightarrow> int64" where
  "position_exposure mark_price = (\<lambda>(symbol, pos).
     if bp_net_qty pos = 0 then 0 else abs64 (bp_net_qty pos) * money_paise (mark_price symbol))"

definition account_exposure :: "(string \<Rightarrow> money) \<Rightarrow> strategy_book \<Rightarrow> money" where
  "account_exposure mark_price book =
     Money (sum_list (concat (map (\<lambda>(_, st). map (position_exposure mark_price) (ss_positions st)) book)))"

definition check_new_order ::
    "strategy_book \<Rightarrow> string \<Rightarrow> string \<Rightarrow> quantity \<Rightarrow> money \<Rightarrow> money \<Rightarrow> (string \<Rightarrow> money) \<Rightarrow> unit result" where
  "check_new_order book strategy_id symbol qty price account_max_exposure mark_price =
     (let quote = [CHR 0x27] in
      if \<not> is_active book strategy_id then
        Inl (book_rejected (''strategy '' @ quote @ strategy_id @ quote @ '' is stopped: new orders blocked''))
      else if money_paise account_max_exposure < 0 then
        Inl (book_rejected (''negative account exposure cap is a misconfiguration for '' @ quote @ symbol @ quote
          @ '': blocked (fail-closed)''))
      else if money_paise account_max_exposure = 0 then Inr ()
      else
        let combined = money_paise (account_exposure mark_price book) + abs64 (qty_value qty) * money_paise price in
        if combined > money_paise account_max_exposure then
          Inl (book_rejected (''combined account exposure would exceed cap for strategy '' @ quote @ strategy_id @ quote
            @ '' on '' @ quote @ symbol @ quote))
        else Inr ())"

section \<open>One fill\<close>

definition position_value :: "book_position \<Rightarrow> int64" where
  "position_value pos = money_paise (bp_realized_pnl pos) - bp_net_qty pos * money_paise (bp_avg_cost pos)"

lemma abs64_abs [simp]: "abs64 x = \<bar>x\<bar>"
  by (simp add: abs64_def)

lemma smod_bound: "0 < b \<Longrightarrow> \<bar>a - a sdiv b * b\<bar> \<le> b - 1" for a b :: int
proof -
  assume b: "0 < b"
  have "\<bar>a smod b\<bar> < b" using b smod_int_compares [of a b] by (cases "0 \<le> a") (simp_all add: abs_if)
  then show ?thesis by (simp add: minus_sdiv_mult_eq_smod)
qed

lemma fill_position_reduce:
  assumes "f \<noteq> 0" "bp_net_qty pos \<noteq> 0" "(bp_net_qty pos > 0) \<noteq> (f > 0)"
  shows "position_value (fill_position f price pos) = position_value pos - f * money_paise price"
proof -
  define n a p r where "n = bp_net_qty pos" and "a = money_paise (bp_avg_cost pos)" and "p = money_paise price"
    and "r = money_paise (bp_realized_pnl pos)"
  have g: "position_value pos = r - n * a" by (simp add: position_value_def n_def a_def r_def)
  have v: "position_value (fill_position f price pos) =
      r + (p - a) * min \<bar>f\<bar> \<bar>n\<bar> * (if n > 0 then 1 else - 1)
        - (n + f) * (if n + f = 0 then 0 else if \<bar>f\<bar> > \<bar>n\<bar> then p else a)"
    using assms by (simp add: position_value_def fill_position_def Let_def plus_money_def n_def a_def p_def r_def)
  have "(p - a) * min \<bar>f\<bar> \<bar>n\<bar> * (if n > 0 then 1 else - 1)
        - (n + f) * (if n + f = 0 then 0 else if \<bar>f\<bar> > \<bar>n\<bar> then p else a) = - n * a - f * p"
  proof (cases "n > 0")
    case True
    then have f: "f < 0" using assms by (auto simp: n_def)
    consider "n + f = 0" | "n + f > 0" | "n + f < 0" by linarith
    then show ?thesis
    proof cases
      case 1
      then have e: "f = - n" by simp
      show ?thesis using True by (simp add: e algebra_simps)
    qed (use True f in \<open>simp_all add: min_def algebra_simps\<close>)
  next
    case False
    then have f: "f > 0" "n < 0" using assms by (auto simp: n_def)
    consider "n + f = 0" | "n + f > 0" | "n + f < 0" by linarith
    then show ?thesis
    proof cases
      case 1
      then have e: "f = - n" by simp
      show ?thesis using f by (simp add: e algebra_simps)
    qed (use f in \<open>simp_all add: min_def algebra_simps\<close>)
  qed
  then show ?thesis using v g by (simp add: p_def)
qed

text \<open>
  What a position has cost is its average times its size, less what it has realised.  A fill changes that
  by the cash it moves, up to less than a paisa per unit held when it adds to the position, and
  exactly when it reduces, closes or turns it.
\<close>

lemma fill_position_net: "f \<noteq> 0 \<Longrightarrow> bp_net_qty (fill_position f price pos) = bp_net_qty pos + f"
  by (simp add: fill_position_def Let_def)

lemma fill_position_value:
  assumes "f \<noteq> 0"
  shows "\<bar>position_value (fill_position f price pos) - (position_value pos - f * money_paise price)\<bar>
    \<le> (if bp_net_qty pos = 0 \<or> (bp_net_qty pos > 0) = (f > 0) then \<bar>bp_net_qty pos + f\<bar> - 1 else 0)"
proof (cases "bp_net_qty pos = 0 \<or> (bp_net_qty pos > 0) = (f > 0)")
  case True
  define n a p m total t s where "n = bp_net_qty pos" and "a = money_paise (bp_avg_cost pos)" and "p = money_paise price"
    and "m = \<bar>n\<bar> + \<bar>f\<bar>" and "total = \<bar>n\<bar> * a + \<bar>f\<bar> * p" and "t = total sdiv m" and "s = sgn (n + f)"
  have same: "n = 0 \<or> (n > 0) = (f > 0)" using True by (simp add: n_def)
  have m: "m = \<bar>n + f\<bar>" "0 < m" using same assms by (auto simp: m_def)
  have "fill_position f price pos = pos \<lparr>bp_avg_cost := Money t, bp_net_qty := n + f\<rparr>"
    using True by (simp add: fill_position_def Let_def t_def total_def m_def n_def a_def p_def)
  then have v: "position_value (fill_position f price pos) - (position_value pos - f * p) = n * a + f * p - (n + f) * t"
    by (simp add: position_value_def n_def a_def)
  have "n = s * \<bar>n\<bar>" "f = s * \<bar>f\<bar>" using same assms by (auto simp: s_def sgn_if)
  then have "n * a = s * (\<bar>n\<bar> * a)" "f * p = s * (\<bar>f\<bar> * p)" "n + f = s * m"
    by (metis mult.assoc) (metis \<open>f = s * \<bar>f\<bar>\<close> mult.assoc, metis \<open>n = s * \<bar>n\<bar>\<close> \<open>f = s * \<bar>f\<bar>\<close> distrib_left m_def)
  then have "n * a + f * p - (n + f) * t = s * (\<bar>n\<bar> * a) + s * (\<bar>f\<bar> * p) - s * m * t" by (simp only:)
  also have "\<dots> = s * (total - t * m)" by (simp only: total_def right_diff_distrib distrib_left mult.assoc mult.commute mult.left_commute)
  finally have e: "n * a + f * p - (n + f) * t = s * (total - t * m)" .
  have "\<bar>s\<bar> = 1" using m by (auto simp: s_def sgn_if)
  then have "\<bar>n * a + f * p - (n + f) * t\<bar> = \<bar>total - t * m\<bar>" by (simp only: e abs_mult) simp
  also have "\<dots> \<le> m - 1" unfolding t_def by (rule smod_bound [OF m(2)])
  finally show ?thesis using v True m(1) by (simp add: n_def p_def)
next
  case False
  then show ?thesis using fill_position_reduce [OF assms, of pos price] by auto
qed

lemma fill_position_flat_cost:
  "f \<noteq> 0 \<Longrightarrow> bp_net_qty (fill_position f price pos) = 0 \<Longrightarrow> bp_avg_cost (fill_position f price pos) = Money 0"
  by (auto simp: fill_position_def Let_def)

section \<open>Fills of several strategies\<close>

record fill_event =
  fe_strategy :: string
  fe_symbol :: string
  fe_side :: side
  fe_qty :: quantity
  fe_price :: money

definition fill_signed :: "fill_event \<Rightarrow> int64" where
  "fill_signed e = signed_fill (fe_side e) (fe_qty e)"

definition book_fill :: "strategy_book \<Rightarrow> fill_event \<Rightarrow> strategy_book" where
  "book_fill book e = apply_fill book (fe_strategy e) (fe_symbol e) (fe_side e) (fe_qty e) (fe_price e)"

definition fill_step :: "book_position \<Rightarrow> fill_event \<Rightarrow> book_position" where
  "fill_step pos e = (if fill_signed e = 0 then pos else fill_position (fill_signed e) (fe_price e) pos)"

definition own_fills :: "string \<Rightarrow> string \<Rightarrow> fill_event list \<Rightarrow> fill_event list" where
  "own_fills sid symbol fills = filter (\<lambda>e. fe_strategy e = sid \<and> fe_symbol e = symbol) fills"

lemma position_of_slot: "position_of book sid symbol = position_slot (strategy_slot book sid) symbol"
  by (simp add: position_of_def position_slot_def strategy_slot_def fresh_strategy_def split: option.splits)

lemma position_of_book_fill:
  "position_of (book_fill book e) sid symbol =
     (if fe_strategy e = sid \<and> fe_symbol e = symbol then fill_step (position_of book sid symbol) e
      else position_of book sid symbol)"
  by (auto simp: position_of_slot book_fill_def apply_fill_def fill_step_def fill_signed_def strategy_slot_def position_slot_def Let_def)

interpretation fills: keyed_state book_fill "\<lambda>book (sid, symbol). position_of book sid symbol"
  "\<lambda>e (sid, symbol). fe_strategy e = sid \<and> fe_symbol e = symbol" fill_step
  by unfold_locales (auto simp: position_of_book_fill split: if_splits prod.splits)

lemma fills_of_position:
  "position_of (foldl book_fill book fills) sid symbol = foldl fill_step (position_of book sid symbol) (own_fills sid symbol fills)"
  using fills.run_at_key [of book fills "(sid, symbol)"] by (simp add: own_fills_def)

definition net_after :: "fill_event list \<Rightarrow> nat \<Rightarrow> int" where
  "net_after fills k = sum_list (map fill_signed (take k fills))"

definition cash_spent :: "fill_event list \<Rightarrow> int" where
  "cash_spent fills = sum_list (map (\<lambda>e. fill_signed e * money_paise (fe_price e)) fills)"

lemma fill_step_flat_cost:
  "(bp_net_qty pos = 0 \<longrightarrow> bp_avg_cost pos = Money 0) \<Longrightarrow> bp_net_qty (fill_step pos e) = 0 \<Longrightarrow> bp_avg_cost (fill_step pos e) = Money 0"
  using fill_position_flat_cost by (simp add: fill_step_def split: if_splits)

lemma fill_step_net: "bp_net_qty (fill_step pos e) = bp_net_qty pos + fill_signed e"
  by (simp add: fill_step_def fill_position_net)

lemma fill_step_value:
  "\<bar>position_value (fill_step pos e) - (position_value pos - fill_signed e * money_paise (fe_price e))\<bar>
     \<le> \<bar>bp_net_qty pos + fill_signed e\<bar>"
  using fill_position_value [of "fill_signed e" "fe_price e" pos] by (auto simp: fill_step_def split: if_splits)

lemma fill_run:
  "bp_net_qty (foldl fill_step flat_position own) = net_after own (length own)
   \<and> \<bar>position_value (foldl fill_step flat_position own) + cash_spent own\<bar> \<le> (\<Sum>k<length own. \<bar>net_after own (Suc k)\<bar>)
   \<and> (bp_net_qty (foldl fill_step flat_position own) = 0 \<longrightarrow> bp_avg_cost (foldl fill_step flat_position own) = Money 0)"
proof (induction own rule: rev_induct)
  case Nil
  then show ?case by (simp add: flat_position_def net_after_def cash_spent_def position_value_def)
next
  case (snoc e own)
  let ?p = "foldl fill_step flat_position own"
  have net: "net_after (own @ [e]) k = net_after own k" if "k \<le> length own" for k
    using that by (simp add: net_after_def)
  have last: "net_after (own @ [e]) (Suc (length own)) = bp_net_qty ?p + fill_signed e"
    using snoc by (simp add: net_after_def)
  have "(\<Sum>k<length (own @ [e]). \<bar>net_after (own @ [e]) (Suc k)\<bar>)
      = (\<Sum>k<length own. \<bar>net_after own (Suc k)\<bar>) + \<bar>bp_net_qty ?p + fill_signed e\<bar>"
    using net last by simp
  moreover have "cash_spent (own @ [e]) = cash_spent own + fill_signed e * money_paise (fe_price e)"
    by (simp add: cash_spent_def)
  ultimately have "\<bar>position_value (fill_step ?p e) + cash_spent (own @ [e])\<bar>
      \<le> (\<Sum>k<length (own @ [e]). \<bar>net_after (own @ [e]) (Suc k)\<bar>)"
    using fill_step_value [of ?p e] snoc by linarith
  moreover have "bp_net_qty (fill_step ?p e) = 0 \<longrightarrow> bp_avg_cost (fill_step ?p e) = Money 0"
    using snoc fill_step_flat_cost [of ?p e] by blast
  ultimately show ?case using last by (simp add: fill_step_net)
qed

text \<open>C39. 
  Strategies do not interfere, and each book balances.  After any sequence of fills the position of a
  strategy in a symbol is a function of its own fills in that symbol: its net quantity is their signed
  sum, a flat position has no average cost, and realised profit less the cost of what is held equals
  the cash received less the cash paid, up to the rounding of the average cost, less than a paisa
  per unit held after each fill.
\<close>

theorem fills_isolated_and_balanced:
  fixes fills sid symbol
  defines "own \<equiv> own_fills sid symbol fills" and "pos \<equiv> position_of (foldl book_fill [] fills) sid symbol"
  shows "bp_net_qty pos = sum_list (map fill_signed own)
    \<and> \<bar>money_paise (bp_realized_pnl pos) - bp_net_qty pos * money_paise (bp_avg_cost pos) + cash_spent own\<bar>
        \<le> (\<Sum>k<length own. \<bar>net_after own (Suc k)\<bar>)
    \<and> (bp_net_qty pos = 0 \<longrightarrow> bp_avg_cost pos = Money 0)
    \<and> (own_fills sid symbol fills' = own \<longrightarrow> position_of (foldl book_fill [] fills') sid symbol = pos)"
proof -
  have empty: "position_of [] sid symbol = flat_position" by (simp add: position_of_def)
  have pos: "pos = foldl fill_step flat_position own" unfolding pos_def own_def by (simp add: fills_of_position empty)
  have net: "net_after own (length own) = sum_list (map fill_signed own)" by (simp add: net_after_def)
  have "position_of (foldl book_fill [] fills') sid symbol = foldl fill_step flat_position (own_fills sid symbol fills')"
    by (simp add: fills_of_position empty)
  then show ?thesis
    using fill_run [of own] unfolding pos [symmetric] position_value_def net using pos by auto
qed

definition sample_fill :: "string \<Rightarrow> side \<Rightarrow> int \<Rightarrow> int \<Rightarrow> fill_event" where
  "sample_fill sid s q p = \<lparr>fe_strategy = sid, fe_symbol = ''X'', fe_side = s, fe_qty = Quantity q, fe_price = Money p\<rparr>"

text \<open>Two strategies on one symbol, with their fills interleaved and apart.\<close>

lemma fills_isolated_and_balanced_witness:
  "position_of (foldl book_fill [] [sample_fill ''A'' Buy 10 100, sample_fill ''B'' Sell 5 90, sample_fill ''A'' Sell 10 110]) ''A'' ''X''
   = position_of (foldl book_fill [] [sample_fill ''A'' Buy 10 100, sample_fill ''A'' Sell 10 110]) ''A'' ''X''"
  using fills_isolated_and_balanced [where sid = "''A''" and symbol = "''X''" and fills = "[sample_fill ''A'' Buy 10 100, sample_fill ''A'' Sell 10 110]"
    and fills' = "[sample_fill ''A'' Buy 10 100, sample_fill ''B'' Sell 5 90, sample_fill ''A'' Sell 10 110]"]
  by (simp add: own_fills_def sample_fill_def)

section \<open>Squaring off\<close>

datatype book_op =
    BookFill fill_event
  | BookTag string string
  | BookSquareOff string bool
  | BookStop string
  | BookResume string

fun book_step :: "strategy_book \<Rightarrow> book_op \<Rightarrow> strategy_book" where
  "book_step book (BookFill e) = book_fill book e"
| "book_step book (BookTag sid tag) = set_tag book sid tag"
| "book_step book (BookSquareOff sid netting) = snd (square_off_book book sid netting)"
| "book_step book (BookStop sid) = stop_strategy book sid"
| "book_step book (BookResume sid) = resume_strategy book sid"

definition book_run :: "book_op list \<Rightarrow> strategy_book" where
  "book_run ops = foldl book_step [] ops"

definition book_wf :: "strategy_book \<Rightarrow> bool" where
  "book_wf book \<longleftrightarrow> keys_sorted book \<and> (\<forall>(_, st) \<in> set book. keys_sorted (ss_positions st))"

lemma book_wf_put:
  "book_wf book \<Longrightarrow> keys_sorted (ss_positions st) \<Longrightarrow> book_wf (ordered_put sid st book)"
  using set_ordered_put [of sid st book] by (auto simp: book_wf_def)

lemma book_wf_map:
  "book_wf book \<Longrightarrow> (\<And>st. keys_sorted (ss_positions (g st)) = keys_sorted (ss_positions st)) \<Longrightarrow> book_wf (map (\<lambda>(id, st). (id, g st)) book)"
  using keys_sorted_map_snd [of "\<lambda>_. g" book] by (auto simp: book_wf_def)

lemma keys_sorted_slot: "book_wf book \<Longrightarrow> keys_sorted (ss_positions (strategy_slot book sid))"
  by (auto simp: book_wf_def strategy_slot_def fresh_strategy_def dest: map_of_SomeD split: option.splits)

lemma keys_sorted_zeroed [simp]:
  "keys_sorted (ss_positions (zero_strategy st)) = keys_sorted (ss_positions st)"
  "keys_sorted (ss_positions (zero_netted nets st)) = keys_sorted (ss_positions st)"
  by (simp_all add: zero_strategy_def zero_netted_def)

lemma book_wf_run: "book_wf (book_run ops)"
proof (induction ops rule: rev_induct)
  case (snoc op ops)
  have k: "map_of (book_run ops) sid = Some st \<Longrightarrow> keys_sorted (ss_positions st)" for sid st
    using snoc by (auto simp: book_wf_def dest: map_of_SomeD)
  have "book_wf (book_step (book_run ops) op)"
    using snoc keys_sorted_slot [OF snoc] k
    by (cases op) (auto simp: book_fill_def apply_fill_def set_tag_def stop_strategy_def resume_strategy_def
        square_off_book_def Let_def book_wf_put book_wf_map split: option.splits)
  then show ?case by (simp add: book_run_def)
qed (simp add: book_run_def book_wf_def)

definition leg_signed :: "flatten_leg \<Rightarrow> int" where
  "leg_signed leg = (if fl_side leg = Buy then fl_qty leg else - fl_qty leg)"

definition legs_net :: "flatten_leg list \<Rightarrow> string \<Rightarrow> int" where
  "legs_net legs symbol = sum_list (map leg_signed (filter (\<lambda>l. fl_symbol l = symbol) legs))"

definition net_at :: "(string \<times> int64) list \<Rightarrow> string \<Rightarrow> int" where
  "net_at nets symbol = (case map_of nets symbol of None \<Rightarrow> 0 | Some n \<Rightarrow> n)"

text \<open>The legs of a table of net quantities: one per symbol that is not flat, in order, against its net.\<close>

lemma flatten_legs:
  assumes "keys_sorted nets"
  shows "legs_net (concat (map flatten_of nets)) symbol = - net_at nets symbol
    \<and> (\<forall>l \<in> set (concat (map flatten_of nets)). 0 < fl_qty l \<and> fl_symbol l \<in> fst ` set nets)
    \<and> sorted_wrt (<) (map fl_symbol (concat (map flatten_of nets)))"
  using assms
proof (induction nets)
  case (Cons sn nets)
  obtain s n where sn: "sn = (s, n)" by (cases sn)
  have ih: "legs_net (concat (map flatten_of nets)) symbol = - net_at nets symbol"
    "\<forall>l \<in> set (concat (map flatten_of nets)). 0 < fl_qty l \<and> fl_symbol l \<in> fst ` set nets"
    "sorted_wrt (<) (map fl_symbol (concat (map flatten_of nets)))"
    using Cons by simp_all
  have above: "\<forall>k \<in> fst ` set nets. s < k" using Cons.prems sn by simp
  then have "map_of nets s = None" by (auto simp: map_of_eq_None_iff)
  then have "net_at nets s = 0" by (simp add: net_at_def)
  then have "legs_net (flatten_of sn @ concat (map flatten_of nets)) symbol = - net_at (sn # nets) symbol"
    using ih(1) by (auto simp: sn legs_net_def flatten_of_def net_at_def leg_signed_def)
  moreover have "\<forall>l \<in> set (flatten_of sn). 0 < fl_qty l \<and> fl_symbol l = s" by (simp add: sn flatten_of_def)
  moreover have "sorted_wrt (<) (map fl_symbol (flatten_of sn @ concat (map flatten_of nets)))"
    using ih(2,3) above by (auto simp: sn flatten_of_def)
  ultimately show ?case using ih(2) sn by auto
qed (simp add: legs_net_def net_at_def)

lemma map_of_map_snd: "map_of (map (\<lambda>(k, v). (k, g v)) es) k = map_option g (map_of es k)"
  by (induction es) auto

lemma net_positions_spec:
  "keys_sorted acc \<Longrightarrow> keys_sorted (net_positions ps acc)
   \<and> net_at (net_positions ps acc) symbol = net_at acc symbol + sum_list (map (\<lambda>(s, p). if s = symbol then bp_net_qty p else 0) ps)
   \<and> fst ` set (net_positions ps acc) = fst ` set acc \<union> fst ` set ps"
  by (induction ps acc rule: net_positions.induct) (auto simp: net_at_def)

lemma account_net_spec:
  "keys_sorted acc \<Longrightarrow> keys_sorted (account_net book acc)
   \<and> net_at (account_net book acc) symbol = net_at acc symbol
       + sum_list (map (\<lambda>(_, st). sum_list (map (\<lambda>(s, p). if s = symbol then bp_net_qty p else 0) (ss_positions st))) book)
   \<and> fst ` set (account_net book acc) = fst ` set acc \<union> (\<Union>(_, st) \<in> set book. fst ` set (ss_positions st))"
proof (induction book acc rule: account_net.induct)
  case (2 id st rest acc)
  then show ?case using net_positions_spec [OF 2(2), of "ss_positions st" symbol] by auto
qed simp

lemma sum_of_symbol:
  "keys_sorted ps \<Longrightarrow> sum_list (map (\<lambda>(s, p). if s = symbol then bp_net_qty p else 0) ps)
     = (case map_of ps symbol of None \<Rightarrow> 0 | Some p \<Rightarrow> bp_net_qty p)"
proof (induction ps)
  case (Cons sp ps)
  obtain s p where sp: "sp = (s, p)" by (cases sp)
  have "map_of ps s = None" using Cons.prems sp by (auto simp: map_of_eq_None_iff)
  then show ?case using Cons sp by (auto split: option.splits)
qed simp

lemma account_net_of_books:
  assumes "book_wf book"
  shows "keys_sorted (account_net book [])"
    and "net_at (account_net book []) symbol = sum_list (map (\<lambda>id. bp_net_qty (position_of book id symbol)) (book_strategies book))"
proof -
  have eq: "sum_list (map (\<lambda>(s, p). if s = symbol then bp_net_qty p else 0) (ss_positions st))
      = bp_net_qty (position_of book id symbol)" if "(id, st) \<in> set book" for id st
  proof -
    have "distinct (map fst book)" using assms by (simp add: book_wf_def keys_sorted_distinct)
    then have "map_of book id = Some st" using that by simp
    moreover have "keys_sorted (ss_positions st)" using that assms by (auto simp: book_wf_def)
    ultimately show ?thesis
      by (simp add: position_of_def flat_position_def sum_of_symbol split: option.splits)
  qed
  have "map (\<lambda>(_, st). sum_list (map (\<lambda>(s, p). if s = symbol then bp_net_qty p else 0) (ss_positions st))) book
      = map (\<lambda>id. bp_net_qty (position_of book id symbol)) (book_strategies book)"
    using eq by (auto simp: book_strategies_def)
  then show "net_at (account_net book []) symbol = sum_list (map (\<lambda>id. bp_net_qty (position_of book id symbol)) (book_strategies book))"
    using account_net_spec [of "[]" book symbol] by (simp add: net_at_def)
  show "keys_sorted (account_net book [])" using account_net_spec [of "[]" book] by simp
qed

lemma position_slot_zeroed: "position_slot (zero_strategy st) symbol = zero_position (position_slot st symbol)"
  by (auto simp: position_slot_def zero_strategy_def map_of_map_snd zero_position_def flat_position_def split: option.splits)

lemma position_slot_netted:
  assumes "fst ` set (ss_positions st) \<subseteq> fst ` set nets"
  shows "position_slot (zero_netted nets st) symbol = zero_position (position_slot st symbol)"
proof -
  define g :: "string \<times> book_position \<Rightarrow> string \<times> book_position" where "g = (\<lambda>(s, pos). (s, if map_of nets s \<noteq> None \<and> bp_net_qty pos \<noteq> 0
        then pos \<lparr>bp_net_qty := 0, bp_avg_cost := Money 0\<rparr> else pos))"
  have "map_of (map g ps) symbol = map_option zero_position (map_of ps symbol)" if "fst ` set ps \<subseteq> fst ` set nets" for ps :: "(string \<times> book_position) list"
    using that
  proof (induction ps)
    case (Cons sp ps)
    obtain s pos where sp: "sp = (s, pos)" by (cases sp)
    have "map_of nets s \<noteq> None" using Cons.prems sp by (auto simp: map_of_eq_None_iff)
    then have "g sp = (s, zero_position pos)" by (simp add: g_def sp zero_position_def)
    then show ?case using Cons sp by simp
  qed simp
  then have "map_of (ss_positions (zero_netted nets st)) symbol = map_option zero_position (map_of (ss_positions st) symbol)"
    using assms by (simp add: zero_netted_def g_def)
  then show ?thesis by (auto simp: position_slot_def zero_position_def flat_position_def split: option.splits)
qed

lemma flatten_of_positions:
  "concat (map (\<lambda>(symbol, pos). flatten_of (symbol, bp_net_qty pos)) ps)
    = concat (map flatten_of (map (\<lambda>(symbol, pos). (symbol, bp_net_qty pos)) ps))"
  by (induction ps) auto

text \<open>
  Squaring off takes the book to flat and no further.  Without netting the legs offset exactly the
  positions of the one strategy; with netting they offset, symbol by symbol, the sum over all
  strategies.  There is at most one leg per symbol, in symbol order, each of a positive quantity.  The
  positions of the one strategy, or with netting of all, are flat afterwards with their realised profit
  kept; nothing else of any strategy changes.
\<close>

theorem square_off_flattens:
  assumes "square_off_book (book_run ops) sid netting = (legs, book')"
  shows "legs_net legs symbol = - (if netting
        then sum_list (map (\<lambda>id. bp_net_qty (position_of (book_run ops) id symbol)) (book_strategies (book_run ops)))
        else bp_net_qty (position_of (book_run ops) sid symbol))
    \<and> (\<forall>l \<in> set legs. 0 < fl_qty l) \<and> sorted_wrt (<) (map fl_symbol legs)
    \<and> position_of book' other symbol = (if netting \<or> other = sid
        then zero_position (position_of (book_run ops) other symbol) else position_of (book_run ops) other symbol)
    \<and> is_active book' other = is_active (book_run ops) other \<and> tag_of book' other = tag_of (book_run ops) other"
proof (cases netting)
  case False
  show ?thesis
  proof (cases "map_of (book_run ops) sid")
    case None
    then show ?thesis using assms False
      by (auto simp: square_off_book_def legs_net_def position_of_def flat_position_def zero_position_def)
  next
    case (Some st)
    define nets where "nets = map (\<lambda>(symbol, pos). (symbol, bp_net_qty pos)) (ss_positions st)"
    have sq: "legs = concat (map flatten_of nets)" "book' = ordered_put sid (zero_strategy st) (book_run ops)"
      using assms False Some by (auto simp: square_off_book_def nets_def flatten_of_positions)
    have "keys_sorted nets" using book_wf_run [of ops] Some
      by (auto simp: nets_def book_wf_def keys_sorted_map_snd [of "\<lambda>_. bp_net_qty"] dest: map_of_SomeD)
    note fl = flatten_legs [OF this, of symbol, folded sq(1)]
    have "net_at nets symbol = bp_net_qty (position_of (book_run ops) sid symbol)"
      using Some by (auto simp: net_at_def nets_def map_of_map_snd position_of_def flat_position_def split: option.splits)
    then show ?thesis using fl False Some position_slot_zeroed [of st symbol]
      by (auto simp: sq(2) position_of_slot strategy_slot_def is_active_def tag_of_def zero_strategy_def)
  qed
next
  case True
  define nets where "nets = account_net (book_run ops) []"
  have sq: "legs = concat (map flatten_of nets)" "book' = map (\<lambda>(id, st). (id, zero_netted nets st)) (book_run ops)"
    using assms True by (auto simp: square_off_book_def nets_def Let_def)
  note an = account_net_of_books [OF book_wf_run, of ops, folded nets_def]
  note fl = flatten_legs [OF an(1), of symbol, folded sq(1)]
  have m: "map_of book' other = map_option (zero_netted nets) (map_of (book_run ops) other)" by (simp add: sq(2) map_of_map_snd)
  have pos: "position_of book' other symbol = zero_position (position_of (book_run ops) other symbol)"
  proof (cases "map_of (book_run ops) other")
    case (Some st)
    then have "fst ` set (ss_positions st) \<subseteq> fst ` set nets"
      using account_net_spec [of "[]" "book_run ops"] map_of_SomeD [OF Some] unfolding nets_def by auto
    then show ?thesis using position_slot_netted [of st nets symbol] m Some
      by (simp add: position_of_slot strategy_slot_def)
  qed (use m in \<open>simp add: position_of_def zero_position_def flat_position_def\<close>)
  have keep: "ss_active (zero_netted nets st) = ss_active st" "ss_tag (zero_netted nets st) = ss_tag st" for st
    by (simp_all add: zero_netted_def)
  show ?thesis using fl an(2) [of symbol] pos True m keep
    by (auto simp: is_active_def tag_of_def split: option.splits)
qed

lemma square_off_flattens_witness:
  "let ops = [BookFill (sample_fill ''A'' Buy 10 100), BookFill (sample_fill ''B'' Sell 4 90)];
       (legs, book') = square_off_book (book_run ops) ''A'' True
   in legs_net legs ''X'' = - 6 \<and> bp_net_qty (position_of book' ''B'' ''X'') = 0"
proof -
  define ops where "ops = [BookFill (sample_fill ''A'' Buy 10 100), BookFill (sample_fill ''B'' Sell 4 90)]"
  have run: "book_run ops = foldl book_fill [] [sample_fill ''A'' Buy 10 100, sample_fill ''B'' Sell 4 90]"
    by (simp add: book_run_def ops_def)
  have ids: "book_strategies (book_run ops) = [''A'', ''B'']"
    by (simp add: run book_fill_def apply_fill_def sample_fill_def signed_fill_def book_strategies_def Let_def less_char_def)
  have net: "bp_net_qty (position_of (book_run ops) ''A'' ''X'') = 10" "bp_net_qty (position_of (book_run ops) ''B'' ''X'') = - 4"
    by (simp_all add: run position_of_book_fill fill_step_net fill_signed_def sample_fill_def signed_fill_def,
        simp_all add: position_of_def flat_position_def)
  obtain legs book' where sq: "square_off_book (book_run ops) ''A'' True = (legs, book')" by fastforce
  then show ?thesis
    using square_off_flattens [OF sq, of "''X''" "''B''"] ids net
    by (simp add: ops_def [symmetric] zero_position_def)
qed

text \<open>
  The book is flat as soon as the legs are computed.  The profit on what they close is never realised, and
  their own fills, were they applied, open the opposite position.
\<close>

lemma flatten_fill_reopens:
  "let book = snd (square_off_book (book_fill [] (sample_fill ''A'' Buy 10 100)) ''A'' False);
       pos = position_of (book_fill book (sample_fill ''A'' Sell 10 120)) ''A'' ''X''
   in bp_net_qty pos = - 10 \<and> bp_realized_pnl pos = Money 0"
  by (simp add: book_fill_def apply_fill_def sample_fill_def signed_fill_def square_off_book_def strategy_slot_def
      position_slot_def fill_position_def flat_position_def fresh_strategy_def zero_strategy_def zero_position_def
      position_of_def Let_def)

text \<open>An entry passes exactly when its strategy runs and the cap, if there is one, holds the whole account with it.\<close>

lemma check_new_order_exact:
  "check_new_order book sid symbol qty price cap mark = Inr () \<longleftrightarrow>
     is_active book sid \<and> 0 \<le> money_paise cap
     \<and> (money_paise cap = 0 \<or> money_paise (account_exposure mark book) + \<bar>qty_value qty\<bar> * money_paise price \<le> money_paise cap)"
  by (auto simp: check_new_order_def Let_def)

end
