(* ===== verification/Feeds.thy ===== *)
theory Feeds
  imports Modes Keyed_State "HOL-Library.List_Lexorder" "HOL-Library.Char_ord"
begin

text \<open>
  What says whether prices and the process itself can be trusted: \<^verbatim>\<open>marketdata/market_data.cpp\<close>, the state
  of each symbol's feed; \<^verbatim>\<open>feedsub/resubscribe_guard.cpp\<close>, which tokens ticked since the last reconnect;
  \<^verbatim>\<open>clock/skew_stall_detector.cpp\<close>; and \<^verbatim>\<open>health/watchdog.cpp\<close>.  Instants of both clocks are nanoseconds
  and arguments of the operations that read them.
\<close>

section \<open>Market data\<close>

datatype market_data_state = MdUnknown | MdLive | MdStale | MdDelayed | MdDisconnected

datatype reconnect_result = Reconnected | TransportFailure | AuthFailure

fun market_data_state_to_string :: "market_data_state \<Rightarrow> string" where
  "market_data_state_to_string MdUnknown = ''Unknown''"
| "market_data_state_to_string MdLive = ''Live''"
| "market_data_state_to_string MdStale = ''Stale''"
| "market_data_state_to_string MdDelayed = ''Delayed''"
| "market_data_state_to_string MdDisconnected = ''Disconnected''"

record market_tick =
  tk_symbol :: string
  tk_ltp :: price
  tk_exchange_ts :: int64

record md_entry =
  md_ltp :: price
  md_exchange_ts :: int64
  md_received_at :: int64
  md_seen :: bool

record market_view =
  mv_staleness_ms :: int64
  mv_delay_ms :: int64
  mv_entries :: "string \<Rightarrow> md_entry option"
  mv_connected :: bool

definition market_view_init :: "int64 \<Rightarrow> int64 \<Rightarrow> market_view" where
  "market_view_init staleness_ms delay_ms = \<lparr>mv_staleness_ms = staleness_ms, mv_delay_ms = delay_ms,
     mv_entries = Map.empty, mv_connected = False\<rparr>"

definition fresh_entry :: md_entry where
  "fresh_entry = \<lparr>md_ltp = Price 0, md_exchange_ts = 0, md_received_at = 0, md_seen = False\<rparr>"

definition take_tick :: "market_tick \<Rightarrow> int64 \<Rightarrow> md_entry \<Rightarrow> md_entry" where
  "take_tick t now_steady entry =
     (if md_seen entry \<and> tk_exchange_ts t \<le> md_exchange_ts entry then entry
      else \<lparr>md_ltp = tk_ltp t, md_exchange_ts = tk_exchange_ts t, md_received_at = now_steady, md_seen = True\<rparr>)"

definition on_tick :: "market_view \<Rightarrow> market_tick \<Rightarrow> int64 \<Rightarrow> market_view" where
  "on_tick view t now_steady =
     (let entry = (case mv_entries view (tk_symbol t) of None \<Rightarrow> fresh_entry | Some e \<Rightarrow> e)
      in view \<lparr>mv_entries := (mv_entries view)(tk_symbol t \<mapsto> take_tick t now_steady entry)\<rparr>)"

definition on_disconnect :: "market_view \<Rightarrow> market_view" where
  "on_disconnect view = view \<lparr>mv_connected := False\<rparr>"

definition on_connect :: "market_view \<Rightarrow> market_view" where
  "on_connect view = view \<lparr>mv_connected := True\<rparr>"

definition state_for :: "market_view \<Rightarrow> int64 \<Rightarrow> int64 \<Rightarrow> string \<Rightarrow> market_data_state" where
  "state_for view now_steady now_wall symbol =
     (if \<not> mv_connected view then MdDisconnected
      else case mv_entries view symbol of
        None \<Rightarrow> MdUnknown
      | Some entry \<Rightarrow>
          if \<not> md_seen entry then MdUnknown
          else if now_steady - md_received_at entry > mv_staleness_ms view * 1000000 then MdStale
          else if now_wall - md_exchange_ts entry > mv_delay_ms view * 1000000 then MdDelayed
          else MdLive)"

definition md_is_tradable :: "market_view \<Rightarrow> int64 \<Rightarrow> int64 \<Rightarrow> string \<Rightarrow> bool" where
  "md_is_tradable view now_steady now_wall symbol \<longleftrightarrow> state_for view now_steady now_wall symbol = MdLive"

definition require_tradable :: "market_view \<Rightarrow> int64 \<Rightarrow> int64 \<Rightarrow> string \<Rightarrow> unit result" where
  "require_tradable view now_steady now_wall symbol =
     (let st = state_for view now_steady now_wall symbol in
      if st = MdLive then Inr ()
      else Inl (make_error DataStale (''market data not tradable for '' @ symbol @ '': ''
        @ market_data_state_to_string st) []))"

definition view_ltp :: "market_view \<Rightarrow> string \<Rightarrow> price option" where
  "view_ltp view symbol =
     (case mv_entries view symbol of
        None \<Rightarrow> None | Some entry \<Rightarrow> if md_seen entry then Some (md_ltp entry) else None)"

definition handle_reconnect :: "market_view \<Rightarrow> reconnect_result \<Rightarrow> unit result \<times> market_view \<times> alert list" where
  "handle_reconnect view r =
     (case r of
        Reconnected \<Rightarrow> (Inr (), on_connect view, [])
      | TransportFailure \<Rightarrow> (Inr (), on_disconnect view, [])
      | AuthFailure \<Rightarrow>
          (Inl (make_error SessionExpired ''market-data WS auth failed; re-establish session'' []), on_disconnect view,
           [\<lparr>al_level = AlertError,
             al_message = ''market-data reconnect failed on auth; routing to session re-establishment (no socket retry)'',
             al_context = no_context\<rparr>]))"

section \<open>Resubscription guard\<close>

datatype token_feed_state = Subscribed | AwaitingFirstTick | FeedLive | MuteAfterResubscribe

fun token_feed_state_to_string :: "token_feed_state \<Rightarrow> string" where
  "token_feed_state_to_string Subscribed = ''subscribed''"
| "token_feed_state_to_string AwaitingFirstTick = ''awaiting_first_tick''"
| "token_feed_state_to_string FeedLive = ''live''"
| "token_feed_state_to_string MuteAfterResubscribe = ''mute_after_resubscribe''"

record guard_entry =
  ge_phase :: token_feed_state
  ge_deadline :: int64

record resubscribe_guard =
  rg_deadline_ms :: int64
  rg_tokens :: "(string \<times> guard_entry) list"

definition kMinDeadline :: int64 where "kMinDeadline = 1"

definition guard_init :: "int64 \<Rightarrow> resubscribe_guard" where
  "guard_init first_tick_deadline = \<lparr>rg_deadline_ms = max first_tick_deadline kMinDeadline, rg_tokens = []\<rparr>"

definition guard_resolve :: "guard_entry \<Rightarrow> int64 \<Rightarrow> token_feed_state" where
  "guard_resolve entry now =
     (if ge_phase entry = AwaitingFirstTick \<and> now > ge_deadline entry then MuteAfterResubscribe else ge_phase entry)"

definition guard_subscribe :: "resubscribe_guard \<Rightarrow> string \<Rightarrow> resubscribe_guard" where
  "guard_subscribe g token =
     (if map_of (rg_tokens g) token \<noteq> None then g
      else g \<lparr>rg_tokens := ordered_put token \<lparr>ge_phase = Subscribed, ge_deadline = 0\<rparr> (rg_tokens g)\<rparr>)"

definition guard_unsubscribe :: "resubscribe_guard \<Rightarrow> string \<Rightarrow> resubscribe_guard" where
  "guard_unsubscribe g token = g \<lparr>rg_tokens := filter (\<lambda>(t, _). t \<noteq> token) (rg_tokens g)\<rparr>"

definition on_reconnect :: "resubscribe_guard \<Rightarrow> int64 \<Rightarrow> string list \<times> resubscribe_guard" where
  "on_reconnect g now =
     (let deadline = now + rg_deadline_ms g * 1000000 in
      (map fst (rg_tokens g),
       g \<lparr>rg_tokens := map (\<lambda>(t, entry). (t, entry \<lparr>ge_phase := AwaitingFirstTick, ge_deadline := deadline\<rparr>)) (rg_tokens g)\<rparr>))"

definition record_tick :: "resubscribe_guard \<Rightarrow> string \<Rightarrow> resubscribe_guard" where
  "record_tick g token =
     (case map_of (rg_tokens g) token of
        None \<Rightarrow> g
      | Some entry \<Rightarrow> g \<lparr>rg_tokens := ordered_put token (entry \<lparr>ge_phase := FeedLive\<rparr>) (rg_tokens g)\<rparr>)"

definition token_state :: "resubscribe_guard \<Rightarrow> int64 \<Rightarrow> string \<Rightarrow> token_feed_state" where
  "token_state g now token =
     (case map_of (rg_tokens g) token of None \<Rightarrow> Subscribed | Some entry \<Rightarrow> guard_resolve entry now)"

definition mute_tokens :: "resubscribe_guard \<Rightarrow> int64 \<Rightarrow> string list" where
  "mute_tokens g now = map fst (filter (\<lambda>(_, entry). guard_resolve entry now = MuteAfterResubscribe) (rg_tokens g))"

definition token_is_tradable :: "resubscribe_guard \<Rightarrow> int64 \<Rightarrow> string \<Rightarrow> bool" where
  "token_is_tradable g now token \<longleftrightarrow> token_state g now token = FeedLive"

section \<open>Clock detector\<close>

datatype clock_status = ClockHealthy | ClockStalled | ClockSkewed

fun clock_status_to_string :: "clock_status \<Rightarrow> string" where
  "clock_status_to_string ClockHealthy = ''Healthy''"
| "clock_status_to_string ClockStalled = ''Stalled''"
| "clock_status_to_string ClockSkewed = ''Skewed''"

record skew_detector =
  sk_stall_threshold :: int64
  sk_skew_threshold :: int64
  sk_status :: clock_status
  sk_reason :: string
  sk_have_baseline :: bool
  sk_last_steady :: int64
  sk_last_wall :: int64

definition detector_init :: "int64 \<Rightarrow> int64 \<Rightarrow> skew_detector" where
  "detector_init stall skew = \<lparr>sk_stall_threshold = stall, sk_skew_threshold = skew, sk_status = ClockHealthy,
     sk_reason = [], sk_have_baseline = False, sk_last_steady = 0, sk_last_wall = 0\<rparr>"

definition abs_ns :: "int64 \<Rightarrow> int64" where
  "abs_ns v = (if v < 0 then - v else v)"

text \<open>\<^verbatim>\<open>duration_cast\<close> to milliseconds truncates toward zero.\<close>

definition ms_text :: "int64 \<Rightarrow> string" where
  "ms_text v = show_int (sgn v * (\<bar>v\<bar> div 1000000)) @ ''ms''"

definition clock_sample :: "skew_detector \<Rightarrow> int64 \<Rightarrow> int64 \<Rightarrow> clock_status \<times> skew_detector" where
  "clock_sample d steady_now wall_now =
     (if \<not> sk_have_baseline d then
        (sk_status d, d \<lparr>sk_have_baseline := True, sk_last_steady := steady_now, sk_last_wall := wall_now\<rparr>)
      else
        let steady_elapsed = steady_now - sk_last_steady d;
            wall_elapsed = wall_now - sk_last_wall d;
            d = d \<lparr>sk_last_steady := steady_now, sk_last_wall := wall_now\<rparr>
        in if steady_elapsed > sk_stall_threshold d then
             (ClockStalled, d \<lparr>sk_status := ClockStalled, sk_reason := ''main-loop stall: steady gap '' @ ms_text steady_elapsed
                @ '' exceeds threshold '' @ ms_text (sk_stall_threshold d)\<rparr>)
           else
             let divergence = abs_ns (wall_elapsed - steady_elapsed) in
             if divergence > sk_skew_threshold d then
               (ClockSkewed, d \<lparr>sk_status := ClockSkewed, sk_reason := ''clock skew: wall/steady divergence '' @ ms_text divergence
                  @ '' exceeds threshold '' @ ms_text (sk_skew_threshold d)\<rparr>)
             else (sk_status d, d))"

definition clock_reset :: "skew_detector \<Rightarrow> skew_detector" where
  "clock_reset d = d \<lparr>sk_status := ClockHealthy, sk_reason := [], sk_have_baseline := False,
     sk_last_steady := 0, sk_last_wall := 0\<rparr>"

section \<open>Watchdog\<close>

text \<open>The signals are those \<open>Modes\<close> derives the posture from.\<close>

fun health_signal_to_string :: "health_signal \<Rightarrow> string" where
  "health_signal_to_string HMuteFeed = ''MuteFeed''"
| "health_signal_to_string HDiskPressure = ''DiskPressure''"
| "health_signal_to_string HMemoryPressure = ''MemoryPressure''"
| "health_signal_to_string HHandlePressure = ''HandlePressure''"
| "health_signal_to_string HClockSkew = ''ClockSkew''"
| "health_signal_to_string HClockStall = ''ClockStall''"

record resource_usage =
  ru_disk_bytes :: int64
  ru_mem_bytes :: int64
  ru_handle_count :: int

record resource_limits =
  rl_max_disk_bytes :: int64
  rl_max_mem_bytes :: int64
  rl_max_handles :: int

record watchdog_inputs =
  wi_usage :: resource_usage
  wi_feed_connected_but_mute :: bool
  wi_clock_skew :: bool
  wi_clock_stall :: bool

record watchdog_verdict =
  wv_breaches :: "health_signal list"
  wv_detail :: string

definition normalize_limits :: "resource_limits \<Rightarrow> resource_limits" where
  "normalize_limits l = \<lparr>rl_max_disk_bytes = (if rl_max_disk_bytes l < 0 then 0 else rl_max_disk_bytes l),
     rl_max_mem_bytes = (if rl_max_mem_bytes l < 0 then 0 else rl_max_mem_bytes l),
     rl_max_handles = (if rl_max_handles l < 0 then 0 else rl_max_handles l)\<rparr>"

definition flag_breach ::
    "bool \<Rightarrow> health_signal \<Rightarrow> alert_level \<Rightarrow> string \<Rightarrow> watchdog_verdict \<times> alert list \<Rightarrow> watchdog_verdict \<times> alert list" where
  "flag_breach cond s level note = (\<lambda>(v, alerts).
     if cond then (v \<lparr>wv_breaches := wv_breaches v @ [s],
         wv_detail := (if wv_detail v = [] then note else wv_detail v @ ''; '' @ note)\<rparr>,
       alerts @ [\<lparr>al_level = level, al_message = note, al_context = no_context\<rparr>])
     else (v, alerts))"

definition usage_tag :: "int64 \<Rightarrow> int64 \<Rightarrow> string" where
  "usage_tag usage limit = ''usage='' @ show_int usage @ '' limit='' @ show_int limit"

definition watchdog_check :: "resource_limits \<Rightarrow> watchdog_inputs \<Rightarrow> watchdog_verdict \<times> alert list" where
  "watchdog_check limits inp =
     (let l = normalize_limits limits; u = wi_usage inp in
      (flag_breach (wi_clock_stall inp) HClockStall AlertCritical
         (health_signal_to_string HClockStall @ '' main-loop clock stall detected'')
       \<circ> flag_breach (wi_clock_skew inp) HClockSkew AlertCritical
         (health_signal_to_string HClockSkew @ '' wall clock skew detected'')
       \<circ> flag_breach (rl_max_handles l > 0 \<and> ru_handle_count u > rl_max_handles l) HHandlePressure AlertError
         (health_signal_to_string HHandlePressure @ '' '' @ usage_tag (ru_handle_count u) (rl_max_handles l))
       \<circ> flag_breach (rl_max_mem_bytes l > 0 \<and> ru_mem_bytes u > rl_max_mem_bytes l) HMemoryPressure AlertError
         (health_signal_to_string HMemoryPressure @ '' '' @ usage_tag (ru_mem_bytes u) (rl_max_mem_bytes l))
       \<circ> flag_breach (rl_max_disk_bytes l > 0 \<and> ru_disk_bytes u > rl_max_disk_bytes l) HDiskPressure AlertError
         (health_signal_to_string HDiskPressure @ '' '' @ usage_tag (ru_disk_bytes u) (rl_max_disk_bytes l))
       \<circ> flag_breach (wi_feed_connected_but_mute inp) HMuteFeed AlertCritical
         (health_signal_to_string HMuteFeed @ '' feed connected but no fresh tick past threshold''))
      (\<lparr>wv_breaches = [], wv_detail = []\<rparr>, []))"

definition verdict_healthy :: "watchdog_verdict \<Rightarrow> bool" where
  "verdict_healthy v \<longleftrightarrow> wv_breaches v = []"

definition degrade_to_exit_only :: "watchdog_verdict \<Rightarrow> bool" where
  "degrade_to_exit_only v \<longleftrightarrow> wv_breaches v \<noteq> []"

definition feed_connected_but_mute :: "market_view \<Rightarrow> int64 \<Rightarrow> int64 \<Rightarrow> string \<Rightarrow> bool" where
  "feed_connected_but_mute view now_steady now_wall symbol \<longleftrightarrow> state_for view now_steady now_wall symbol = MdStale"

section \<open>Live prices\<close>

datatype feed_event =
    FeedTick market_tick int64
  | FeedConnect
  | FeedDisconnect
  | FeedReconnect reconnect_result

fun feed_step :: "market_view \<Rightarrow> feed_event \<Rightarrow> market_view" where
  "feed_step view (FeedTick t now) = on_tick view t now"
| "feed_step view FeedConnect = on_connect view"
| "feed_step view FeedDisconnect = on_disconnect view"
| "feed_step view (FeedReconnect r) = fst (snd (handle_reconnect view r))"

fun feed_touches :: "feed_event \<Rightarrow> string \<Rightarrow> bool" where
  "feed_touches (FeedTick t now) symbol \<longleftrightarrow> tk_symbol t = symbol"
| "feed_touches _ symbol \<longleftrightarrow> False"

fun entry_step :: "md_entry option \<Rightarrow> feed_event \<Rightarrow> md_entry option" where
  "entry_step entry (FeedTick t now) = Some (take_tick t now (case entry of None \<Rightarrow> fresh_entry | Some e \<Rightarrow> e))"
| "entry_step entry _ = entry"

lemma feed_step_entries:
  "mv_entries (feed_step view e) symbol
     = (if feed_touches e symbol then entry_step (mv_entries view symbol) e else mv_entries view symbol)"
  by (cases e) (auto simp: on_tick_def on_connect_def on_disconnect_def handle_reconnect_def Let_def split: reconnect_result.splits)

interpretation feed: keyed_state feed_step mv_entries feed_touches entry_step
  by unfold_locales (rule feed_step_entries)

fun ticks_of :: "string \<Rightarrow> feed_event list \<Rightarrow> (market_tick \<times> int64) list" where
  "ticks_of symbol [] = []"
| "ticks_of symbol (FeedTick t now # es) = (if tk_symbol t = symbol then [(t, now)] else []) @ ticks_of symbol es"
| "ticks_of symbol (_ # es) = ticks_of symbol es"

text \<open>The tick an entry shows: the first of those with the latest exchange time.\<close>

definition newest :: "(market_tick \<times> int64) list \<Rightarrow> market_tick \<times> int64 \<Rightarrow> bool" where
  "newest ticks tn \<longleftrightarrow> (\<exists>pre post. ticks = pre @ tn # post
     \<and> (\<forall>(t, _) \<in> set pre. tk_exchange_ts t < tk_exchange_ts (fst tn))
     \<and> (\<forall>(t, _) \<in> set post. tk_exchange_ts t \<le> tk_exchange_ts (fst tn)))"

definition shows_tick :: "md_entry \<Rightarrow> market_tick \<times> int64 \<Rightarrow> bool" where
  "shows_tick e tn \<longleftrightarrow> e = \<lparr>md_ltp = tk_ltp (fst tn), md_exchange_ts = tk_exchange_ts (fst tn),
     md_received_at = snd tn, md_seen = True\<rparr>"

lemma newest_unique: "newest ticks a \<Longrightarrow> newest ticks b \<Longrightarrow> a = b"
  unfolding newest_def
proof (elim exE conjE)
  fix p q p' q' assume a: "ticks = p @ a # q" "\<forall>(t, _) \<in> set p. tk_exchange_ts t < tk_exchange_ts (fst a)"
      "\<forall>(t, _) \<in> set q. tk_exchange_ts t \<le> tk_exchange_ts (fst a)"
    and b: "ticks = p' @ b # q'" "\<forall>(t, _) \<in> set p'. tk_exchange_ts t < tk_exchange_ts (fst b)"
      "\<forall>(t, _) \<in> set q'. tk_exchange_ts t \<le> tk_exchange_ts (fst b)"
  from a(1) b(1) have "p @ a # q = p' @ b # q'" by simp
  then consider "p = p' \<and> a = b" | "b \<in> set p \<and> a \<in> set q'" | "a \<in> set p' \<and> b \<in> set q"
    by (auto simp: append_eq_append_conv2 Cons_eq_append_conv append_eq_Cons_conv)
  then show "a = b" using a b by cases (fastforce simp: split_beta)+
qed

lemma newest_keep: "newest ticks tn \<Longrightarrow> tk_exchange_ts (fst x) \<le> tk_exchange_ts (fst tn) \<Longrightarrow> newest (ticks @ [x]) tn"
proof -
  assume n: "newest ticks tn" and x: "tk_exchange_ts (fst x) \<le> tk_exchange_ts (fst tn)"
  obtain pre post where p: "ticks = pre @ tn # post" "\<forall>(t, _) \<in> set pre. tk_exchange_ts t < tk_exchange_ts (fst tn)"
    "\<forall>(t, _) \<in> set post. tk_exchange_ts t \<le> tk_exchange_ts (fst tn)"
    using n unfolding newest_def by blast
  then have "ticks @ [x] = pre @ tn # (post @ [x])" "\<forall>(t, _) \<in> set (post @ [x]). tk_exchange_ts t \<le> tk_exchange_ts (fst tn)"
    using x by (simp_all add: split_beta)
  then show ?thesis unfolding newest_def using p(2) by (intro exI [of _ pre] exI [of _ "post @ [x]"]) simp
qed

lemma newest_take: "\<forall>(t, _) \<in> set ticks. tk_exchange_ts t < tk_exchange_ts (fst x) \<Longrightarrow> newest (ticks @ [x]) x"
  unfolding newest_def by (intro exI [of _ ticks] exI [of _ "[]"]) simp

lemma newest_max:
  assumes "newest ticks tn" "(t, n) \<in> set ticks"
  shows "tk_exchange_ts t \<le> tk_exchange_ts (fst tn)"
proof -
  obtain pre post where p: "ticks = pre @ tn # post" "\<forall>(t, _) \<in> set pre. tk_exchange_ts t < tk_exchange_ts (fst tn)"
    "\<forall>(t, _) \<in> set post. tk_exchange_ts t \<le> tk_exchange_ts (fst tn)"
    using assms(1) unfolding newest_def by blast
  consider "(t, n) \<in> set pre" | "(t, n) = tn" | "(t, n) \<in> set post" using assms(2) p(1) by auto
  then show ?thesis
  proof cases
    case 1
    then show ?thesis using bspec [OF p(2)] by fastforce
  next
    case 2
    then show ?thesis by auto
  next
    case 3
    then show ?thesis using bspec [OF p(3)] by fastforce
  qed
qed

lemma entry_run:
  "(case mv_entries (foldl feed_step (market_view_init st dl) es) symbol of
      None \<Rightarrow> ticks_of symbol es = []
    | Some e \<Rightarrow> \<exists>tn. newest (ticks_of symbol es) tn \<and> shows_tick e tn)"
proof (induction es rule: rev_induct)
  case Nil
  then show ?case by (simp add: market_view_init_def)
next
  case (snoc e es)
  have app: "ticks_of symbol (es @ [e]) = ticks_of symbol es @ ticks_of symbol [e]" for e
    by (induction symbol es rule: ticks_of.induct) auto
  let ?v = "foldl feed_step (market_view_init st dl) es"
  show ?case
  proof (cases "feed_touches e symbol")
    case False
    then have "ticks_of symbol [e] = []" by (cases e) auto
    then show ?thesis using snoc False by (simp add: feed_step_entries app split: option.splits)
  next
    case True
    then obtain t now where e: "e = FeedTick t now" "tk_symbol t = symbol" by (cases e) auto
    show ?thesis
    proof (cases "mv_entries ?v symbol")
      case None
      then have "ticks_of symbol es = []" using snoc by simp
      moreover have "newest [(t, now)] (t, now)" using newest_take [of "[]" "(t, now)"] by simp
      ultimately show ?thesis using None e
        by (auto simp: app on_tick_def take_tick_def fresh_entry_def shows_tick_def)
    next
      case (Some old)
      then obtain u m where tn: "newest (ticks_of symbol es) (u, m)" "shows_tick old (u, m)" using snoc by auto
      show ?thesis
      proof (cases "tk_exchange_ts t \<le> tk_exchange_ts u")
        case True
        then show ?thesis using tn Some e
          newest_keep [OF tn(1), of "(t, now)"]
          by (auto simp: app on_tick_def take_tick_def shows_tick_def intro!: exI [of _ u] exI [of _ m])
      next
        case False
        then have "\<forall>(u, _) \<in> set (ticks_of symbol es). tk_exchange_ts u < tk_exchange_ts t"
          using newest_max [OF tn(1)] by fastforce
        then have "newest (ticks_of symbol es @ [(t, now)]) (t, now)" by (intro newest_take) simp
        moreover have "take_tick t now old = \<lparr>md_ltp = tk_ltp t, md_exchange_ts = tk_exchange_ts t, md_received_at = now, md_seen = True\<rparr>"
          using False tn(2) by (simp add: take_tick_def shows_tick_def)
        ultimately show ?thesis using Some e by (auto simp: app on_tick_def shows_tick_def)
      qed
    qed
  qed
qed

definition connected_after :: "bool \<Rightarrow> feed_event \<Rightarrow> bool" where
  "connected_after c e = (case e of FeedTick _ _ \<Rightarrow> c | FeedConnect \<Rightarrow> True | FeedDisconnect \<Rightarrow> False
     | FeedReconnect r \<Rightarrow> r = Reconnected)"

lemma view_fields:
  "mv_connected (foldl feed_step view es) = foldl connected_after (mv_connected view) es
   \<and> mv_staleness_ms (foldl feed_step view es) = mv_staleness_ms view \<and> mv_delay_ms (foldl feed_step view es) = mv_delay_ms view"
proof (induction es arbitrary: view)
  case (Cons e es)
  have "mv_connected (feed_step view e) = connected_after (mv_connected view) e
      \<and> mv_staleness_ms (feed_step view e) = mv_staleness_ms view \<and> mv_delay_ms (feed_step view e) = mv_delay_ms view"
    by (cases e) (auto simp: connected_after_def on_tick_def on_connect_def on_disconnect_def handle_reconnect_def Let_def
        split: reconnect_result.splits)
  then show ?case using Cons by simp
qed simp

text \<open>
  An entry is priced off a live feed or not at all.  After any sequence of ticks and connection events a
  symbol is tradable exactly when the socket is up, and the newest tick of the symbol (the first with the
  latest exchange time) arrived within the staleness threshold on the monotonic clock and left the
  exchange within the delay threshold on the wall clock; an older or repeated tick changes nothing.  The
  last price is that of the same tick, and the gate for entries answers alike.
\<close>

theorem live_prices_exact:
  fixes st dl es symbol now wall
  defines "view \<equiv> foldl feed_step (market_view_init st dl) es"
  shows "(md_is_tradable view now wall symbol \<longleftrightarrow> foldl connected_after False es
      \<and> (\<exists>tn. newest (ticks_of symbol es) tn \<and> now - snd tn \<le> st * 1000000
           \<and> wall - tk_exchange_ts (fst tn) \<le> dl * 1000000))
    \<and> (view_ltp view symbol = Some p \<longleftrightarrow> (\<exists>tn. newest (ticks_of symbol es) tn \<and> tk_ltp (fst tn) = p))
    \<and> (require_tradable view now wall symbol = Inr () \<longleftrightarrow> md_is_tradable view now wall symbol)"
proof -
  note f = view_fields [of "market_view_init st dl" es, folded view_def]
  have init: "mv_connected (market_view_init st dl) = False" "mv_staleness_ms (market_view_init st dl) = st"
    "mv_delay_ms (market_view_init st dl) = dl" by (simp_all add: market_view_init_def)
  note fields = f [unfolded init]
  note run = entry_run [where st = st and dl = dl and es = es and symbol = symbol, folded view_def]
  have none: "\<not> newest [] tn" for tn by (simp add: newest_def)
  show ?thesis
  proof (cases "mv_entries view symbol")
    case None
    then show ?thesis using run none by (simp add: md_is_tradable_def require_tradable_def state_for_def view_ltp_def Let_def)
  next
    case (Some e)
    then obtain tn where tn: "newest (ticks_of symbol es) tn" "shows_tick e tn" using run by auto
    have only: "(\<exists>x. newest (ticks_of symbol es) x \<and> P x) \<longleftrightarrow> P tn" for P
      using tn(1) newest_unique by blast
    show ?thesis unfolding only using Some tn(2) fields
      by (auto simp: md_is_tradable_def require_tradable_def state_for_def view_ltp_def shows_tick_def Let_def)
  qed
qed

section \<open>Tokens after a reconnect\<close>

datatype guard_event =
    GSubscribe string
  | GUnsubscribe string
  | GReconnect int64
  | GTick string

fun guard_step :: "resubscribe_guard \<Rightarrow> guard_event \<Rightarrow> resubscribe_guard" where
  "guard_step g (GSubscribe t) = guard_subscribe g t"
| "guard_step g (GUnsubscribe t) = guard_unsubscribe g t"
| "guard_step g (GReconnect now) = snd (on_reconnect g now)"
| "guard_step g (GTick t) = record_tick g t"

definition guard_run :: "int64 \<Rightarrow> guard_event list \<Rightarrow> resubscribe_guard" where
  "guard_run dl es = foldl guard_step (guard_init dl) es"

fun guard_touches :: "guard_event \<Rightarrow> string \<Rightarrow> bool" where
  "guard_touches (GSubscribe t) token \<longleftrightarrow> t = token"
| "guard_touches (GUnsubscribe t) token \<longleftrightarrow> t = token"
| "guard_touches (GReconnect now) token \<longleftrightarrow> True"
| "guard_touches (GTick t) token \<longleftrightarrow> t = token"

definition token_entry :: "resubscribe_guard \<Rightarrow> string \<Rightarrow> int64 \<times> guard_entry option" where
  "token_entry g token = (rg_deadline_ms g, map_of (rg_tokens g) token)"

fun token_step :: "int64 \<times> guard_entry option \<Rightarrow> guard_event \<Rightarrow> int64 \<times> guard_entry option" where
  "token_step (d, entry) (GSubscribe _) =
     (d, Some (case entry of None \<Rightarrow> \<lparr>ge_phase = Subscribed, ge_deadline = 0\<rparr> | Some e \<Rightarrow> e))"
| "token_step (d, entry) (GUnsubscribe _) = (d, None)"
| "token_step (d, entry) (GReconnect now) =
     (d, map_option (\<lambda>e. e \<lparr>ge_phase := AwaitingFirstTick, ge_deadline := now + d * 1000000\<rparr>) entry)"
| "token_step (d, entry) (GTick _) = (d, map_option (\<lambda>e. e \<lparr>ge_phase := FeedLive\<rparr>) entry)"

lemma map_of_map_entry: "map_of (map (\<lambda>(k, v). (k, h v)) es) k = map_option h (map_of es k)"
  by (induction es) auto

lemma map_of_remove: "map_of (filter (\<lambda>(k, _). k \<noteq> a) es) b = (if b = a then None else map_of es b)"
  by (induction es) auto

lemma token_entry_step:
  "token_entry (guard_step g e) token
     = (if guard_touches e token then token_step (token_entry g token) e else token_entry g token)"
  by (cases e) (auto simp: token_entry_def guard_subscribe_def guard_unsubscribe_def on_reconnect_def record_tick_def
      map_of_map_entry map_of_remove Let_def split: option.splits)

interpretation guard: keyed_state guard_step token_entry guard_touches token_step
  by unfold_locales (rule token_entry_step)

definition token_held :: "string \<Rightarrow> guard_event list \<Rightarrow> bool" where
  "token_held token = since (\<lambda>_ e. e = GSubscribe token) (\<lambda>e. e = GUnsubscribe token)"

definition drops :: "string \<Rightarrow> guard_event \<Rightarrow> bool" where
  "drops token e \<longleftrightarrow> e = GUnsubscribe token \<or> (\<exists>now. e = GReconnect now)"

definition ticked :: "string \<Rightarrow> guard_event list \<Rightarrow> bool" where
  "ticked token = since (\<lambda>pre e. e = GTick token \<and> token_held token pre) (drops token)"

definition silent :: "int64 \<Rightarrow> string \<Rightarrow> int64 \<Rightarrow> guard_event list \<Rightarrow> bool" where
  "silent dl token due = since
     (\<lambda>pre e. \<exists>n. e = GReconnect n \<and> token_held token pre \<and> due = n + max dl kMinDeadline * 1000000)
     (\<lambda>e. drops token e \<or> e = GTick token)"

lemma guard_deadline: "rg_deadline_ms (guard_run dl es) = max dl kMinDeadline"
proof (induction es rule: rev_induct)
  case (snoc e es)
  have "rg_deadline_ms (guard_step g e) = rg_deadline_ms g" for g
    by (cases e) (auto simp: guard_subscribe_def guard_unsubscribe_def on_reconnect_def record_tick_def Let_def split: option.splits)
  then show ?case using snoc by (simp add: guard_run_def)
qed (simp add: guard_run_def guard_init_def)

lemma guard_sorted: "keys_sorted (rg_tokens (guard_run dl es))"
proof (induction es rule: rev_induct)
  case (snoc e es)
  have "keys_sorted (rg_tokens (guard_step g e))" if "keys_sorted (rg_tokens g)" for g
    using that by (cases e) (auto simp: guard_subscribe_def guard_unsubscribe_def on_reconnect_def record_tick_def Let_def
        keys_sorted_filter keys_sorted_map_snd [of "\<lambda>_ entry. entry \<lparr>ge_phase := AwaitingFirstTick, ge_deadline := _\<rparr>"] split: option.splits)
  then show ?case using snoc by (simp add: guard_run_def)
qed (simp add: guard_run_def guard_init_def)

lemma token_run:
  "case map_of (rg_tokens (guard_run dl es)) token of
     None \<Rightarrow> \<not> token_held token es \<and> \<not> ticked token es \<and> \<not> silent dl token due es
   | Some e \<Rightarrow> token_held token es \<and> ge_phase e \<noteq> MuteAfterResubscribe
       \<and> (ge_phase e = FeedLive \<longleftrightarrow> ticked token es)
       \<and> (ge_phase e = AwaitingFirstTick \<and> ge_deadline e = due \<longleftrightarrow> silent dl token due es)"
proof (induction es rule: rev_induct)
  case Nil
  then show ?case by (simp add: guard_run_def guard_init_def token_held_def ticked_def silent_def)
next
  case (snoc e es)
  have te: "map_of (rg_tokens (guard_run dl (es @ [e]))) token =
      (if guard_touches e token then snd (token_step (max dl kMinDeadline, map_of (rg_tokens (guard_run dl es)) token) e)
       else map_of (rg_tokens (guard_run dl es)) token)"
    using token_entry_step [of "guard_run dl es" e token] guard_deadline [of dl es]
    by (auto simp: token_entry_def guard_run_def split: if_splits) (metis snd_conv)
  show ?case using snoc unfolding te
    by (cases e; cases "map_of (rg_tokens (guard_run dl es)) token")
      (auto simp: token_held_def ticked_def silent_def drops_def)
qed

text \<open>C40. 
  After a reconnect only a tick makes a token tradable again.  A token is tradable exactly when it
  ticked while subscribed and was neither dropped nor covered by a reconnect since; it is reported mute
  exactly when the last reconnect found it subscribed, its deadline (never below one millisecond) has
  passed, and it has not ticked since; and a reconnect asks again for exactly the subscribed tokens, in
  order and once each.
\<close>

theorem tradable_after_reconnect_exact:
  fixes dl es token now
  defines "g \<equiv> guard_run dl es"
  shows "(token_is_tradable g now token \<longleftrightarrow>
        since (\<lambda>pre e. e = GTick token \<and> token_held token pre) (drops token) es)
    \<and> (token \<in> set (mute_tokens g now) \<longleftrightarrow>
        since (\<lambda>pre e. \<exists>n. e = GReconnect n \<and> token_held token pre \<and> n + max dl kMinDeadline * 1000000 < now)
          (\<lambda>e. drops token e \<or> e = GTick token) es)
    \<and> (token \<in> set (fst (on_reconnect g now)) \<longleftrightarrow> token_held token es)
    \<and> sorted_wrt (<) (fst (on_reconnect g now)) \<and> distinct (mute_tokens g now)"
proof -
  have sorted: "keys_sorted (rg_tokens g)" unfolding g_def by (rule guard_sorted)
  then have dist: "distinct (map fst (rg_tokens g))" by (rule keys_sorted_distinct)
  have due: "since (\<lambda>pre e. \<exists>n. e = GReconnect n \<and> token_held token pre \<and> n + max dl kMinDeadline * 1000000 < now)
      (\<lambda>e. drops token e \<or> e = GTick token) es \<longleftrightarrow> (\<exists>d. silent dl token d es \<and> d < now)"
    unfolding silent_def since_def by blast
  have mem: "token \<in> set (mute_tokens g now) \<longleftrightarrow>
      (\<exists>e. map_of (rg_tokens g) token = Some e \<and> guard_resolve e now = MuteAfterResubscribe)"
    using dist by (auto simp: mute_tokens_def image_iff split_beta intro: map_of_SomeD)
  have "(token_is_tradable g now token \<longleftrightarrow> ticked token es)
    \<and> (token \<in> set (mute_tokens g now) \<longleftrightarrow> (\<exists>d. silent dl token d es \<and> d < now))
    \<and> (token \<in> fst ` set (rg_tokens g) \<longleftrightarrow> token_held token es)"
  proof (cases "map_of (rg_tokens g) token")
    case None
    then have "\<not> token_held token es \<and> \<not> ticked token es \<and> \<not> silent dl token d es" for d
      using token_run [where dl = dl and es = es and token = token and due = d, folded g_def] by simp
    then show ?thesis using None mem by (simp add: token_is_tradable_def token_state_def) (simp add: map_of_eq_None_iff)
  next
    case (Some e)
    have run: "token_held token es \<and> ge_phase e \<noteq> MuteAfterResubscribe \<and> (ge_phase e = FeedLive \<longleftrightarrow> ticked token es)
        \<and> (ge_phase e = AwaitingFirstTick \<and> ge_deadline e = d \<longleftrightarrow> silent dl token d es)" for d
      using token_run [where dl = dl and es = es and token = token and due = d, folded g_def] Some by simp
    have "token \<in> fst ` set (rg_tokens g)" using Some by (force dest: map_of_SomeD)
    moreover have "guard_resolve e now = MuteAfterResubscribe \<longleftrightarrow> (\<exists>d. silent dl token d es \<and> d < now)"
    proof
      assume "\<exists>d. silent dl token d es \<and> d < now"
      then obtain d where "silent dl token d es" "d < now" by blast
      then show "guard_resolve e now = MuteAfterResubscribe" using run [of d] by (auto simp: guard_resolve_def)
    next
      assume "guard_resolve e now = MuteAfterResubscribe"
      then have "ge_phase e = AwaitingFirstTick" "ge_deadline e < now"
        using run [of 0] by (auto simp: guard_resolve_def split: if_splits)
      then show "\<exists>d. silent dl token d es \<and> d < now" using run [of "ge_deadline e"] by blast
    qed
    moreover have "guard_resolve e now = FeedLive \<longleftrightarrow> ge_phase e = FeedLive" by (simp add: guard_resolve_def)
    ultimately show ?thesis using Some run mem by (simp add: token_is_tradable_def token_state_def)
  qed
  moreover have "distinct (mute_tokens g now)"
    unfolding mute_tokens_def using dist by (rule distinct_map_filter)
  moreover have "sorted_wrt (<) (fst (on_reconnect g now))"
    using sorted by (simp add: on_reconnect_def Let_def keys_sorted_def)
  moreover have "set (fst (on_reconnect g now)) = fst ` set (rg_tokens g)" by (simp add: on_reconnect_def Let_def)
  ultimately show ?thesis unfolding due ticked_def by simp
qed

text \<open>A tick counts also before any reconnect: the token is tradable though nothing armed its verification.\<close>

lemma tick_before_reconnect_is_live: "token_is_tradable (guard_run dl [GSubscribe t, GTick t]) now t"
  by (simp add: guard_run_def guard_init_def guard_subscribe_def record_tick_def token_is_tradable_def token_state_def guard_resolve_def)

section \<open>Clock faults and the verdict\<close>

text \<open>A clock fault is visible until it is reset: no sequence of samples brings the status back to healthy.\<close>

lemma clock_sample_latches: "sk_status d \<noteq> ClockHealthy \<Longrightarrow> sk_status (snd (clock_sample d s w)) \<noteq> ClockHealthy"
  by (simp add: clock_sample_def Let_def)

lemma clock_fault_latches:
  "sk_status d \<noteq> ClockHealthy \<Longrightarrow> sk_status (foldl (\<lambda>d (s, w). snd (clock_sample d s w)) d samples) \<noteq> ClockHealthy"
  by (induction samples arbitrary: d) (simp_all add: split_beta clock_sample_latches)

text \<open>The last fault wins, not the worst: an interval that is only skewed replaces a stall.\<close>

lemma skew_overwrites_stall:
  assumes "sk_status d = ClockStalled" "sk_have_baseline d" "s - sk_last_steady d \<le> sk_stall_threshold d"
    and "sk_skew_threshold d < \<bar>(w - sk_last_wall d) - (s - sk_last_steady d)\<bar>"
  shows "sk_status (snd (clock_sample d s w)) = ClockSkewed"
  using assms by (simp add: clock_sample_def Let_def abs_ns_def abs_if split: if_splits)

text \<open>
  The verdict lists the signals that are breached in the fixed order, with one alert for each; any of
  them degrades to exits only.
\<close>

lemma watchdog_exact:
  "wv_breaches (fst (watchdog_check limits inp)) = filter (\<lambda>s. case s of
      HMuteFeed \<Rightarrow> wi_feed_connected_but_mute inp
    | HDiskPressure \<Rightarrow> 0 < rl_max_disk_bytes limits \<and> rl_max_disk_bytes limits < ru_disk_bytes (wi_usage inp)
    | HMemoryPressure \<Rightarrow> 0 < rl_max_mem_bytes limits \<and> rl_max_mem_bytes limits < ru_mem_bytes (wi_usage inp)
    | HHandlePressure \<Rightarrow> 0 < rl_max_handles limits \<and> rl_max_handles limits < ru_handle_count (wi_usage inp)
    | HClockSkew \<Rightarrow> wi_clock_skew inp | HClockStall \<Rightarrow> wi_clock_stall inp)
      [HMuteFeed, HDiskPressure, HMemoryPressure, HHandlePressure, HClockSkew, HClockStall]
   \<and> length (snd (watchdog_check limits inp)) = length (wv_breaches (fst (watchdog_check limits inp)))"
proof -
  have flag: "wv_breaches (fst (flag_breach c s l n va)) = wv_breaches (fst va) @ (if c then [s] else [])"
    "length (snd (flag_breach c s l n va)) = length (snd va) + (if c then 1 else 0)" for c s l n va
    by (simp_all add: flag_breach_def split_beta)
  have one: "filter P (x # xs) = (if P x then [x] else []) @ filter P xs" for P :: "health_signal \<Rightarrow> bool" and x xs by simp
  have lim: "0 < (if x < 0 then 0 else x) \<and> (if x < 0 then 0 else x) < u \<longleftrightarrow> 0 < x \<and> x < u" for x u :: int by auto
  have len: "length (if c then [s] else []) = (if c then 1 else 0)" for c and s :: health_signal by simp
  have b: "wv_breaches (fst (watchdog_check limits inp)) = (if wi_feed_connected_but_mute inp then [HMuteFeed] else [])
      @ (if 0 < rl_max_disk_bytes limits \<and> rl_max_disk_bytes limits < ru_disk_bytes (wi_usage inp) then [HDiskPressure] else [])
      @ (if 0 < rl_max_mem_bytes limits \<and> rl_max_mem_bytes limits < ru_mem_bytes (wi_usage inp) then [HMemoryPressure] else [])
      @ (if 0 < rl_max_handles limits \<and> rl_max_handles limits < ru_handle_count (wi_usage inp) then [HHandlePressure] else [])
      @ (if wi_clock_skew inp then [HClockSkew] else []) @ (if wi_clock_stall inp then [HClockStall] else [])"
    by (simp only: watchdog_check_def Let_def o_apply flag normalize_limits_def resource_limits.simps lim
        watchdog_verdict.simps fst_conv append_Nil append_assoc)
  have a: "length (snd (watchdog_check limits inp)) = length (wv_breaches (fst (watchdog_check limits inp)))"
    by (simp only: watchdog_check_def Let_def o_apply flag watchdog_verdict.simps fst_conv snd_conv append_Nil
        length_append len list.size add_0)
  show ?thesis using a unfolding b one by (simp only: health_signal.case filter.simps append_Nil2)
qed

text \<open>With the posture derived from the verdict, entries are allowed only while nothing is breached.\<close>

lemma breach_blocks_entries:
  "allows_entries (evaluate_posture (map from_health (wv_breaches v)) operator_floor)
     \<longleftrightarrow> verdict_healthy v \<and> operator_floor = NormalPosture"
  by (simp add: allows_entries_def evaluate_posture_Normal verdict_healthy_def)

end
