(* ===== verification/Capabilities.thy ===== *)
theory Capabilities
  imports Ports
begin

text \<open>
  \<^verbatim>\<open>capabilities/capabilities.cpp\<close>, what a broker is certified to support, and its client
  \<^verbatim>\<open>options/margin_shock.cpp\<close>, which refuses a basket whose stressed margin would cross the broker's
  automatic square-off line.  A support table is a total function on capabilities.
\<close>

datatype capability =
    CapPlaceOrder | CapModifyOrder | CapCancelOrder | CapSquareOff | CapBasketMargin | CapOrderUpdateWebsocket
  | CapHeadlessSessionRefresh | CapGttOrders | CapAmoOrders | CapCoverOrder | CapBracketOrder | CapTagCarry | CapMarginShockSim

datatype support = SupportUnknown | Supported | Unsupported

fun capability_to_string :: "capability \<Rightarrow> string" where
  "capability_to_string CapPlaceOrder = ''place_order''"
| "capability_to_string CapModifyOrder = ''modify_order''"
| "capability_to_string CapCancelOrder = ''cancel_order''"
| "capability_to_string CapSquareOff = ''square_off''"
| "capability_to_string CapBasketMargin = ''basket_margin''"
| "capability_to_string CapOrderUpdateWebsocket = ''order_update_websocket''"
| "capability_to_string CapHeadlessSessionRefresh = ''headless_session_refresh''"
| "capability_to_string CapGttOrders = ''gtt_orders''"
| "capability_to_string CapAmoOrders = ''amo_orders''"
| "capability_to_string CapCoverOrder = ''cover_order''"
| "capability_to_string CapBracketOrder = ''bracket_order''"
| "capability_to_string CapTagCarry = ''tag_carry''"
| "capability_to_string CapMarginShockSim = ''margin_shock_sim''"

fun support_to_string :: "support \<Rightarrow> string" where
  "support_to_string Supported = ''supported''"
| "support_to_string Unsupported = ''unsupported''"
| "support_to_string SupportUnknown = ''unknown''"

type_synonym capability_set = "capability \<Rightarrow> support"

definition empty_set_of_capabilities :: capability_set where
  "empty_set_of_capabilities = (\<lambda>_. SupportUnknown)"

definition build_capabilities :: "(capability \<times> support) list \<Rightarrow> capability_set" where
  "build_capabilities entries = foldl (\<lambda>s (cap, sup). s(cap := sup)) empty_set_of_capabilities entries"

definition supports :: "capability_set \<Rightarrow> capability \<Rightarrow> bool" where
  "supports s cap \<longleftrightarrow> s cap = Supported"

definition not_supported_error :: "capability \<Rightarrow> error" where
  "not_supported_error cap =
     (let quote = [CHR 0x27] in
      (make_error NotSupported (''capability '' @ quote @ capability_to_string cap @ quote
         @ '' is not supported by this broker (reject-only; no substitution)'') []) \<lparr>err_action := DoNotRetry\<rparr>)"

definition require_capability :: "capability_set \<Rightarrow> capability \<Rightarrow> unit result" where
  "require_capability s cap = (if supports s cap then Inr () else Inl (not_supported_error cap))"

fun require_all :: "capability_set \<Rightarrow> capability list \<Rightarrow> unit result" where
  "require_all s [] = Inr ()"
| "require_all s (cap # caps) = (if \<not> supports s cap then Inl (not_supported_error cap) else require_all s caps)"

definition kite_capabilities :: capability_set where
  "kite_capabilities = build_capabilities [(CapPlaceOrder, Supported), (CapModifyOrder, Supported),
     (CapCancelOrder, Supported), (CapSquareOff, Supported), (CapHeadlessSessionRefresh, Unsupported)]"

definition kotak_capabilities :: capability_set where
  "kotak_capabilities = build_capabilities []"

lemma require_all_exact:
  "require_all s caps = (case find (\<lambda>c. \<not> supports s c) caps of None \<Rightarrow> Inr () | Some c \<Rightarrow> Inl (not_supported_error c))"
  by (induction caps) auto

lemma certified_capabilities:
  "supports kite_capabilities cap \<longleftrightarrow> cap \<in> {CapPlaceOrder, CapModifyOrder, CapCancelOrder, CapSquareOff}"
  "\<not> supports kotak_capabilities cap"
  by (cases cap) (simp_all add: supports_def kite_capabilities_def kotak_capabilities_def build_capabilities_def
      empty_set_of_capabilities_def)

section \<open>Margin shock\<close>

record shock_margin_model =
  sm_margin_now :: money
  sm_margin_under_shock :: money

record margin_shock_inputs =
  si_available_margin :: money
  si_basket_is_net_short :: bool

datatype margin_shock_outcome =
  WithinShockLimit | BlockedMarginShock | BlockedUnavailableNetShort | AllowedUnavailableBounded

record margin_shock_result =
  sr_outcome :: margin_shock_outcome
  sr_span_available :: bool
  sr_margin_now :: money
  sr_margin_under_shock :: money
  sr_available_margin :: money
  sr_blocked :: bool
  sr_detail :: string

fun shock_is_blocking :: "margin_shock_outcome \<Rightarrow> bool" where
  "shock_is_blocking BlockedMarginShock = True"
| "shock_is_blocking BlockedUnavailableNetShort = True"
| "shock_is_blocking _ = False"

fun margin_shock_outcome_to_string :: "margin_shock_outcome \<Rightarrow> string" where
  "margin_shock_outcome_to_string WithinShockLimit = ''WithinShockLimit''"
| "margin_shock_outcome_to_string BlockedMarginShock = ''BlockedMarginShock''"
| "margin_shock_outcome_to_string BlockedUnavailableNetShort = ''BlockedUnavailableNetShort''"
| "margin_shock_outcome_to_string AllowedUnavailableBounded = ''AllowedUnavailableBounded''"

definition shock_result ::
    "margin_shock_inputs \<Rightarrow> margin_shock_outcome \<Rightarrow> bool \<Rightarrow> money \<Rightarrow> money \<Rightarrow> string \<Rightarrow> margin_shock_result" where
  "shock_result inp outcome span now_m shock_m detail = \<lparr>sr_outcome = outcome, sr_span_available = span,
     sr_margin_now = now_m, sr_margin_under_shock = shock_m, sr_available_margin = si_available_margin inp,
     sr_blocked = shock_is_blocking outcome, sr_detail = detail\<rparr>"

definition shock_available :: "margin_shock_inputs \<Rightarrow> shock_margin_model \<Rightarrow> margin_shock_result" where
  "shock_available inp mdl =
     (let now_m = sm_margin_now mdl; shock_m = sm_margin_under_shock mdl; avail = si_available_margin inp in
      if shock_m > avail \<or> now_m > avail then
        shock_result inp BlockedMarginShock True now_m shock_m
          (''SPAN shock CROSSES auto-square-off: required margin (now '' @ money_to_string now_m @ '', shocked ''
           @ money_to_string shock_m @ '') exceeds available '' @ money_to_string avail @ '' - basket BLOCKED pre-submission'')
      else
        shock_result inp WithinShockLimit True now_m shock_m
          (''SPAN shock within limit: shocked margin '' @ money_to_string shock_m @ '' fits within available ''
           @ money_to_string avail @ '' - basket allowed''))"

definition shock_unavailable :: "margin_shock_inputs \<Rightarrow> margin_shock_result" where
  "shock_unavailable inp =
     (if si_basket_is_net_short inp then
        shock_result inp BlockedUnavailableNetShort False (Money 0) (Money 0)
          ''SPAN/basket-margin unavailable on this broker; net-short basket blocked - no summed-legs fallback''
      else
        shock_result inp AllowedUnavailableBounded False (Money 0) (Money 0)
          ''SPAN unavailable; basket is not net-short (bounded risk) - allowed'')"

text \<open>The source is \<open>None\<close> when not wired in; the answer is returned with the results handed to the audit seam.\<close>

definition evaluate_margin_shock ::
    "support \<Rightarrow> margin_shock_inputs \<Rightarrow> shock_margin_model result option \<Rightarrow> bool \<Rightarrow> margin_shock_result \<times> margin_shock_result list" where
  "evaluate_margin_shock span_support inp source audit_wired =
     (let res = (case (span_support, source) of
          (Supported, Some (Inr mdl)) \<Rightarrow> shock_available inp mdl
        | _ \<Rightarrow> shock_unavailable inp)
      in (res, if audit_wired then [res] else []))"

text \<open>
  A basket is blocked exactly when a margin model is at hand and either figure exceeds the funds, or
  none is at hand and the basket is net short.  A model is at hand only from a certified, wired source
  that answered; neither broker of this program is certified for one, so on both a net-short basket is
  blocked.
\<close>

lemma margin_shock_exact:
  "sr_blocked (fst (evaluate_margin_shock spn inp source audit)) \<longleftrightarrow>
     (case source of
        Some (Inr mdl) \<Rightarrow>
          if spn = Supported then sm_margin_under_shock mdl > si_available_margin inp \<or> sm_margin_now mdl > si_available_margin inp
          else si_basket_is_net_short inp
      | _ \<Rightarrow> si_basket_is_net_short inp)"
  by (cases spn)
    (auto simp: evaluate_margin_shock_def shock_available_def shock_unavailable_def shock_result_def Let_def
      split: option.splits sum.splits)

lemma uncertified_net_short_blocked:
  assumes "si_basket_is_net_short inp"
  shows "sr_blocked (fst (evaluate_margin_shock (kite_capabilities CapMarginShockSim) inp source audit))"
    and "sr_blocked (fst (evaluate_margin_shock (kotak_capabilities CapMarginShockSim) inp source audit))"
  using assms by (simp_all add: margin_shock_exact kite_capabilities_def kotak_capabilities_def build_capabilities_def
      empty_set_of_capabilities_def split: option.splits sum.splits)

end
