(* ===== verification/Spec2Isabelle.thy ===== *)
theory Spec2Isabelle
  imports Decimal_Paise Errors Utf8 Lifecycle Intent_Log Store_Open Dispatch_Safety Unknown_Resolver Reconcile Risk Slicing Redaction Ledger_Safety Rate_Limit Modes Broker_Reason Price_Band Margin_Safety Trading_Calendar Engine Hedge_First Sliced_Leg Recovery Position_Changes Supervisor Fill_Norm Safe_Start Strategy_Book Feeds Capabilities
begin

text \<open>
  A verification library for \<^verbatim>\<open>broker_exec\<close>, the broker-neutral execution engine under \<^verbatim>\<open>src/\<close> (C++20).
  The program takes order intents from trading strategies, checks each one, sends it to a broker at
  most once, and keeps its local picture of orders and positions in step with the broker's, through
  timeouts, crashes, restarts and manual changes.  Paths below are relative to \<^verbatim>\<open>src/src/\<close> with the
  headers under \<^verbatim>\<open>src/include/broker_exec/\<close>.

  \<^bold>\<open>How the parts work together.\<close>  A strategy's intent has a \<^emph>\<open>signal signature\<close> (theory \<open>Signal\<close>), the key
  under which the program recognises the same signal again.  \<open>Engine\<close> is the composition root: it runs an
  intent through mode, posture, session, risk limits, validation gate, price band and margin buffer.
  What passes goes to the \<open>Dispatcher\<close>, the only path on which the broker is changed: it reserves a
  reference for the signature (\<open>Idempotency\<close>), makes the intent durable in a hash-chained log
  (\<open>Intent_Log\<close>), sends, and records the outcome in the log and in a SQLite projection (\<open>Store\<close>).  An answer
  that never came leaves the order \<open>Unknown\<close>; \<open>Unknown_Resolver\<close> pauses entries and resolves it against the
  broker's list.  \<open>Reconcile\<close> folds the broker's snapshots into the local orders through the order state
  machine (\<open>Lifecycle\<close>).  After a crash the index is rebuilt from the log (\<open>Dispatch_Safety\<close>) and
  \<open>Recovery\<close> decides whether trading may resume, behind the gate of \<open>Safe_Start\<close>; \<open>Supervisor\<close> decides
  whether the process is started again at all.

  \<^bold>\<open>Theories, bottom up.\<close>
  \<^item> Shared: \<open>Prelude\<close> (C++ integers, \<^verbatim>\<open>std::to_string\<close>, byte strings, list lemmas), \<open>Errors\<close>
    (\<^verbatim>\<open>errors/error.cpp\<close>; \<^verbatim>\<open>Result<T>\<close> is \<open>error + 'a\<close>), \<open>Money\<close>, \<open>Decimal_Paise\<close>, \<open>Domain_Types\<close>, \<open>Utf8\<close>
    (\<^verbatim>\<open>domain/\<close>), \<open>Sha256\<close> (\<^verbatim>\<open>intentlog/sha256.cpp\<close>), \<open>Civil_Date\<close> (what is used of \<^verbatim>\<open>std::chrono\<close>), \<open>Json\<close>
    (the JSON package as a parameter, with a concrete codec), \<open>Ports\<close> (\<^verbatim>\<open>ports/\<close>).
  \<^item> Identity and durability: \<open>Signal\<close> and \<open>Idempotency\<close> (\<^verbatim>\<open>idempotency/\<close>), \<open>Hash_Chain\<close> (the interface the two
    logs share), \<open>Intent_Log\<close> (\<^verbatim>\<open>intentlog/intent_log.cpp\<close>), \<open>Store\<close> and \<open>Store_Open\<close>
    (\<^verbatim>\<open>store/store.cpp\<close>), \<open>Ledger\<close> and \<open>Ledger_Safety\<close> (\<^verbatim>\<open>ledger/ledger.cpp\<close>).
  \<^item> Orders: \<open>Lifecycle\<close> (\<^verbatim>\<open>lifecycle/lifecycle.cpp\<close>), \<open>Dispatcher\<close> and \<open>Dispatch_Safety\<close>
    (\<^verbatim>\<open>runtime/dispatcher.cpp\<close>), \<open>Unknown_Resolver\<close> (\<^verbatim>\<open>runtime/unknown_*.cpp\<close>), \<open>Reconcile\<close>, \<open>Recovery\<close>,
    \<open>Position_Changes\<close> (\<^verbatim>\<open>reconcile/\<close>), \<open>Fill_Norm\<close> (\<^verbatim>\<open>fillnorm/\<close>).
  \<^item> Checks before an order: \<open>Risk\<close> (\<^verbatim>\<open>risk/\<close>), \<open>Slicing\<close> (\<^verbatim>\<open>slicing/\<close>), \<open>Rate_Limit\<close> (\<^verbatim>\<open>ratelimit/\<close>), \<open>Modes\<close>
    (\<^verbatim>\<open>modes/\<close>), \<open>Broker_Reason\<close> (\<^verbatim>\<open>brokerreason/\<close>, \<^verbatim>\<open>sessionguard/\<close>), \<open>Price_Band\<close> (\<^verbatim>\<open>priceband/\<close>,
    \<^verbatim>\<open>protection/\<close>), \<open>Margin_Safety\<close> (\<^verbatim>\<open>marginsafety/\<close>, \<^verbatim>\<open>modifyguard/\<close>), \<open>Trading_Calendar\<close>
    (\<^verbatim>\<open>refdata/trading_calendar.cpp\<close>), \<open>Engine\<close> (\<^verbatim>\<open>composition/engine_assembly.cpp\<close>).
  \<^item> Orders of several legs: \<open>Basket\<close>, \<open>Hedge_First\<close>, \<open>Sliced_Leg\<close> (\<^verbatim>\<open>options/\<close>).
  \<^item> Around the process: \<open>Redaction\<close> (\<^verbatim>\<open>domain/redaction.cpp\<close>), \<open>Safe_Start\<close> (\<^verbatim>\<open>session/safe_start.cpp\<close>),
    \<open>Supervisor\<close> (\<^verbatim>\<open>supervisor/\<close>).
  \<^item> Strategies and feeds: \<open>Keyed_State\<close> (ordered maps and the contract of a table whose events touch single
    keys), \<open>Strategy_Book\<close> (\<^verbatim>\<open>isolation/\<close>), \<open>Feeds\<close> (\<^verbatim>\<open>marketdata/\<close>, \<^verbatim>\<open>feedsub/\<close>, \<^verbatim>\<open>health/\<close>,
    \<^verbatim>\<open>clock/skew_stall_detector.cpp\<close>), \<open>Capabilities\<close> (\<^verbatim>\<open>capabilities/\<close>, \<^verbatim>\<open>options/margin_shock.cpp\<close>).

  \<^bold>\<open>How state and operations correspond.\<close>  A class is a record of its members and each member function a
  definition that takes the record and returns it updated with the result.  An enum is a datatype with
  the source's enumerators, a struct a record whose fields carry a short prefix, \<^verbatim>\<open>std::optional\<close> and a
  possibly empty \<^verbatim>\<open>std::function\<close> an option.  What the code reads from outside (clock, random bits, broker,
  disk, SQLite, OpenSSL, operator) is an argument of the operation, so the theorems quantify over every
  answer and every failure.  Alerts sent are part of the result.  Where the order of calls matters
  (\<open>Dispatcher\<close>, \<open>Basket\<close>, \<open>Hedge_First\<close>, \<open>Sliced_Leg\<close>) the operation also returns the trace of its calls.

  \<^bold>\<open>What the lemmas show.\<close>
  \<^item> \<open>Dispatcher\<close>, \<open>Dispatch_Safety\<close>: at most one send per signature, over any run and across a restart; the
    record precedes the send; a failed record is resumed; which stored state each answer leads to.
  \<^item> \<open>Intent_Log\<close>, \<open>Ledger_Safety\<close>: nothing acknowledged is lost over crashes, failed
    writes and restarts, provided that a reopened log is read in full and its repair succeeds (\<open>good_io\<close>;
    a short read does erase records, \<open>short_read_erases_durable_record\<close>); a rewrite of history is
    detected, or a SHA-256 collision is at hand.
  \<^item> \<open>Store\<close>: the invariant of the six tables, and a refinement of keyed upserts to maps.
  \<^item> \<open>Lifecycle\<close>, \<open>Reconcile\<close>, \<open>Unknown_Resolver\<close>, \<open>Recovery\<close>, \<open>Position_Changes\<close>: terminal orders absorb,
    states move forward only, every disagreement is escalated, trading resumes on broker truth only,
    every unknown order is answered with its own row, store entry and alert, a position the broker's
    first row of its symbol shows flat is not exited again.
  \<^item> \<open>Engine\<close>, \<open>Risk\<close>, \<open>Price_Band\<close>, \<open>Margin_Safety\<close>, \<open>Modes\<close>, \<open>Rate_Limit\<close>, \<open>Trading_Calendar\<close>, \<open>Safe_Start\<close>:
    what an admission or a refusal amounts to, and that each check fails closed.
  \<^item> \<open>Basket\<close>, \<open>Hedge_First\<close>, \<open>Sliced_Leg\<close>: a dependent leg is never sent without its prerequisites, a short never
    without its confirmed hedge, nothing after a child in doubt but the alert that names it.
  \<^item> \<open>Strategy_Book\<close>: strategies on one account do not interfere, and each position balances against the cash
    of its fills.  \<open>Feeds\<close>: exactly when a symbol or a token may be traded, over any sequence of ticks,
    reconnects and subscriptions.  \<open>Capabilities\<close>: what is not certified is refused.
  \<^item> \<open>Utf8\<close>, \<open>Decimal_Paise\<close>, \<open>Slicing\<close>, \<open>Redaction\<close>, \<open>Broker_Reason\<close>, \<open>Fill_Norm\<close>: exact specifications of the
    text and number routines; what can and cannot stand in scrubbed text.

  \<^bold>\<open>Interfaces.\<close>  \<open>hash_chain\<close> is interpreted by the intent log and the ledger, \<open>keyed_table\<close> by the
  three keyed tables of the store, \<open>first_writer_map\<close> by the signature index, \<open>keyed_state\<close> by the
  strategies' fills, the symbols' ticks and the tokens of the resubscription guard.

  \<^bold>\<open>Bounds and fuel.\<close>  The padding loop of SHA-256 has 64 units of fuel, shown to suffice; the queue loop of
  the basket's sort is a \<open>partial_function\<close> shown to return on every input; every other loop is a
  structural recursion or has a measure.  Arithmetic the source does on purpose at its width (tick rounding,
  hashing, saturating sums) is on words or written with its clamps; other signed 64-bit values are
  unbounded integers, their overflow being undefined behaviour in the source, and theorems that depend
  on the width say so by \<open>in_i64\<close>.

  \<^bold>\<open>What is not modelled.\<close>  The HTTP and websocket adapters, configuration and command line parsing,
  sockets, operating-system locks and permissions, alert delivery and log formatting: they
  perform input and output over third-party libraries and meet the modelled parts only as the answers
  above.  Exceptions thrown by an injected callable are not modelled.  Each of these
  parts is listed with its reason in \<^verbatim>\<open>PROJECT.json\<close>.
\<close>

end
